(* ===== verification/Nvol_Prelude.thy ===== *)
theory Nvol_Prelude
  imports Main "HOL-Library.Word" "HOL-Library.Monad_Syntax"
begin

unbundle bit_operations_syntax

text \<open>
  Shared vocabulary of the development: the fixed-width integer types of the C code, its
  status codes (\<^verbatim>\<open>src/common/errordef.h\<close>), the little-endian layout of 16- and
  32-bit fields, and buffers with explicit bounds.

  A C function that may have no defined result is modelled with an \<open>option\<close> result:
  \<open>None\<close> stands for undefined behaviour (a read or write outside an object, a dangling or
  null pointer, an indeterminate value used, a division by zero), for a failed
  \<^verbatim>\<open>assert\<close>, and for a loop that does not end; \<open>Some\<close> carries what the function
  returns and the state it leaves.  Error returns of the code are ordinary results, the
  negative status codes below.
\<close>

section \<open>Machine integers and status codes\<close>

type_synonym u8 = "8 word"
type_synonym u16 = "16 word"
type_synonym u32 = "32 word"
type_synonym u64 = "64 word"

type_synonym status = int

definition CORAL_ERROR :: status where [simp]: "CORAL_ERROR = - 4300"
definition EOK :: status where [simp]: "EOK = 0"
definition EFAIL :: status where [simp]: "EFAIL = - 1"
definition E_INVALID :: status where [simp]: "E_INVALID = CORAL_ERROR - 2"
definition E_PARM :: status where [simp]: "E_PARM = CORAL_ERROR - 3"
definition E_EMPTY :: status where [simp]: "E_EMPTY = CORAL_ERROR - 5"
definition E_NOMEM :: status where [simp]: "E_NOMEM = CORAL_ERROR - 9"
definition E_INVAL :: status where [simp]: "E_INVAL = CORAL_ERROR - 11"
definition E_TIMEOUT :: status where [simp]: "E_TIMEOUT = CORAL_ERROR - 12"
definition E_UNEXP :: status where [simp]: "E_UNEXP = CORAL_ERROR - 14"
definition E_NOTFOUND :: status where [simp]: "E_NOTFOUND = CORAL_ERROR - 17"
definition E_EOF :: status where [simp]: "E_EOF = CORAL_ERROR - 18"
definition E_VERSION :: status where [simp]: "E_VERSION = CORAL_ERROR - 22"
definition E_UNKNOWN :: status where [simp]: "E_UNKNOWN = CORAL_ERROR - 63"

section \<open>Little-endian fields\<close>

named_theorems layout_simps
named_theorems unat_simps

definition le16 :: "u16 \<Rightarrow> u8 list" where
  "le16 w = [ucast w, ucast (drop_bit 8 w)]"

fun rd16 :: "u8 list \<Rightarrow> u16" where
  "rd16 (a # b # _) = ucast a OR push_bit 8 (ucast b)"
| "rd16 _ = 0"

definition le32 :: "u32 \<Rightarrow> u8 list" where
  "le32 w = [ucast w, ucast (drop_bit 8 w), ucast (drop_bit 16 w), ucast (drop_bit 24 w)]"

fun rd32 :: "u8 list \<Rightarrow> u32" where
  "rd32 (a # b # c # d # _) =
     ucast a OR push_bit 8 (ucast b) OR push_bit 16 (ucast c) OR push_bit 24 (ucast d)"
| "rd32 _ = 0"

lemma length_le16 [simp, layout_simps]: "length (le16 w) = 2"
  by (simp add: le16_def)

lemma length_le32 [simp, layout_simps]: "length (le32 w) = 4"
  by (simp add: le32_def)

lemma less_8_cases: "(n::nat) < 16 \<Longrightarrow> \<not> n < 8 \<Longrightarrow> n - 8 < 8"
  by arith

lemma rd16_le16 [simp, layout_simps]: "rd16 (le16 w @ bs) = w"
  by (rule bit_word_eqI)
     (auto simp: le16_def bit_or_iff bit_push_bit_iff bit_ucast_iff bit_drop_bit_eq)

lemma rd32_le32 [simp, layout_simps]: "rd32 (le32 w @ bs) = w"
proof (rule bit_word_eqI)
  fix n assume "n < LENGTH(32)"
  then have n: "n < 32" by simp
  consider "n < 8" | "8 \<le> n" "n < 16" | "16 \<le> n" "n < 24" | "24 \<le> n"
    by linarith
  then show "bit (rd32 (le32 w @ bs)) n = bit w n"
    using n
    by cases (auto simp: le32_def bit_or_iff bit_push_bit_iff bit_ucast_iff bit_drop_bit_eq)
qed

lemma rd16_le16_Nil [simp]: "rd16 (le16 w) = w"
  using rd16_le16 [of w "[]"] by simp

lemma rd32_le32_Nil [simp]: "rd32 (le32 w) = w"
  using rd32_le32 [of w "[]"] by simp

text \<open>A program operation on flash clears bits: it stores the AND of old and new bytes.\<close>

lemma rd16_AND:
  "rd16 [a AND a', b AND b'] = rd16 [a, b] AND rd16 [a', b']"
  by (rule bit_word_eqI)
     (auto simp: bit_or_iff bit_and_iff bit_push_bit_iff bit_ucast_iff dest: bit_imp_le_length)

lemma rd16_take2: "2 \<le> length bs \<Longrightarrow> rd16 (take 2 bs) = rd16 bs"
  by (cases bs; cases "tl bs") (auto simp: numeral_2_eq_2)

section \<open>Buffers with bounds\<close>

text \<open>
  A C object of \<open>length buf\<close> bytes: writing \<open>bs\<close> at offset \<open>off\<close> is defined only inside it.
\<close>

definition buf_write :: "u8 list \<Rightarrow> nat \<Rightarrow> u8 list \<Rightarrow> u8 list option" where
  "buf_write buf off bs =
     (if off + length bs \<le> length buf
      then Some (take off buf @ bs @ drop (off + length bs) buf) else None)"

definition buf_read :: "u8 list \<Rightarrow> nat \<Rightarrow> nat \<Rightarrow> u8 list option" where
  "buf_read buf off n = (if off + n \<le> length buf then Some (take n (drop off buf)) else None)"

lemma length_buf_write: "buf_write buf off bs = Some b \<Longrightarrow> length b = length buf"
  by (auto simp: buf_write_def split: if_splits)

lemma buf_write_Some:
  "off + length bs \<le> length buf \<Longrightarrow>
   buf_write buf off bs = Some (take off buf @ bs @ drop (off + length bs) buf)"
  by (simp add: buf_write_def)

lemma buf_read_Some: "off + n \<le> length buf \<Longrightarrow> buf_read buf off n = Some (take n (drop off buf))"
  by (simp add: buf_read_def)

lemma buf_read_write_same:
  "buf_write buf off bs = Some b \<Longrightarrow> buf_read b off (length bs) = Some bs"
  by (auto simp: buf_write_def buf_read_def split: if_splits)

text \<open>The bytes of a C string up to its terminator; none if the buffer holds no terminator.\<close>

definition cstr :: "u8 list \<Rightarrow> u8 list option" where
  "cstr buf = (if 0 \<in> set buf then Some (takeWhile (\<lambda>c. c \<noteq> 0) buf) else None)"

lemma cstr_terminated: "0 \<notin> set s \<Longrightarrow> cstr (s @ 0 # r) = Some s"
proof -
  assume "0 \<notin> set s"
  then have "takeWhile (\<lambda>c. c \<noteq> 0) (s @ 0 # r) = s"
    by (induction s) auto
  then show ?thesis by (simp add: cstr_def)
qed

section \<open>Lists and words\<close>

lemma map_upt_eq_iff:
  "map f [a..<b] = map g [a..<b] \<longleftrightarrow> (\<forall>x. a \<le> x \<and> x < b \<longrightarrow> f x = g x)"
  by auto

lemma map_nth_upt_shift:
  "a \<le> length xs \<Longrightarrow> length xs = n \<Longrightarrow> map (\<lambda>x. xs ! (x - b)) [b..<b + n] = xs"
  by (rule nth_equalityI) auto

lemma take_upt_min: "take n [a..<b] = [a..<min (a + n) b]"
  by (rule nth_equalityI) (auto simp: min_def)

lemma take_map_upt: "take n (map f [a..<b]) = map f [a..<min (a + n) b]"
  by (simp add: take_map take_upt_min)

lemma drop_map_upt: "drop n (map f [a..<b]) = map f [a + n..<b]"
  by (rule nth_equalityI) (auto simp: algebra_simps)

lemma AND_all_ones [simp]: "(- 1 :: 'a::len word) AND w = w" "w AND (- 1) = w"
  by simp_all

lemma u8_FF: "(0xFF :: u8) = - 1"
  by simp

lemma unat_add_lt:
  fixes a b :: "'a::len word"
  assumes "unat a + unat b < 2 ^ LENGTH('a)"
  shows "unat (a + b) = unat a + unat b"
  using assms by (simp add: unat_word_ariths)

lemma unat_mult_lt:
  fixes a b :: "'a::len word"
  assumes "unat a * unat b < 2 ^ LENGTH('a)"
  shows "unat (a * b) = unat a * unat b"
  using assms by (simp add: unat_word_ariths)

lemma unat_u16_lt [simp]: "unat (w :: u16) < 65536"
  using unsigned_less [of w] by simp

lemma unat_u8_lt [simp]: "unat (w :: u8) < 256"
  using unsigned_less [of w] by simp

lemma unat_u32_lt [simp]: "unat (w :: u32) < 4294967296"
  using unsigned_less [of w] by simp

lemma unat_ucast_u16_u32 [simp, unat_simps]: "unat (ucast (w :: u16) :: u32) = unat w"
  by (simp add: unsigned_ucast_eq take_bit_nat_eq_self_iff order.strict_trans [OF unat_u16_lt])

lemma unat_ucast_u8_u16 [simp, unat_simps]: "unat (ucast (w :: u8) :: u16) = unat w"
  by (simp add: unsigned_ucast_eq take_bit_nat_eq_self_iff order.strict_trans [OF unat_u8_lt])

lemma unat_ucast_u16_u64 [simp, unat_simps]: "unat (ucast (w :: u16) :: u64) = unat w"
  by (simp add: unsigned_ucast_eq take_bit_nat_eq_self_iff order.strict_trans [OF unat_u16_lt])

lemma unat_ucast_u32_u64 [simp, unat_simps]: "unat (ucast (w :: u32) :: u64) = unat w"
  by (simp add: unsigned_ucast_eq take_bit_nat_eq_self_iff order.strict_trans [OF unat_u32_lt])

lemma unat_ucast_u32_u16 [unat_simps]:
  "unat (w :: u32) < 65536 \<Longrightarrow> unat (ucast w :: u16) = unat w"
  by (simp add: unsigned_ucast_eq take_bit_nat_eq_self_iff)

lemma ucast_u16_u32_u16 [simp]: "ucast (ucast (w :: u16) :: u32) = w"
  by (rule bit_word_eqI) (auto simp: bit_ucast_iff)

lemma unat_of_nat_u32 [unat_simps]: "n < 2 ^ 32 \<Longrightarrow> unat (of_nat n :: u32) = n"
  by (simp add: unsigned_of_nat take_bit_nat_eq_self)

lemma unat_of_nat_u16 [unat_simps]: "n < 2 ^ 16 \<Longrightarrow> unat (of_nat n :: u16) = n"
  by (simp add: unsigned_of_nat take_bit_nat_eq_self)

lemma unat_Suc_u16 [unat_simps]:
  "unat (w :: u16) < 65535 \<Longrightarrow> unat (w + 1) = Suc (unat w)"
  by (simp add: unat_word_ariths)

end
