(* ===== verification/Heap_Alloc.thy ===== *)
theory Heap_Alloc
  imports Nvol_Prelude
begin

text \<open>
  The allocator of \<^verbatim>\<open>src/common/heap.c\<close>: thin wrappers around the C library's
  \<^verbatim>\<open>malloc\<close> and \<^verbatim>\<open>free\<close>.  The library decides whether a request succeeds and what
  fresh memory contains, so both are part of the state: \<open>allocs\<close> lists the outcomes of the
  coming requests (requests after the end of the list succeed), \<open>junk a i\<close> is the
  indeterminate byte \<open>i\<close> of the object allocated at \<open>a\<close>.  Every successful request yields a
  new object identity \<open>next_addr\<close>; identities are never reused, so that a pointer to a freed
  object never denotes a later one.
\<close>

record heap =
  allocs :: "bool list"
  junk :: "nat \<Rightarrow> nat \<Rightarrow> u8"
  next_addr :: nat

definition heap_malloc :: "heap \<Rightarrow> u32 \<Rightarrow> nat option \<times> heap" where
  "heap_malloc h bytes =
     (case allocs h of
        [] \<Rightarrow> (Some (next_addr h), h\<lparr>next_addr := Suc (next_addr h)\<rparr>)
      | ok # rest \<Rightarrow>
          (if ok then (Some (next_addr h), h\<lparr>allocs := rest, next_addr := Suc (next_addr h)\<rparr>)
           else (None, h\<lparr>allocs := rest\<rparr>)))"

definition heap_free :: "heap \<Rightarrow> nat \<Rightarrow> heap" where
  "heap_free h mem = h"

definition fresh_bytes :: "heap \<Rightarrow> nat \<Rightarrow> nat \<Rightarrow> u8 list" where
  "fresh_bytes h a n = map (junk h a) [0..<n]"

definition plenty :: "heap \<Rightarrow> bool" where
  "plenty h \<longleftrightarrow> allocs h = []"

lemma length_fresh_bytes [simp]: "length (fresh_bytes h a n) = n"
  by (simp add: fresh_bytes_def)

lemma heap_free_id [simp]: "heap_free h a = h"
  by (simp add: heap_free_def)

lemma heap_malloc_plenty:
  "plenty h \<Longrightarrow>
   heap_malloc h n = (Some (next_addr h), h\<lparr>next_addr := Suc (next_addr h)\<rparr>)"
  by (simp add: plenty_def heap_malloc_def)

lemma plenty_next_addr [simp]: "plenty (h\<lparr>next_addr := a\<rparr>) = plenty h"
  by (simp add: plenty_def)

lemma heap_malloc_junk: "heap_malloc h n = (r, h') \<Longrightarrow> junk h' = junk h"
  by (auto simp: heap_malloc_def split: list.splits if_splits)

lemma heap_malloc_next: "heap_malloc h n = (r, h') \<Longrightarrow> next_addr h \<le> next_addr h'"
  by (auto simp: heap_malloc_def split: list.splits if_splits)

lemma heap_malloc_fresh:
  "heap_malloc h n = (Some a, h') \<Longrightarrow> a = next_addr h \<and> next_addr h' = Suc (next_addr h)"
  by (auto simp: heap_malloc_def split: list.splits if_splits)

end
