(* ===== verification/Dictionary.thy ===== *)
theory Dictionary
  imports Heap_Alloc
begin

text \<open>
  The hash table of \<^verbatim>\<open>src/common/dictionary.c\<close>: chained buckets of nodes, four kinds of
  keys selected by the key specification.  A chain is the list of its nodes in link order; a
  node keeps its identity (the address of the \<^verbatim>\<open>struct dlist\<close>), the bytes of its key and
  the bytes of its value area.  \<open>Dict_Map\<close> shows that the table implements a finite map, by an
  interpretation of the contract \<open>key_map\<close> on which the volume code relies.
\<close>

unbundle bit_operations_syntax

section \<open>Key specifications\<close>

datatype keytype = KeyString | KeyConstString | KeyUshort | KeyBinary

definition DICTIONARY_MKKEY :: "u32 \<Rightarrow> u32 \<Rightarrow> u32" where
  "DICTIONARY_MKKEY keytype spec = push_bit 16 keytype OR spec"

definition DICTIONARY_KEYSPEC_STRING :: u32 where
  "DICTIONARY_KEYSPEC_STRING = DICTIONARY_MKKEY 0 0"
definition DICTIONARY_KEYSPEC_CONST_STRING :: u32 where
  "DICTIONARY_KEYSPEC_CONST_STRING = DICTIONARY_MKKEY 1 0"
definition DICTIONARY_KEYSPEC_USHORT :: u32 where
  "DICTIONARY_KEYSPEC_USHORT = DICTIONARY_MKKEY 3 0"
definition DICTIONARY_KEYSPEC_UINT :: u32 where
  "DICTIONARY_KEYSPEC_UINT = DICTIONARY_MKKEY 4 1"
definition DICTIONARY_KEYSPEC_BINARY :: "u32 \<Rightarrow> u32" where
  "DICTIONARY_KEYSPEC_BINARY n = DICTIONARY_MKKEY 4 n"

lemmas keyspec_defs = DICTIONARY_MKKEY_def DICTIONARY_KEYSPEC_STRING_def
  DICTIONARY_KEYSPEC_CONST_STRING_def DICTIONARY_KEYSPEC_USHORT_def DICTIONARY_KEYSPEC_UINT_def
  DICTIONARY_KEYSPEC_BINARY_def

definition dict_keytype :: "u32 \<Rightarrow> keytype" where
  "dict_keytype keyspec =
     (if drop_bit 16 keyspec = 4 then KeyBinary
      else if keyspec = DICTIONARY_KEYSPEC_USHORT then KeyUshort
      else if keyspec = DICTIONARY_KEYSPEC_CONST_STRING then KeyConstString
      else KeyString)"

definition DICTIONARY_KEY_SIZE :: "u32 \<Rightarrow> nat" where
  "DICTIONARY_KEY_SIZE keyspec = unat (keyspec AND 0xFFFF)"

text \<open>
  A key argument is a pointer; \<open>dict_key_at\<close> is the key that the operations read through it,
  out of the bytes that are readable there.
\<close>

definition dict_key_at :: "u32 \<Rightarrow> u8 list \<Rightarrow> u8 list option" where
  "dict_key_at keyspec p =
     (case dict_keytype keyspec of
        KeyString \<Rightarrow> cstr p
      | KeyConstString \<Rightarrow> cstr p
      | KeyUshort \<Rightarrow> buf_read p 0 2
      | KeyBinary \<Rightarrow> buf_read p 0 (4 * DICTIONARY_KEY_SIZE keyspec))"

section \<open>Nodes and tables\<close>

record dnode =
  naddr :: nat
  nkey :: "u8 list"
  nval :: "u8 list"

record dictionary =
  d_hashsize :: u32
  d_keyspec :: u32
  d_count :: u32
  hashtab :: "dnode list list"

text \<open>Hash functions; \<^verbatim>\<open>char\<close> is signed.\<close>

definition dictionary_str_key_hash :: "dictionary \<Rightarrow> u8 list \<Rightarrow> u32" where
  "dictionary_str_key_hash d s = foldl (\<lambda>hashval c. scast c + 31 * hashval) 0 s mod d_hashsize d"

definition dictionary_ushort_key_hash :: "dictionary \<Rightarrow> u8 list \<Rightarrow> u32" where
  "dictionary_ushort_key_hash d s = ucast (rd16 s) mod d_hashsize d"

fun sum_words :: "nat \<Rightarrow> u8 list \<Rightarrow> u32 \<Rightarrow> u32" where
  "sum_words 0 p hash = hash"
| "sum_words (Suc n) p hash = sum_words n (drop 4 p) (hash + rd32 p)"

definition dictionary_binary_key_hash :: "dictionary \<Rightarrow> u8 list \<Rightarrow> u32" where
  "dictionary_binary_key_hash d s =
     sum_words (DICTIONARY_KEY_SIZE (d_keyspec d)) s 0 mod d_hashsize d"

definition dict_hash :: "dictionary \<Rightarrow> u8 list \<Rightarrow> u32" where
  "dict_hash d key =
     (case dict_keytype (d_keyspec d) of
        KeyString \<Rightarrow> dictionary_str_key_hash d key
      | KeyConstString \<Rightarrow> dictionary_str_key_hash d key
      | KeyUshort \<Rightarrow> dictionary_ushort_key_hash d key
      | KeyBinary \<Rightarrow> dictionary_binary_key_hash d key)"

text \<open>Key comparison, 1 for equal as in the code.\<close>

definition dictionary_str_key_cmp :: "u8 list \<Rightarrow> u8 list \<Rightarrow> bool" where
  "dictionary_str_key_cmp p s \<longleftrightarrow> s = p"

definition dictionary_ushort_key_cmp :: "u8 list \<Rightarrow> u8 list \<Rightarrow> bool" where
  "dictionary_ushort_key_cmp p s \<longleftrightarrow> rd16 p = rd16 s"

fun dictionary_binary_key_cmp :: "nat \<Rightarrow> u8 list \<Rightarrow> u8 list \<Rightarrow> bool" where
  "dictionary_binary_key_cmp 0 p s = True"
| "dictionary_binary_key_cmp (Suc n) p s =
     (if rd32 s \<noteq> rd32 p then False
      else dictionary_binary_key_cmp n (drop 4 p) (drop 4 s))"

definition dict_cmp :: "dictionary \<Rightarrow> dnode \<Rightarrow> u8 list \<Rightarrow> bool" where
  "dict_cmp d np s =
     (case dict_keytype (d_keyspec d) of
        KeyString \<Rightarrow> dictionary_str_key_cmp (nkey np) s
      | KeyConstString \<Rightarrow> dictionary_str_key_cmp (nkey np) s
      | KeyUshort \<Rightarrow> dictionary_ushort_key_cmp (nkey np) s
      | KeyBinary \<Rightarrow>
          dictionary_binary_key_cmp (DICTIONARY_KEY_SIZE (d_keyspec d)) (nkey np) s)"

text \<open>
  Allocation of a node.  The string kind copies the key into a second object; the constant
  string kind keeps the caller's pointer, whose bytes the caller promises not to change.
\<close>

definition SIZEOF_DLIST :: u32 where "SIZEOF_DLIST = 8"
definition SIZEOF_UINTPTR :: u32 where "SIZEOF_UINTPTR = 8"
definition SIZEOF_DICTIONARY :: u32 where "SIZEOF_DICTIONARY = 24"

definition new_node :: "heap \<Rightarrow> nat \<Rightarrow> u8 list \<Rightarrow> u32 \<Rightarrow> dnode" where
  "new_node h a key valuesize =
     \<lparr>naddr = a, nkey = key, nval = fresh_bytes h a (unat valuesize)\<rparr>"

definition dictionary_str_keyval_alloc :: "u8 list \<Rightarrow> u32 \<Rightarrow> heap \<Rightarrow> dnode option \<times> heap" where
  "dictionary_str_keyval_alloc key valuesize h =
     (case heap_malloc h (SIZEOF_DLIST + SIZEOF_UINTPTR + valuesize) of
        (None, h1) \<Rightarrow> (None, h1)
      | (Some a, h1) \<Rightarrow>
          (case heap_malloc h1 (of_nat (length key) + 1) of
             (None, h2) \<Rightarrow> (None, heap_free h2 a)
           | (Some p, h2) \<Rightarrow> (Some (new_node h a key valuesize), h2)))"

definition dictionary_node_alloc :: "u32 \<Rightarrow> u8 list \<Rightarrow> u32 \<Rightarrow> heap \<Rightarrow> dnode option \<times> heap" where
  "dictionary_node_alloc keybytes key valuesize h =
     (case heap_malloc h (SIZEOF_DLIST + keybytes + valuesize) of
        (None, h1) \<Rightarrow> (None, h1)
      | (Some a, h1) \<Rightarrow> (Some (new_node h a key valuesize), h1))"

definition dictionary_const_str_keyval_alloc ::
  "u8 list \<Rightarrow> u32 \<Rightarrow> heap \<Rightarrow> dnode option \<times> heap" where
  "dictionary_const_str_keyval_alloc key valuesize h =
     dictionary_node_alloc SIZEOF_UINTPTR key valuesize h"

definition dictionary_ushort_keyval_alloc ::
  "u8 list \<Rightarrow> u32 \<Rightarrow> heap \<Rightarrow> dnode option \<times> heap" where
  "dictionary_ushort_keyval_alloc key valuesize h = dictionary_node_alloc 4 key valuesize h"

definition dictionary_binary_keyval_alloc ::
  "dictionary \<Rightarrow> u8 list \<Rightarrow> u32 \<Rightarrow> heap \<Rightarrow> dnode option \<times> heap" where
  "dictionary_binary_keyval_alloc d key valuesize h =
     dictionary_node_alloc (4 * (d_keyspec d AND 0xFFFF)) key valuesize h"

lemmas keyval_alloc_defs = dictionary_str_keyval_alloc_def dictionary_node_alloc_def
  dictionary_const_str_keyval_alloc_def dictionary_ushort_keyval_alloc_def
  dictionary_binary_keyval_alloc_def

definition dict_alloc :: "dictionary \<Rightarrow> u8 list \<Rightarrow> u32 \<Rightarrow> heap \<Rightarrow> dnode option \<times> heap" where
  "dict_alloc d key valuesize h =
     (case dict_keytype (d_keyspec d) of
        KeyString \<Rightarrow> dictionary_str_keyval_alloc key valuesize h
      | KeyConstString \<Rightarrow> dictionary_const_str_keyval_alloc key valuesize h
      | KeyUshort \<Rightarrow> dictionary_ushort_keyval_alloc key valuesize h
      | KeyBinary \<Rightarrow> dictionary_binary_keyval_alloc d key valuesize h)"

section \<open>Operations\<close>

fun chain_find :: "(dnode \<Rightarrow> bool) \<Rightarrow> dnode list \<Rightarrow> dnode option" where
  "chain_find p [] = None"
| "chain_find p (np # ns) = (if p np then Some np else chain_find p ns)"

fun chain_remove :: "(dnode \<Rightarrow> bool) \<Rightarrow> dnode list \<Rightarrow> dnode option \<times> dnode list" where
  "chain_remove p [] = (None, [])"
| "chain_remove p (np # ns) =
     (if p np then (Some np, ns)
      else (case chain_remove p ns of (r, ns') \<Rightarrow> (r, np # ns')))"

definition bucket :: "dictionary \<Rightarrow> u32 \<Rightarrow> dnode list" where
  "bucket d hashval = hashtab d ! unat hashval"

definition set_bucket :: "dictionary \<Rightarrow> u32 \<Rightarrow> dnode list \<Rightarrow> dictionary" where
  "set_bucket d hashval ns = d\<lparr>hashtab := (hashtab d)[unat hashval := ns]\<rparr>"

definition dict_remove :: "dictionary \<Rightarrow> u8 list \<Rightarrow> dnode option \<times> dictionary" where
  "dict_remove d s =
     (let hashval = dict_hash d s in
      case chain_remove (\<lambda>np. dict_cmp d np s) (bucket d hashval) of
        (None, _) \<Rightarrow> (None, d)
      | (Some np, ns) \<Rightarrow> (Some np, (set_bucket d hashval ns)\<lparr>d_count := d_count d - 1\<rparr>))"

definition dict_lookup :: "dictionary \<Rightarrow> u8 list \<Rightarrow> dnode option" where
  "dict_lookup d key = chain_find (\<lambda>np. dict_cmp d np key) (bucket d (dict_hash d key))"

definition dictionary_init :: "heap \<Rightarrow> u32 \<Rightarrow> u32 \<Rightarrow> dictionary option \<times> heap" where
  "dictionary_init h keyspec hashsize =
     (case heap_malloc h (SIZEOF_DICTIONARY + SIZEOF_UINTPTR * hashsize) of
        (None, h1) \<Rightarrow> (None, h1)
      | (Some a, h1) \<Rightarrow>
          (Some \<lparr>d_hashsize = hashsize, d_keyspec = keyspec, d_count = 0,
                 hashtab = replicate (unat hashsize) []\<rparr>, h1))"

definition dict_push :: "dictionary \<Rightarrow> u8 list \<Rightarrow> dnode \<Rightarrow> dictionary" where
  "dict_push d key np =
     (let hashval = dict_hash d key in
      (set_bucket d hashval (np # bucket d hashval))\<lparr>d_count := d_count d + 1\<rparr>)"

definition dictionary_install_size ::
  "dictionary \<Rightarrow> u8 list \<Rightarrow> u32 \<Rightarrow> heap \<Rightarrow> dnode option \<times> dictionary \<times> heap" where
  "dictionary_install_size d key valuesize h =
     (case dict_lookup d key of
        Some np \<Rightarrow> (Some np, d, h)
      | None \<Rightarrow>
          (case dict_alloc d key valuesize h of
             (None, h1) \<Rightarrow> (None, d, h1)
           | (Some np, h1) \<Rightarrow> (Some np, dict_push d key np, h1)))"

definition dictionary_get :: "dictionary \<Rightarrow> u8 list \<Rightarrow> dnode option" where
  "dictionary_get d key = dict_lookup d key"

definition dictionary_remove :: "dictionary \<Rightarrow> u8 list \<Rightarrow> u32 \<times> dictionary" where
  "dictionary_remove d key =
     (case dict_remove d key of (None, d1) \<Rightarrow> (0, d1) | (Some np, d1) \<Rightarrow> (1, d1))"

text \<open>
  \<^verbatim>\<open>dictionary_remove_all\<close> empties bucket after bucket, calling the optional callback on
  each node before it is freed.
\<close>

fun drain_bucket :: "('s \<Rightarrow> dnode \<Rightarrow> 's) option \<Rightarrow> dnode list \<Rightarrow> u32 \<times> 's \<Rightarrow> u32 \<times> 's" where
  "drain_bucket cb [] (n, s) = (n, s)"
| "drain_bucket cb (np # ns) (n, s) =
     drain_bucket cb ns (n - 1, case cb of None \<Rightarrow> s | Some f \<Rightarrow> f s np)"

fun drain_table :: "('s \<Rightarrow> dnode \<Rightarrow> 's) option \<Rightarrow> dnode list list \<Rightarrow> u32 \<times> 's \<Rightarrow> u32 \<times> 's" where
  "drain_table cb [] ns = ns"
| "drain_table cb (b # bs) ns = drain_table cb bs (drain_bucket cb b ns)"

definition dictionary_remove_all ::
  "dictionary \<Rightarrow> ('s \<Rightarrow> dnode \<Rightarrow> 's) option \<Rightarrow> 's \<Rightarrow> dictionary \<times> 's" where
  "dictionary_remove_all d cb s =
     (case drain_table cb (hashtab d) (d_count d, s) of
        (n, s') \<Rightarrow> (d\<lparr>hashtab := replicate (length (hashtab d)) [], d_count := n\<rparr>, s'))"

definition dictionary_count :: "dictionary \<Rightarrow> u32" where
  "dictionary_count d = d_count d"

definition dictionary_hashtab_size :: "dictionary \<Rightarrow> u32" where
  "dictionary_hashtab_size d = d_hashsize d"

definition dictionary_hashtab_cnt :: "dictionary \<Rightarrow> u32 \<Rightarrow> u32" where
  "dictionary_hashtab_cnt d idx = foldl (\<lambda>cnt np. cnt + 1) 0 (bucket d idx)"

definition dict_nodes :: "dictionary \<Rightarrow> dnode list" where
  "dict_nodes d = concat (hashtab d)"

text \<open>A node reached through a pointer; none if the pointer dangles.\<close>

definition node_at :: "dictionary \<Rightarrow> nat \<Rightarrow> dnode option" where
  "node_at d a = chain_find (\<lambda>np. naddr np = a) (dict_nodes d)"

text \<open>Memory readable from the key pointer of a node: the key, then what follows it.\<close>

definition dictionary_get_key :: "dictionary \<Rightarrow> dnode \<Rightarrow> u8 list" where
  "dictionary_get_key d np =
     (case dict_keytype (d_keyspec d) of
        KeyString \<Rightarrow> nkey np @ [0]
      | KeyConstString \<Rightarrow> nkey np @ [0]
      | KeyUshort \<Rightarrow> nkey np @ [0, 0] @ nval np
      | KeyBinary \<Rightarrow> nkey np @ nval np)"

definition dictionary_get_key_size :: "dictionary \<Rightarrow> dnode \<Rightarrow> u32 option" where
  "dictionary_get_key_size d np =
     (if d_keyspec d AND 0xFFFF = 0
      then map_option (\<lambda>s. of_nat (length s) + 1) (cstr (dictionary_get_key d np))
      else if d_keyspec d = 3 then Some 2
      else Some ((d_keyspec d AND 0xFFFF) * 4))"

definition dictionary_get_value :: "dictionary \<Rightarrow> dnode \<Rightarrow> u8 list" where
  "dictionary_get_value d np = nval np"

text \<open>A write through the value pointer of the node at an address.\<close>

definition dict_set_value :: "dictionary \<Rightarrow> nat \<Rightarrow> u8 list \<Rightarrow> dictionary" where
  "dict_set_value d a v =
     d\<lparr>hashtab := map (map (\<lambda>np. if naddr np = a then np\<lparr>nval := v\<rparr> else np)) (hashtab d)\<rparr>"

definition dict_write_value :: "dictionary \<Rightarrow> nat \<Rightarrow> nat \<Rightarrow> u8 list \<Rightarrow> dictionary option" where
  "dict_write_value d a off bs =
     do { np \<leftarrow> node_at d a;
          v \<leftarrow> buf_write (nval np) off bs;
          Some (dict_set_value d a v) }"

definition dictionary_replace ::
  "dictionary \<Rightarrow> u8 list \<Rightarrow> u8 list \<Rightarrow> u32 \<Rightarrow> heap \<Rightarrow> (dnode option \<times> dictionary \<times> heap) option" where
  "dictionary_replace d key val valuesize h =
     (case dictionary_install_size d key valuesize h of
        (None, d1, h1) \<Rightarrow> Some (None, d1, h1)
      | (Some np, d1, h1) \<Rightarrow>
          do { bs \<leftarrow> buf_read val 0 (unat valuesize);
               d2 \<leftarrow> dict_write_value d1 (naddr np) 0 bs;
               Some (node_at d2 (naddr np), d2, h1) })"

definition dictionary_lookup ::
  "dictionary \<Rightarrow> u8 list \<Rightarrow> u8 list \<Rightarrow> u32 \<Rightarrow> heap \<Rightarrow> (dnode option \<times> dictionary \<times> heap) option" where
  "dictionary_lookup d key val valuesize h =
     (case dict_lookup d key of
        Some np \<Rightarrow> Some (Some np, d, h)
      | None \<Rightarrow>
          (case dict_alloc d key valuesize h of
             (None, h1) \<Rightarrow> Some (None, d, h1)
           | (Some np, h1) \<Rightarrow>
               do { bs \<leftarrow> buf_read val 0 (unat valuesize);
                    d2 \<leftarrow> dict_write_value (dict_push d key np) (naddr np) 0 bs;
                    Some (node_at d2 (naddr np), d2, h1) }))"

end
