(* ===== verification/Dict_Map.thy ===== *)
theory Dict_Map
  imports Dictionary
begin

text \<open>
  The hash table implements a finite map.  \<open>dict_inv\<close> is the invariant that every operation
  keeps: each node sits in the bucket of its key, no key and no node occurs twice, the counter
  is the number of nodes.  \<open>dict_map\<close> is the map a table stands for.  The contract of the
  client is the locale \<open>key_map\<close>; the interpretation at the end discharges it for the code's
  table.
\<close>

unbundle bit_operations_syntax

section \<open>The contract of the lookup table\<close>

locale key_map =
  fixes inv :: "'d \<Rightarrow> heap \<Rightarrow> bool"
    and spec :: "'d \<Rightarrow> u32"
    and key_ok :: "u32 \<Rightarrow> u8 list \<Rightarrow> bool"
    and amap :: "'d \<Rightarrow> u8 list \<rightharpoonup> u8 list"
    and get :: "'d \<Rightarrow> u8 list \<Rightarrow> dnode option"
    and remove :: "'d \<Rightarrow> u8 list \<Rightarrow> u32 \<times> 'd"
    and install :: "'d \<Rightarrow> u8 list \<Rightarrow> u32 \<Rightarrow> heap \<Rightarrow> dnode option \<times> 'd \<times> heap"
    and store :: "'d \<Rightarrow> nat \<Rightarrow> nat \<Rightarrow> u8 list \<Rightarrow> 'd option"
    and cnt :: "'d \<Rightarrow> u32"
  assumes get_map: "inv d h \<Longrightarrow> key_ok (spec d) k \<Longrightarrow> map_option nval (get d k) = amap d k"
    and remove_map: "inv d h \<Longrightarrow> key_ok (spec d) k \<Longrightarrow> amap (snd (remove d k)) = (amap d)(k := None)"
    and remove_inv: "inv d h \<Longrightarrow> key_ok (spec d) k \<Longrightarrow> inv (snd (remove d k)) h"
    and remove_keys: "spec (snd (remove d k)) = spec d"
    and install_new: "inv d h \<Longrightarrow> key_ok (spec d) k \<Longrightarrow> plenty h \<Longrightarrow> amap d k = None \<Longrightarrow>
          \<exists>np d' h'. install d k n h = (Some np, d', h') \<and> inv d' h' \<and> plenty h' \<and>
            spec d' = spec d \<and> junk h' = junk h \<and> length (nval np) = unat n \<and>
            amap d' = (amap d)(k \<mapsto> nval np) \<and>
            (\<forall>v. length v = unat n \<longrightarrow>
               (\<exists>d''. store d' (naddr np) 0 v = Some d'' \<and> inv d'' h' \<and> spec d'' = spec d \<and>
                      amap d'' = (amap d)(k \<mapsto> v)))"
    and cnt_card: "inv d h \<Longrightarrow> cnt d = of_nat (card (dom (amap d)))"
    and amap_finite: "inv d h \<Longrightarrow> finite (dom (amap d))"
begin

text \<open>Removing a key, installing it anew and filling its value area is a map update.\<close>

lemma replace_value:
  assumes "inv d h" "key_ok (spec d) k" "plenty h" "length v = unat n"
  obtains np d' h' d'' where
    "install (snd (remove d k)) k n h = (Some np, d', h')"
    "store d' (naddr np) 0 v = Some d''"
    "inv d'' h'" "plenty h'" "spec d'' = spec d" "junk h' = junk h"
    "amap d'' = (amap d)(k \<mapsto> v)"
proof -
  let ?d = "snd (remove d k)"
  have m: "amap ?d = (amap d)(k := None)" "inv ?d h" "spec ?d = spec d"
    using assms remove_map remove_inv remove_keys by auto
  then have "key_ok (spec ?d) k" "amap ?d k = None" using assms by auto
  from install_new [OF m(2) this(1) assms(3) this(2), of n] assms(4)
  obtain np d' h' d'' where
    "install ?d k n h = (Some np, d', h')" "plenty h'" "junk h' = junk h"
    "store d' (naddr np) 0 v = Some d''" "inv d'' h'" "spec d'' = spec ?d"
    "amap d'' = (amap ?d)(k \<mapsto> v)"
    by metis
  then show ?thesis using that m by simp
qed

lemma cnt_update:
  assumes "inv d h" "inv d' h'" "amap d' = (amap d)(k \<mapsto> v)"
  shows "cnt d' = (if amap d k = None then cnt d + 1 else cnt d)"
proof -
  have "dom (amap d') = insert k (dom (amap d))" using assms(3) by simp
  then show ?thesis
    using assms cnt_card amap_finite
    by (cases "amap d k") (auto simp: card_insert_if domIff add.commute insert_absorb)
qed

end

section \<open>Key comparison and key reading\<close>

definition dict_key_ok :: "u32 \<Rightarrow> u8 list \<Rightarrow> bool" where
  "dict_key_ok keyspec k =
     (case dict_keytype keyspec of
        KeyString \<Rightarrow> 0 \<notin> set k
      | KeyConstString \<Rightarrow> 0 \<notin> set k
      | KeyUshort \<Rightarrow> length k = 2
      | KeyBinary \<Rightarrow> length k = 4 * DICTIONARY_KEY_SIZE keyspec)"

lemma dict_key_at_ok: "dict_key_at keyspec p = Some k \<Longrightarrow> dict_key_ok keyspec k"
  by (auto simp: dict_key_at_def dict_key_ok_def cstr_def buf_read_def
        split: keytype.splits if_splits dest: set_takeWhileD)

lemma list2_eq: "length xs = 2 \<Longrightarrow> \<exists>a b. xs = [a, b]"
  by (metis One_nat_def Suc_1 length_0_conv length_Suc_conv)

lemma u8_no_bit:
  "\<not> bit (x :: u8) (n + 8)" "\<not> bit x (8 + n)" "\<not> bit x (n + 16)" "\<not> bit x (16 + n)"
  "\<not> bit x (n + 24)" "\<not> bit x (24 + n)"
  by (auto dest: bit_imp_le_length)

lemma le16_rd16: "length k = 2 \<Longrightarrow> le16 (rd16 k) = k"
proof -
  assume "length k = 2"
  then obtain a b where k: "k = [a, b]" using list2_eq by blast
  show ?thesis
    unfolding k le16_def rd16.simps
    by (auto intro!: bit_word_eqI
          simp: bit_or_iff bit_push_bit_iff bit_ucast_iff bit_drop_bit_eq u8_no_bit)
qed

lemma rd32_bytes:
  fixes a b c d :: u8
  defines "w \<equiv> (ucast a OR push_bit 8 (ucast b) OR push_bit 16 (ucast c) OR push_bit 24 (ucast d)) :: u32"
  shows "ucast w = a" "ucast (drop_bit 8 w) = b" "ucast (drop_bit 16 w) = c" "ucast (drop_bit 24 w) = d"
  unfolding w_def
  by (rule bit_word_eqI,
      force simp: bit_or_iff bit_push_bit_iff bit_ucast_iff bit_drop_bit_eq u8_no_bit)+

lemma le32_rd32_4: "le32 (rd32 [a, b, c, d]) = [a, b, c, d]"
  by (simp only: le32_def rd32.simps rd32_bytes)

lemma rd16_inject: "length p = 2 \<Longrightarrow> length s = 2 \<Longrightarrow> rd16 p = rd16 s \<longleftrightarrow> p = s"
  by (metis le16_rd16)

lemma length_ge_4: "4 \<le> length xs \<Longrightarrow> \<exists>a b c d r. xs = a # b # c # d # r"
  by (auto simp: Suc_le_length_iff numeral_eq_Suc)

lemma rd32_inject4:
  "rd32 (a # b # c # d # r) = rd32 (a' # b' # c' # d' # r') \<longleftrightarrow> [a, b, c, d] = [a', b', c', d']"
  by (metis le32_rd32_4 rd32.simps(1))

lemma binary_key_cmp_eq:
  "length p = 4 * n \<Longrightarrow> length s = 4 * n \<Longrightarrow> dictionary_binary_key_cmp n p s \<longleftrightarrow> p = s"
proof (induction n arbitrary: p s)
  case 0
  then show ?case by simp
next
  case (Suc n)
  obtain a b c d r a' b' c' d' r' where
    p: "p = a # b # c # d # r" and s: "s = a' # b' # c' # d' # r'"
    using length_ge_4 [of p] length_ge_4 [of s] Suc.prems by auto
  have "dictionary_binary_key_cmp n r r' \<longleftrightarrow> r = r'"
    using Suc.prems by (intro Suc.IH) (simp_all add: p s)
  then show ?case
    using rd32_inject4 [of a b c d r a' b' c' d' r'] by (auto simp: p s simp del: rd32.simps)
qed

lemma dict_cmp_eq:
  "dict_key_ok (d_keyspec d) (nkey np) \<Longrightarrow> dict_key_ok (d_keyspec d) k \<Longrightarrow>
   dict_cmp d np k \<longleftrightarrow> nkey np = k"
  by (auto simp: dict_key_ok_def dict_cmp_def dictionary_str_key_cmp_def
        dictionary_ushort_key_cmp_def rd16_inject binary_key_cmp_eq split: keytype.splits)

section \<open>The invariant and the map\<close>

definition dict_inv :: "dictionary \<Rightarrow> heap \<Rightarrow> bool" where
  "dict_inv d h \<longleftrightarrow>
     d_hashsize d \<noteq> 0 \<and> length (hashtab d) = unat (d_hashsize d) \<and>
     (\<forall>i < length (hashtab d). \<forall>np \<in> set (hashtab d ! i).
        unat (dict_hash d (nkey np)) = i \<and> dict_key_ok (d_keyspec d) (nkey np)) \<and>
     distinct (map nkey (dict_nodes d)) \<and> distinct (map naddr (dict_nodes d)) \<and>
     (\<forall>np \<in> set (dict_nodes d). naddr np < next_addr h) \<and>
     d_count d = of_nat (length (dict_nodes d))"

definition dict_map :: "dictionary \<Rightarrow> u8 list \<rightharpoonup> u8 list" where
  "dict_map d = map_of (map (\<lambda>np. (nkey np, nval np)) (dict_nodes d))"

lemma concat_split_nth:
  "i < length tab \<Longrightarrow> concat tab = concat (take i tab) @ tab ! i @ concat (drop (Suc i) tab)"
  by (metis concat.simps(2) concat_append id_take_nth_drop)

lemma concat_list_update:
  "i < length tab \<Longrightarrow>
   concat (tab[i := ch]) = concat (take i tab) @ ch @ concat (drop (Suc i) tab)"
  by (simp add: upd_conv_take_nth_drop)

lemma dict_hash_lt: "d_hashsize d \<noteq> 0 \<Longrightarrow> unat (dict_hash d k) < unat (d_hashsize d)"
  by (auto simp: dict_hash_def dictionary_str_key_hash_def dictionary_ushort_key_hash_def
        dictionary_binary_key_hash_def unat_mod_distrib unat_gt_0 split: keytype.splits)

lemma dict_hash_cong:
  "d_hashsize d = d_hashsize d' \<Longrightarrow> d_keyspec d = d_keyspec d' \<Longrightarrow> dict_hash d = dict_hash d'"
  by (rule ext) (simp add: dict_hash_def dictionary_str_key_hash_def
      dictionary_ushort_key_hash_def dictionary_binary_key_hash_def split: keytype.splits)

lemma dict_cmp_cong: "d_keyspec d = d_keyspec d' \<Longrightarrow> dict_cmp d = dict_cmp d'"
  by (intro ext) (simp add: dict_cmp_def split: keytype.splits)

lemma chain_find_Some:
  "chain_find p ns = Some np \<Longrightarrow> np \<in> set ns \<and> p np"
  by (induction ns) (auto split: if_splits)

lemma chain_find_None: "chain_find p ns = None \<longleftrightarrow> (\<forall>np \<in> set ns. \<not> p np)"
  by (induction ns) auto

lemma chain_remove_None:
  "chain_remove p ns = (None, ns') \<Longrightarrow> ns' = ns \<and> (\<forall>np \<in> set ns. \<not> p np)"
  by (induction ns arbitrary: ns') (auto split: if_splits prod.splits)

lemma chain_remove_Some:
  "chain_remove p ns = (Some np, ns') \<Longrightarrow> \<exists>xs ys. ns = xs @ np # ys \<and> ns' = xs @ ys \<and> p np"
proof (induction ns arbitrary: ns')
  case Nil
  then show ?case by simp
next
  case (Cons a ns)
  show ?case
  proof (cases "p a")
    case True
    then show ?thesis using Cons.prems by force
  next
    case False
    then obtain ns1 where "chain_remove p ns = (Some np, ns1)" "ns' = a # ns1"
      using Cons.prems by (auto split: prod.splits)
    with Cons.IH [of ns1] show ?thesis by (metis append_Cons)
  qed
qed

lemma dict_inv_nodes:
  assumes "dict_inv d h" "np \<in> set (dict_nodes d)"
  shows "np \<in> set (bucket d (dict_hash d (nkey np)))" "dict_key_ok (d_keyspec d) (nkey np)"
    "naddr np < next_addr h"
proof -
  from assms(2) obtain ch where "ch \<in> set (hashtab d)" "np \<in> set ch"
    by (auto simp: dict_nodes_def)
  then obtain i where i: "i < length (hashtab d)" "np \<in> set (hashtab d ! i)"
    by (metis in_set_conv_nth)
  then show "np \<in> set (bucket d (dict_hash d (nkey np)))" "dict_key_ok (d_keyspec d) (nkey np)"
    using assms(1) by (auto simp: dict_inv_def bucket_def)
  show "naddr np < next_addr h" using assms by (simp add: dict_inv_def)
qed

lemma bucket_nodes:
  "dict_inv d h \<Longrightarrow> np \<in> set (bucket d (dict_hash d k)) \<Longrightarrow> np \<in> set (dict_nodes d)"
  using dict_hash_lt [of d k] by (auto simp: dict_inv_def bucket_def dict_nodes_def)

lemma dict_inv_bucket:
  assumes inv: "dict_inv d h" and np: "np \<in> set (bucket d (dict_hash d k))"
  shows "dict_hash d (nkey np) = dict_hash d k \<and> dict_key_ok (d_keyspec d) (nkey np)"
proof -
  have "unat (dict_hash d k) < length (hashtab d)"
    using inv dict_hash_lt by (simp add: dict_inv_def)
  then have "unat (dict_hash d (nkey np)) = unat (dict_hash d k) \<and> dict_key_ok (d_keyspec d) (nkey np)"
    using inv np unfolding dict_inv_def bucket_def by blast
  then show ?thesis by (metis unsigned_word_eqI)
qed

lemma node_map_None:
  "map_of (map (\<lambda>np. (nkey np, nval np)) ns) k = None \<longleftrightarrow> k \<notin> nkey ` set ns"
  by (simp add: map_of_eq_None_iff image_image)

lemma dict_inv_key_unique:
  "dict_inv d h \<Longrightarrow> x \<in> set (dict_nodes d) \<Longrightarrow> y \<in> set (dict_nodes d) \<Longrightarrow> nkey x = nkey y \<Longrightarrow> x = y"
  by (auto simp: dict_inv_def distinct_map inj_on_def)

lemma dict_inv_addr_unique:
  "dict_inv d h \<Longrightarrow> x \<in> set (dict_nodes d) \<Longrightarrow> y \<in> set (dict_nodes d) \<Longrightarrow> naddr x = naddr y \<Longrightarrow> x = y"
  by (auto simp: dict_inv_def distinct_map inj_on_def)

lemma dict_lookup_Some_iff:
  assumes inv: "dict_inv d h" and k: "dict_key_ok (d_keyspec d) k"
  shows "dict_lookup d k = Some np \<longleftrightarrow> np \<in> set (dict_nodes d) \<and> nkey np = k"
proof
  assume "dict_lookup d k = Some np"
  then have "np \<in> set (bucket d (dict_hash d k))" "dict_cmp d np k"
    by (auto simp: dict_lookup_def dest: chain_find_Some)
  then show "np \<in> set (dict_nodes d) \<and> nkey np = k"
    using bucket_nodes [OF inv] dict_inv_nodes [OF inv] dict_cmp_eq k by blast
next
  assume np: "np \<in> set (dict_nodes d) \<and> nkey np = k"
  then have b: "np \<in> set (bucket d (dict_hash d k))" "dict_cmp d np k"
    using dict_inv_nodes [OF inv] dict_cmp_eq k by blast+
  then obtain np' where f: "dict_lookup d k = Some np'"
    by (cases "dict_lookup d k") (auto simp: dict_lookup_def chain_find_None)
  then have "np' \<in> set (bucket d (dict_hash d k))" "dict_cmp d np' k"
    by (auto simp: dict_lookup_def dest: chain_find_Some)
  then have "np' \<in> set (dict_nodes d)" "nkey np' = k"
    using bucket_nodes [OF inv] dict_inv_nodes [OF inv] dict_cmp_eq k by blast+
  then show "dict_lookup d k = Some np"
    using dict_inv_key_unique [OF inv, of np np'] np f by auto
qed

lemma dict_map_Some_iff:
  assumes "dict_inv d h"
  shows "dict_map d k = Some v \<longleftrightarrow> (\<exists>np \<in> set (dict_nodes d). nkey np = k \<and> nval np = v)"
proof -
  have "distinct (map fst (map (\<lambda>np. (nkey np, nval np)) (dict_nodes d)))"
    using assms by (simp add: dict_inv_def comp_def)
  then show ?thesis by (auto simp: dict_map_def map_of_eq_Some_iff)
qed

lemma dict_map_lookup:
  assumes "dict_inv d h" "dict_key_ok (d_keyspec d) k"
  shows "map_option nval (dict_lookup d k) = dict_map d k"
proof (cases "dict_lookup d k")
  case None
  then have "dict_map d k = None"
    using dict_lookup_Some_iff [OF assms] dict_map_Some_iff [OF assms(1), of k]
    by (cases "dict_map d k") force+
  with None show ?thesis by simp
next
  case (Some np)
  then have "dict_map d k = Some (nval np)"
    using dict_lookup_Some_iff [OF assms] dict_map_Some_iff [OF assms(1), of k] by auto
  with Some show ?thesis by simp
qed

section \<open>Every operation keeps the invariant\<close>

lemma dict_inv_mono: "dict_inv d h \<Longrightarrow> next_addr h \<le> next_addr h' \<Longrightarrow> dict_inv d h'"
  by (force simp: dict_inv_def)

text \<open>Replacing the chain of one bucket: the nodes are those of the other buckets and the new chain.\<close>

lemma dict_nodes_set_bucket:
  assumes "dict_inv d h"
  shows "\<exists>A B. dict_nodes d = A @ bucket d (dict_hash d k) @ B \<and>
    (\<forall>ch. dict_nodes (set_bucket d (dict_hash d k) ch) = A @ ch @ B)"
proof -
  have "unat (dict_hash d k) < length (hashtab d)"
    using assms dict_hash_lt by (simp add: dict_inv_def)
  then show ?thesis
    using concat_split_nth concat_list_update
    by (fastforce simp: dict_nodes_def set_bucket_def bucket_def)
qed

lemma set_bucket_fields [simp]:
  "d_hashsize (set_bucket d i ch) = d_hashsize d" "d_keyspec (set_bucket d i ch) = d_keyspec d"
  "d_count (set_bucket d i ch) = d_count d" "length (hashtab (set_bucket d i ch)) = length (hashtab d)"
  by (simp_all add: set_bucket_def)

lemma dict_nodes_count [simp]: "dict_nodes (d\<lparr>d_count := n\<rparr>) = dict_nodes d"
  by (simp add: dict_nodes_def)

lemma set_bucket_inv:
  assumes inv: "dict_inv d h"
    and hash: "\<And>np. np \<in> set ch \<Longrightarrow> dict_hash d (nkey np) = dict_hash d k \<and> dict_key_ok (d_keyspec d) (nkey np)"
    and d': "d' = (set_bucket d (dict_hash d k) ch)\<lparr>d_count := of_nat (length (dict_nodes (set_bucket d (dict_hash d k) ch)))\<rparr>"
    and keys: "distinct (map nkey (dict_nodes d'))" and addrs: "distinct (map naddr (dict_nodes d'))"
    and fresh: "\<forall>np \<in> set (dict_nodes d'). naddr np < next_addr h'"
  shows "dict_inv d' h'"
proof -
  have hc: "dict_hash d' = dict_hash d" by (rule dict_hash_cong) (simp_all add: d')
  have "unat (dict_hash d' (nkey np)) = i \<and> dict_key_ok (d_keyspec d') (nkey np)"
    if "i < length (hashtab d')" "np \<in> set (hashtab d' ! i)" for i np
  proof (cases "i = unat (dict_hash d k)")
    case True
    then have "np \<in> set ch" using that by (simp add: d' set_bucket_def)
    then show ?thesis using hash [of np] True unfolding hc by (simp add: d')
  next
    case False
    then have "np \<in> set (hashtab d ! i)" "i < length (hashtab d)"
      using that by (simp_all add: d' set_bucket_def)
    then show ?thesis using inv unfolding hc by (simp add: d' dict_inv_def)
  qed
  then show ?thesis
    using inv keys addrs fresh unfolding dict_inv_def by (simp add: d')
qed

lemma dict_remove_None:
  assumes "dict_inv d h" "dict_key_ok (d_keyspec d) k" "dict_map d k = None"
  shows "dict_remove d k = (None, d)"
proof -
  have "dict_lookup d k = None" using dict_map_lookup assms by (metis option.map_disc_iff)
  then have no: "\<forall>np \<in> set (bucket d (dict_hash d k)). \<not> dict_cmp d np k"
    by (simp add: dict_lookup_def chain_find_None)
  show ?thesis
  proof (cases "chain_remove (\<lambda>np. dict_cmp d np k) (bucket d (dict_hash d k))")
    case (Pair r ns)
    then show ?thesis
      using no chain_remove_Some by (cases r) (fastforce simp: dict_remove_def)+
  qed
qed

lemma dict_remove_Some:
  assumes inv: "dict_inv d h" and k: "dict_key_ok (d_keyspec d) k" and m: "dict_map d k = Some v"
  shows "\<exists>np d' A B. dict_remove d k = (Some np, d') \<and> nkey np = k \<and> nval np = v \<and>
    dict_nodes d = A @ np # B \<and> dict_nodes d' = A @ B \<and> dict_inv d' h \<and>
    d_keyspec d' = d_keyspec d \<and> d_count d' = d_count d - 1"
proof -
  let ?b = "bucket d (dict_hash d k)" and ?p = "\<lambda>np. dict_cmp d np k"
  obtain np ns where r: "chain_remove ?p ?b = (Some np, ns)"
  proof (cases "chain_remove ?p ?b")
    case (Pair r ns)
    obtain np' where np': "dict_lookup d k = Some np'"
      using dict_map_lookup [OF inv k] m by auto
    then have "\<not> (\<forall>np \<in> set ?b. \<not> ?p np)"
      unfolding dict_lookup_def using chain_find_None [of ?p ?b] by simp
    with Pair that show ?thesis
      using chain_remove_None by (cases r) blast+
  qed
  then obtain xs ys where xy: "?b = xs @ np # ys" "ns = xs @ ys" "?p np"
    using chain_remove_Some by blast
  have np: "np \<in> set (dict_nodes d)" "nkey np = k"
    using bucket_nodes [OF inv, of np k] xy dict_inv_nodes(2) [OF inv] dict_cmp_eq k by auto
  obtain A B where AB: "dict_nodes d = A @ ?b @ B"
    "\<And>ch. dict_nodes (set_bucket d (dict_hash d k) ch) = A @ ch @ B"
    using dict_nodes_set_bucket [OF inv] by blast
  let ?d' = "(set_bucket d (dict_hash d k) ns)\<lparr>d_count := d_count d - 1\<rparr>"
  have nodes: "dict_nodes d = (A @ xs) @ np # (ys @ B)" "dict_nodes ?d' = (A @ xs) @ (ys @ B)"
    using AB xy by simp_all
  have cnt: "d_count d - 1 = of_nat (length (dict_nodes (set_bucket d (dict_hash d k) ns)))"
    using inv nodes by (simp add: dict_inv_def)
  have "dict_inv ?d' h"
  proof (rule set_bucket_inv [OF inv, where ch = ns and k = k])
    fix x assume "x \<in> set ns"
    then have "x \<in> set ?b" using xy by auto
    then show "dict_hash d (nkey x) = dict_hash d k \<and> dict_key_ok (d_keyspec d) (nkey x)"
      by (rule dict_inv_bucket [OF inv])
  qed (use inv nodes cnt in \<open>auto simp: dict_inv_def\<close>)
  moreover have "nval np = v"
    using m np dict_map_Some_iff [OF inv] dict_inv_key_unique [OF inv] by metis
  ultimately show ?thesis
    using r np nodes
    by (intro exI [of _ np] exI [of _ ?d'] exI [of _ "A @ xs"] exI [of _ "ys @ B"])
       (simp add: dict_remove_def Let_def)
qed

lemma dict_map_nodes_eq:
  "dict_inv d h \<Longrightarrow> dict_map d k = None \<longleftrightarrow> k \<notin> nkey ` set (dict_nodes d)"
  by (simp add: dict_map_def map_of_eq_None_iff image_image)

lemma dict_map_split:
  assumes "dict_inv d h" "dict_nodes d = A @ np # B"
  shows "dict_map d = (map_of (map (\<lambda>np. (nkey np, nval np)) (A @ B)))(nkey np \<mapsto> nval np)"
proof -
  have "nkey np \<notin> nkey ` set A"
    using assms by (auto simp: dict_inv_def)
  then have "map_of (map (\<lambda>np. (nkey np, nval np)) A) (nkey np) = None"
    by (simp add: map_of_eq_None_iff image_image)
  then show ?thesis
    by (auto simp: dict_map_def assms(2) map_add_def split: option.splits)
qed

lemma dictionary_remove_map:
  assumes inv: "dict_inv d h" and k: "dict_key_ok (d_keyspec d) k"
  shows "dict_map (snd (dictionary_remove d k)) = (dict_map d)(k := None)"
    "dict_inv (snd (dictionary_remove d k)) h"
    "fst (dictionary_remove d k) = (if dict_map d k = None then 0 else 1)"
    "d_keyspec (snd (dictionary_remove d k)) = d_keyspec d"
proof -
  have "dict_map (snd (dictionary_remove d k)) = (dict_map d)(k := None) \<and>
    dict_inv (snd (dictionary_remove d k)) h \<and>
    fst (dictionary_remove d k) = (if dict_map d k = None then 0 else 1) \<and>
    d_keyspec (snd (dictionary_remove d k)) = d_keyspec d"
  proof (cases "dict_map d k")
    case None
    then show ?thesis
      using dict_remove_None [OF inv k None] inv by (auto simp: dictionary_remove_def)
  next
    case (Some v)
    obtain np d' A B where r: "dict_remove d k = (Some np, d')" "nkey np = k"
      "dict_nodes d = A @ np # B" "dict_nodes d' = A @ B" "dict_inv d' h" "d_keyspec d' = d_keyspec d"
      using dict_remove_Some [OF inv k Some] by blast
    have "k \<notin> nkey ` set (A @ B)" using inv r(2,3) by (auto simp: dict_inv_def)
    then have "map_of (map (\<lambda>np. (nkey np, nval np)) (A @ B)) k = None"
      by (simp only: node_map_None)  simp
    then have "dict_map d' = (dict_map d)(k := None)"
      unfolding dict_map_split [OF inv r(3)] r(2) using r(4)
      by (auto simp: dict_map_def fun_upd_idem_iff)
    then show ?thesis using r Some by (simp add: dictionary_remove_def)
  qed
  then show "dict_map (snd (dictionary_remove d k)) = (dict_map d)(k := None)"
    "dict_inv (snd (dictionary_remove d k)) h"
    "fst (dictionary_remove d k) = (if dict_map d k = None then 0 else 1)"
    "d_keyspec (snd (dictionary_remove d k)) = d_keyspec d" by blast+
qed

lemma dict_push_inv:
  assumes inv: "dict_inv d h" and k: "dict_key_ok (d_keyspec d) k" and m: "dict_map d k = None"
    and np: "nkey np = k" "next_addr h \<le> naddr np" "naddr np < next_addr h'"
  shows "dict_inv (dict_push d k np) h'"
    "dict_map (dict_push d k np) = (dict_map d)(k \<mapsto> nval np)"
    "np \<in> set (dict_nodes (dict_push d k np))" "d_keyspec (dict_push d k np) = d_keyspec d"
proof -
  let ?b = "bucket d (dict_hash d k)"
  obtain A B where AB: "dict_nodes d = A @ ?b @ B"
    "\<And>ch. dict_nodes (set_bucket d (dict_hash d k) ch) = A @ ch @ B"
    using dict_nodes_set_bucket [OF inv] by blast
  have nodes: "dict_nodes (dict_push d k np) = A @ np # ?b @ B"
    by (simp add: dict_push_def Let_def AB)
  have fresh: "k \<notin> nkey ` set (dict_nodes d)"
    using m dict_map_nodes_eq [OF inv] by blast
  have addr: "naddr np \<notin> naddr ` set (dict_nodes d)"
    using inv np(2) by (force simp: dict_inv_def)
  have cnt: "d_count d + 1 = of_nat (length (dict_nodes (set_bucket d (dict_hash d k) (np # ?b))))"
    using inv AB(1) by (simp add: dict_inv_def AB(2))
  show I: "dict_inv (dict_push d k np) h'"
  proof (rule set_bucket_inv [OF inv, where ch = "np # ?b" and k = k])
    show "dict_push d k np = (set_bucket d (dict_hash d k) (np # ?b))
      \<lparr>d_count := of_nat (length (dict_nodes (set_bucket d (dict_hash d k) (np # ?b))))\<rparr>"
      by (simp only: dict_push_def Let_def cnt)
    fix x assume "x \<in> set (np # ?b)"
    then show "dict_hash d (nkey x) = dict_hash d k \<and> dict_key_ok (d_keyspec d) (nkey x)"
      using np(1) k dict_inv_bucket [OF inv, of x k] by auto
  next
    have "distinct (map nkey (dict_nodes d))" "distinct (map naddr (dict_nodes d))"
      using inv by (simp_all add: dict_inv_def)
    then show "distinct (map nkey (dict_nodes (dict_push d k np)))"
      "distinct (map naddr (dict_nodes (dict_push d k np)))"
      using fresh addr np(1) unfolding nodes AB(1) by auto
    have "\<forall>x \<in> set (dict_nodes d). naddr x < next_addr h"
      using inv by (simp add: dict_inv_def)
    then have "\<forall>x \<in> set (dict_nodes d). naddr x < next_addr h'"
      using np(2,3) by fastforce
    then show "\<forall>x \<in> set (dict_nodes (dict_push d k np)). naddr x < next_addr h'"
      using np(3) unfolding nodes AB(1) by auto
  qed
  have "dict_map (dict_push d k np) =
    (map_of (map (\<lambda>np. (nkey np, nval np)) (A @ ?b @ B)))(k \<mapsto> nval np)"
    using dict_map_split [OF I, of A np "?b @ B"] nodes np(1) by simp
  then show "dict_map (dict_push d k np) = (dict_map d)(k \<mapsto> nval np)"
    by (simp add: dict_map_def AB(1))
  show "np \<in> set (dict_nodes (dict_push d k np))" by (simp add: nodes)
  show "d_keyspec (dict_push d k np) = d_keyspec d" by (simp add: dict_push_def Let_def)
qed

lemma dict_alloc_plenty:
  assumes "plenty h"
  shows "\<exists>h'. dict_alloc d k n h = (Some (new_node h (next_addr h) k n), h') \<and> plenty h' \<and>
    junk h' = junk h \<and> next_addr h < next_addr h'"
  using assms
  by (auto simp: dict_alloc_def keyval_alloc_defs
        heap_malloc_plenty split: keytype.splits)

lemma dict_alloc_None:
  "dict_alloc d k n h = (None, h') \<Longrightarrow> next_addr h \<le> next_addr h'"
  by (auto simp: dict_alloc_def keyval_alloc_defs
        split: keytype.splits prod.splits option.splits dest!: heap_malloc_next)

lemma dict_map_lookup_None:
  "dict_inv d h \<Longrightarrow> dict_key_ok (d_keyspec d) k \<Longrightarrow> dict_lookup d k = None \<longleftrightarrow> dict_map d k = None"
  using dict_map_lookup [of d h k] by (metis option.map_disc_iff)

lemma dictionary_install_new:
  assumes inv: "dict_inv d h" and k: "dict_key_ok (d_keyspec d) k" and pl: "plenty h"
    and m: "dict_map d k = None"
  obtains np h' where
    "dictionary_install_size d k n h = (Some np, dict_push d k np, h')"
    "dict_inv (dict_push d k np) h'" "plenty h'" "junk h' = junk h" "nkey np = k"
    "length (nval np) = unat n" "dict_map (dict_push d k np) = (dict_map d)(k \<mapsto> nval np)"
    "np \<in> set (dict_nodes (dict_push d k np))" "d_keyspec (dict_push d k np) = d_keyspec d"
proof -
  let ?np = "new_node h (next_addr h) k n"
  obtain h' where a: "dict_alloc d k n h = (Some ?np, h')" "plenty h'" "junk h' = junk h"
    "next_addr h < next_addr h'"
    using dict_alloc_plenty [OF pl] by blast
  have np: "nkey ?np = k" "naddr ?np = next_addr h" "length (nval ?np) = unat n"
    by (simp_all add: new_node_def)
  have "dictionary_install_size d k n h = (Some ?np, dict_push d k ?np, h')"
    using dict_map_lookup_None [OF inv k] m a by (simp add: dictionary_install_size_def)
  moreover note dict_push_inv [OF inv k m np(1), of h']
  ultimately show ?thesis using that [of ?np h'] a np by simp
qed

lemma dictionary_install_nomem:
  assumes "dictionary_install_size d k n h = (None, d', h')"
  shows "d' = d" "next_addr h \<le> next_addr h'"
  using assms dict_alloc_None
  by (auto simp: dictionary_install_size_def split: option.splits prod.splits)

text \<open>Writing a value area through a node pointer.\<close>

lemma dict_set_value_nodes:
  "dict_nodes (dict_set_value d a v) =
   map (\<lambda>np. if naddr np = a then np\<lparr>nval := v\<rparr> else np) (dict_nodes d)"
  by (simp add: dict_nodes_def dict_set_value_def map_concat)

lemma dict_set_value_fields [simp]:
  "d_keyspec (dict_set_value d a v) = d_keyspec d" "d_hashsize (dict_set_value d a v) = d_hashsize d"
  "d_count (dict_set_value d a v) = d_count d"
  by (simp_all add: dict_set_value_def)

lemma dict_set_value_inv:
  assumes "dict_inv d h"
  shows "dict_inv (dict_set_value d a v) h"
proof -
  have hc: "dict_hash (dict_set_value d a v) = dict_hash d" by (rule dict_hash_cong) simp_all
  have sel: "map nkey (dict_nodes (dict_set_value d a v)) = map nkey (dict_nodes d)"
    "map naddr (dict_nodes (dict_set_value d a v)) = map naddr (dict_nodes d)"
    by (simp_all add: dict_set_value_nodes)
  have len: "length (dict_nodes (dict_set_value d a v)) = length (dict_nodes d)"
    by (simp add: dict_set_value_nodes)
  have fr: "\<forall>np \<in> set (dict_nodes (dict_set_value d a v)). naddr np < next_addr h"
    using assms by (auto simp: dict_set_value_nodes dict_inv_def)
  show ?thesis
    using assms fr unfolding dict_inv_def hc sel len
    by (auto simp: dict_set_value_def)
qed

lemma dict_set_value_map:
  assumes inv: "dict_inv d h" and np: "np \<in> set (dict_nodes d)"
  shows "dict_map (dict_set_value d (naddr np) v) = (dict_map d)(nkey np \<mapsto> v)"
proof -
  obtain A B where AB: "dict_nodes d = A @ np # B" using np by (meson split_list)
  have "naddr np \<notin> naddr ` set (A @ B)"
    using inv by (simp add: dict_inv_def AB image_Un)
  then have "x \<in> set (A @ B) \<Longrightarrow> naddr x \<noteq> naddr np" for x
    by (metis imageI)
  then have "dict_nodes (dict_set_value d (naddr np) v) = A @ np\<lparr>nval := v\<rparr> # B"
    unfolding dict_set_value_nodes AB by (auto intro!: map_idI)
  from dict_map_split [OF dict_set_value_inv [OF inv] this] dict_map_split [OF inv AB]
  show ?thesis by simp
qed

lemma node_at_Some:
  assumes inv: "dict_inv d h" and np: "np \<in> set (dict_nodes d)"
  shows "node_at d (naddr np) = Some np"
proof (cases "node_at d (naddr np)")
  case None
  then have "naddr np \<noteq> naddr np" using np unfolding node_at_def chain_find_None by blast
  then show ?thesis by simp
next
  case (Some np')
  then have "np' \<in> set (dict_nodes d)" "naddr np' = naddr np"
    unfolding node_at_def using chain_find_Some by blast+
  then show ?thesis using dict_inv_addr_unique [OF inv] np Some by blast
qed

lemma dict_write_value_ok:
  assumes inv: "dict_inv d h" and np: "np \<in> set (dict_nodes d)"
    and b: "buf_write (nval np) off bs = Some v"
  shows "dict_write_value d (naddr np) off bs = Some (dict_set_value d (naddr np) v)"
  using node_at_Some [OF inv np] b by (simp add: dict_write_value_def)

lemma drain_bucket_count: "fst (drain_bucket cb b (n, s)) = n - of_nat (length b)"
  by (induction cb b "(n, s)" arbitrary: n s rule: drain_bucket.induct) (auto simp: algebra_simps)

lemma drain_table_count: "fst (drain_table cb bs (n, s)) = n - of_nat (length (concat bs))"
proof (induction bs arbitrary: n s)
  case (Cons b bs)
  obtain n' s' where "drain_bucket cb b (n, s) = (n', s')" by fastforce
  with drain_bucket_count [of cb b n s] show ?case
    by (simp add: Cons.IH algebra_simps)
qed simp

lemma concat_replicate_Nil [simp]: "concat (replicate n []) = []"
  by (induction n) auto

lemma dictionary_remove_all_inv:
  assumes "dict_inv d h"
  shows "dict_inv (fst (dictionary_remove_all d cb s)) h"
    "dict_map (fst (dictionary_remove_all d cb s)) = Map.empty"
    "d_keyspec (fst (dictionary_remove_all d cb s)) = d_keyspec d"
    "d_count (fst (dictionary_remove_all d cb s)) = 0"
    "d_hashsize (fst (dictionary_remove_all d cb s)) = d_hashsize d"
proof -
  obtain n s' where n: "drain_table cb (hashtab d) (d_count d, s) = (n, s')" by fastforce
  then have "n = 0"
    using drain_table_count [of cb "hashtab d" "d_count d" s] assms
    by (simp add: dict_inv_def dict_nodes_def)
  then show "dict_inv (fst (dictionary_remove_all d cb s)) h"
    "dict_map (fst (dictionary_remove_all d cb s)) = Map.empty"
    "d_keyspec (fst (dictionary_remove_all d cb s)) = d_keyspec d"
    "d_count (fst (dictionary_remove_all d cb s)) = 0"
    "d_hashsize (fst (dictionary_remove_all d cb s)) = d_hashsize d"
    using n assms by (auto simp: dictionary_remove_all_def dict_inv_def dict_map_def dict_nodes_def)
qed

lemma dictionary_init_inv:
  assumes "plenty h" "hashsize \<noteq> 0"
  obtains d h' where "dictionary_init h keyspec hashsize = (Some d, h')" "dict_inv d h'"
    "dict_map d = Map.empty" "d_keyspec d = keyspec" "plenty h'" "junk h' = junk h"
  using assms
  by (auto simp: dictionary_init_def heap_malloc_plenty dict_inv_def dict_map_def dict_nodes_def)

lemma dict_count_card:
  assumes "dict_inv d h"
  shows "dictionary_count d = of_nat (card (dom (dict_map d)))" "finite (dom (dict_map d))"
proof -
  have dm: "dom (dict_map d) = nkey ` set (dict_nodes d)"
    by (simp add: dict_map_def dom_map_of_conv_image_fst image_image)
  moreover have "inj_on nkey (set (dict_nodes d))" "distinct (dict_nodes d)"
    using assms by (simp_all add: dict_inv_def distinct_map)
  ultimately have "card (dom (dict_map d)) = length (dict_nodes d)"
    by (simp add: card_image distinct_card)
  then show "dictionary_count d = of_nat (card (dom (dict_map d)))"
    using assms by (simp add: dictionary_count_def dict_inv_def)
  show "finite (dom (dict_map d))" by (simp add: dm)
qed

section \<open>The table meets the contract\<close>

interpretation dict: key_map dict_inv d_keyspec dict_key_ok dict_map dictionary_get
  dictionary_remove dictionary_install_size dict_write_value dictionary_count
proof
  fix d :: dictionary and h :: heap and k :: "u8 list" and n :: u32
  assume inv: "dict_inv d h" and k: "dict_key_ok (d_keyspec d) k" and pl: "plenty h"
    and m: "dict_map d k = None"
  obtain np h' where I: "dictionary_install_size d k n h = (Some np, dict_push d k np, h')"
    "dict_inv (dict_push d k np) h'" "plenty h'" "junk h' = junk h" "nkey np = k"
    "length (nval np) = unat n" "dict_map (dict_push d k np) = (dict_map d)(k \<mapsto> nval np)"
    "np \<in> set (dict_nodes (dict_push d k np))" "d_keyspec (dict_push d k np) = d_keyspec d"
    using dictionary_install_new [OF inv k pl m] by metis
  have "\<exists>d''. dict_write_value (dict_push d k np) (naddr np) 0 v = Some d'' \<and> dict_inv d'' h' \<and>
      d_keyspec d'' = d_keyspec d \<and> dict_map d'' = (dict_map d)(k \<mapsto> v)"
    if "length v = unat n" for v
    using dict_write_value_ok [OF I(2,8), of 0 v v] dict_set_value_map [OF I(2,8), of v] that I
    by (simp add: buf_write_def dict_set_value_inv)
  then show "\<exists>np d' h'. dictionary_install_size d k n h = (Some np, d', h') \<and> dict_inv d' h' \<and>
     plenty h' \<and> d_keyspec d' = d_keyspec d \<and> junk h' = junk h \<and>
     length (nval np) = unat n \<and> dict_map d' = (dict_map d)(k \<mapsto> nval np) \<and>
     (\<forall>v. length v = unat n \<longrightarrow> (\<exists>d''. dict_write_value d' (naddr np) 0 v = Some d'' \<and>
        dict_inv d'' h' \<and> d_keyspec d'' = d_keyspec d \<and>
        dict_map d'' = (dict_map d)(k \<mapsto> v)))"
    using I by auto
next
  fix d :: dictionary and k :: "u8 list"
  show "d_keyspec (snd (dictionary_remove d k)) = d_keyspec d"
    by (auto simp: dictionary_remove_def dict_remove_def Let_def split: option.splits prod.splits)
qed (auto simp: dictionary_get_def dict_map_lookup dictionary_remove_map dict_count_card)

end
