(* ===== verification/Dict_Iter.thy ===== *)
theory Dict_Iter
  imports Dict_Map
begin

text \<open>
  Iterators of \<^verbatim>\<open>src/common/dictionary.c\<close>.  An iterator holds pointers to nodes, here
  their addresses; following a pointer to a node that left the table has no defined result.
  The bucket index of an iterator may be indeterminate: \<^verbatim>\<open>dictionary_it_first\<close> stores an
  uninitialised variable there when the first node is already the least one.  It is \<open>None\<close> then:
  copying it alone is not counted as an undefined result here, using it is.

  The lemmas show that the plain iterator visits every node once, bucket by bucket; \<open>Dict_Sorted\<close>
  shows that the sorted one yields them in the order of its comparison.
\<close>

unbundle bit_operations_syntax

section \<open>The iterator operations\<close>

type_synonym dlist_compare = "dnode \<Rightarrow> dnode \<Rightarrow> int option"

record dict_it =
  it_np :: "nat option"
  it_prev :: "nat option"
  it_idx :: "int option"
  it_cmp :: "dlist_compare option"

definition it_init :: "dlist_compare option \<Rightarrow> dict_it" where
  "it_init cmp = \<lparr>it_np = None, it_prev = None, it_idx = Some (- 1), it_cmp = cmp\<rparr>"

text \<open>The successor of a node in its chain; none at all if no chain holds the node.\<close>

fun chain_next :: "nat \<Rightarrow> dnode list \<Rightarrow> dnode option option" where
  "chain_next a [] = None"
| "chain_next a (np # ns) =
     (if naddr np = a then Some (case ns of [] \<Rightarrow> None | m # _ \<Rightarrow> Some m) else chain_next a ns)"

fun table_next :: "nat \<Rightarrow> dnode list list \<Rightarrow> dnode option option" where
  "table_next a [] = None"
| "table_next a (ch # chs) =
     (case chain_next a ch of None \<Rightarrow> table_next a chs | Some r \<Rightarrow> Some r)"

fun first_chain :: "nat \<Rightarrow> dnode list list \<Rightarrow> (nat \<times> dnode) option" where
  "first_chain i [] = None"
| "first_chain i (ch # chs) =
     (case ch of [] \<Rightarrow> first_chain (Suc i) chs | np # _ \<Rightarrow> Some (i, np))"

definition it_next :: "dictionary \<Rightarrow> dict_it \<Rightarrow> (dnode option \<times> dict_it) option" where
  "it_next d it =
     do { nx \<leftarrow> (case it_np it of None \<Rightarrow> Some None | Some a \<Rightarrow> table_next a (hashtab d));
          case nx of
            Some np \<Rightarrow> Some (Some np, it\<lparr>it_prev := it_np it, it_np := Some (naddr np)\<rparr>)
          | None \<Rightarrow>
              do { idx \<leftarrow> it_idx it;
                   case first_chain (nat (idx + 1)) (drop (nat (idx + 1)) (hashtab d)) of
                     Some (i, np) \<Rightarrow>
                       Some (Some np, it\<lparr>it_prev := None, it_np := Some (naddr np),
                                         it_idx := Some (int i)\<rparr>)
                   | None \<Rightarrow> Some (None, it\<lparr>it_prev := None, it_np := None\<rparr>) } }"

text \<open>The scan of \<^verbatim>\<open>dictionary_it_first\<close> for the least node.\<close>

partial_function (option) it_min ::
  "dictionary \<Rightarrow> dlist_compare \<Rightarrow> dict_it \<Rightarrow> dnode \<Rightarrow> int option \<Rightarrow>
   (dnode \<times> int option \<times> dict_it) option" where
  "it_min d cmp it nextnp idx =
     do { (np, it1) \<leftarrow> it_next d it;
          case np of
            None \<Rightarrow> Some (nextnp, idx, it1)
          | Some n \<Rightarrow>
              do { c \<leftarrow> cmp nextnp n;
                   if c > 0 then it_min d cmp it1 n (it_idx it1)
                   else it_min d cmp it1 nextnp idx } }"

definition dictionary_it_first ::
  "dictionary \<Rightarrow> dlist_compare option \<Rightarrow> (dnode option \<times> dict_it) option" where
  "dictionary_it_first d cmp =
     do { (nextnp, it1) \<leftarrow> it_next d (it_init cmp);
          case (cmp, nextnp) of
            (Some f, Some n) \<Rightarrow>
              do { (least, idx, it2) \<leftarrow> it_min d f it1 n None;
                   Some (Some least, it2\<lparr>it_np := Some (naddr least), it_idx := idx\<rparr>) }
          | _ \<Rightarrow> Some (nextnp, it1) }"

text \<open>The scan of \<^verbatim>\<open>dictionary_it_next\<close> for the least node above the current one.\<close>

partial_function (option) it_above ::
  "dictionary \<Rightarrow> dlist_compare \<Rightarrow> nat option \<Rightarrow> dict_it \<Rightarrow> dnode option \<Rightarrow> int option \<Rightarrow>
   (dnode option \<times> int option) option" where
  "it_above d cmp cur it nextnp idx =
     do { (np, it1) \<leftarrow> it_next d it;
          case np of
            None \<Rightarrow> Some (nextnp, idx)
          | Some n \<Rightarrow>
              if cur = Some (naddr n) then it_above d cmp cur it1 nextnp idx
              else do { a \<leftarrow> cur; cn \<leftarrow> node_at d a; c \<leftarrow> cmp cn n;
                   if c \<ge> 0 then it_above d cmp cur it1 nextnp idx
                   else (case nextnp of
                           None \<Rightarrow> it_above d cmp cur it1 (Some n) (it_idx it1)
                         | Some m \<Rightarrow>
                             do { c2 \<leftarrow> cmp m n;
                                  if c2 > 0 then it_above d cmp cur it1 (Some n) (it_idx it1)
                                  else it_above d cmp cur it1 nextnp idx }) } }"

definition dictionary_it_next :: "dictionary \<Rightarrow> dict_it \<Rightarrow> (dnode option \<times> dict_it) option" where
  "dictionary_it_next d it =
     (case it_cmp it of
        None \<Rightarrow> it_next d it
      | Some f \<Rightarrow>
          do { (nextnp, idx) \<leftarrow> it_above d f (it_np it) (it_init None) None (Some (- 1));
               Some (nextnp, it\<lparr>it_np := map_option naddr nextnp, it_idx := idx\<rparr>) })"

fun it_at_loop :: "(dnode \<Rightarrow> bool) \<Rightarrow> nat option \<Rightarrow> dnode list \<Rightarrow> (dnode \<times> nat option) option" where
  "it_at_loop p prev [] = None"
| "it_at_loop p prev (np # ns) =
     (if p np then Some (np, prev) else it_at_loop p (Some (naddr np)) ns)"

text \<open>
  \<^verbatim>\<open>dictionary_it_at\<close> leaves \<^verbatim>\<open>cmp\<close> and \<^verbatim>\<open>parm\<close> of the iterator as they were.
\<close>

definition dictionary_it_at :: "dictionary \<Rightarrow> u8 list \<Rightarrow> dict_it \<Rightarrow> dnode option \<times> dict_it" where
  "dictionary_it_at d key it =
     (case it_at_loop (\<lambda>np. dict_cmp d np key) None (bucket d (dict_hash d key)) of
        Some (np, prev) \<Rightarrow>
          (Some np, it\<lparr>it_np := Some (naddr np), it_prev := prev,
                      it_idx := Some (sint (dict_hash d key))\<rparr>)
      | None \<Rightarrow>
          (None, it\<lparr>it_np := None, it_idx := Some (- 1),
                   it_prev := (case bucket d (dict_hash d key) of
                                 [] \<Rightarrow> None | ns \<Rightarrow> Some (naddr (last ns)))\<rparr>))"

definition dictionary_it_get :: "dictionary \<Rightarrow> dict_it \<Rightarrow> nat option" where
  "dictionary_it_get d it = it_np it"

text \<open>
  Unlinking as \<^verbatim>\<open>dictionary_it_remove\<close> and \<^verbatim>\<open>dictionary_it_move\<close> do it: through the
  remembered predecessor, or, without one, by making the node's successor the bucket's head.
\<close>

fun chain_tail :: "nat \<Rightarrow> dnode list \<Rightarrow> dnode list option" where
  "chain_tail a [] = None"
| "chain_tail a (np # ns) = (if naddr np = a then Some ns else chain_tail a ns)"

fun table_tail :: "nat \<Rightarrow> dnode list list \<Rightarrow> dnode list option" where
  "table_tail a [] = None"
| "table_tail a (ch # chs) =
     (case chain_tail a ch of None \<Rightarrow> table_tail a chs | Some r \<Rightarrow> Some r)"

fun relink_after :: "nat \<Rightarrow> dnode list \<Rightarrow> dnode list \<Rightarrow> dnode list" where
  "relink_after p tail [] = []"
| "relink_after p tail (np # ns) =
     (if naddr np = p then np # tail else np # relink_after p tail ns)"

definition it_unlink :: "dictionary \<Rightarrow> nat option \<Rightarrow> nat option \<Rightarrow> int option \<Rightarrow> dictionary option" where
  "it_unlink d np prev idx =
     do { a \<leftarrow> np;
          tail \<leftarrow> table_tail a (hashtab d);
          case prev of
            Some p \<Rightarrow>
              do { _ \<leftarrow> node_at d p;
                   Some (d\<lparr>hashtab := map (relink_after p tail) (hashtab d)\<rparr>) }
          | None \<Rightarrow>
              do { i \<leftarrow> idx;
                   if 0 \<le> i \<and> nat i < length (hashtab d)
                   then Some (d\<lparr>hashtab := (hashtab d)[nat i := tail]\<rparr>) else None } }"

definition dictionary_it_remove :: "dictionary \<Rightarrow> dict_it \<Rightarrow> dictionary option" where
  "dictionary_it_remove d it =
     (case it_np it of
        None \<Rightarrow> Some d
      | Some a \<Rightarrow>
          it_unlink (d\<lparr>d_count := d_count d - 1\<rparr>) (it_np it) (it_prev it) (it_idx it))"

definition dictionary_it_move ::
  "dictionary \<Rightarrow> dict_it \<Rightarrow> dictionary \<Rightarrow> (dnode option \<times> dictionary \<times> dict_it \<times> dictionary) option" where
  "dictionary_it_move d it dest =
     do { (res, it1) \<leftarrow> dictionary_it_next d it;
          case it_np it of
            None \<Rightarrow> Some (res, d, it1, dest)
          | Some a \<Rightarrow>
              if d_keyspec d \<noteq> d_keyspec dest then Some (res, d, it1, dest)
              else do { np \<leftarrow> node_at d a;
                   if dict_lookup dest (nkey np) \<noteq> None then Some (res, d, it1, dest)
                   else do { d1 \<leftarrow> it_unlink (d\<lparr>d_count := d_count d - 1\<rparr>)
                                    (it_np it) (it_prev it) (it_idx it);
                        Some (res, d1, it1\<lparr>it_prev := it_prev it\<rparr>,
                              dict_push dest (nkey np) np) } } }"

section \<open>The plain iterator visits every node once\<close>

text \<open>The order of the visit: bucket numbers paired with node addresses.\<close>

fun tag :: "nat \<Rightarrow> dnode list list \<Rightarrow> (nat \<times> dnode) list" where
  "tag i [] = []"
| "tag i (ch # chs) = map (Pair i) ch @ tag (Suc i) chs"

definition slots :: "dictionary \<Rightarrow> (nat \<times> nat) list" where
  "slots d = map (\<lambda>(b, np). (b, naddr np)) (tag 0 (hashtab d))"

text \<open>The iterator stands before \<open>rest\<close>: at the start, or on the node just before it.\<close>

definition it_pos :: "dictionary \<Rightarrow> dict_it \<Rightarrow> (nat \<times> nat) list \<Rightarrow> bool" where
  "it_pos d it rest \<longleftrightarrow>
     (it_np it = None \<and> it_idx it = Some (- 1) \<and> rest = slots d) \<or>
     (\<exists>pre b a. slots d = pre @ (b, a) # rest \<and> it_np it = Some a \<and> it_idx it = Some (int b))"

lemma map_snd_tag: "map snd (tag i chs) = concat chs"
  by (induction chs arbitrary: i) (auto simp: comp_def)

lemma first_chain_tag: "first_chain i chs = (case tag i chs of [] \<Rightarrow> None | p # _ \<Rightarrow> Some p)"
  by (induction chs arbitrary: i) (auto split: list.splits)

lemma tag_split:
  assumes "tag i chs = pre @ (b, n) # post"
  shows "\<exists>A xs ys B. chs = A @ (xs @ n # ys) # B \<and> b = i + length A \<and>
           post = map (Pair b) ys @ tag (Suc b) B"
  using assms
proof (induction chs arbitrary: i pre)
  case Nil
  then show ?case by simp
next
  case (Cons ch chs)
  show ?case
  proof (cases "length pre < length ch")
    case True
    then have "(map (Pair i) ch @ tag (Suc i) chs) ! length pre = (b, n)"
      using Cons.prems by simp
    then have b: "b = i" "n = ch ! length pre" using True by (simp_all add: nth_append)
    have "post = drop (Suc (length pre)) (map (Pair i) ch @ tag (Suc i) chs)"
      using Cons.prems by simp
    then have "post = map (Pair b) (drop (Suc (length pre)) ch) @ tag (Suc b) chs"
      using True b by (simp add: drop_map)
    moreover have "ch = take (length pre) ch @ n # drop (Suc (length pre)) ch"
      using True b(2) by (simp add: id_take_nth_drop)
    ultimately show ?thesis
      using b by (intro exI [of _ "[]"] exI [of _ "take (length pre) ch"]
          exI [of _ "drop (Suc (length pre)) ch"] exI [of _ chs]) simp
  next
    case False
    then have "tag (Suc i) chs = drop (length ch) pre @ (b, n) # post"
      using Cons.prems by (metis (no_types, lifting) append_eq_append_conv_if append_eq_conv_conj
          drop_append length_map not_less tag.simps(2) diff_is_0_eq drop0)
    from Cons.IH [OF this] obtain A xs ys B where
      "chs = A @ (xs @ n # ys) # B" "b = Suc i + length A" "post = map (Pair b) ys @ tag (Suc b) B"
      by blast
    then show ?thesis by (intro exI [of _ "ch # A"] exI [of _ xs] exI [of _ ys] exI [of _ B]) simp
  qed
qed

lemma chain_next_notin: "a \<notin> naddr ` set ns \<Longrightarrow> chain_next a ns = None"
  by (induction ns) auto

lemma chain_next_split:
  "naddr n \<notin> naddr ` set xs \<Longrightarrow>
   chain_next (naddr n) (xs @ n # ys) = Some (case ys of [] \<Rightarrow> None | m # _ \<Rightarrow> Some m)"
  by (induction xs) auto

lemma table_next_split:
  assumes "naddr n \<notin> naddr ` set (concat A @ xs)"
  shows "table_next (naddr n) (A @ (xs @ n # ys) # B) = Some (case ys of [] \<Rightarrow> None | m # _ \<Rightarrow> Some m)"
  using assms
  by (induction A) (auto simp: chain_next_split chain_next_notin image_Un)

lemma slots_tag_split:
  assumes "slots d = pre @ (b, a) # rest"
  obtains pre' n post where "tag 0 (hashtab d) = pre' @ (b, n) # post" "naddr n = a"
    "rest = map (\<lambda>(b, np). (b, naddr np)) post"
  using assms
  by (auto simp: slots_def map_eq_append_conv map_eq_Cons_conv)

lemma it_next_cases:
  assumes inv: "dict_inv d h" and pos: "it_pos d it rest"
  shows "case rest of
      [] \<Rightarrow> \<exists>it'. it_next d it = Some (None, it')
    | (b, a) # rest' \<Rightarrow> \<exists>n it'. it_next d it = Some (Some n, it') \<and> n \<in> set (dict_nodes d) \<and>
        naddr n = a \<and> it_pos d it' rest' \<and> it_idx it' = Some (int b) \<and> it_np it' = Some a \<and>
        it_cmp it' = it_cmp it"
proof -
  let ?f = "\<lambda>(b, np). (b, naddr np)"
  have from_tags: ?thesis
    if qs: "rest = map ?f Q" "set (map snd Q) \<subseteq> set (dict_nodes d)" "\<exists>pre. slots d = pre @ rest"
      "case Q of [] \<Rightarrow> \<exists>it'. it_next d it = Some (None, it')
         | (b, n) # _ \<Rightarrow> \<exists>it'. it_next d it = Some (Some n, it') \<and> it_np it' = Some (naddr n) \<and>
             it_idx it' = Some (int b) \<and> it_cmp it' = it_cmp it"
    for Q
  proof (cases Q)
    case Nil
    then show ?thesis using qs by simp
  next
    case (Cons q Q')
    obtain b n where "q = (b, n)" by fastforce
    with Cons qs show ?thesis by (auto simp: it_pos_def)
  qed
  show ?thesis
  proof (cases "it_np it")
    case None
    then have "rest = slots d" "it_idx it = Some (- 1)"
      using pos by (auto simp: it_pos_def)
    with None show ?thesis
      by (intro from_tags [of "tag 0 (hashtab d)"])
         (auto simp: slots_def it_next_def first_chain_tag dict_nodes_def simp flip: map_snd_tag [of 0]
          split: list.splits)
  next
    case (Some a0)
    then obtain pre b0 where "slots d = pre @ (b0, a0) # rest" "it_idx it = Some (int b0)"
      using pos by (auto simp: it_pos_def)
    then obtain pre' n0 post where T: "tag 0 (hashtab d) = pre' @ (b0, n0) # post" "naddr n0 = a0"
      "rest = map ?f post"
      using slots_tag_split by metis
    obtain A xs ys B where S: "hashtab d = A @ (xs @ n0 # ys) # B" "b0 = length A"
      "post = map (Pair b0) ys @ tag (Suc b0) B"
      using tag_split [OF T(1)] by auto
    have "distinct (map naddr (concat (hashtab d)))"
      using inv by (simp add: dict_inv_def dict_nodes_def)
    then have "naddr n0 \<notin> naddr ` set (concat A @ xs)"
      unfolding S(1) by (auto simp: image_iff)
    then have tn: "table_next a0 (hashtab d) = Some (case ys of [] \<Rightarrow> None | m # _ \<Rightarrow> Some m)"
      unfolding S(1) T(2) [symmetric] by (rule table_next_split)
    have dr: "drop (Suc b0) (hashtab d) = B" using S by simp
    have "set (map snd post) \<subseteq> set (dict_nodes d)"
      unfolding dict_nodes_def map_snd_tag [of 0 "hashtab d", symmetric] T(1) by auto
    moreover have "nat (int b0 + 1) = Suc b0" by simp
    ultimately show ?thesis
      using T(3) Some tn dr S(3) \<open>it_idx it = Some (int b0)\<close> \<open>slots d = pre @ (b0, a0) # rest\<close>
      by (intro from_tags [of post])
         (auto simp: it_next_def first_chain_tag split: list.splits)
  qed
qed

lemma it_next_Nil: "dict_inv d h \<Longrightarrow> it_pos d it [] \<Longrightarrow> \<exists>it'. it_next d it = Some (None, it')"
  using it_next_cases [of d h it "[]"] by simp

lemma it_next_Cons:
  assumes "dict_inv d h" "it_pos d it ((b, a) # rest)"
  obtains n it' where "it_next d it = Some (Some n, it')" "n \<in> set (dict_nodes d)" "naddr n = a"
    "it_pos d it' rest" "it_idx it' = Some (int b)" "it_np it' = Some a" "it_cmp it' = it_cmp it"
  using it_next_cases [OF assms] by auto

lemma it_pos_init: "it_pos d (it_init cmp) (slots d)"
  by (simp add: it_pos_def it_init_def)

lemma slots_set_value [simp]: "slots (dict_set_value d a v) = slots d"
proof -
  have "map (\<lambda>(b, np). (b, naddr np))
      (tag i (map (map (\<lambda>np. if naddr np = a then np\<lparr>nval := v\<rparr> else np)) chs)) =
    map (\<lambda>(b, np). (b, naddr np)) (tag i chs)" for i chs
    by (induction chs arbitrary: i) auto
  then show ?thesis by (simp add: slots_def dict_set_value_def)
qed

lemma it_pos_set_value [simp]: "it_pos (dict_set_value d a v) it rest = it_pos d it rest"
  by (simp add: it_pos_def)

lemma map_snd_slots: "map snd (slots d) = map naddr (dict_nodes d)"
proof -
  have "map snd (slots d) = map naddr (map snd (tag 0 (hashtab d)))"
    by (simp add: slots_def split_def)
  then show ?thesis by (simp add: map_snd_tag dict_nodes_def)
qed

end
