(* ===== verification/Dict_Spec.thy ===== *)
theory Dict_Spec
  imports Dict_Iter
begin

text \<open>
  The properties of the hash table: it refines a finite map under every sequence of updates and
  deletions, an iteration visits every entry once, and storing a larger value over an existing
  key has no defined result.
\<close>

section \<open>Refinement of a finite map\<close>

datatype dict_op = Put "u8 list" "u8 list" | Del "u8 list"

fun op_key :: "dict_op \<Rightarrow> u8 list" where
  "op_key (Put k v) = k"
| "op_key (Del k) = k"

fun op_ok :: "u32 \<Rightarrow> dict_op \<Rightarrow> bool" where
  "op_ok keyspec (Put k v) \<longleftrightarrow> dict_key_ok keyspec k \<and> length v < 2 ^ 32"
| "op_ok keyspec (Del k) \<longleftrightarrow> dict_key_ok keyspec k"

text \<open>A client that updates a key as the volume does: remove it, then store it anew.\<close>

fun dict_step :: "dict_op \<Rightarrow> dictionary \<times> heap \<Rightarrow> (dictionary \<times> heap) option" where
  "dict_step (Put k v) (d, h) =
     do { (np, d, h) \<leftarrow> dictionary_replace (snd (dictionary_remove d k)) k v (of_nat (length v)) h;
          Some (d, h) }"
| "dict_step (Del k) (d, h) = Some (snd (dictionary_remove d k), h)"

fun dict_run :: "dict_op list \<Rightarrow> dictionary \<times> heap \<Rightarrow> (dictionary \<times> heap) option" where
  "dict_run [] dh = Some dh"
| "dict_run (op # ops) dh = do { dh \<leftarrow> dict_step op dh; dict_run ops dh }"

fun map_step :: "dict_op \<Rightarrow> (u8 list \<rightharpoonup> u8 list) \<Rightarrow> (u8 list \<rightharpoonup> u8 list)" where
  "map_step (Put k v) m = m(k \<mapsto> v)"
| "map_step (Del k) m = m(k := None)"

lemma dict_step_refines:
  assumes "dict_inv d h" "plenty h" "op_ok (d_keyspec d) op"
  obtains d' h' where "dict_step op (d, h) = Some (d', h')" "dict_inv d' h'" "plenty h'"
    "d_keyspec d' = d_keyspec d" "dict_map d' = map_step op (dict_map d)"
proof (cases op)
  case (Put k v)
  then have k: "dict_key_ok (d_keyspec d) k" and v: "length v = unat (of_nat (length v) :: u32)"
    using assms(3) by (auto simp: unat_of_nat_u32)
  obtain np d' h' d'' where
    i: "dictionary_install_size (snd (dictionary_remove d k)) k (of_nat (length v)) h = (Some np, d', h')"
    and w: "dict_write_value d' (naddr np) 0 v = Some d''" and
    r: "dict_inv d'' h'" "plenty h'" "d_keyspec d'' = d_keyspec d"
    "dict_map d'' = (dict_map d)(k \<mapsto> v)"
    using dict.replace_value [OF assms(1) k assms(2) v] by metis
  have "dict_step op (d, h) = Some (d'', h')"
    using i w v by (simp add: Put dictionary_replace_def buf_read_def)
  with r that show ?thesis by (simp add: Put)
next
  case (Del k)
  then show ?thesis
    using that assms dictionary_remove_map [OF assms(1), of k] by simp
qed

lemma dict_run_refines:
  assumes "dict_inv d h" "plenty h" "list_all (op_ok (d_keyspec d)) ops"
  shows "\<exists>d' h'. dict_run ops (d, h) = Some (d', h') \<and> dict_inv d' h' \<and> plenty h' \<and>
    dict_map d' = fold map_step ops (dict_map d)"
  using assms
proof (induction ops arbitrary: d h)
  case Nil
  then show ?case by simp
next
  case (Cons op ops)
  then have "op_ok (d_keyspec d) op" by simp
  from dict_step_refines [OF Cons.prems(1,2) this] obtain d' h' where
    s: "dict_step op (d, h) = Some (d', h')" "dict_inv d' h'" "plenty h'"
    "d_keyspec d' = d_keyspec d" "dict_map d' = map_step op (dict_map d)" .
  have "list_all (op_ok (d_keyspec d')) ops"
    using Cons.prems(3) s(4) by simp
  from Cons.IH [OF s(2,3) this] s show ?case by auto
qed

section \<open>Iteration\<close>

text \<open>The loop of a client: from the first node to the end.\<close>

partial_function (option) walk :: "dictionary \<Rightarrow> dnode option \<Rightarrow> dict_it \<Rightarrow> dnode list option" where
  "walk d m it =
     (case m of
        None \<Rightarrow> Some []
      | Some np \<Rightarrow>
          do { (m, it) \<leftarrow> dictionary_it_next d it;
               ns \<leftarrow> walk d m it;
               Some (np # ns) })"

definition walk_all :: "dictionary \<Rightarrow> dnode list option" where
  "walk_all d = do { (m, it) \<leftarrow> dictionary_it_first d None; walk d m it }"

lemma walk_pos:
  assumes "dict_inv d h" "it_pos d it rest" "it_cmp it = None"
  shows "\<exists>ns m it'. it_next d it = Some (m, it') \<and> walk d m it' = Some ns \<and>
    set ns \<subseteq> set (dict_nodes d) \<and> map naddr ns = map snd rest"
  using assms(2,3)
proof (induction rest arbitrary: it)
  case Nil
  then show ?case using it_next_Nil [OF assms(1)] by (force simp: walk.simps)
next
  case (Cons p rest)
  obtain b a where p: "p = (b, a)" by fastforce
  obtain n it' where n: "it_next d it = Some (Some n, it')" "n \<in> set (dict_nodes d)" "naddr n = a"
    "it_pos d it' rest" "it_cmp it' = None"
    using it_next_Cons [OF assms(1)] Cons.prems unfolding p by metis
  from Cons.IH [OF n(4,5)] obtain ns m it'' where
    "it_next d it' = Some (m, it'')" "walk d m it'' = Some ns" "set ns \<subseteq> set (dict_nodes d)"
    "map naddr ns = map snd rest" by blast
  then have "walk d (Some n) it' = Some (n # ns)" "set (n # ns) \<subseteq> set (dict_nodes d)"
    "map naddr (n # ns) = map snd (p # rest)"
    using n by (simp_all add: walk.simps dictionary_it_next_def p)
  with n(1) show ?case by blast
qed

lemma map_naddr_inject:
  assumes "dict_inv d h" "set xs \<subseteq> set (dict_nodes d)" "set ys \<subseteq> set (dict_nodes d)"
    "map naddr xs = map naddr ys"
  shows "xs = ys"
  using assms(2-)
proof (induction xs arbitrary: ys)
  case (Cons x xs)
  then obtain y ys' where "ys = y # ys'" by (cases ys) auto
  with Cons dict_inv_addr_unique [OF assms(1)] show ?case by auto
qed simp

lemma walk_all_nodes: "dict_inv d h \<Longrightarrow> walk_all d = Some (dict_nodes d)"
proof -
  assume inv: "dict_inv d h"
  obtain ns m it where n: "it_next d (it_init None) = Some (m, it)" "walk d m it = Some ns"
    "set ns \<subseteq> set (dict_nodes d)" "map naddr ns = map snd (slots d)"
    using walk_pos [OF inv it_pos_init] by (auto simp: it_init_def)
  then have "ns = dict_nodes d"
    using map_naddr_inject [OF inv, of ns "dict_nodes d"] by (simp add: map_snd_slots)
  with n show ?thesis by (simp add: walk_all_def dictionary_it_first_def)
qed

section \<open>Properties\<close>

text \<open>
  A small dictionary for the witnesses: binary keys of one 32-bit word, three buckets.
\<close>

definition wit_heap :: heap where
  "wit_heap = \<lparr>allocs = [], junk = (\<lambda>a i. of_nat (7 * a + i)), next_addr = 0\<rparr>"

definition wit_dict :: dictionary where
  "wit_dict = \<lparr>d_hashsize = 3, d_keyspec = DICTIONARY_KEYSPEC_UINT, d_count = 1,
     hashtab = [[], [\<lparr>naddr = 0, nkey = [1, 0, 0, 0], nval = [7]\<rparr>], []]\<rparr>"

lemma wit_dict_inv: "dict_inv wit_dict (wit_heap\<lparr>next_addr := 1\<rparr>)"
  by (simp add: dict_inv_def wit_dict_def wit_heap_def dict_nodes_def dict_hash_def
      dict_keytype_def keyspec_defs dictionary_binary_key_hash_def DICTIONARY_KEY_SIZE_def
      dict_key_ok_def All_less_Suc)

lemma wit_heap_plenty [simp]: "plenty wit_heap" "plenty (wit_heap\<lparr>next_addr := 1\<rparr>)"
  by (simp_all add: plenty_def wit_heap_def)

text \<open>
  C20: The dictionary implements a finite map.  From any well-formed table and with memory
  available, every sequence of updates (remove the key, then store key and value) and deletions
  has a defined result, keeps the table well formed, and leaves exactly the map that the same
  operations leave on an abstract map; looking a key up then returns what the map holds, and the
  counter is the number of keys.
\<close>

theorem dictionary_refines_map:
  assumes "dict_inv d h" "plenty h" "list_all (op_ok (d_keyspec d)) ops"
  shows "\<exists>d' h'. dict_run ops (d, h) = Some (d', h') \<and> dict_inv d' h' \<and>
    dict_map d' = fold map_step ops (dict_map d) \<and>
    (\<forall>k. dict_key_ok (d_keyspec d') k \<longrightarrow>
       map_option nval (dictionary_get d' k) = fold map_step ops (dict_map d) k) \<and>
    dictionary_count d' = of_nat (card (dom (fold map_step ops (dict_map d))))"
  using dict_run_refines [OF assms] dict.get_map dict.cnt_card by metis

theorem dictionary_refines_map_witness:
  "\<exists>d' h'. dict_run [Put [4, 0, 0, 0] [1, 2], Del [1, 0, 0, 0]]
      (wit_dict, wit_heap\<lparr>next_addr := 1\<rparr>) = Some (d', h') \<and>
    dict_map d' = [[4, 0, 0, 0] \<mapsto> [1, 2]]"
proof -
  have ops: "list_all (op_ok (d_keyspec wit_dict)) [Put [4, 0, 0, 0] [1, 2], Del [1, 0, 0, 0]]"
    by (simp add: wit_dict_def dict_key_ok_def dict_keytype_def keyspec_defs DICTIONARY_KEY_SIZE_def)
  have m: "dict_map wit_dict = [[1, 0, 0, 0] \<mapsto> [7]]"
    by (simp add: dict_map_def dict_nodes_def wit_dict_def)
  have "(Map.empty :: u8 list \<rightharpoonup> u8 list)([1, 0, 0, 0] \<mapsto> [7], [4, 0, 0, 0] \<mapsto> [1, 2], [1, 0, 0, 0] := None)
      = [[4, 0, 0, 0] \<mapsto> [1, 2]]"
    by (rule ext) simp
  with dictionary_refines_map [OF wit_dict_inv wit_heap_plenty(2) ops] m show ?thesis by auto
qed

text \<open>
  Iterating with \<^verbatim>\<open>dictionary_it_first\<close> and \<^verbatim>\<open>dictionary_it_next\<close> ends, never follows a
  dangling pointer, and visits every node of the table exactly once: the visited keys are
  distinct and the visited pairs are exactly the map.
\<close>

theorem dictionary_iteration_complete:
  assumes "dict_inv d h"
  shows "\<exists>ns. walk_all d = Some ns \<and> distinct (map nkey ns) \<and>
    map_of (map (\<lambda>np. (nkey np, nval np)) ns) = dict_map d"
  using walk_all_nodes [OF assms] assms by (auto simp: dict_inv_def dict_map_def)

theorem dictionary_iteration_complete_witness:
  "\<exists>ns. walk_all wit_dict = Some ns \<and> distinct (map nkey ns) \<and>
    map_of (map (\<lambda>np. (nkey np, nval np)) ns) = dict_map wit_dict"
  by (rule dictionary_iteration_complete [OF wit_dict_inv])

text \<open>
  C24: \<^verbatim>\<open>dictionary_replace\<close> does not resize: with a key that is present and a value longer than
  the stored one it writes past the end of the node, so it has no defined result.
\<close>

theorem dictionary_replace_overflow:
  assumes "dict_inv d h" "dict_key_ok (d_keyspec d) k" "dict_map d k = Some old"
    "length old < unat n" "unat n \<le> length v"
  shows "dictionary_replace d k v n h = None"
proof -
  obtain np where np: "dict_lookup d k = Some np" "nval np = old"
    using dict_map_lookup [OF assms(1,2)] assms(3) by (cases "dict_lookup d k") auto
  then have "np \<in> set (dict_nodes d)" using dict_lookup_Some_iff [OF assms(1,2)] by blast
  from node_at_Some [OF assms(1) this] np assms(4,5) show ?thesis
    by (simp add: dictionary_replace_def dictionary_install_size_def dict_write_value_def
        buf_read_def buf_write_def)
qed

theorem dictionary_replace_overflow_witness:
  "dictionary_replace wit_dict [1, 0, 0, 0] [1, 2] 2 (wit_heap\<lparr>next_addr := 1\<rparr>) = None"
  by (rule dictionary_replace_overflow [OF wit_dict_inv, where old = "[7]"])
     (simp_all add: wit_dict_def dict_map_def dict_nodes_def dict_key_ok_def dict_keytype_def keyspec_defs
        DICTIONARY_KEY_SIZE_def)

end
