(* ===== verification/Flash_Interface.thy ===== *)
theory Flash_Interface
  imports Nvol_Prelude
begin

text \<open>
  The FLASH access interface \<^verbatim>\<open>NVOL3_FLASH_IF_T\<close> of \<^verbatim>\<open>src/nvram/nvol3.h\<close>: three
  function pointers, modelled as a record of functions over the driver's device state, and the
  contract the volume code relies on, stated as a locale.

  The contract speaks about \<open>mem\<close>, the byte at each address.  A read below \<open>size\<close> returns the
  bytes, a program operation stores the AND of old and new bytes (bits are only cleared), an
  erase sets bytes to \<open>0xFF\<close>.  The bounds are strict, as in \<^verbatim>\<open>ramdrv.c\<close>, whose operations
  never reach the last byte of the device.
\<close>

unbundle bit_operations_syntax

record 'f flash_ops =
  f_read :: "'f \<Rightarrow> u32 \<Rightarrow> u32 \<Rightarrow> (status \<times> u8 list) option"
  f_write :: "'f \<Rightarrow> u32 \<Rightarrow> u32 \<Rightarrow> u8 list \<Rightarrow> (status \<times> 'f) option"
  f_erase :: "'f \<Rightarrow> u32 \<Rightarrow> u32 \<Rightarrow> (status \<times> 'f) option"

definition bytes_at :: "(nat \<Rightarrow> u8) \<Rightarrow> nat \<Rightarrow> nat \<Rightarrow> u8 list" where
  "bytes_at m a n = map m [a..<a + n]"

definition and_bytes :: "u8 list \<Rightarrow> u8 list \<Rightarrow> u8 list" where
  "and_bytes xs ys = map2 (AND) xs ys"

lemma length_bytes_at [simp]: "length (bytes_at m a n) = n"
  by (simp add: bytes_at_def)

lemma bytes_at_cong: "(\<And>x. a \<le> x \<Longrightarrow> x < a + n \<Longrightarrow> m x = m' x) \<Longrightarrow> bytes_at m a n = bytes_at m' a n"
  by (simp add: bytes_at_def)

lemma take_bytes_at: "k \<le> n \<Longrightarrow> take k (bytes_at m a n) = bytes_at m a k"
  by (simp add: bytes_at_def take_map_upt min_def)

lemma drop_bytes_at: "k \<le> n \<Longrightarrow> drop k (bytes_at m a n) = bytes_at m (a + k) (n - k)"
  by (simp add: bytes_at_def drop_map_upt)

lemma bytes_at_append: "bytes_at m a (j + k) = bytes_at m a j @ bytes_at m (a + j) k"
  using upt_add_eq_append [of a "a + j" k] by (simp add: bytes_at_def add.assoc)

lemma nth_bytes_at [simp]: "i < n \<Longrightarrow> bytes_at m a n ! i = m (a + i)"
  by (simp add: bytes_at_def)

lemma bytes_at_eq_iff: "bytes_at m a n = bytes_at m' a n \<longleftrightarrow> (\<forall>x. a \<le> x \<and> x < a + n \<longrightarrow> m x = m' x)"
  by (auto simp: bytes_at_def)

lemma and_bytes_blank: "length xs = length ys \<Longrightarrow> set xs \<subseteq> {- 1} \<Longrightarrow> and_bytes xs ys = ys"
  unfolding and_bytes_def
  by (induction xs ys rule: list_induct2) auto

locale flash_driver =
  fixes ops :: "'f flash_ops"
    and mem :: "'f \<Rightarrow> nat \<Rightarrow> u8"
    and prog :: "'f \<Rightarrow> nat \<Rightarrow> u8 list \<Rightarrow> 'f"
    and blank :: "'f \<Rightarrow> nat \<Rightarrow> nat \<Rightarrow> 'f"
    and size :: nat
  assumes size_u32: "size \<le> 2 ^ 32"
    and drv_read: "unat a + unat n < size \<Longrightarrow>
          f_read ops f a n = Some (EOK, bytes_at (mem f) (unat a) (unat n))"
    and drv_write: "unat a + unat n < size \<Longrightarrow> length ds = unat n \<Longrightarrow>
          f_write ops f a n ds = Some (EOK, prog f (unat a) ds)"
    and drv_erase: "unat a \<le> unat b \<Longrightarrow> unat a < size \<Longrightarrow>
          f_erase ops f a b = Some (EOK, blank f (unat a) (unat b))"
    and mem_prog: "mem (prog f p ds) x =
          (if p \<le> x \<and> x < p + length ds then mem f x AND ds ! (x - p) else mem f x)"
    and mem_blank: "x < size - 1 \<Longrightarrow>
          mem (blank f p q) x = (if p \<le> x \<and> x < q then - 1 else mem f x)"
begin

lemma prog_frame:
  "a + n \<le> p \<or> p + length ds \<le> a \<Longrightarrow> bytes_at (mem (prog f p ds)) a n = bytes_at (mem f) a n"
  by (rule bytes_at_cong) (auto simp: mem_prog)

lemma prog_bytes:
  assumes "p \<le> a" "a + n \<le> p + length ds"
  shows "bytes_at (mem (prog f p ds)) a n =
         and_bytes (bytes_at (mem f) a n) (take n (drop (a - p) ds))"
  by (rule nth_equalityI) (use assms in \<open>auto simp: mem_prog and_bytes_def\<close>)

lemma prog_blank_bytes:
  assumes "set (bytes_at (mem f) p (length ds)) \<subseteq> {- 1}"
  shows "bytes_at (mem (prog f p ds)) p (length ds) = ds"
  using prog_bytes [of p p "length ds" ds f] assms
  by (simp add: and_bytes_blank)

lemma prog_only_clears:
  "mem (prog f p ds) x AND mem f x = mem (prog f p ds) x"
  by (simp add: mem_prog and.assoc and.commute and.left_commute)

lemma blank_frame:
  assumes "a + n < size" "a + n \<le> p \<or> q \<le> a"
  shows "bytes_at (mem (blank f p q)) a n = bytes_at (mem f) a n"
  by (rule bytes_at_cong) (use assms in \<open>auto simp: mem_blank\<close>)

lemma blank_bytes:
  assumes "a + n < size" "p \<le> a" "a + n \<le> q"
  shows "bytes_at (mem (blank f p q)) a n = replicate n (- 1)"
  by (rule nth_equalityI) (use assms in \<open>auto simp: mem_blank\<close>)

end

end
