(* ===== verification/Nvol_Flash.thy ===== *)
theory Nvol_Flash
  imports Flash_Interface Dict_Iter
begin

text \<open>
  The volume of \<^verbatim>\<open>src/nvram/nvol3.h\<close> and \<^verbatim>\<open>nvol3.c\<close>: its configuration, the instance
  kept in RAM, the packed records on FLASH, and the low-level functions that read and write
  sector headers, record headers and records.

  An operation works on a state of type \<open>'f nvol\<close>: the device, the allocator and the
  instance.  A record buffer that the C code passes by pointer is passed and returned by value;
  \<open>key_and_data\<close> is the whole buffer behind the header, whose size bounds every access.
\<close>

unbundle bit_operations_syntax

section \<open>Records, entries, configuration, instance\<close>

definition NVOL3_PAGE_SIZE :: u32 where "NVOL3_PAGE_SIZE = 0x20"
definition NVOL3_HEADROOM :: u32 where "NVOL3_HEADROOM = 0x04"
definition NVOL3_INVALID_VAR_IDX :: u16 where "NVOL3_INVALID_VAR_IDX = - 1"
definition NVOL3_SECTOR_VERSION :: u16 where "NVOL3_SECTOR_VERSION = 0x0155"
definition NVOL3_SECTOR_VERSION_0 :: u16 where "NVOL3_SECTOR_VERSION_0 = 0x0000"

definition NVOL3_RECORD_FLAGS_EMPTY :: u16 where "NVOL3_RECORD_FLAGS_EMPTY = 0xFFFF"
definition NVOL3_RECORD_FLAGS_NEW :: u16 where "NVOL3_RECORD_FLAGS_NEW = 0xAFFF"
definition NVOL3_RECORD_FLAGS_VALID :: u16 where "NVOL3_RECORD_FLAGS_VALID = 0xAAAF"
definition NVOL3_RECORD_FLAGS_INVALID :: u16 where "NVOL3_RECORD_FLAGS_INVALID = 0x0000"

lemmas record_flags_defs = NVOL3_RECORD_FLAGS_EMPTY_def NVOL3_RECORD_FLAGS_NEW_def
  NVOL3_RECORD_FLAGS_VALID_def NVOL3_RECORD_FLAGS_INVALID_def

definition NVOL3_SECTOR_EMPTY :: u32 where "NVOL3_SECTOR_EMPTY = 0xFFFFFFFF"
definition NVOL3_SECTOR_INITIALIZING :: u32 where "NVOL3_SECTOR_INITIALIZING = 0xAAFFFFFF"
definition NVOL3_SECTOR_VALID :: u32 where "NVOL3_SECTOR_VALID = 0xAAAAFFFF"
definition NVOL3_SECTOR_INVALID :: u32 where "NVOL3_SECTOR_INVALID = 0xAAAAAAAA"

lemmas sector_flags_defs = NVOL3_SECTOR_EMPTY_def NVOL3_SECTOR_INITIALIZING_def
  NVOL3_SECTOR_VALID_def NVOL3_SECTOR_INVALID_def

record nvol_head =
  h_flags :: u16
  h_length :: u16
  h_checksum :: u16
  h_reserved :: u16

record nvol_record =
  head :: nvol_head
  key_and_data :: "u8 list"

record nvol_entry =
  e_idx :: u16
  e_length :: u16
  e_local :: "u8 list"

record nvol_inst =
  i_version :: u16
  i_next_idx :: u16
  i_sector :: u32
  i_dict :: "dictionary option"
  i_inuse :: u32
  i_invalid :: u32
  i_error :: u32

record 'f nvol_config =
  c_flash :: "'f flash_ops"
  c_sector1_addr :: u32
  c_sector2_addr :: u32
  c_sector_size :: u32
  c_record_size :: u16
  c_local_size :: u16
  c_key_size :: u16
  c_hashsize :: u16
  c_keyspec :: u32
  c_version :: u16
  c_write_cb :: "(nvol_inst \<Rightarrow> nvol_record \<Rightarrow> u32 \<Rightarrow> status) option"
  c_ctx :: u32

record 'f nvol =
  dev :: 'f
  hp :: heap
  inst :: nvol_inst

definition upd_inst :: "(nvol_inst \<Rightarrow> nvol_inst) \<Rightarrow> 'f nvol \<Rightarrow> 'f nvol" where
  "upd_inst f s = s\<lparr>inst := f (inst s)\<rparr>"

lemma upd_inst_simps [simp]:
  "dev (upd_inst f s) = dev s" "hp (upd_inst f s) = hp s" "inst (upd_inst f s) = f (inst s)"
  by (simp_all add: upd_inst_def)

definition nvol3_callback_tallie :: "nvol_inst \<Rightarrow> nvol_record \<Rightarrow> u32 \<Rightarrow> status" where
  "nvol3_callback_tallie i r ctx = EOK"

text \<open>The packed layouts; the machine is little-endian.\<close>

definition SIZEOF_HEAD :: u32 where "SIZEOF_HEAD = 8"
definition SIZEOF_ENTRY :: u32 where "SIZEOF_ENTRY = 4"

definition enc_head :: "nvol_head \<Rightarrow> u8 list" where
  "enc_head h = le16 (h_flags h) @ le16 (h_length h) @ le16 (h_checksum h) @ le16 (h_reserved h)"

definition dec_head :: "u8 list \<Rightarrow> nvol_head" where
  "dec_head bs = \<lparr>h_flags = rd16 bs, h_length = rd16 (drop 2 bs), h_checksum = rd16 (drop 4 bs),
                  h_reserved = rd16 (drop 6 bs)\<rparr>"

definition enc_entry :: "u16 \<Rightarrow> u16 \<Rightarrow> u8 list \<Rightarrow> u8 list" where
  "enc_entry idx len local = le16 idx @ le16 len @ local"

definition dec_entry :: "u8 list \<Rightarrow> nvol_entry option" where
  "dec_entry v =
     (if length v < 4 then None
      else Some \<lparr>e_idx = rd16 v, e_length = rd16 (drop 2 v), e_local = drop 4 v\<rparr>)"

text \<open>A scratch record in freshly allocated memory of \<open>record_size\<close> bytes.\<close>

definition fresh_record :: "'f nvol_config \<Rightarrow> heap \<Rightarrow> nat \<Rightarrow> nvol_record" where
  "fresh_record c h a =
     (let bs = fresh_bytes h a (unat (c_record_size c))
      in \<lparr>head = dec_head bs, key_and_data = drop 8 bs\<rparr>)"

definition zero_head :: nvol_head where
  "zero_head = \<lparr>h_flags = 0, h_length = 0, h_checksum = 0, h_reserved = 0\<rparr>"

section \<open>Low-level FLASH access\<close>

definition max_records :: "'f nvol_config \<Rightarrow> u32 option" where
  "max_records c =
     (if c_record_size c = 0 then None
      else Some ((c_sector_size c - NVOL3_PAGE_SIZE) div ucast (c_record_size c)))"

definition record_offset :: "'f nvol_config \<Rightarrow> u16 \<Rightarrow> u32" where
  "record_offset c idx = NVOL3_PAGE_SIZE + ucast (c_record_size c) * ucast idx"

text \<open>Sizes are compared in the type of \<^verbatim>\<open>sizeof\<close>, 64 bits wide.\<close>

definition record_room :: "'f nvol_config \<Rightarrow> u64" where
  "record_room c = ucast (c_record_size c) - 8"

definition get_sector_version :: "'f nvol_config \<Rightarrow> u32 \<Rightarrow> 'f nvol \<Rightarrow> (u16 \<times> u32) option" where
  "get_sector_version c sector_addr s =
     do { (status, bs) \<leftarrow> f_read (c_flash c) (dev s) sector_addr 16;
          if status \<noteq> EOK then Some (NVOL3_SECTOR_VERSION_0, 0)
          else Some (ucast (NOT (rd32 (drop 12 bs))), rd32 bs) }"

definition sector_record :: "'f nvol_config \<Rightarrow> u32 \<Rightarrow> u8 list" where
  "sector_record c flags =
     le32 flags @ replicate 8 0x55 @ le32 (NOT (ucast (c_version c)))"

definition set_sector_flags ::
  "'f nvol_config \<Rightarrow> u32 \<Rightarrow> u32 \<Rightarrow> 'f nvol \<Rightarrow> (status \<times> 'f nvol) option" where
  "set_sector_flags c sector_addr flags s =
     do { (res, d) \<leftarrow> f_write (c_flash c) (dev s) sector_addr 16 (sector_record c flags);
          let s = s\<lparr>dev := d\<rparr>;
          _ \<leftarrow> get_sector_version c sector_addr s;
          Some (res, s) }"

definition erase_sector ::
  "'f nvol_config \<Rightarrow> u32 \<Rightarrow> u32 \<Rightarrow> 'f nvol \<Rightarrow> (status \<times> 'f nvol) option" where
  "erase_sector c sector_addr sector_size s =
     do { (status, d) \<leftarrow> f_erase (c_flash c) (dev s) sector_addr (sector_addr + sector_size);
          Some (status, s\<lparr>dev := d\<rparr>) }"

definition head_status :: "'f nvol_config \<Rightarrow> nvol_head \<Rightarrow> status" where
  "head_status c h =
     (if h_flags h = NVOL3_RECORD_FLAGS_EMPTY then E_EMPTY
      else if h_flags h \<noteq> NVOL3_RECORD_FLAGS_VALID
           then (if h_flags h = NVOL3_RECORD_FLAGS_INVALID then E_INVALID else E_UNKNOWN)
      else if ucast (h_length h) > record_room c then E_UNKNOWN
      else EOK)"

definition read_variable_record_head_sector ::
  "'f nvol_config \<Rightarrow> u32 \<Rightarrow> nvol_head \<Rightarrow> u16 \<Rightarrow> 'f nvol \<Rightarrow> (status \<times> nvol_head) option" where
  "read_variable_record_head_sector c sector_addr h idx s =
     do { mx \<leftarrow> max_records c;
          if \<not> ucast idx < mx then Some (EFAIL, h)
          else do {
            (status, bs) \<leftarrow> f_read (c_flash c) (dev s) (sector_addr + record_offset c idx) SIZEOF_HEAD;
            if status \<noteq> EOK then Some (status, h)
            else Some (head_status c (dec_head bs), dec_head bs) } }"

definition read_variable_record_head ::
  "'f nvol_config \<Rightarrow> nvol_head \<Rightarrow> u16 \<Rightarrow> 'f nvol \<Rightarrow> (status \<times> nvol_head) option" where
  "read_variable_record_head c h idx s =
     read_variable_record_head_sector c (i_sector (inst s)) h idx s"

definition read_variable_record ::
  "'f nvol_config \<Rightarrow> nvol_record \<Rightarrow> u16 \<Rightarrow> u32 \<Rightarrow> 'f nvol \<Rightarrow> (status \<times> nvol_record) option" where
  "read_variable_record c rec idx bytes s =
     do { mx \<leftarrow> max_records c;
          if \<not> ucast idx < mx then Some (EFAIL, rec)
          else do {
            (status, bs) \<leftarrow> f_read (c_flash c) (dev s)
                              (i_sector (inst s) + record_offset c idx) SIZEOF_HEAD;
            if status \<noteq> EOK then Some (status, rec)
            else let rec = rec\<lparr>head := dec_head bs\<rparr>; len = ucast (h_length (head rec)) in
              if head_status c (head rec) \<noteq> EOK then Some (head_status c (head rec), rec)
              else if len = 0 then Some (EOK, rec)
              else do {
                let bytes = (if bytes = 0 then len else if bytes > len then len else bytes);
                (status, ds) \<leftarrow> f_read (c_flash c) (dev s)
                                  (i_sector (inst s) + (record_offset c idx + SIZEOF_HEAD)) bytes;
                if status \<noteq> EOK then Some (status, rec)
                else do {
                  kd \<leftarrow> buf_write (key_and_data rec) 0 ds;
                  Some (status, rec\<lparr>key_and_data := kd\<rparr>) } } } }"

definition write_variable_record ::
  "'f nvol_config \<Rightarrow> u32 \<Rightarrow> nvol_record \<Rightarrow> u16 \<Rightarrow> 'f nvol \<Rightarrow> (status \<times> 'f nvol) option" where
  "write_variable_record c sector_addr rec idx s =
     do { mx \<leftarrow> max_records c;
          if \<not> ucast idx < mx then Some (EFAIL, s)
          else if h_flags (head rec) = 0 then Some (EFAIL, s)
          else do {
            data \<leftarrow> buf_read (key_and_data rec) 0 (unat (h_length (head rec)));
            (status, d) \<leftarrow> f_write (c_flash c) (dev s) (sector_addr + record_offset c idx)
                             (ucast (h_length (head rec)) + SIZEOF_HEAD) (enc_head (head rec) @ data);
            Some (status, s\<lparr>dev := d\<rparr>) } }"

definition set_variable_record_flags ::
  "'f nvol_config \<Rightarrow> u32 \<Rightarrow> u16 \<Rightarrow> u16 \<Rightarrow> 'f nvol \<Rightarrow> (status \<times> 'f nvol) option" where
  "set_variable_record_flags c sector_addr flags idx s =
     do { mx \<leftarrow> max_records c;
          if \<not> ucast idx < mx then Some (EFAIL, s)
          else do {
            (status, d) \<leftarrow> f_write (c_flash c) (dev s) (sector_addr + record_offset c idx) 2 (le16 flags);
            Some (status, s\<lparr>dev := d\<rparr>) } }"

text \<open>The 16-bit checksum: the two's complement of the sum of the key and data bytes.\<close>

definition byte_sum :: "u8 list \<Rightarrow> u16" where
  "byte_sum bs = foldl (\<lambda>sum b. sum + ucast b) 0 bs"

definition record_checksum :: "u8 list \<Rightarrow> u16" where
  "record_checksum bs = 0x10000 - byte_sum bs"

definition variable_record_valid :: "nvol_record \<Rightarrow> status option" where
  "variable_record_valid rec =
     do { bs \<leftarrow> buf_read (key_and_data rec) 0 (unat (h_length (head rec)));
          Some (if h_checksum (head rec) \<noteq> record_checksum bs then E_INVALID else EOK) }"

end
