(* ===== verification/Nvol_Volume.thy ===== *)
theory Nvol_Volume
  imports Nvol_Flash
begin

text \<open>
  The volume operations of \<^verbatim>\<open>src/nvram/nvol3.c\<close> that rebuild state: the lookup table in
  RAM (\<open>insert_lookup_table\<close>, \<open>construct_lookup_table\<close>), moving and swapping sectors, and
  loading, validating, resetting, repairing and unloading a volume.  Log messages are left
  out.  A loop is a \<^theory_text>\<open>partial_function\<close>: no result if it does not end.
\<close>

unbundle bit_operations_syntax

section \<open>The lookup table\<close>

text \<open>The dictionary of the instance: a null pointer or an empty hash table traps.\<close>

definition loaded_dict :: "'f nvol \<Rightarrow> dictionary option" where
  "loaded_dict s =
     (case i_dict (inst s) of
        None \<Rightarrow> None
      | Some d \<Rightarrow> if d_hashsize d = 0 then None else Some d)"

definition set_dict :: "dictionary \<Rightarrow> 'f nvol \<Rightarrow> 'f nvol" where
  "set_dict d s = upd_inst (\<lambda>i. i\<lparr>i_dict := Some d\<rparr>) s"

definition insert_lookup_table ::
  "'f nvol_config \<Rightarrow> nvol_record \<Rightarrow> u16 \<Rightarrow> 'f nvol \<Rightarrow> (status \<times> 'f nvol) option" where
  "insert_lookup_table c rec idx s =
     do { d \<leftarrow> loaded_dict s;
          let localsize = (ucast (h_length (head rec)) - ucast (c_key_size c) :: u32);
          let localsize = (if localsize > ucast (c_local_size c) then 0 else localsize);
          key \<leftarrow> dict_key_at (d_keyspec d) (key_and_data rec);
          let d = snd (dictionary_remove d key);
          case dictionary_install_size d key (SIZEOF_ENTRY + localsize) (hp s) of
            (None, d, h) \<Rightarrow> Some (E_NOMEM, (set_dict d s)\<lparr>hp := h\<rparr>)
          | (Some np, d, h) \<Rightarrow>
              do { local \<leftarrow> buf_read (key_and_data rec) (unat (c_key_size c)) (unat localsize);
                   d \<leftarrow> dict_write_value d (naddr np) 0
                          (enc_entry idx (h_length (head rec) - c_key_size c) local);
                   Some (EOK, (set_dict d s)\<lparr>hp := h\<rparr>) } }"

definition count_invalid :: "'f nvol \<Rightarrow> 'f nvol" where
  "count_invalid s = upd_inst (\<lambda>i. i\<lparr>i_invalid := i_invalid i + 1\<rparr>) s"
definition count_error :: "'f nvol \<Rightarrow> 'f nvol" where
  "count_error s = upd_inst (\<lambda>i. i\<lparr>i_error := i_error i + 1\<rparr>) s"
definition count_inuse :: "'f nvol \<Rightarrow> 'f nvol" where
  "count_inuse s = upd_inst (\<lambda>i. i\<lparr>i_inuse := i_inuse i + 1\<rparr>) s"

text \<open>The loop of \<^verbatim>\<open>construct_lookup_table\<close>; \<open>st\<close> is \<^verbatim>\<open>status\<close>, at first uninitialised.\<close>

partial_function (option) construct_loop ::
  "'f nvol_config \<Rightarrow> nvol_record \<Rightarrow> u16 \<Rightarrow> status option \<Rightarrow> 'f nvol \<Rightarrow>
   (status option \<times> u16 \<times> nvol_record \<times> 'f nvol) option" where
  "construct_loop c scratch idx st s =
     do { mx \<leftarrow> max_records c;
          if \<not> ucast idx < mx then Some (st, idx, scratch, s)
          else do {
            (status, scratch) \<leftarrow> read_variable_record c scratch idx 0 s;
            if status = E_EMPTY then Some (Some EOK, idx, scratch, s)
            else if status = E_TIMEOUT
                 then construct_loop c scratch (idx + 1) (Some EOK) (count_invalid s)
            else if status = E_INVALID
                 then construct_loop c scratch (idx + 1) (Some EOK) (count_invalid s)
            else if status \<noteq> EOK
                 then construct_loop c scratch (idx + 1) (Some EOK) (count_error s)
            else do {
              v \<leftarrow> variable_record_valid scratch;
              if v = EOK
              then do {
                (status, s) \<leftarrow> insert_lookup_table c scratch idx s;
                if status \<noteq> EOK then Some (Some status, idx, scratch, s)
                else construct_loop c scratch (idx + 1) (Some status) (count_inuse s) }
              else do {
                (_, s) \<leftarrow> set_variable_record_flags c (i_sector (inst s))
                            NVOL3_RECORD_FLAGS_INVALID idx s;
                construct_loop c scratch (idx + 1) (Some status)
                  (count_invalid (count_error s)) } } } }"

definition construct_lookup_table ::
  "'f nvol_config \<Rightarrow> nvol_record \<Rightarrow> 'f nvol \<Rightarrow> (status \<times> nvol_record \<times> 'f nvol) option" where
  "construct_lookup_table c scratch s =
     do { d \<leftarrow> loaded_dict s;
          let d = fst (dictionary_remove_all d None ());
          let s = upd_inst (\<lambda>i. i\<lparr>i_inuse := 0, i_invalid := 0, i_error := 0\<rparr>) (set_dict d s);
          (st, idx, scratch, s) \<leftarrow> construct_loop c scratch 0 None s;
          (ver, _) \<leftarrow> get_sector_version c (i_sector (inst s)) s;
          let s = upd_inst (\<lambda>i. i\<lparr>i_next_idx := idx, i_version := ver\<rparr>) s;
          if ver \<noteq> c_version c then Some (E_VERSION, scratch, s)
          else do { status \<leftarrow> st; Some (status, scratch, s) } }"

definition retrieve_lookup_table :: "nvol_record \<Rightarrow> 'f nvol \<Rightarrow> dnode option option" where
  "retrieve_lookup_table val s =
     do { d \<leftarrow> loaded_dict s;
          key \<leftarrow> dict_key_at (d_keyspec d) (key_and_data val);
          Some (dictionary_get d key) }"

section \<open>Moving and swapping sectors\<close>

partial_function (option) move_loop ::
  "'f nvol_config \<Rightarrow> nvol_record \<Rightarrow> u32 \<Rightarrow> u16 \<Rightarrow> u16 \<Rightarrow> 'f nvol \<Rightarrow> (nvol_record \<times> 'f nvol) option" where
  "move_loop c scratch dst_addr idx dst_idx s =
     do { mx \<leftarrow> max_records c;
          if \<not> ucast idx < mx then Some (scratch, s)
          else do {
            (status, scratch) \<leftarrow> read_variable_record c scratch idx 0 s;
            if status = E_EMPTY then Some (scratch, s)
            else if status \<noteq> EOK then move_loop c scratch dst_addr (idx + 1) dst_idx s
            else do {
              v \<leftarrow> variable_record_valid scratch;
              if v = EOK
              then do {
                (_, s) \<leftarrow> write_variable_record c dst_addr scratch dst_idx s;
                move_loop c scratch dst_addr (idx + 1) (dst_idx + 1) s }
              else move_loop c scratch dst_addr (idx + 1) dst_idx s } } }"

text \<open>The common start of \<^verbatim>\<open>move_sector\<close> and \<^verbatim>\<open>swap_sectors\<close>.\<close>

definition prepare_sector :: "'f nvol_config \<Rightarrow> u32 \<Rightarrow> 'f nvol \<Rightarrow> (status \<times> 'f nvol) option" where
  "prepare_sector c dst_addr s =
     do { (_, sector_flags) \<leftarrow> get_sector_version c dst_addr s;
          (status, s) \<leftarrow> (if sector_flags \<noteq> NVOL3_SECTOR_EMPTY
                          then erase_sector c dst_addr (c_sector_size c) s else Some (EOK, s));
          if status \<noteq> EOK then Some (status, s)
          else set_sector_flags c dst_addr NVOL3_SECTOR_INITIALIZING s }"

definition move_sector ::
  "'f nvol_config \<Rightarrow> nvol_record \<Rightarrow> u32 \<Rightarrow> 'f nvol \<Rightarrow> (status \<times> nvol_record \<times> 'f nvol) option" where
  "move_sector c scratch dst_addr s =
     do { (status, s) \<leftarrow> prepare_sector c dst_addr s;
          if status \<noteq> EOK then Some (status, scratch, s)
          else do {
            (scratch, s) \<leftarrow> move_loop c scratch dst_addr 0 0 s;
            (status, s) \<leftarrow> set_sector_flags c dst_addr NVOL3_SECTOR_VALID s;
            Some (status, scratch, s) } }"

definition other_sector :: "'f nvol_config \<Rightarrow> 'f nvol \<Rightarrow> u32 \<times> u32" where
  "other_sector c s =
     (if i_sector (inst s) = c_sector1_addr c then (c_sector1_addr c, c_sector2_addr c)
      else (c_sector2_addr c, c_sector1_addr c))"

text \<open>
  The loop of \<^verbatim>\<open>swap_sectors\<close>: copy the record of each table entry to the destination
  sector and point the entry there.
\<close>

partial_function (option) swap_loop ::
  "'f nvol_config \<Rightarrow> nvol_record \<Rightarrow> u32 \<Rightarrow> u16 \<Rightarrow> dnode option \<Rightarrow> dict_it \<Rightarrow> status \<Rightarrow> 'f nvol \<Rightarrow>
   (status \<times> nvol_record \<times> 'f nvol) option" where
  "swap_loop c scratch dst_addr dst_idx m it status s =
     (case m of
        None \<Rightarrow> Some (status, scratch, s)
      | Some np \<Rightarrow>
          do { d \<leftarrow> loaded_dict s;
               e \<leftarrow> dec_entry (dictionary_get_value d np);
               (status, scratch) \<leftarrow> read_variable_record c scratch (e_idx e) 0 s;
               if status \<noteq> EOK then Some (status, scratch, s)
               else do {
                 (status, s) \<leftarrow> write_variable_record c dst_addr scratch dst_idx s;
                 if status \<noteq> EOK then Some (status, scratch, s)
                 else do {
                   d \<leftarrow> dict_write_value d (naddr np) 0 (le16 dst_idx);
                   (m, it) \<leftarrow> dictionary_it_next d it;
                   swap_loop c scratch dst_addr (dst_idx + 1) m it status (set_dict d s) } } })"

definition swap_sectors ::
  "'f nvol_config \<Rightarrow> nvol_record \<Rightarrow> 'f nvol \<Rightarrow> (status \<times> nvol_record \<times> 'f nvol) option" where
  "swap_sectors c scratch s =
     do { let (src_addr, dst_addr) = other_sector c s;
          (status, s) \<leftarrow> prepare_sector c dst_addr s;
          if status \<noteq> EOK then Some (status, scratch, s)
          else do {
            d \<leftarrow> loaded_dict s;
            (m, it) \<leftarrow> dictionary_it_first d None;
            (status, scratch, s) \<leftarrow> swap_loop c scratch dst_addr 0 m it status s;
            (status, scratch, s) \<leftarrow>
              (if status \<noteq> EOK
               then do { (status, scratch, s) \<leftarrow> move_sector c scratch dst_addr s;
                         Some (if status \<noteq> EOK then EFAIL else EOK, scratch, s) }
               else do { (status, s) \<leftarrow> set_sector_flags c dst_addr NVOL3_SECTOR_VALID s;
                         Some (status, scratch, s) });
            if status \<noteq> EOK then Some (status, scratch, s)
            else do {
              let s = upd_inst (\<lambda>i. i\<lparr>i_sector := dst_addr\<rparr>) s;
              (_, scratch, s) \<leftarrow> construct_lookup_table c scratch s;
              (status, s) \<leftarrow> erase_sector c src_addr (c_sector_size c) s;
              Some (status, scratch, s) } } }"

section \<open>Repair, load, reset, validate\<close>

definition nvol3_repair :: "'f nvol_config \<Rightarrow> 'f nvol \<Rightarrow> (status \<times> 'f nvol) option" where
  "nvol3_repair c s =
     (case heap_malloc (hp s) (ucast (c_record_size c)) of
        (None, h) \<Rightarrow> Some (E_NOMEM, s\<lparr>hp := h\<rparr>)
      | (Some a, h) \<Rightarrow>
          do { let s = s\<lparr>hp := h\<rparr>;
               let (src_addr, dst_addr) = other_sector c s;
               (status, scratch, s) \<leftarrow> move_sector c (fresh_record c h a) dst_addr s;
               if status \<noteq> EOK then Some (status, s)
               else do {
                 let s = upd_inst (\<lambda>i. i\<lparr>i_sector := dst_addr\<rparr>) s;
                 (_, scratch, s) \<leftarrow> construct_lookup_table c scratch s;
                 erase_sector c src_addr (c_sector_size c) s } })"

definition known_sector_flags :: "u32 \<Rightarrow> bool" where
  "known_sector_flags f \<longleftrightarrow>
     f = NVOL3_SECTOR_EMPTY \<or> f = NVOL3_SECTOR_INITIALIZING \<or> f = NVOL3_SECTOR_VALID \<or>
     f = NVOL3_SECTOR_INVALID"

text \<open>What \<^verbatim>\<open>init_sectors\<close> does for a pair of sector flags.\<close>

datatype sector_choice =
    FormatFirst        \<comment> \<open>both empty: format sector 1\<close>
  | UseFirst           \<comment> \<open>sector 1 is valid: erase sector 2\<close>
  | UseSecond          \<comment> \<open>sector 2 is valid, sector 1 is empty\<close>
  | UseSecondErase     \<comment> \<open>sector 2 is valid: erase sector 1\<close>
  | RepairFirst
  | RepairSecond

definition choose_sector :: "u32 \<Rightarrow> u32 \<Rightarrow> sector_choice" where
  "choose_sector sector1_flags sector2_flags =
     (if sector1_flags = NVOL3_SECTOR_EMPTY then
        (if sector2_flags = NVOL3_SECTOR_EMPTY then FormatFirst
         else if sector2_flags = NVOL3_SECTOR_INITIALIZING then RepairSecond
         else if sector2_flags = NVOL3_SECTOR_VALID then UseSecond
         else RepairSecond)
      else if sector1_flags = NVOL3_SECTOR_INITIALIZING then
        (if sector2_flags = NVOL3_SECTOR_EMPTY then RepairFirst
         else if sector2_flags = NVOL3_SECTOR_INITIALIZING then RepairFirst
         else if sector2_flags = NVOL3_SECTOR_VALID then UseSecondErase
         else RepairSecond)
      else if sector1_flags = NVOL3_SECTOR_VALID then UseFirst
      else
        (if sector2_flags = NVOL3_SECTOR_EMPTY then RepairFirst
         else if sector2_flags = NVOL3_SECTOR_INITIALIZING then RepairFirst
         else if sector2_flags = NVOL3_SECTOR_VALID then UseSecondErase
         else RepairFirst))"

definition use_sector :: "u32 \<Rightarrow> 'f nvol \<Rightarrow> 'f nvol" where
  "use_sector addr s = upd_inst (\<lambda>i. i\<lparr>i_sector := addr\<rparr>) s"

definition apply_choice :: "'f nvol_config \<Rightarrow> sector_choice \<Rightarrow> 'f nvol \<Rightarrow> 'f nvol option" where
  "apply_choice c choice s =
     (case choice of
        FormatFirst \<Rightarrow>
          do { let s = use_sector (c_sector1_addr c) s;
               (_, s) \<leftarrow> erase_sector c (c_sector1_addr c) (c_sector_size c) s;
               (_, s) \<leftarrow> set_sector_flags c (i_sector (inst s)) NVOL3_SECTOR_VALID s;
               Some s }
      | UseFirst \<Rightarrow>
          do { (_, s) \<leftarrow> erase_sector c (c_sector2_addr c) (c_sector_size c) s;
               Some (use_sector (c_sector1_addr c) s) }
      | UseSecond \<Rightarrow> Some (use_sector (c_sector2_addr c) s)
      | UseSecondErase \<Rightarrow>
          do { let s = use_sector (c_sector2_addr c) s;
               (_, s) \<leftarrow> erase_sector c (c_sector1_addr c) (c_sector_size c) s;
               Some s }
      | RepairFirst \<Rightarrow>
          do { (_, s) \<leftarrow> nvol3_repair c (use_sector (c_sector1_addr c) s); Some s }
      | RepairSecond \<Rightarrow>
          do { (_, s) \<leftarrow> nvol3_repair c (use_sector (c_sector2_addr c) s); Some s })"

definition scrub_sector ::
  "'f nvol_config \<Rightarrow> u32 \<Rightarrow> u32 \<Rightarrow> 'f nvol \<Rightarrow> (u32 \<times> 'f nvol) option" where
  "scrub_sector c addr flags s =
     (if known_sector_flags flags then Some (flags, s)
      else do { (_, s) \<leftarrow> erase_sector c addr (c_sector_size c) s;
                Some (NVOL3_SECTOR_EMPTY, s) })"

definition init_sectors ::
  "'f nvol_config \<Rightarrow> nvol_record \<Rightarrow> 'f nvol \<Rightarrow> (status \<times> nvol_record \<times> 'f nvol) option" where
  "init_sectors c scratch s =
     do { (_, sector1_flags) \<leftarrow> get_sector_version c (c_sector1_addr c) s;
          (_, sector2_flags) \<leftarrow> get_sector_version c (c_sector2_addr c) s;
          (sector1_flags, s) \<leftarrow> scrub_sector c (c_sector1_addr c) sector1_flags s;
          (sector2_flags, s) \<leftarrow> scrub_sector c (c_sector2_addr c) sector2_flags s;
          let s = upd_inst (\<lambda>i. i\<lparr>i_next_idx := 0\<rparr>) s;
          s \<leftarrow> apply_choice c (choose_sector sector1_flags sector2_flags) s;
          construct_lookup_table c scratch s }"

definition drop_dict :: "'f nvol \<Rightarrow> 'f nvol" where
  "drop_dict s = upd_inst (\<lambda>i. i\<lparr>i_dict := None\<rparr>) s"

definition nvol3_load :: "'f nvol_config \<Rightarrow> 'f nvol \<Rightarrow> (status \<times> 'f nvol) option" where
  "nvol3_load c s =
     (case heap_malloc (hp s) (ucast (c_record_size c)) of (scratch, h) \<Rightarrow>
      if \<not> record_room c > 0 then None
      else let s = upd_inst (\<lambda>i. i\<lparr>i_sector := 0, i_next_idx := 0, i_inuse := 0, i_invalid := 0\<rparr>)
                     (s\<lparr>hp := h\<rparr>) in
      case scratch of
        None \<Rightarrow> Some (E_NOMEM, s)
      | Some a \<Rightarrow>
          (case dictionary_init (hp s) (c_keyspec c) (ucast (c_hashsize c)) of
             (None, h) \<Rightarrow> Some (E_NOMEM, (drop_dict s)\<lparr>hp := h\<rparr>)
           | (Some d, h) \<Rightarrow>
               do { (status, _, s) \<leftarrow> init_sectors c (fresh_record c h a) ((set_dict d s)\<lparr>hp := h\<rparr>);
                    Some (status, s) }))"

definition nvol3_validate :: "'f nvol_config \<Rightarrow> 'f nvol \<Rightarrow> status option" where
  "nvol3_validate c s =
     do { (sector1_version, sector1_flags) \<leftarrow> get_sector_version c (c_sector1_addr c) s;
          (sector2_version, sector2_flags) \<leftarrow> get_sector_version c (c_sector2_addr c) s;
          Some (if sector1_flags = NVOL3_SECTOR_INITIALIZING \<or> sector1_flags = NVOL3_SECTOR_VALID \<or>
                   sector1_flags = NVOL3_SECTOR_INVALID
                then (if sector1_version = c_version c then EOK else E_VERSION)
                else if sector2_flags = NVOL3_SECTOR_INITIALIZING \<or>
                        sector2_flags = NVOL3_SECTOR_VALID \<or> sector2_flags = NVOL3_SECTOR_INVALID
                then (if sector2_version = c_version c then EOK else E_VERSION)
                else EFAIL) }"

definition nvol3_reset :: "'f nvol_config \<Rightarrow> 'f nvol \<Rightarrow> (status \<times> 'f nvol) option" where
  "nvol3_reset c s =
     do { let s = drop_dict s;
          (_, s) \<leftarrow> erase_sector c (c_sector1_addr c) (c_sector_size c) s;
          (_, s) \<leftarrow> erase_sector c (c_sector2_addr c) (c_sector_size c) s;
          _ \<leftarrow> get_sector_version c (c_sector1_addr c) s;
          _ \<leftarrow> get_sector_version c (c_sector2_addr c) s;
          nvol3_load c s }"

definition nvol3_delete :: "'f nvol_config \<Rightarrow> 'f nvol \<Rightarrow> (status \<times> 'f nvol) option" where
  "nvol3_delete c s =
     do { (_, s) \<leftarrow> erase_sector c (c_sector1_addr c) (c_sector_size c) s;
          (_, s) \<leftarrow> erase_sector c (c_sector2_addr c) (c_sector_size c) s;
          Some (EOK, drop_dict s) }"

definition nvol3_unload :: "'f nvol \<Rightarrow> 'f nvol" where
  "nvol3_unload s = drop_dict s"

end
