(* ===== verification/Nvol_Records.thy ===== *)
theory Nvol_Records
  imports Nvol_Volume
begin

text \<open>
  The record and entry operations of \<^verbatim>\<open>src/nvram/nvol3.c\<close>: set, get, delete, the
  iterators over records and over lookup-table entries, and the statistics of
  \<^verbatim>\<open>nvol3_entry_log_status\<close>.  A record parameter is returned with the result, because
  the operations write its header and its data.  A key parameter is the list of bytes readable
  through the pointer.
\<close>

unbundle bit_operations_syntax

section \<open>Setting and getting a record\<close>

text \<open>The number of leading bytes in which two buffers agree.\<close>

fun same_prefix :: "u8 list \<Rightarrow> u8 list \<Rightarrow> nat" where
  "same_prefix (a # xs) (b # ys) = (if a = b then Suc (same_prefix xs ys) else 0)"
| "same_prefix _ _ = 0"

text \<open>
  The first half of \<^verbatim>\<open>record_set\<close>: read the record an entry points to and count the bytes
  that stay the same.  The result carries the index of the old record, or the status with which
  \<^verbatim>\<open>record_set\<close> returns early.
\<close>

definition old_record ::
  "'f nvol_config \<Rightarrow> u8 list option \<Rightarrow> nvol_record \<Rightarrow> u32 \<Rightarrow> 'f nvol \<Rightarrow>
   ((status + u16) \<times> 'f nvol) option" where
  "old_record c entry rec len s =
     (case entry of
        None \<Rightarrow> Some (if len = 0 then Inl EOK else Inr NVOL3_INVALID_VAR_IDX, s)
      | Some v \<Rightarrow>
          do { e \<leftarrow> dec_entry v;
               case heap_malloc (hp s) (ucast (c_record_size c)) of
                 (None, h) \<Rightarrow> Some (Inl E_NOMEM, s\<lparr>hp := h\<rparr>)
               | (Some a, h) \<Rightarrow>
                   do { let s = s\<lparr>hp := h\<rparr>;
                        (status, var) \<leftarrow> read_variable_record c (fresh_record c h a) (e_idx e) 0 s;
                        same \<leftarrow> (if status = EOK \<and> len = ucast (h_length (head var))
                                 then do { new \<leftarrow> buf_read (key_and_data rec) 0 (unat len);
                                           old \<leftarrow> buf_read (key_and_data var) 0 (unat len);
                                           Some (same_prefix new old) }
                                 else Some 0);
                        Some (if same = unat len then Inl EOK else Inr (e_idx e), s) } })"

text \<open>The header that \<^verbatim>\<open>record_set\<close> puts before the key and data.\<close>

definition new_head :: "u32 \<Rightarrow> u8 list \<Rightarrow> nvol_head" where
  "new_head len bs = \<lparr>h_flags = NVOL3_RECORD_FLAGS_NEW, h_length = ucast len,
                       h_checksum = record_checksum bs, h_reserved = 0xFFFF\<rparr>"

text \<open>The second half: write the record to the next slot, validate it, invalidate the old one.\<close>

definition bump_idx :: "'f nvol \<Rightarrow> 'f nvol" where
  "bump_idx s = upd_inst (\<lambda>i. i\<lparr>i_next_idx := i_next_idx i + 1\<rparr>) s"

definition uncount_inuse :: "'f nvol \<Rightarrow> 'f nvol" where
  "uncount_inuse s = upd_inst (\<lambda>i. i\<lparr>i_inuse := i_inuse i - 1\<rparr>) s"

definition store_record ::
  "'f nvol_config \<Rightarrow> u16 \<Rightarrow> nvol_record \<Rightarrow> 'f nvol \<Rightarrow> (status \<times> 'f nvol) option" where
  "store_record c idx rec s =
     do { (status, s) \<leftarrow> write_variable_record c (i_sector (inst s)) rec (i_next_idx (inst s)) s;
          if status \<noteq> EOK
          then do {
            (_, s) \<leftarrow> set_variable_record_flags c (i_sector (inst s)) NVOL3_RECORD_FLAGS_INVALID
                        (i_next_idx (inst s)) s;
            Some (status, count_error (count_invalid (bump_idx s))) }
          else do {
            (status, s) \<leftarrow> set_variable_record_flags c (i_sector (inst s)) NVOL3_RECORD_FLAGS_VALID
                             (i_next_idx (inst s)) s;
            let s = bump_idx s;
            if status \<noteq> EOK then Some (status, s)
            else do {
              let s = count_inuse s;
              s \<leftarrow> (if idx \<noteq> NVOL3_INVALID_VAR_IDX
                    then do {
                      (_, s) \<leftarrow> set_variable_record_flags c (i_sector (inst s))
                                  NVOL3_RECORD_FLAGS_INVALID idx s;
                      Some (count_invalid (uncount_inuse s)) }
                    else Some s);
              insert_lookup_table c rec (i_next_idx (inst s) - 1) s } } }"

definition record_set ::
  "'f nvol_config \<Rightarrow> u8 list option \<Rightarrow> nvol_record \<Rightarrow> u32 \<Rightarrow> 'f nvol \<Rightarrow>
   (status \<times> nvol_record \<times> 'f nvol) option" where
  "record_set c entry rec len s =
     (if \<not> record_room c \<ge> ucast len then Some (EFAIL, rec, s)
      else do {
        d \<leftarrow> loaded_dict s;
        mx \<leftarrow> max_records c;
        if dictionary_count d \<ge> mx - NVOL3_HEADROOM then Some (EFAIL, rec, s)
        else do {
          (old, s) \<leftarrow> old_record c entry rec len s;
          case old of
            Inl status \<Rightarrow> Some (status, rec, s)
          | Inr idx \<Rightarrow>
              if 0xFFFF < len then None
              else do {
                bs \<leftarrow> buf_read (key_and_data rec) 0 (unat len);
                let rec = rec\<lparr>head := new_head len bs\<rparr>;
                let cb = (case c_write_cb c of None \<Rightarrow> EOK | Some f \<Rightarrow> f (inst s) rec (c_ctx c));
                if cb \<noteq> EOK then Some (cb, rec, s)
                else do { (status, s) \<leftarrow> store_record c idx rec s;
                          Some (status, rec, s) } } } })"

text \<open>
  \<^verbatim>\<open>record_get\<close> returns the length of key and data or a negative status; \<open>m\<close> is the node
  found in the lookup table.
\<close>

definition record_get ::
  "'f nvol_config \<Rightarrow> nvol_record \<Rightarrow> dnode option \<Rightarrow> 'f nvol \<Rightarrow> (status \<times> nvol_record) option" where
  "record_get c rec m s =
     (let rec = rec\<lparr>head := zero_head\<rparr>;
          from_flash = (\<lambda>idx.
            if idx = NVOL3_INVALID_VAR_IDX then Some (E_NOTFOUND, rec)
            else do { (status, rec) \<leftarrow> read_variable_record c rec idx 0 s;
                      Some (if status < 0 then status else int (unat (h_length (head rec))), rec) })
      in case m of
           None \<Rightarrow> from_flash NVOL3_INVALID_VAR_IDX
         | Some np \<Rightarrow>
             do { d \<leftarrow> loaded_dict s;
                  e \<leftarrow> dec_entry (dictionary_get_value d np);
                  if e_length e \<le> c_local_size c
                  then do {
                    key \<leftarrow> buf_read (dictionary_get_key d np) 0 (unat (c_key_size c));
                    kd \<leftarrow> buf_write (key_and_data rec) 0 key;
                    local \<leftarrow> buf_read (e_local e) 0 (unat (e_length e));
                    kd \<leftarrow> buf_write kd (unat (c_key_size c)) local;
                    Some (int (unat (e_length e)) + int (unat (c_key_size c)),
                          rec\<lparr>key_and_data := kd\<rparr>) }
                  else from_flash (e_idx e) })"

section \<open>The record interface\<close>

text \<open>Make room when the sector is full, as \<^verbatim>\<open>nvol3_record_set\<close> does.\<close>

definition ensure_slot :: "'f nvol_config \<Rightarrow> 'f nvol \<Rightarrow> (status \<times> 'f nvol) option" where
  "ensure_slot c s =
     do { mx \<leftarrow> max_records c;
          if ucast (i_next_idx (inst s)) \<ge> mx
          then (case heap_malloc (hp s) (ucast (c_record_size c)) of
                  (None, h) \<Rightarrow> Some (E_NOMEM, s\<lparr>hp := h\<rparr>)
                | (Some a, h) \<Rightarrow>
                    do { (status, _, s) \<leftarrow> swap_sectors c (fresh_record c h a) (s\<lparr>hp := h\<rparr>);
                         Some (if status \<noteq> EOK then EFAIL else EOK, s) })
          else Some (EOK, s) }"

definition nvol3_record_set ::
  "'f nvol_config \<Rightarrow> nvol_record \<Rightarrow> u32 \<Rightarrow> 'f nvol \<Rightarrow> (status \<times> nvol_record \<times> 'f nvol) option" where
  "nvol3_record_set c rec len s =
     do { (status, s) \<leftarrow> ensure_slot c s;
          if status \<noteq> EOK then Some (status, rec, s)
          else do { m \<leftarrow> retrieve_lookup_table rec s;
                    record_set c (map_option nval m) rec len s } }"

definition nvol3_record_get ::
  "'f nvol_config \<Rightarrow> nvol_record \<Rightarrow> 'f nvol \<Rightarrow> (status \<times> nvol_record) option" where
  "nvol3_record_get c rec s = do { m \<leftarrow> retrieve_lookup_table rec s; record_get c rec m s }"

definition nvol3_record_delete ::
  "'f nvol_config \<Rightarrow> nvol_record \<Rightarrow> 'f nvol \<Rightarrow> (status \<times> nvol_record \<times> 'f nvol) option" where
  "nvol3_record_delete c rec s =
     do { let rec = rec\<lparr>head := zero_head\<rparr>;
          m \<leftarrow> retrieve_lookup_table rec s;
          case m of
            None \<Rightarrow> Some (E_NOTFOUND, rec, s)
          | Some np \<Rightarrow>
              do { e \<leftarrow> dec_entry (nval np);
                   (_, s) \<leftarrow> set_variable_record_flags c (i_sector (inst s))
                               NVOL3_RECORD_FLAGS_INVALID (e_idx e) s;
                   let s = count_invalid (uncount_inuse s);
                   d \<leftarrow> loaded_dict s;
                   key \<leftarrow> dict_key_at (d_keyspec d) (key_and_data rec);
                   Some (EOK, rec, set_dict (snd (dictionary_remove d key)) s) } }"

text \<open>Lookup by a key pointer.\<close>

definition lookup_key :: "u8 list \<Rightarrow> 'f nvol \<Rightarrow> dnode option option" where
  "lookup_key p s =
     do { d \<leftarrow> loaded_dict s; key \<leftarrow> dict_key_at (d_keyspec d) p; Some (dictionary_get d key) }"

definition nvol3_record_key_and_data_length ::
  "'f nvol_config \<Rightarrow> u8 list \<Rightarrow> 'f nvol \<Rightarrow> status option" where
  "nvol3_record_key_and_data_length c key s =
     do { m \<leftarrow> lookup_key key s;
          case m of
            None \<Rightarrow> Some EFAIL
          | Some np \<Rightarrow>
              do { e \<leftarrow> dec_entry (nval np);
                   (status, h) \<leftarrow> read_variable_record_head c zero_head (e_idx e) s;
                   Some (if status = EOK then int (unat (h_length h)) else EFAIL) } }"

definition nvol3_record_status :: "u8 list \<Rightarrow> 'f nvol \<Rightarrow> status option" where
  "nvol3_record_status key s =
     do { m \<leftarrow> lookup_key key s; Some (if m \<noteq> None then EOK else E_NOTFOUND) }"

section \<open>Iterating over records\<close>

type_synonym key_cmp = "u8 list \<Rightarrow> u8 list \<Rightarrow> int option"

definition nvol3_cmp :: "dictionary \<Rightarrow> key_cmp option \<Rightarrow> dlist_compare" where
  "nvol3_cmp d cmp first second =
     (case cmp of
        None \<Rightarrow> Some 0
      | Some f \<Rightarrow> f (dictionary_get_key d first) (dictionary_get_key d second))"

definition record_or_eof ::
  "'f nvol_config \<Rightarrow> nvol_record \<Rightarrow> dnode option \<Rightarrow> 'f nvol \<Rightarrow> (status \<times> nvol_record) option" where
  "record_or_eof c rec m s =
     (if m = None then Some (E_EOF, rec) else record_get c rec m s)"

definition nvol3_record_first ::
  "'f nvol_config \<Rightarrow> nvol_record \<Rightarrow> key_cmp option \<Rightarrow> 'f nvol \<Rightarrow>
   (status \<times> nvol_record \<times> dict_it) option" where
  "nvol3_record_first c rec cmp s =
     do { d \<leftarrow> loaded_dict s;
          (m, it) \<leftarrow> dictionary_it_first d (if cmp = None then None else Some (nvol3_cmp d cmp));
          (status, rec) \<leftarrow> record_or_eof c rec m s;
          Some (status, rec, it) }"

definition nvol3_record_next ::
  "'f nvol_config \<Rightarrow> nvol_record \<Rightarrow> dict_it \<Rightarrow> 'f nvol \<Rightarrow>
   (status \<times> nvol_record \<times> dict_it) option" where
  "nvol3_record_next c rec it s =
     do { d \<leftarrow> loaded_dict s;
          (m, it) \<leftarrow> dictionary_it_next d it;
          (status, rec) \<leftarrow> record_or_eof c rec m s;
          Some (status, rec, it) }"

section \<open>Entries of the lookup table\<close>

definition nvol3_entry_first :: "'f nvol \<Rightarrow> (status \<times> dict_it) option" where
  "nvol3_entry_first s =
     do { d \<leftarrow> loaded_dict s;
          (m, it) \<leftarrow> dictionary_it_first d None;
          Some (if m \<noteq> None then EOK else EFAIL, it) }"

definition nvol3_entry_next :: "dict_it \<Rightarrow> 'f nvol \<Rightarrow> (status \<times> dict_it) option" where
  "nvol3_entry_next it s =
     do { d \<leftarrow> loaded_dict s;
          (m, it) \<leftarrow> dictionary_it_next d it;
          Some (if m \<noteq> None then EOK else EFAIL, it) }"

definition nvol3_entry_at :: "u8 list \<Rightarrow> dict_it \<Rightarrow> 'f nvol \<Rightarrow> (status \<times> dict_it) option" where
  "nvol3_entry_at p it s =
     do { d \<leftarrow> loaded_dict s;
          key \<leftarrow> dict_key_at (d_keyspec d) p;
          case dictionary_it_at d key it of
            (m, it) \<Rightarrow> Some (if m \<noteq> None then EOK else E_NOTFOUND, it) }"

text \<open>The node an iterator stands on; following a null or dangling pointer has no result.\<close>

definition it_node :: "dict_it \<Rightarrow> 'f nvol \<Rightarrow> dnode option" where
  "it_node it s = do { d \<leftarrow> loaded_dict s; a \<leftarrow> it_np it; node_at d a }"

definition nvol3_entry_data :: "dict_it \<Rightarrow> 'f nvol \<Rightarrow> (int \<times> u8 list) option" where
  "nvol3_entry_data it s =
     do { np \<leftarrow> it_node it s;
          e \<leftarrow> dec_entry (nval np);
          Some (int (unat (e_length e)), e_local e) }"

definition nvol3_entry_key :: "dict_it \<Rightarrow> 'f nvol \<Rightarrow> u8 list option" where
  "nvol3_entry_key it s =
     do { d \<leftarrow> loaded_dict s; np \<leftarrow> it_node it s; Some (dictionary_get_key d np) }"

definition nvol3_entry_save ::
  "'f nvol_config \<Rightarrow> dict_it \<Rightarrow> 'f nvol \<Rightarrow> (status \<times> 'f nvol) option" where
  "nvol3_entry_save c it s =
     (case heap_malloc (hp s) (ucast (c_record_size c)) of
        (None, h) \<Rightarrow> Some (E_NOMEM, s\<lparr>hp := h\<rparr>)
      | (Some a, h) \<Rightarrow>
          do { let s = s\<lparr>hp := h\<rparr>;
               let rec = fresh_record c h a;
               mx \<leftarrow> max_records c;
               (status, rec, s) \<leftarrow> (if ucast (i_next_idx (inst s)) \<ge> mx then swap_sectors c rec s
                                    else Some (EOK, rec, s));
               if status \<noteq> EOK then Some (EFAIL, s)
               else do {
                 let rec = rec\<lparr>head := zero_head\<rparr>;
                 d \<leftarrow> loaded_dict s;
                 np \<leftarrow> it_node it s;
                 keysize \<leftarrow> dictionary_get_key_size d np;
                 let keysize = min keysize (ucast (c_key_size c));
                 key \<leftarrow> buf_read (dictionary_get_key d np) 0 (unat keysize);
                 kd \<leftarrow> buf_write (key_and_data rec) 0 key;
                 e \<leftarrow> dec_entry (nval np);
                 local \<leftarrow> buf_read (e_local e) 0 (unat (e_length e));
                 kd \<leftarrow> buf_write kd (unat (c_key_size c)) local;
                 (status, _, s) \<leftarrow> record_set c (Some (nval np)) (rec\<lparr>key_and_data := kd\<rparr>)
                                     (ucast (c_key_size c) + ucast (e_length e)) s;
                 Some (status, s) } })"

definition nvol3_entry_delete ::
  "'f nvol_config \<Rightarrow> dict_it \<Rightarrow> 'f nvol \<Rightarrow> (status \<times> 'f nvol) option" where
  "nvol3_entry_delete c it s =
     do { np \<leftarrow> it_node it s;
          e \<leftarrow> dec_entry (nval np);
          (status, s) \<leftarrow> set_variable_record_flags c (i_sector (inst s))
                           NVOL3_RECORD_FLAGS_INVALID (e_idx e) s;
          let s = count_invalid (uncount_inuse s);
          d \<leftarrow> loaded_dict s;
          key \<leftarrow> dict_key_at (d_keyspec d) (dictionary_get_key d np);
          let (found, d) = dictionary_remove d key;
          Some (if found = 0 then E_NOTFOUND else status, set_dict d s) }"

section \<open>Statistics\<close>

text \<open>
  The numbers that \<^verbatim>\<open>nvol3_entry_log_status\<close> prints about the lookup table: the bytes it
  takes and how the hash chains are filled.
\<close>

definition entry_bytes :: "'f nvol_config \<Rightarrow> dictionary \<Rightarrow> dnode \<Rightarrow> u32 option" where
  "entry_bytes c d np =
     do { e \<leftarrow> dec_entry (dictionary_get_value d np);
          keysize \<leftarrow> dictionary_get_key_size d np;
          Some (4 + (if e_length e \<le> c_local_size c then ucast (e_length e) else 0) + 8 +
                (if c_keyspec c AND 0xFFFF = 0 then 8 else 0) + keysize) }"

partial_function (option) log_bytes_loop ::
  "'f nvol_config \<Rightarrow> dictionary \<Rightarrow> dnode option \<Rightarrow> dict_it \<Rightarrow> u32 \<Rightarrow> u32 option" where
  "log_bytes_loop c d m it bytes =
     (case m of
        None \<Rightarrow> Some bytes
      | Some np \<Rightarrow>
          do { n \<leftarrow> entry_bytes c d np;
               (m, it) \<leftarrow> dictionary_it_next d it;
               log_bytes_loop c d m it (bytes + n) })"

record hash_stats =
  st_max :: u32
  st_empty :: u32
  st_used :: u32

definition log_chain :: "u32 \<Rightarrow> hash_stats \<Rightarrow> hash_stats" where
  "log_chain cnt st =
     \<lparr>st_max = (if cnt > st_max st then cnt else st_max st),
      st_empty = (if cnt = 0 then st_empty st + 1 else st_empty st),
      st_used = (if cnt \<noteq> 0 then st_used st + 1 else st_used st)\<rparr>"

definition log_chains :: "dictionary \<Rightarrow> hash_stats" where
  "log_chains d =
     fold (\<lambda>i. log_chain (dictionary_hashtab_cnt d (of_nat i)))
       [0..<unat (dictionary_hashtab_size d)] \<lparr>st_max = 0, st_empty = 0, st_used = 0\<rparr>"

definition nvol3_entry_log_status ::
  "'f nvol_config \<Rightarrow> u32 \<Rightarrow> 'f nvol \<Rightarrow> (u32 \<times> hash_stats) option option" where
  "nvol3_entry_log_status c verbose s =
     do { d \<leftarrow> loaded_dict s;
          if verbose = 0 then Some None
          else do {
            (m, it) \<leftarrow> dictionary_it_first d None;
            bytes \<leftarrow> log_bytes_loop c d m it 0;
            Some (Some (bytes, log_chains d)) } }"

end
