(* ===== verification/Nvol_Layout.thy ===== *)
theory Nvol_Layout
  imports Nvol_Records
begin

text \<open>
  The specification side of a volume.  A sector is a 16-byte header and a sequence of record
  slots; \<open>slot m c sec i\<close> is the content of slot \<open>i\<close>, \<open>live\<close> the key and data it holds if it is a
  valid record, \<open>scan\<close> the index of the live slots (a later slot wins).  The locale \<open>volume\<close>
  extends the driver contract by a configuration that fits the device; its lemmas state what
  each low-level function does to headers and slots.
\<close>

unbundle bit_operations_syntax

section \<open>Geometry\<close>

definition rsz :: "'f nvol_config \<Rightarrow> nat" where "rsz c = unat (c_record_size c)"
definition ksz :: "'f nvol_config \<Rightarrow> nat" where "ksz c = unat (c_key_size c)"
definition mxr :: "'f nvol_config \<Rightarrow> nat" where
  "mxr c = (unat (c_sector_size c) - 32) div unat (c_record_size c)"

definition sectors :: "'f nvol_config \<Rightarrow> u32 set" where
  "sectors c = {c_sector1_addr c, c_sector2_addr c}"

text \<open>Keys of a fixed size: a packed binary key or a 16-bit number.\<close>

definition fixed_key :: "'f nvol_config \<Rightarrow> bool" where
  "fixed_key c \<longleftrightarrow>
     (dict_keytype (c_keyspec c) = KeyBinary \<and> ksz c = 4 * DICTIONARY_KEY_SIZE (c_keyspec c)) \<or>
     (dict_keytype (c_keyspec c) = KeyUshort \<and> ksz c = 2)"

definition sector_fits :: "nat \<Rightarrow> 'f nvol_config \<Rightarrow> u32 \<Rightarrow> bool" where
  "sector_fits dsize c sec \<longleftrightarrow>
     unat sec + 32 + rsz c * mxr c < dsize \<and> unat sec + unat (c_sector_size c) < 2 ^ 32"

definition cfg_ok :: "'f flash_ops \<Rightarrow> nat \<Rightarrow> 'f nvol_config \<Rightarrow> bool" where
  "cfg_ok ops dsize c \<longleftrightarrow>
     c_flash c = ops \<and> c_hashsize c \<noteq> 0 \<and> ksz c + 8 \<le> rsz c \<and> 0 < ksz c \<and>
     32 \<le> unat (c_sector_size c) \<and> 4 \<le> mxr c \<and> mxr c \<le> 65535 \<and>
     sector_fits dsize c (c_sector1_addr c) \<and> sector_fits dsize c (c_sector2_addr c) \<and>
     (unat (c_sector1_addr c) + unat (c_sector_size c) \<le> unat (c_sector2_addr c) \<or>
      unat (c_sector2_addr c) + unat (c_sector_size c) \<le> unat (c_sector1_addr c)) \<and>
     fixed_key c"

definition slot_addr :: "'f nvol_config \<Rightarrow> u32 \<Rightarrow> nat \<Rightarrow> nat" where
  "slot_addr c sec i = unat sec + (32 + rsz c * i)"

definition slot :: "(nat \<Rightarrow> u8) \<Rightarrow> 'f nvol_config \<Rightarrow> u32 \<Rightarrow> nat \<Rightarrow> u8 list" where
  "slot m c sec i = bytes_at m (slot_addr c sec i) (rsz c)"

definition header :: "(nat \<Rightarrow> u8) \<Rightarrow> u32 \<Rightarrow> u8 list" where
  "header m sec = bytes_at m (unat sec) 16"

definition blank_slot :: "'f nvol_config \<Rightarrow> u8 list" where
  "blank_slot c = replicate (rsz c) (- 1)"

definition blank_header :: "u8 list" where
  "blank_header = replicate 16 (- 1)"

text \<open>A sector whose header and slots are all erased.\<close>

definition blank_sector :: "(nat \<Rightarrow> u8) \<Rightarrow> 'f nvol_config \<Rightarrow> u32 \<Rightarrow> bool" where
  "blank_sector m c sec \<longleftrightarrow>
     header m sec = blank_header \<and> (\<forall>i < mxr c. slot m c sec i = blank_slot c)"

section \<open>Records in slots\<close>

definition slot_body :: "u8 list \<Rightarrow> u8 list" where
  "slot_body bs = take (unat (h_length (dec_head bs))) (drop 8 bs)"

definition valid_slot :: "'f nvol_config \<Rightarrow> u8 list \<Rightarrow> bool" where
  "valid_slot c bs \<longleftrightarrow>
     head_status c (dec_head bs) = EOK \<and>
     h_checksum (dec_head bs) = record_checksum (slot_body bs)"

definition live :: "'f nvol_config \<Rightarrow> u8 list \<Rightarrow> (u8 list \<times> u8 list) option" where
  "live c bs =
     (if valid_slot c bs then Some (take (ksz c) (slot_body bs), drop (ksz c) (slot_body bs))
      else None)"

fun scan :: "'f nvol_config \<Rightarrow> (nat \<Rightarrow> u8 list) \<Rightarrow> nat \<Rightarrow> (u8 list \<rightharpoonup> nat \<times> u8 list)" where
  "scan c sl 0 = Map.empty"
| "scan c sl (Suc n) =
     (case live c (sl n) of
        None \<Rightarrow> scan c sl n
      | Some (k, v) \<Rightarrow> (scan c sl n)(k \<mapsto> (n, v)))"

text \<open>What the lookup table keeps of a record: its slot, the length and the cached data.\<close>

definition cached :: "'f nvol_config \<Rightarrow> u8 list \<Rightarrow> u8 list" where
  "cached c v = (if length v \<le> unat (c_local_size c) then v else [])"

definition entry_of :: "'f nvol_config \<Rightarrow> nat \<times> u8 list \<Rightarrow> u8 list" where
  "entry_of c p = enc_entry (of_nat (fst p)) (of_nat (length (snd p))) (cached c (snd p))"

text \<open>What \<^verbatim>\<open>read_variable_record\<close> makes of the bytes of a slot and the old buffer.\<close>

definition read_result :: "'f nvol_config \<Rightarrow> u8 list \<Rightarrow> nvol_record \<Rightarrow> nvol_record" where
  "read_result c b rec =
     \<lparr>head = dec_head b,
      key_and_data = (if head_status c (dec_head b) = EOK
                      then slot_body b @ drop (length (slot_body b)) (key_and_data rec)
                      else key_and_data rec)\<rparr>"

lemma head_status_EOK:
  "head_status c h = EOK \<longleftrightarrow>
     h_flags h = NVOL3_RECORD_FLAGS_VALID \<and> \<not> ucast (h_length h) > record_room c"
  by (auto simp: head_status_def record_flags_defs)

lemma scan_cong: "(\<And>i. i < n \<Longrightarrow> live c (sl i) = live c (sl' i)) \<Longrightarrow> scan c sl n = scan c sl' n"
  by (induction n) (auto split: option.split)

lemma scan_Some:
  "scan c sl n k = Some (i, v) \<Longrightarrow> i < n \<and> live c (sl i) = Some (k, v)"
proof (induction n)
  case (Suc n)
  then show ?case
    by (cases "live c (sl n)") (auto split: if_splits)
qed simp

lemma scan_live:
  "i < n \<Longrightarrow> live c (sl i) = Some (k, v) \<Longrightarrow> \<exists>j w. scan c sl n k = Some (j, w) \<and> i \<le> j"
proof (induction n)
  case (Suc n)
  show ?case
  proof (cases "i = n")
    case True
    with Suc.prems show ?thesis by auto
  next
    case False
    then obtain j w where "scan c sl n k = Some (j, w)" "i \<le> j" using Suc by auto
    then show ?thesis using Suc.prems False by (cases "live c (sl n)") auto
  qed
qed simp

text \<open>No key has two live slots.\<close>

definition unique_keys :: "'f nvol_config \<Rightarrow> (nat \<Rightarrow> u8 list) \<Rightarrow> nat \<Rightarrow> bool" where
  "unique_keys c sl n \<longleftrightarrow>
     (\<forall>i < n. \<forall>j < n. \<forall>k v w. live c (sl i) = Some (k, v) \<and> live c (sl j) = Some (k, w) \<longrightarrow> i = j)"

lemma unique_scan:
  "unique_keys c sl n \<Longrightarrow> i < n \<Longrightarrow> live c (sl i) = Some (k, v) \<Longrightarrow> scan c sl n k = Some (i, v)"
  using scan_live [of i n c sl k v] scan_Some [of c sl n k] unfolding unique_keys_def
  by (metis option.inject prod.inject)

text \<open>Killing the slot of a key removes the key.\<close>

lemma scan_kill:
  assumes "unique_keys c sl n" "scan c sl n k = Some (i, v)" "live c b = None"
  shows "scan c (sl(i := b)) n = (scan c sl n)(k := None)" "unique_keys c (sl(i := b)) n"
proof -
  show u: "unique_keys c (sl(i := b)) n"
    using assms(1,3) by (auto simp: unique_keys_def)
  have i: "i < n" "live c (sl i) = Some (k, v)" using scan_Some [OF assms(2)] by auto
  show "scan c (sl(i := b)) n = (scan c sl n)(k := None)"
  proof
    fix k'
    show "scan c (sl(i := b)) n k' = ((scan c sl n)(k := None)) k'"
    proof (cases "((scan c sl n)(k := None)) k'")
      case None
      have "scan c (sl(i := b)) n k' \<noteq> Some (j, w)" for j w
      proof
        assume s: "scan c (sl(i := b)) n k' = Some (j, w)"
        have j: "j < n" "live c ((sl(i := b)) j) = Some (k', w)" using scan_Some [OF s] by auto
        then have "j \<noteq> i" "live c (sl j) = Some (k', w)" using assms(3) by (auto split: if_splits)
        then have "scan c sl n k' = Some (j, w)" using unique_scan [OF assms(1)] j(1) by blast
        with None assms(2) \<open>j \<noteq> i\<close> show False by (auto split: if_splits)
      qed
      with None show ?thesis by (metis option.exhaust surj_pair)
    next
      case (Some p)
      then obtain j w where p: "scan c sl n k' = Some (j, w)" "k' \<noteq> k" "p = (j, w)"
        by (cases p) (auto split: if_splits)
      have j: "j < n" "live c (sl j) = Some (k', w)" using scan_Some [OF p(1)] by auto
      then have "j \<noteq> i" using i(2) p(2) by auto
      then have "scan c (sl(i := b)) n k' = Some (j, w)"
        using unique_scan [OF u] j by simp
      with Some p show ?thesis by simp
    qed
  qed
qed

lemma scan_Suc_None: "live c (sl n) = None \<Longrightarrow> scan c sl (Suc n) = scan c sl n"
  by simp

lemma scan_Suc_Some:
  "live c (sl n) = Some (k, v) \<Longrightarrow> scan c sl (Suc n) = (scan c sl n)(k \<mapsto> (n, v))"
  by simp

lemma unique_keys_Suc_None:
  "unique_keys c sl n \<Longrightarrow> live c (sl n) = None \<Longrightarrow> unique_keys c sl (Suc n)"
  by (auto simp: unique_keys_def less_Suc_eq)

lemma unique_keys_Suc_Some:
  assumes "unique_keys c sl n" "live c (sl n) = Some (k, v)" "scan c sl n k = None"
  shows "unique_keys c sl (Suc n)"
proof -
  have "live c (sl i) \<noteq> Some (k, w)" if "i < n" for i w
    using unique_scan [OF assms(1) that] assms(3) by fastforce
  then show ?thesis using assms(1,2) by (fastforce simp: unique_keys_def less_Suc_eq)
qed

lemma unique_keys_0 [simp]: "unique_keys c sl 0"
  by (simp add: unique_keys_def)

lemma unique_keys_cong:
  "(\<And>i. i < n \<Longrightarrow> live c (sl i) = live c (sl' i)) \<Longrightarrow> unique_keys c sl n = unique_keys c sl' n"
  by (simp add: unique_keys_def)

lemma blank_rd16 [simp]: "2 \<le> n \<Longrightarrow> rd16 (replicate n (- 1)) = 0xFFFF"
proof -
  have "ucast (- 1 :: u8) OR push_bit 8 (ucast (- 1 :: u8)) = (0xFFFF :: u16)" by code_simp
  then show "2 \<le> n \<Longrightarrow> rd16 (replicate n (- 1)) = 0xFFFF"
    by (cases n; cases "n - 1") auto
qed

lemma rd16_take: "2 \<le> n \<Longrightarrow> rd16 (take n bs) = rd16 bs"
  by (cases bs; cases "tl bs"; cases n; cases "n - 1") auto

lemma dec_head_take: "8 \<le> length bs \<Longrightarrow> dec_head (take 8 bs) = dec_head bs"
  by (simp add: dec_head_def drop_take rd16_take)

lemma dec_head_flags [simp]: "h_flags (dec_head bs) = rd16 bs"
  by (simp add: dec_head_def)

lemma dec_enc_head [simp, layout_simps]: "dec_head (enc_head h @ bs) = h"
  by (simp add: dec_head_def enc_head_def)

lemma length_enc_head [simp, layout_simps]: "length (enc_head h) = 8"
  by (simp add: enc_head_def)

section \<open>Changes of one slot, one header, one sector\<close>

definition slot_update ::
  "'f nvol_config \<Rightarrow> (nat \<Rightarrow> u8) \<Rightarrow> u32 \<Rightarrow> nat \<Rightarrow> u8 list \<Rightarrow> (nat \<Rightarrow> u8) \<Rightarrow> bool" where
  "slot_update c m sec i b m' \<longleftrightarrow>
     (\<forall>sec' \<in> sectors c. header m' sec' = header m sec' \<and>
        (\<forall>j < mxr c. slot m' c sec' j = (if sec' = sec \<and> j = i then b else slot m c sec' j)))"

definition header_update ::
  "'f nvol_config \<Rightarrow> (nat \<Rightarrow> u8) \<Rightarrow> u32 \<Rightarrow> u8 list \<Rightarrow> (nat \<Rightarrow> u8) \<Rightarrow> bool" where
  "header_update c m sec h m' \<longleftrightarrow>
     (\<forall>sec' \<in> sectors c. header m' sec' = (if sec' = sec then h else header m sec') \<and>
        (\<forall>j < mxr c. slot m' c sec' j = slot m c sec' j))"

definition sector_erased :: "'f nvol_config \<Rightarrow> (nat \<Rightarrow> u8) \<Rightarrow> u32 \<Rightarrow> (nat \<Rightarrow> u8) \<Rightarrow> bool" where
  "sector_erased c m sec m' \<longleftrightarrow>
     blank_sector m' c sec \<and>
     (\<forall>sec' \<in> sectors c. sec' \<noteq> sec \<longrightarrow> header m' sec' = header m sec' \<and>
        (\<forall>j < mxr c. slot m' c sec' j = slot m c sec' j))"

definition rec_bytes :: "'f nvol_config \<Rightarrow> nvol_record \<Rightarrow> u8 list" where
  "rec_bytes c rec =
     (let n = unat (h_length (head rec))
      in enc_head (head rec) @ take n (key_and_data rec) @ replicate (rsz c - 8 - n) (- 1))"

definition flag_bytes :: "u16 \<Rightarrow> u8 list \<Rightarrow> u8 list" where
  "flag_bytes flags b = le16 (rd16 b AND flags) @ drop 2 b"

definition hdr_flags :: "u8 list \<Rightarrow> u32" where "hdr_flags h = rd32 h"
definition hdr_version :: "u8 list \<Rightarrow> u16" where "hdr_version h = ucast (NOT (rd32 (drop 12 h)))"

definition rec_buf :: "'f nvol_config \<Rightarrow> nvol_record \<Rightarrow> bool" where
  "rec_buf c rec \<longleftrightarrow> length (key_and_data rec) + 8 = rsz c"

lemma length_slot [simp]: "length (slot m c sec i) = rsz c"
  by (simp add: slot_def)

lemma length_header [simp]: "length (header m sec) = 16"
  by (simp add: header_def)

lemma take_append_drop_mid:
  "off + n \<le> length b \<Longrightarrow> b = take off b @ take n (drop off b) @ drop (off + n) b"
  by (metis append_take_drop_id drop_drop add.commute)

end
