(* ===== verification/Nvol_Effects.thy ===== *)
theory Nvol_Effects
  imports Nvol_Layout
begin

text \<open>
  The low-level functions over a driver that keeps its contract and a configuration that fits
  the device: the locale \<open>volume\<close>, and for each function the headers and slots it reads or
  changes.
\<close>

unbundle bit_operations_syntax

locale volume = flash_driver ops mem prog blank dsize
  for ops :: "'f flash_ops" and mem :: "'f \<Rightarrow> nat \<Rightarrow> u8"
    and prog :: "'f \<Rightarrow> nat \<Rightarrow> u8 list \<Rightarrow> 'f" and blank :: "'f \<Rightarrow> nat \<Rightarrow> nat \<Rightarrow> 'f"
    and dsize :: nat +
  fixes c :: "'f nvol_config"
  assumes cfg: "cfg_ok ops dsize c"
begin

lemma cfg_flash [simp]: "c_flash c = ops"
  using cfg by (simp add: cfg_ok_def)

lemma cfg_sizes:
  "ksz c + 8 \<le> rsz c" "0 < ksz c" "32 \<le> unat (c_sector_size c)" "4 \<le> mxr c" "mxr c \<le> 65535"
  "0 < rsz c" "c_hashsize c \<noteq> 0" "rsz c < 65536"
  using cfg by (auto simp: cfg_ok_def rsz_def)

lemma slots_fit: "32 + rsz c * mxr c \<le> unat (c_sector_size c)"
proof -
  have "rsz c * mxr c \<le> unat (c_sector_size c) - 32"
    by (simp add: rsz_def mxr_def)
  then show ?thesis using cfg_sizes(3) by linarith
qed

lemma sector_bounds:
  assumes "sec \<in> sectors c"
  shows "unat sec + 32 + rsz c * mxr c < dsize" "unat sec + unat (c_sector_size c) < 2 ^ 32"
  using assms cfg by (auto simp: cfg_ok_def sectors_def sector_fits_def)

lemma sectors_distinct: "c_sector1_addr c \<noteq> c_sector2_addr c"
  using cfg cfg_sizes(3) by (auto simp: cfg_ok_def)

lemma sectors_apart:
  assumes "sec \<in> sectors c" "sec' \<in> sectors c" "sec' \<noteq> sec"
  shows "unat sec + unat (c_sector_size c) \<le> unat sec' \<or>
         unat sec' + unat (c_sector_size c) \<le> unat sec"
  using assms cfg by (auto simp: cfg_ok_def sectors_def)

lemma record_step: "i < j \<Longrightarrow> rsz c * i + rsz c \<le> rsz c * j"
  by (metis Suc_leI add.commute mult_Suc_right mult_le_mono2)

lemma slot_bounds:
  assumes "i < mxr c"
  shows "unat sec + 32 \<le> slot_addr c sec i"
    "slot_addr c sec i + rsz c \<le> unat sec + 32 + rsz c * mxr c"
  using record_step [OF assms] by (simp_all add: slot_addr_def)

lemma slot_in_sector:
  assumes "i < mxr c"
  shows "slot_addr c sec i + rsz c \<le> unat sec + unat (c_sector_size c)"
  using slot_bounds(2) [OF assms, of sec] slots_fit by linarith

lemma slots_apart:
  assumes "sec \<in> sectors c" "sec' \<in> sectors c" "i < mxr c" "j < mxr c" "sec' \<noteq> sec \<or> j \<noteq> i"
  shows "slot_addr c sec' j + rsz c \<le> slot_addr c sec i \<or>
         slot_addr c sec i + rsz c \<le> slot_addr c sec' j"
proof (cases "sec' = sec")
  case True
  then have "j < i \<or> i < j" using assms(5) by auto
  then show ?thesis
    using record_step [of j i] record_step [of i j] True by (auto simp: slot_addr_def)
next
  case False
  then show ?thesis
    using sectors_apart [OF assms(1,2)] slot_in_sector [OF assms(3), of sec]
      slot_in_sector [OF assms(4), of sec'] slot_bounds(1) [OF assms(3), of sec]
      slot_bounds(1) [OF assms(4), of sec'] by linarith
qed

lemma header_slot_apart:
  assumes "sec \<in> sectors c" "sec' \<in> sectors c" "i < mxr c"
  shows "unat sec' + 16 \<le> slot_addr c sec i \<or> slot_addr c sec i + rsz c \<le> unat sec'"
proof (cases "sec' = sec")
  case True
  then show ?thesis using slot_bounds(1) [OF assms(3), of sec] by simp
next
  case False
  then show ?thesis
    using sectors_apart [OF assms(1,2)] slot_in_sector [OF assms(3), of sec]
      slot_bounds(1) [OF assms(3), of sec] cfg_sizes(3) by linarith
qed

lemma max_records_eq: "max_records c = Some (of_nat (mxr c))"
proof -
  have "unat (c_sector_size c - NVOL3_PAGE_SIZE) = unat (c_sector_size c) - 32"
    using cfg_sizes(3) by (subst unat_sub) (auto simp: NVOL3_PAGE_SIZE_def word_le_nat_alt)
  then have "(c_sector_size c - NVOL3_PAGE_SIZE) div ucast (c_record_size c) = of_nat (mxr c)"
    by (simp add: word_arith_nat_div mxr_def)
  moreover have "c_record_size c \<noteq> 0" using cfg_sizes(6) by (auto simp: rsz_def)
  ultimately show ?thesis by (simp add: max_records_def)
qed

lemma unat_mxr: "unat (of_nat (mxr c) :: u32) = mxr c"
  using cfg_sizes(5) by (simp add: unsigned_of_nat take_bit_nat_eq_self_iff)

lemma idx_lt [simp]: "(ucast (idx :: u16) :: u32) < of_nat (mxr c) \<longleftrightarrow> unat idx < mxr c"
  by (simp add: word_less_nat_alt unat_mxr)

lemma idx_le [simp]: "(of_nat (mxr c) :: u32) \<le> ucast (idx :: u16) \<longleftrightarrow> mxr c \<le> unat idx"
  by (simp add: word_le_nat_alt unat_mxr)

lemma record_offset_unat:
  assumes "sec \<in> sectors c" "unat idx < mxr c"
  shows "unat (record_offset c idx) = 32 + rsz c * unat idx"
    "unat (sec + record_offset c idx) = slot_addr c sec (unat idx)"
    "unat (sec + (record_offset c idx + SIZEOF_HEAD)) = slot_addr c sec (unat idx) + 8"
proof -
  have b: "slot_addr c sec (unat idx) + rsz c < 2 ^ 32"
    using slot_bounds(2) [OF assms(2), of sec] sector_bounds(1) [OF assms(1)] size_u32 by linarith
  have p: "unat (ucast (c_record_size c) * ucast idx :: u32) = rsz c * unat idx"
    using b by (subst unat_mult_lt) (auto simp: rsz_def slot_addr_def)
  show o: "unat (record_offset c idx) = 32 + rsz c * unat idx"
    unfolding record_offset_def
    by (subst unat_add_lt) (use b p in \<open>auto simp: slot_addr_def NVOL3_PAGE_SIZE_def\<close>)
  show "unat (sec + record_offset c idx) = slot_addr c sec (unat idx)"
    by (subst unat_add_lt) (use b o in \<open>auto simp: slot_addr_def\<close>)
  have h: "unat (record_offset c idx + SIZEOF_HEAD) = 32 + rsz c * unat idx + 8"
    by (subst unat_add_lt) (use b o cfg_sizes in \<open>auto simp: slot_addr_def SIZEOF_HEAD_def\<close>)
  show "unat (sec + (record_offset c idx + SIZEOF_HEAD)) = slot_addr c sec (unat idx) + 8"
    by (subst unat_add_lt) (use b h cfg_sizes in \<open>auto simp: slot_addr_def\<close>)
qed

lemma slot_access:
  assumes "sec \<in> sectors c" "i < mxr c" "n \<le> rsz c"
  shows "slot_addr c sec i + n < dsize"
  using slot_bounds(2) [OF assms(2), of sec] sector_bounds(1) [OF assms(1)] assms(3) by linarith

lemma unat_room: "unat (record_room c) = rsz c - 8"
  unfolding record_room_def
  by (subst unat_sub) (use cfg_sizes(1) in \<open>auto simp: word_le_nat_alt rsz_def\<close>)

lemma room_iff: "record_room c < ucast (l :: u16) \<longleftrightarrow> rsz c < unat l + 8"
  using cfg_sizes(1) by (simp add: word_less_nat_alt unat_room) linarith

section \<open>Reading\<close>

lemma get_sector_version_ok:
  assumes "sec \<in> sectors c"
  shows "get_sector_version c sec s =
    Some (hdr_version (header (mem (dev s)) sec), hdr_flags (header (mem (dev s)) sec))"
proof -
  have "f_read ops (dev s) sec 16 = Some (EOK, header (mem (dev s)) sec)"
    using drv_read [of sec 16 "dev s"] sector_bounds(1) [OF assms] by (simp add: header_def)
  then show ?thesis by (simp add: get_sector_version_def hdr_version_def hdr_flags_def)
qed

lemma read_head_bytes:
  assumes "sec \<in> sectors c" "unat idx < mxr c"
  shows "f_read ops f (sec + record_offset c idx) SIZEOF_HEAD =
         Some (EOK, take 8 (slot (mem f) c sec (unat idx)))"
proof -
  have "8 \<le> rsz c" using cfg_sizes(1) by simp
  then show ?thesis
    using drv_read [of "sec + record_offset c idx" SIZEOF_HEAD f] record_offset_unat(2) [OF assms]
      slot_access [OF assms(1,2), of 8]
    by (simp add: SIZEOF_HEAD_def slot_def take_bytes_at)
qed

lemma read_body_bytes:
  assumes "sec \<in> sectors c" "unat idx < mxr c" "8 + unat n \<le> rsz c"
  shows "f_read ops f (sec + (record_offset c idx + SIZEOF_HEAD)) n =
         Some (EOK, take (unat n) (drop 8 (slot (mem f) c sec (unat idx))))"
proof -
  have "slot_addr c sec (unat idx) + 8 + unat n < dsize"
    using slot_access [OF assms(1,2) assms(3)] by simp
  then show ?thesis
    using drv_read [of "sec + (record_offset c idx + SIZEOF_HEAD)" n f]
      record_offset_unat(3) [OF assms(1,2)] assms(3)
    by (simp add: slot_def drop_bytes_at take_bytes_at)
qed

lemma slot_body_length:
  assumes "head_status c (dec_head b) = EOK" "length b = rsz c"
  shows "unat (h_length (dec_head b)) + 8 \<le> rsz c"
    "length (slot_body b) = unat (h_length (dec_head b))"
proof -
  show l: "unat (h_length (dec_head b)) + 8 \<le> rsz c"
    using assms(1) unfolding head_status_EOK room_iff by simp
  then show "length (slot_body b) = unat (h_length (dec_head b))"
    using assms(2) by (simp add: slot_body_def)
qed

lemma read_record_ok:
  assumes "i_sector (inst s) \<in> sectors c" "unat idx < mxr c" "rec_buf c rec"
    "b = slot (mem (dev s)) c (i_sector (inst s)) (unat idx)"
  shows "read_variable_record c rec idx 0 s = Some (head_status c (dec_head b), read_result c b rec)"
    "rec_buf c (read_result c b rec)"
proof -
  have b: "length b = rsz c" by (simp add: assms(4))
  have d8: "dec_head (take 8 b) = dec_head b"
    by (rule dec_head_take) (use b cfg_sizes(1) in simp)
  note rh = read_head_bytes [OF assms(1,2), of "dev s", folded assms(4)]
  show "rec_buf c (read_result c b rec)"
    using assms(3) slot_body_length [OF _ b] by (auto simp: rec_buf_def read_result_def)
  show "read_variable_record c rec idx 0 s = Some (head_status c (dec_head b), read_result c b rec)"
  proof (cases "head_status c (dec_head b) = EOK")
    case False
    then show ?thesis
      using rh d8 assms(2)
      by (simp add: read_variable_record_def max_records_eq Let_def read_result_def)
  next
    case True
    note l = slot_body_length [OF True b]
    let ?n = "ucast (h_length (dec_head b)) :: u32"
    have rb: "f_read ops (dev s) (i_sector (inst s) + (record_offset c idx + SIZEOF_HEAD)) ?n =
        Some (EOK, slot_body b)"
      using read_body_bytes [OF assms(1,2), of ?n "dev s", folded assms(4)] l(1)
      by (simp add: slot_body_def)
    have bw: "buf_write (key_and_data rec) 0 (slot_body b) =
        Some (slot_body b @ drop (length (slot_body b)) (key_and_data rec))"
      using assms(3) l by (simp add: buf_write_def rec_buf_def)
    have z: "h_length (dec_head b) = 0 \<Longrightarrow> slot_body b = []"
      using l(2) by simp
    have z2: "?n = 0 \<longleftrightarrow> h_length (dec_head b) = 0"
      by (simp add: unat_eq_zero [symmetric])
    show ?thesis
      using rh d8 assms(2) True rb bw z
      by (auto simp: read_variable_record_def max_records_eq Let_def read_result_def z2)
  qed
qed

lemma read_head_ok:
  assumes "i_sector (inst s) \<in> sectors c" "unat idx < mxr c"
    "b = slot (mem (dev s)) c (i_sector (inst s)) (unat idx)"
  shows "read_variable_record_head c h idx s = Some (head_status c (dec_head b), dec_head b)"
proof -
  have "length b = rsz c" by (simp add: assms(3))
  then have "dec_head (take 8 b) = dec_head b"
    by (intro dec_head_take) (use cfg_sizes(1) in simp)
  then show ?thesis
    using read_head_bytes [OF assms(1,2), of "dev s", folded assms(3)] assms(2)
    by (simp add: read_variable_record_head_def read_variable_record_head_sector_def max_records_eq)
qed

lemma record_valid_iff:
  assumes "length b = rsz c" "rec_buf c rec" "head_status c (dec_head b) = EOK"
  shows "variable_record_valid (read_result c b rec) = Some (if valid_slot c b then EOK else E_INVALID)"
proof -
  note l = slot_body_length [OF assms(3,1)]
  have "buf_read (key_and_data (read_result c b rec)) 0 (unat (h_length (dec_head b))) = Some (slot_body b)"
    using assms l by (simp add: buf_read_def read_result_def rec_buf_def)
  then show ?thesis
    using assms(3) by (auto simp: variable_record_valid_def read_result_def valid_slot_def)
qed

end

end
