(* ===== verification/Nvol_Writes.thy ===== *)
theory Nvol_Writes
  imports Nvol_Effects
begin

text \<open>
  The low-level functions that change FLASH, over the locale \<open>volume\<close>: each one succeeds and
  changes one slot, one header or one sector.
\<close>

unbundle bit_operations_syntax

lemma flag_bytes_length [simp]: "2 \<le> length b \<Longrightarrow> length (flag_bytes flags b) = length b"
  by (simp add: flag_bytes_def)

lemma rd16_flag_bytes [simp]: "rd16 (flag_bytes flags b) = rd16 b AND flags"
  by (simp add: flag_bytes_def)

lemma drop2_flag_bytes [simp]: "drop 2 (flag_bytes flags b) = drop 2 b"
  by (simp add: flag_bytes_def)

lemma drop_flag_bytes [simp]: "2 \<le> n \<Longrightarrow> drop n (flag_bytes flags b) = drop n b"
proof -
  assume "2 \<le> n"
  then have "n = (n - 2) + 2" by simp
  then have "drop n x = drop (n - 2) (drop 2 x)" for x :: "u8 list"
    by (simp only: drop_drop)
  then show ?thesis by (metis drop2_flag_bytes)
qed

lemma dec_head_flag_bytes:
  "dec_head (flag_bytes flags b) = dec_head b\<lparr>h_flags := rd16 b AND flags\<rparr>"
  by (simp add: dec_head_def)

lemma slot_body_flag_bytes: "slot_body (flag_bytes flags b) = slot_body b"
  by (simp add: slot_body_def dec_head_flag_bytes)

lemma le16_AND: "and_bytes (le16 v) (le16 w) = le16 (v AND w)"
  unfolding and_bytes_def le16_def
  by (auto intro!: bit_word_eqI simp: bit_and_iff bit_ucast_iff bit_drop_bit_eq)

lemma flags_invalid_live: "live c (flag_bytes NVOL3_RECORD_FLAGS_INVALID b) = None"
  by (simp add: live_def valid_slot_def dec_head_flag_bytes head_status_def record_flags_defs)

lemma flags_invalid_status:
  "head_status c (dec_head (flag_bytes NVOL3_RECORD_FLAGS_INVALID b)) = E_INVALID"
  by (simp add: dec_head_flag_bytes head_status_def record_flags_defs)

context volume
begin

lemma prog_slot:
  assumes "sec \<in> sectors c" "i < mxr c" "off + length ds \<le> rsz c"
  shows "slot_update c (mem f) sec i
    (take off (slot (mem f) c sec i) @
     and_bytes (take (length ds) (drop off (slot (mem f) c sec i))) ds @
     drop (off + length ds) (slot (mem f) c sec i))
    (mem (prog f (slot_addr c sec i + off) ds))"
  unfolding slot_update_def
proof (intro ballI conjI allI impI)
  let ?p = "slot_addr c sec i + off"
  fix sec' assume sec': "sec' \<in> sectors c"
  show "header (mem (prog f ?p ds)) sec' = header (mem f) sec'"
    unfolding header_def
    by (rule prog_frame) (use header_slot_apart [OF assms(1) sec' assms(2)] assms(3) in auto)
  fix j assume j: "j < mxr c"
  let ?b = "slot (mem f) c sec i"
  have same: "slot (mem (prog f ?p ds)) c sec i =
    take off ?b @ and_bytes (take (length ds) (drop off ?b)) ds @ drop (off + length ds) ?b"
  proof -
    let ?m = "mem (prog f ?p ds)" and ?a = "slot_addr c sec i" and ?n = "length ds"
    have s: "rsz c = off + (?n + (rsz c - off - ?n))" using assms(3) by simp
    have "slot ?m c sec i = bytes_at ?m ?a off @ bytes_at ?m ?p ?n @
        bytes_at ?m (?p + ?n) (rsz c - off - ?n)"
      unfolding slot_def by (subst s) (simp only: bytes_at_append)
    moreover have "bytes_at ?m ?a off = take off ?b"
      using assms(3) prog_frame [of ?a off ?p ds f] by (simp add: slot_def take_bytes_at)
    moreover have "bytes_at ?m ?p ?n = and_bytes (take ?n (drop off ?b)) ds"
      using assms(3) prog_bytes [of ?p ?p ?n ds f]
      by (simp add: slot_def drop_bytes_at take_bytes_at)
    moreover have "bytes_at ?m (?p + ?n) (rsz c - off - ?n) = drop (off + ?n) ?b"
      using assms(3) prog_frame [of "?p + ?n" "rsz c - off - ?n" ?p ds f]
      by (simp add: slot_def drop_bytes_at add.assoc)
    ultimately show ?thesis by simp
  qed
  show "slot (mem (prog f ?p ds)) c sec' j =
    (if sec' = sec \<and> j = i then take off ?b @ and_bytes (take (length ds) (drop off ?b)) ds @
       drop (off + length ds) ?b else slot (mem f) c sec' j)"
  proof (cases "sec' = sec \<and> j = i")
    case True
    with same show ?thesis by simp
  next
    case False
    then have "slot (mem (prog f ?p ds)) c sec' j = slot (mem f) c sec' j"
      unfolding slot_def
      by (intro prog_frame)
         (use slots_apart [OF assms(1) sec' assms(2) j] assms(3) in auto)
    with False show ?thesis by (simp only: if_False)
  qed
qed

lemma set_flags_ok:
  assumes "sec \<in> sectors c" "unat idx < mxr c"
  obtains f where "set_variable_record_flags c sec flags idx s = Some (EOK, s\<lparr>dev := f\<rparr>)"
    "slot_update c (mem (dev s)) sec (unat idx)
       (flag_bytes flags (slot (mem (dev s)) c sec (unat idx))) (mem f)"
proof -
  let ?b = "slot (mem (dev s)) c sec (unat idx)"
  have n: "2 \<le> rsz c" using cfg_sizes(1) by simp
  have w: "f_write ops (dev s) (sec + record_offset c idx) 2 (le16 flags) =
      Some (EOK, prog (dev s) (slot_addr c sec (unat idx)) (le16 flags))"
    using drv_write [of "sec + record_offset c idx" 2 "le16 flags" "dev s"]
      record_offset_unat(2) [OF assms] slot_access [OF assms n] by simp
  have "and_bytes (take 2 ?b) (le16 flags) = le16 (rd16 ?b AND flags)"
  proof -
    have "take 2 ?b = le16 (rd16 ?b)"
      using le16_rd16 [of "take 2 ?b"] n by (simp add: rd16_take)
    then show ?thesis by (simp add: le16_AND)
  qed
  then have "slot_update c (mem (dev s)) sec (unat idx) (flag_bytes flags ?b)
      (mem (prog (dev s) (slot_addr c sec (unat idx)) (le16 flags)))"
    using prog_slot [OF assms, of 0 "le16 flags" "dev s"] n
    by (simp add: flag_bytes_def numeral_2_eq_2)
  with that w assms(2) show ?thesis
    by (simp add: set_variable_record_flags_def max_records_eq)
qed

lemma write_record_ok:
  assumes "sec \<in> sectors c" "unat idx < mxr c" "rec_buf c rec"
    "slot (mem (dev s)) c sec (unat idx) = blank_slot c"
    "h_flags (head rec) \<noteq> 0" "unat (h_length (head rec)) + 8 \<le> rsz c"
  obtains f where "write_variable_record c sec rec idx s = Some (EOK, s\<lparr>dev := f\<rparr>)"
    "slot_update c (mem (dev s)) sec (unat idx) (rec_bytes c rec) (mem f)"
proof -
  let ?n = "unat (h_length (head rec))" and ?b = "slot (mem (dev s)) c sec (unat idx)"
  let ?ds = "enc_head (head rec) @ take ?n (key_and_data rec)"
  have kd: "?n \<le> length (key_and_data rec)" using assms(3,6) by (simp add: rec_buf_def)
  then have len: "length ?ds = ?n + 8" by simp
  have un: "unat (ucast (h_length (head rec)) + SIZEOF_HEAD) = ?n + 8"
    by (subst unat_add_lt)
       (use unat_u16_lt [of "h_length (head rec)"] in
         \<open>simp_all add: SIZEOF_HEAD_def del: unat_u16_lt\<close>)
  have w: "f_write ops (dev s) (sec + record_offset c idx)
        (ucast (h_length (head rec)) + SIZEOF_HEAD) ?ds =
      Some (EOK, prog (dev s) (slot_addr c sec (unat idx)) ?ds)"
    using drv_write [of "sec + record_offset c idx" "ucast (h_length (head rec)) + SIZEOF_HEAD" ?ds "dev s"]
      record_offset_unat(2) [OF assms(1,2)] slot_access [OF assms(1,2,6)] un len by simp
  have "and_bytes (take (?n + 8) ?b) ?ds = ?ds"
    using len assms(4,6) by (intro and_bytes_blank) (auto simp: blank_slot_def)
  then have "slot_update c (mem (dev s)) sec (unat idx) (rec_bytes c rec)
      (mem (prog (dev s) (slot_addr c sec (unat idx)) ?ds))"
    using prog_slot [OF assms(1,2), of 0 ?ds "dev s"] assms(4,6) len
    by (simp add: rec_bytes_def blank_slot_def Let_def diff_diff_eq add.commute)
  moreover have "write_variable_record c sec rec idx s =
      Some (EOK, s\<lparr>dev := prog (dev s) (slot_addr c sec (unat idx)) ?ds\<rparr>)"
    using w assms(2,5) kd by (simp add: write_variable_record_def max_records_eq buf_read_def)
  ultimately show ?thesis by (rule that [rotated])
qed

lemma prog_header:
  assumes "sec \<in> sectors c" "length ds = 16"
  shows "header_update c (mem f) sec (and_bytes (header (mem f) sec) ds) (mem (prog f (unat sec) ds))"
  unfolding header_update_def
proof (intro ballI conjI allI impI)
  fix sec' assume sec': "sec' \<in> sectors c"
  show "header (mem (prog f (unat sec) ds)) sec' =
    (if sec' = sec then and_bytes (header (mem f) sec) ds else header (mem f) sec')"
  proof (cases "sec' = sec")
    case True
    then show ?thesis using prog_bytes [of "unat sec" "unat sec" 16 ds f] assms(2)
      by (simp add: header_def)
  next
    case False
    then show ?thesis unfolding header_def
      using prog_frame [of "unat sec'" 16 "unat sec" ds f] sectors_apart [OF assms(1) sec' False]
        cfg_sizes(3) assms(2) by auto
  qed
  fix j assume j: "j < mxr c"
  show "slot (mem (prog f (unat sec) ds)) c sec' j = slot (mem f) c sec' j"
    unfolding slot_def
    by (rule prog_frame) (use header_slot_apart [OF sec' assms(1) j] assms(2) in auto)
qed

lemma set_sector_flags_ok:
  assumes "sec \<in> sectors c"
  obtains f where "set_sector_flags c sec flags s = Some (EOK, s\<lparr>dev := f\<rparr>)"
    "header_update c (mem (dev s)) sec
       (and_bytes (header (mem (dev s)) sec) (sector_record c flags)) (mem f)"
proof -
  have len: "length (sector_record c flags) = 16" by (simp add: sector_record_def)
  have "f_write ops (dev s) sec 16 (sector_record c flags) =
      Some (EOK, prog (dev s) (unat sec) (sector_record c flags))"
    using drv_write [of sec 16 "sector_record c flags" "dev s"] sector_bounds(1) [OF assms] len by simp
  then show ?thesis
    using that prog_header [OF assms len] get_sector_version_ok [OF assms]
    by (simp add: set_sector_flags_def)
qed

lemma erase_ok:
  assumes "sec \<in> sectors c"
  obtains f where "erase_sector c sec (c_sector_size c) s = Some (EOK, s\<lparr>dev := f\<rparr>)"
    "sector_erased c (mem (dev s)) sec (mem f)"
proof -
  note b = sector_bounds [OF assms]
  have u: "unat (sec + c_sector_size c) = unat sec + unat (c_sector_size c)"
    using b(2) by (intro unat_add_lt) simp
  let ?f = "blank (dev s) (unat sec) (unat sec + unat (c_sector_size c))"
  have e: "erase_sector c sec (c_sector_size c) s = Some (EOK, s\<lparr>dev := ?f\<rparr>)"
    using drv_erase [of sec "sec + c_sector_size c" "dev s"] b u by (simp add: erase_sector_def)
  have slots: "slot (mem ?f) c sec j = blank_slot c" if "j < mxr c" for j
    unfolding slot_def blank_slot_def
    by (rule blank_bytes)
       (use slot_bounds [OF that, of sec] slot_in_sector [OF that, of sec] b in auto)
  have hdr: "header (mem ?f) sec = blank_header"
    unfolding header_def blank_header_def
    by (rule blank_bytes) (use b cfg_sizes(3) in auto)
  have "header (mem ?f) sec' = header (mem (dev s)) sec' \<and>
      (\<forall>j < mxr c. slot (mem ?f) c sec' j = slot (mem (dev s)) c sec' j)"
    if s': "sec' \<in> sectors c" "sec' \<noteq> sec" for sec'
  proof (intro conjI allI impI)
    note ap = sectors_apart [OF assms s'] and b' = sector_bounds [OF s'(1)]
    show "header (mem ?f) sec' = header (mem (dev s)) sec'"
      unfolding header_def by (rule blank_frame) (use ap b' cfg_sizes(3) in auto)
    fix j assume j: "j < mxr c"
    show "slot (mem ?f) c sec' j = slot (mem (dev s)) c sec' j"
      unfolding slot_def
      by (rule blank_frame)
         (use ap b' slot_bounds [OF j, of sec'] slot_in_sector [OF j, of sec'] in auto)
  qed
  with that e slots hdr show ?thesis by (simp add: sector_erased_def blank_sector_def)
qed

end

end
