(* ===== verification/Nvol_Lookup.thy ===== *)
theory Nvol_Lookup
  imports Nvol_Writes
begin

text \<open>
  The lookup table in RAM against the slots on FLASH: inserting a record updates the table's
  map, and \<^verbatim>\<open>construct_lookup_table\<close> scans the sector up to the first empty slot, ends, marks
  corrupt records invalid and leaves the table that \<open>scan\<close> describes.
\<close>

unbundle bit_operations_syntax

text \<open>The table of a state holds the entries of an index.\<close>

definition table_is :: "'f nvol_config \<Rightarrow> 'f nvol \<Rightarrow> (u8 list \<rightharpoonup> nat \<times> u8 list) \<Rightarrow> bool" where
  "table_is c s ix \<longleftrightarrow>
     (\<exists>d. i_dict (inst s) = Some d \<and> dict_inv d (hp s) \<and> d_keyspec d = c_keyspec c \<and>
          dict_map d = (\<lambda>k. map_option (entry_of c) (ix k)))"

text \<open>The first empty slot ends the used part of a sector; every used valid slot holds a key.\<close>

definition used_slots :: "'f nvol_config \<Rightarrow> (nat \<Rightarrow> u8 list) \<Rightarrow> nat \<Rightarrow> bool" where
  "used_slots c sl n \<longleftrightarrow>
     n \<le> mxr c \<and> (\<forall>j < n. rd16 (sl j) \<noteq> NVOL3_RECORD_FLAGS_EMPTY) \<and>
     (n < mxr c \<longrightarrow> rd16 (sl n) = NVOL3_RECORD_FLAGS_EMPTY)"

definition keyed_slots :: "'f nvol_config \<Rightarrow> (nat \<Rightarrow> u8 list) \<Rightarrow> nat \<Rightarrow> bool" where
  "keyed_slots c sl n \<longleftrightarrow> (\<forall>j < n. valid_slot c (sl j) \<longrightarrow> ksz c \<le> length (slot_body (sl j)))"

text \<open>A corrupt record, marked valid but with a wrong checksum, is marked invalid.\<close>

definition clean :: "'f nvol_config \<Rightarrow> u8 list \<Rightarrow> u8 list" where
  "clean c b =
     (if head_status c (dec_head b) = EOK \<and> \<not> valid_slot c b
      then flag_bytes NVOL3_RECORD_FLAGS_INVALID b else b)"

definition cleaned ::
  "'f nvol_config \<Rightarrow> (nat \<Rightarrow> u8) \<Rightarrow> u32 \<Rightarrow> nat \<Rightarrow> (nat \<Rightarrow> u8) \<Rightarrow> bool" where
  "cleaned c m sec i m' \<longleftrightarrow>
     (\<forall>sec' \<in> sectors c. header m' sec' = header m sec' \<and>
        (\<forall>j < mxr c. slot m' c sec' j =
           (if sec' = sec \<and> j < i then clean c (slot m c sec' j) else slot m c sec' j)))"

lemma live_clean [simp]: "live c (clean c b) = live c b"
  by (auto simp: clean_def flags_invalid_live) (simp add: live_def)

lemma clean_valid: "valid_slot c b \<Longrightarrow> clean c b = b"
  by (simp add: clean_def)

lemma head_status_empty:
  "head_status c (dec_head b) = E_EMPTY \<longleftrightarrow> rd16 b = NVOL3_RECORD_FLAGS_EMPTY"
  by (auto simp: head_status_def record_flags_defs)

lemma head_status_range:
  "head_status c h \<in> {EOK, E_EMPTY, E_INVALID, E_UNKNOWN}"
  by (simp add: head_status_def)

lemma cleaned_0: "cleaned c m sec 0 m"
  by (simp add: cleaned_def)

lemma cleaned_step_same:
  "cleaned c m sec i m' \<Longrightarrow> sec \<in> sectors c \<Longrightarrow> i < mxr c \<Longrightarrow> clean c (slot m c sec i) = slot m c sec i \<Longrightarrow>
   cleaned c m sec (Suc i) m'"
  by (auto simp: cleaned_def less_Suc_eq)

lemma cleaned_step_mark:
  assumes "cleaned c m sec i m'" "sec \<in> sectors c" "i < mxr c"
    "slot_update c m' sec i (clean c (slot m c sec i)) m''"
  shows "cleaned c m sec (Suc i) m''"
  using assms by (auto simp: cleaned_def slot_update_def less_Suc_eq)

lemma cleaned_slot:
  "cleaned c m sec i m' \<Longrightarrow> sec \<in> sectors c \<Longrightarrow> i < mxr c \<Longrightarrow> slot m' c sec i = slot m c sec i"
  by (simp add: cleaned_def)

lemma table_is_loaded:
  assumes "table_is c s ix"
  obtains d where "loaded_dict s = Some d" "i_dict (inst s) = Some d" "dict_inv d (hp s)"
    "d_keyspec d = c_keyspec c" "dict_map d = (\<lambda>k. map_option (entry_of c) (ix k))"
  using assms by (auto simp: table_is_def loaded_dict_def dict_inv_def)

lemma table_is_dev [simp]: "table_is c (s\<lparr>dev := f\<rparr>) ix = table_is c s ix"
  by (simp add: table_is_def)

lemma table_is_upd_inst:
  "(\<And>i. i_dict (f i) = i_dict i) \<Longrightarrow> table_is c (upd_inst f s) ix = table_is c s ix"
  by (simp add: table_is_def)

lemma loaded_dict_dev [simp]: "loaded_dict (s\<lparr>dev := f\<rparr>) = loaded_dict s"
  by (simp add: loaded_dict_def)

text \<open>Keys of a fixed size.\<close>

lemma fixed_key_at:
  "fixed_key c \<Longrightarrow> ksz c \<le> length p \<Longrightarrow> dict_key_at (c_keyspec c) p = Some (take (ksz c) p)"
  by (auto simp: fixed_key_def dict_key_at_def buf_read_def)

lemma fixed_key_ok: "fixed_key c \<Longrightarrow> dict_key_ok (c_keyspec c) k \<longleftrightarrow> length k = ksz c"
  by (auto simp: fixed_key_def dict_key_ok_def)

lemma dec_enc_entry [simp]: "dec_entry (enc_entry i l v) = Some \<lparr>e_idx = i, e_length = l, e_local = v\<rparr>"
  by (simp add: dec_entry_def enc_entry_def)

lemma dec_entry_of:
  "dec_entry (entry_of c (i, v)) =
     Some \<lparr>e_idx = of_nat i, e_length = of_nat (length v), e_local = cached c v\<rparr>"
  by (simp add: entry_of_def)

context volume
begin

lemma cfg_fixed_key: "fixed_key c"
  using cfg by (simp add: cfg_ok_def)

lemma key_at_record: "rec_buf c rec \<Longrightarrow> dict_key_at (c_keyspec c) (key_and_data rec) = Some (take (ksz c) (key_and_data rec))"
  using cfg_sizes(1) by (intro fixed_key_at cfg_fixed_key) (simp add: rec_buf_def)

lemma insert_table_ok:
  assumes t: "table_is c s ix" and pl: "plenty (hp s)" and rb: "rec_buf c rec"
    and len: "l = unat (h_length (head rec))" "l + 8 \<le> rsz c" "ksz c \<le> l"
    and kv: "k = take (ksz c) (key_and_data rec)" "v = drop (ksz c) (take l (key_and_data rec))"
  obtains d' h' where "insert_lookup_table c rec idx s = Some (EOK, (set_dict d' s)\<lparr>hp := h'\<rparr>)"
    "table_is c ((set_dict d' s)\<lparr>hp := h'\<rparr>) (ix(k \<mapsto> (unat idx, v)))" "plenty h'"
    "junk h' = junk (hp s)"
proof -
  obtain d where d: "loaded_dict s = Some d" "dict_inv d (hp s)" "d_keyspec d = c_keyspec c"
    "dict_map d = (\<lambda>k. map_option (entry_of c) (ix k))"
    using table_is_loaded [OF t] by metis
  have kdl: "length (key_and_data rec) = rsz c - 8" using rb by (simp add: rec_buf_def)
  have kok: "dict_key_ok (d_keyspec d) k"
    using cfg_sizes(1) by (simp add: d(3) fixed_key_ok [OF cfg_fixed_key] kv(1) kdl)
  have vl: "length v = l - ksz c" using len by (simp add: kv(2) kdl)
  have "ucast (c_key_size c) \<le> (ucast (h_length (head rec)) :: u32)"
    using len(1,3) by (simp add: word_le_nat_alt ksz_def)
  then have ls: "unat (ucast (h_length (head rec)) - ucast (c_key_size c) :: u32) = length v"
    using len(1) by (simp add: unat_sub vl ksz_def)
  have hl: "h_length (head rec) - c_key_size c = of_nat (length v)"
    using len(1,3) by (simp add: vl ksz_def of_nat_diff)
  define localsize :: u32 where "localsize =
    (if ucast (h_length (head rec)) - ucast (c_key_size c) > (ucast (c_local_size c) :: u32) then 0
     else ucast (h_length (head rec)) - ucast (c_key_size c))"
  have lsz: "unat localsize = length (cached c v)"
    by (auto simp: localsize_def cached_def word_less_nat_alt ls)
  have cl: "length (cached c v) \<le> l - ksz c" by (simp add: cached_def vl)
  have "l < 65536" by (simp add: len(1))
  then have un: "unat (SIZEOF_ENTRY + localsize) = 4 + length (cached c v)"
    using lsz cl by (subst unat_add_lt) (auto simp: SIZEOF_ENTRY_def)
  have rl: "buf_read (key_and_data rec) (unat (c_key_size c)) (unat localsize) = Some (cached c v)"
  proof (cases "cached c v = []")
    case True
    then show ?thesis using len kdl lsz by (simp add: buf_read_def ksz_def)
  next
    case False
    then have "cached c v = v" by (auto simp: cached_def split: if_splits)
    then show ?thesis using len kdl lsz vl
      by (simp add: buf_read_def ksz_def [symmetric] kv(2) drop_take)
  qed
  let ?val = "enc_entry idx (h_length (head rec) - c_key_size c) (cached c v)"
  have "length ?val = unat (SIZEOF_ENTRY + localsize)" by (simp add: enc_entry_def un)
  from dict.replace_value [OF d(2) kok pl this] obtain np d1 h' d' where
    i: "dictionary_install_size (snd (dictionary_remove d k)) k (SIZEOF_ENTRY + localsize) (hp s) =
       (Some np, d1, h')" "dict_write_value d1 (naddr np) 0 ?val = Some d'"
    and r: "dict_inv d' h'" "plenty h'" "d_keyspec d' = d_keyspec d" "junk h' = junk (hp s)"
    "dict_map d' = (dict_map d)(k \<mapsto> ?val)" by metis
  have "?val = entry_of c (unat idx, v)" by (simp add: entry_of_def hl)
  then have "dict_map d' = (\<lambda>x. map_option (entry_of c) ((ix(k \<mapsto> (unat idx, v))) x))"
    using r(5) d(4) by auto
  then have "table_is c ((set_dict d' s)\<lparr>hp := h'\<rparr>) (ix(k \<mapsto> (unat idx, v)))"
    using r d(3) by (simp add: table_is_def set_dict_def)
  moreover have "insert_lookup_table c rec idx s = Some (EOK, (set_dict d' s)\<lparr>hp := h'\<rparr>)"
    using d(1,3) key_at_record [OF rb] i rl
    by (simp add: insert_lookup_table_def kv(1) [symmetric] localsize_def [symmetric] Let_def set_dict_def upd_inst_def)
  ultimately show ?thesis using that r by blast
qed

text \<open>One pass over a sector.\<close>

lemma construct_loop_ok:
  fixes m0 :: "nat \<Rightarrow> u8" and sec :: u32
  defines "sl \<equiv> slot m0 c sec"
  assumes sec: "sec \<in> sectors c" and used: "used_slots c sl n" and keyed: "keyed_slots c sl n"
  assumes "i_sector (inst s) = sec" "unat idx \<le> n" "rec_buf c scratch" "plenty (hp s)"
    "cleaned c m0 sec (unat idx) (mem (dev s))" "table_is c s (scan c sl (unat idx))"
  shows "\<exists>st' scratch' s'. construct_loop c scratch idx st s = Some (st', of_nat n, scratch', s') \<and>
    (n < mxr c \<or> unat idx < n \<longrightarrow> st' = Some EOK) \<and> rec_buf c scratch' \<and> plenty (hp s') \<and>
    i_sector (inst s') = sec \<and> cleaned c m0 sec n (mem (dev s')) \<and> table_is c s' (scan c sl n) \<and>
    junk (hp s') = junk (hp s)"
  using assms(5-)
proof (induction "n - unat idx" arbitrary: idx st s scratch)
  case 0
  then have n: "unat idx = n" by simp
  have "of_nat (unat idx) = idx" by simp
  then have idx: "idx = of_nat n" unfolding n by simp
  show ?case
  proof (cases "n < mxr c")
    case False
    then show ?thesis
      using 0 n idx by (subst construct_loop.simps) (simp add: max_records_eq)
  next
    case True
    let ?b = "slot (mem (dev s)) c sec n"
    have "?b = sl n" using cleaned_slot 0(6) sec True n by (simp add: sl_def)
    then have e: "head_status c (dec_head ?b) = E_EMPTY"
      using used True by (simp only: head_status_empty used_slots_def)
    have "read_variable_record c scratch idx 0 s = Some (E_EMPTY, read_result c ?b scratch)"
      "rec_buf c (read_result c ?b scratch)"
      using read_record_ok [of s idx scratch ?b] 0 sec True n e by simp_all
    then show ?thesis
      using 0 n idx True by (subst construct_loop.simps) (simp add: max_records_eq)
  qed
next
  case (Suc k)
  let ?i = "unat idx"
  have "?i < n" "n \<le> mxr c" using Suc.hyps(2) used by (simp_all add: used_slots_def)
  then have i: "?i < n" "?i < mxr c" by simp_all
  have suc: "unat (idx + 1) = Suc ?i"
    using i(2) cfg_sizes(5) by (intro unat_Suc_u16) simp
  let ?b = "slot (mem (dev s)) c sec ?i"
  have b: "?b = sl ?i" using cleaned_slot Suc.prems(5) sec i(2) by (simp add: sl_def)
  let ?rec = "read_result c ?b scratch"
  have rd: "read_variable_record c scratch idx 0 s = Some (head_status c (dec_head ?b), ?rec)"
    "rec_buf c ?rec"
    using read_record_ok [of s idx scratch ?b] Suc.prems sec i by simp_all
  have ne: "head_status c (dec_head ?b) \<noteq> E_EMPTY"
    using used i(1) unfolding b head_status_empty by (simp add: used_slots_def)
  have step: ?case
    if "construct_loop c scratch idx st s = construct_loop c sc' (idx + 1) (Some EOK) s'"
      "rec_buf c sc'" "plenty (hp s')" "i_sector (inst s') = sec"
      "cleaned c m0 sec (Suc ?i) (mem (dev s'))" "table_is c s' (scan c sl (Suc ?i))"
      "junk (hp s') = junk (hp s)" for sc' s'
  proof -
    have "k = n - unat (idx + 1)" using Suc.hyps(2) suc by simp
    from Suc.hyps(1) [OF this, of s' sc' "Some EOK"] that suc i(1)
    obtain st1 sc1 s1 where r:
      "construct_loop c sc' (idx + 1) (Some EOK) s' = Some (st1, of_nat n, sc1, s1)"
      "n < mxr c \<or> Suc ?i < n \<longrightarrow> st1 = Some EOK" "rec_buf c sc1" "plenty (hp s1)"
      "i_sector (inst s1) = sec" "cleaned c m0 sec n (mem (dev s1))" "table_is c s1 (scan c sl n)"
      "junk (hp s1) = junk (hp s)" by auto
    have "st1 = Some EOK"
    proof (cases "n < mxr c \<or> Suc ?i < n")
      case True
      with r(2) show ?thesis by simp
    next
      case False
      then have "unat (idx + 1) = n" "\<not> n < mxr c" using i(1) suc by auto
      then have "construct_loop c sc' (idx + 1) (Some EOK) s' = Some (Some EOK, idx + 1, sc', s')"
        by (subst construct_loop.simps) (simp add: max_records_eq)
      with r(1) show ?thesis by simp
    qed
    with r that(1) show ?thesis by auto
  qed
  consider (bad) "head_status c (dec_head ?b) \<noteq> EOK"
    | (corrupt) "head_status c (dec_head ?b) = EOK" "\<not> valid_slot c ?b"
    | (good) "head_status c (dec_head ?b) = EOK" "valid_slot c ?b" by blast
  then show ?case
  proof cases
    case bad
    then have "\<not> valid_slot c ?b" by (simp add: valid_slot_def)
    then have sc: "live c (sl ?i) = None" "clean c (sl ?i) = sl ?i"
      using bad unfolding b by (simp_all add: live_def clean_def)
    let ?s' = "if head_status c (dec_head ?b) = E_INVALID then count_invalid s else count_error s"
    have "construct_loop c scratch idx st s = construct_loop c ?rec (idx + 1) (Some EOK) ?s'"
      using rd ne bad i(2) head_status_range [of c "dec_head ?b"]
      by (subst construct_loop.simps) (auto simp: max_records_eq)
    then show ?thesis
      by (rule step) (use Suc.prems sc sec i rd cleaned_step_same [OF Suc.prems(5) sec i(2)] in
        \<open>simp_all add: count_invalid_def count_error_def table_is_upd_inst sl_def\<close>)
  next
    case corrupt
    then have nv: "\<not> valid_slot c (sl ?i)" unfolding b by simp
    have lv: "live c (sl ?i) = None" "clean c (sl ?i) = flag_bytes NVOL3_RECORD_FLAGS_INVALID (sl ?i)"
      using corrupt unfolding b by (simp_all add: live_def clean_def)
    obtain f where f: "set_variable_record_flags c sec NVOL3_RECORD_FLAGS_INVALID idx s =
        Some (EOK, s\<lparr>dev := f\<rparr>)"
      "slot_update c (mem (dev s)) sec ?i (flag_bytes NVOL3_RECORD_FLAGS_INVALID ?b) (mem f)"
      using set_flags_ok [OF sec i(2), of NVOL3_RECORD_FLAGS_INVALID s] by metis
    let ?s' = "count_invalid (count_error (s\<lparr>dev := f\<rparr>))"
    have "variable_record_valid ?rec = Some E_INVALID"
      using record_valid_iff [of ?b scratch] corrupt Suc.prems(3) by simp
    then have "construct_loop c scratch idx st s = construct_loop c ?rec (idx + 1) (Some EOK) ?s'"
      using rd corrupt(1) i(2) f(1) Suc.prems(1)
      by (subst construct_loop.simps) (simp add: max_records_eq)
    then show ?thesis
    proof (rule step)
      show "cleaned c m0 sec (Suc ?i) (mem (dev ?s'))"
        using cleaned_step_mark [OF Suc.prems(5) sec i(2), of "mem f"] f(2) b lv
        by (simp add: count_invalid_def count_error_def sl_def)
    qed (use Suc.prems rd lv in
          \<open>simp_all add: count_invalid_def count_error_def table_is_upd_inst\<close>)
  next
    case good
    have lb: "length ?b = rsz c" by simp
    note l = slot_body_length [OF good(1) lb]
    have kl: "ksz c \<le> length (slot_body ?b)"
      using keyed good(2) i(1) unfolding keyed_slots_def b by blast
    have hd: "head ?rec = dec_head ?b" by (simp add: read_result_def)
    have kd: "take (length (slot_body ?b)) (key_and_data ?rec) = slot_body ?b"
      using good(1) by (simp add: read_result_def)
    have k: "take (ksz c) (key_and_data ?rec) = take (ksz c) (slot_body ?b)"
      using kl good(1) by (simp add: read_result_def)
    have pr: "length (slot_body ?b) = unat (h_length (head ?rec))"
      "length (slot_body ?b) + 8 \<le> rsz c"
      "drop (ksz c) (slot_body ?b) = drop (ksz c) (take (length (slot_body ?b)) (key_and_data ?rec))"
      subgoal using l(2) by (simp only: hd)
      subgoal using l by simp
      subgoal by (simp only: kd)
      done
    obtain d' h' where ins: "insert_lookup_table c ?rec idx s = Some (EOK, (set_dict d' s)\<lparr>hp := h'\<rparr>)"
      "table_is c ((set_dict d' s)\<lparr>hp := h'\<rparr>) ((scan c sl ?i)
         (take (ksz c) (slot_body ?b) \<mapsto> (?i, drop (ksz c) (slot_body ?b))))" "plenty h'"
      "junk h' = junk (hp s)"
      using insert_table_ok [OF Suc.prems(6,4) rd(2) pr(1,2) kl k [symmetric] pr(3), of idx] by metis
    let ?s1 = "(set_dict d' s)\<lparr>hp := h'\<rparr>"
    have "variable_record_valid ?rec = Some EOK"
      using record_valid_iff [of ?b scratch] good Suc.prems(3) by simp
    then have "construct_loop c scratch idx st s =
        construct_loop c ?rec (idx + 1) (Some EOK) (count_inuse ?s1)"
      using rd good(1) i(2) ins(1)
      by (subst construct_loop.simps) (simp add: max_records_eq)
    then show ?thesis
    proof (rule step)
      have "live c (sl ?i) = Some (take (ksz c) (slot_body ?b), drop (ksz c) (slot_body ?b))"
        using good(2) unfolding b by (simp add: live_def)
      then have "scan c sl (Suc ?i) = (scan c sl ?i)
          (take (ksz c) (slot_body ?b) \<mapsto> (?i, drop (ksz c) (slot_body ?b)))"
        by (rule scan_Suc_Some)
      then show "table_is c (count_inuse ?s1) (scan c sl (Suc ?i))"
        unfolding count_inuse_def using ins(2) by (subst table_is_upd_inst) simp_all
      have "clean c (sl ?i) = sl ?i" using good(2) unfolding b by (rule clean_valid)
      then show "cleaned c m0 sec (Suc ?i) (mem (dev (count_inuse ?s1)))"
        using cleaned_step_same [OF Suc.prems(5) sec i(2)]
        by (simp add: count_inuse_def set_dict_def sl_def)
    qed (use Suc.prems(1) rd(2) ins(3,4) in \<open>simp_all add: count_inuse_def set_dict_def\<close>)
  qed
qed

lemma empty_table:
  assumes "i_dict (inst s) = Some d" "dict_inv d (hp s)" "d_keyspec d = c_keyspec c"
  shows "table_is c (set_dict (fst (dictionary_remove_all d cb x)) s) Map.empty"
  using dictionary_remove_all_inv [OF assms(2), of cb x] assms(3)
  by (simp add: table_is_def set_dict_def fun_eq_iff)

text \<open>\<^verbatim>\<open>construct_lookup_table\<close> ends and leaves the table of the sector's records.\<close>

lemma construct_table_ok:
  fixes s :: "'f nvol"
  defines "m \<equiv> mem (dev s)" and "sec \<equiv> i_sector (inst s)"
  assumes sec: "sec \<in> sectors c"
    and used: "used_slots c (slot m c sec) n" and keyed: "keyed_slots c (slot m c sec) n"
    and d: "i_dict (inst s) = Some d" "dict_inv d (hp s)" "d_keyspec d = c_keyspec c"
    and rb: "rec_buf c scratch" and pl: "plenty (hp s)"
  shows "\<exists>scratch' s'. construct_lookup_table c scratch s =
      Some (if hdr_version (header m sec) = c_version c then EOK else E_VERSION, scratch', s') \<and>
    rec_buf c scratch' \<and> plenty (hp s') \<and> i_sector (inst s') = sec \<and>
    i_next_idx (inst s') = of_nat n \<and> cleaned c m sec n (mem (dev s')) \<and>
    table_is c s' (scan c (slot m c sec) n) \<and> junk (hp s') = junk (hp s)"
proof -
  have ld: "loaded_dict s = Some d" using d(1,2) by (simp add: loaded_dict_def dict_inv_def)
  let ?d0 = "fst (dictionary_remove_all d (None :: (unit \<Rightarrow> dnode \<Rightarrow> unit) option) ())"
  let ?s0 = "upd_inst (\<lambda>i. i\<lparr>i_inuse := 0, i_invalid := 0, i_error := 0\<rparr>) (set_dict ?d0 s)"
  have t0: "table_is c ?s0 (scan c (slot m c sec) (unat (0 :: u16)))"
    using empty_table [OF d] by (simp add: table_is_upd_inst)
  have s0: "i_sector (inst ?s0) = sec" "dev ?s0 = dev s" "hp ?s0 = hp s"
    by (simp_all add: set_dict_def sec_def)
  have nz: "n < mxr c \<or> 0 < n" using used cfg_sizes(4) by (auto simp: used_slots_def)
  from construct_loop_ok [OF sec used keyed s0(1), of 0 scratch None] t0 rb pl s0 nz
  obtain scratch' s' where r:
    "construct_loop c scratch 0 None ?s0 = Some (Some EOK, of_nat n, scratch', s')"
    "rec_buf c scratch'" "plenty (hp s')" "i_sector (inst s') = sec" "cleaned c m sec n (mem (dev s'))"
    "table_is c s' (scan c (slot m c sec) n)" "junk (hp s') = junk (hp s)"
    by (auto simp: cleaned_0 m_def)
  have h: "header (mem (dev s')) sec = header m sec" using r(5) sec by (simp add: cleaned_def)
  let ?s' = "upd_inst (\<lambda>i. i\<lparr>i_next_idx := of_nat n, i_version := hdr_version (header m sec)\<rparr>) s'"
  have "construct_lookup_table c scratch s =
      Some (if hdr_version (header m sec) = c_version c then EOK else E_VERSION, scratch', ?s')"
    using ld r(1,4) get_sector_version_ok [OF sec, of s'] h
    by (simp add: construct_lookup_table_def Let_def)
  moreover have "table_is c ?s' (scan c (slot m c sec) n)"
    using r(6) by (simp add: table_is_upd_inst)
  ultimately show ?thesis using r by auto
qed

end

end
