(* ===== verification/Nvol_Store.thy ===== *)
theory Nvol_Store
  imports Nvol_Lookup
begin

text \<open>
  The volume as a map from keys to data.  \<open>nvol_inv\<close> is the invariant of a loaded volume,
  \<open>vol_map\<close> the map it stands for: the data of the live records of the sector in use.  This
  theory proves what get, set and delete do to that map while the sector has a free slot.
\<close>

unbundle bit_operations_syntax

definition vol_slots :: "('f \<Rightarrow> nat \<Rightarrow> u8) \<Rightarrow> 'f nvol_config \<Rightarrow> 'f nvol \<Rightarrow> nat \<Rightarrow> u8 list" where
  "vol_slots mem c s = slot (mem (dev s)) c (i_sector (inst s))"

definition vol_index ::
  "('f \<Rightarrow> nat \<Rightarrow> u8) \<Rightarrow> 'f nvol_config \<Rightarrow> 'f nvol \<Rightarrow> (u8 list \<rightharpoonup> nat \<times> u8 list)" where
  "vol_index mem c s = scan c (vol_slots mem c s) (unat (i_next_idx (inst s)))"

definition vol_map :: "('f \<Rightarrow> nat \<Rightarrow> u8) \<Rightarrow> 'f nvol_config \<Rightarrow> 'f nvol \<Rightarrow> (u8 list \<rightharpoonup> u8 list)" where
  "vol_map mem c s = (\<lambda>k. map_option snd (vol_index mem c s k))"

definition header_ok :: "'f nvol_config \<Rightarrow> u8 list \<Rightarrow> bool" where
  "header_ok c h \<longleftrightarrow> hdr_flags h = NVOL3_SECTOR_VALID \<and> hdr_version h = c_version c"

text \<open>The used part of the sector: \<open>n\<close> written slots, then erased ones.\<close>

definition sector_inv :: "'f nvol_config \<Rightarrow> (nat \<Rightarrow> u8 list) \<Rightarrow> nat \<Rightarrow> bool" where
  "sector_inv c sl n \<longleftrightarrow>
     n \<le> mxr c \<and> (\<forall>j < n. rd16 (sl j) \<noteq> NVOL3_RECORD_FLAGS_EMPTY) \<and>
     (\<forall>j < mxr c. n \<le> j \<longrightarrow> sl j = blank_slot c) \<and> keyed_slots c sl n \<and> unique_keys c sl n"

definition nvol_inv :: "('f \<Rightarrow> nat \<Rightarrow> u8) \<Rightarrow> 'f nvol_config \<Rightarrow> 'f nvol \<Rightarrow> bool" where
  "nvol_inv mem c s \<longleftrightarrow>
     i_sector (inst s) \<in> sectors c \<and>
     header_ok c (header (mem (dev s)) (i_sector (inst s))) \<and>
     sector_inv c (vol_slots mem c s) (unat (i_next_idx (inst s))) \<and>
     (\<forall>sec \<in> sectors c. sec \<noteq> i_sector (inst s) \<longrightarrow> blank_sector (mem (dev s)) c sec) \<and>
     table_is c s (vol_index mem c s)"

text \<open>Without the promise that the other sector is erased: what reading needs.\<close>

definition nvol_open :: "('f \<Rightarrow> nat \<Rightarrow> u8) \<Rightarrow> 'f nvol_config \<Rightarrow> 'f nvol \<Rightarrow> bool" where
  "nvol_open mem c s \<longleftrightarrow>
     i_sector (inst s) \<in> sectors c \<and>
     header_ok c (header (mem (dev s)) (i_sector (inst s))) \<and>
     sector_inv c (vol_slots mem c s) (unat (i_next_idx (inst s))) \<and>
     table_is c s (vol_index mem c s)"

lemma nvol_inv_open: "nvol_inv mem c s \<Longrightarrow> nvol_open mem c s"
  by (simp add: nvol_inv_def nvol_open_def)

lemma nvol_open_inv:
  "nvol_open mem c s \<Longrightarrow>
   (\<And>sec. sec \<in> sectors c \<Longrightarrow> sec \<noteq> i_sector (inst s) \<Longrightarrow> blank_sector (mem (dev s)) c sec) \<Longrightarrow>
   nvol_inv mem c s"
  by (simp add: nvol_inv_def nvol_open_def)

lemma nvol_open_D:
  assumes "nvol_open mem c s"
  shows "i_sector (inst s) \<in> sectors c"
    "sector_inv c (vol_slots mem c s) (unat (i_next_idx (inst s)))"
    "table_is c s (vol_index mem c s)"
    "header_ok c (header (mem (dev s)) (i_sector (inst s)))"
  using assms by (auto simp: nvol_open_def)

section \<open>Lists and slots\<close>

lemma same_prefix_eq: "length xs = length ys \<Longrightarrow> same_prefix xs ys = length xs \<longleftrightarrow> xs = ys"
  by (induction xs ys rule: list_induct2) auto

lemma sector_inv_cong:
  assumes "\<And>j. j < mxr c \<Longrightarrow> sl j = sl' j"
  shows "sector_inv c sl n = sector_inv c sl' n"
proof -
  have "sl j = sl' j" if "n \<le> mxr c" "j < n" for j using assms that by simp
  then have "n \<le> mxr c \<Longrightarrow> keyed_slots c sl n = keyed_slots c sl' n"
    "n \<le> mxr c \<Longrightarrow> unique_keys c sl n = unique_keys c sl' n"
    by (simp add: keyed_slots_def, intro unique_keys_cong) simp_all
  then show ?thesis using assms by (auto simp: sector_inv_def)
qed

lemma live_body:
  assumes "live c b = Some (k, v)"
  shows "valid_slot c b" "slot_body b = k @ v" "head_status c (dec_head b) = EOK"
  using assms by (auto simp: live_def valid_slot_def split: if_splits)

lemma head_rec_bytes [simp]: "dec_head (rec_bytes c rec) = head rec"
  by (simp add: rec_bytes_def Let_def)

lemma rd16_rec_bytes [simp]: "rd16 (rec_bytes c rec) = h_flags (head rec)"
  by (simp flip: dec_head_flags)

lemma body_rec_bytes:
  "unat (h_length (head rec)) \<le> length (key_and_data rec) \<Longrightarrow>
   slot_body (rec_bytes c rec) = take (unat (h_length (head rec))) (key_and_data rec)"
  by (simp add: slot_body_def) (simp add: rec_bytes_def Let_def)

lemma flags_new_valid: "NVOL3_RECORD_FLAGS_NEW AND NVOL3_RECORD_FLAGS_VALID = NVOL3_RECORD_FLAGS_VALID"
  by (simp add: record_flags_defs)

lemma vol_map_None: "vol_map mem c s k = None \<longleftrightarrow> vol_index mem c s k = None"
  by (simp add: vol_map_def)

lemma vol_map_Some: "vol_map mem c s k = Some v \<longleftrightarrow> (\<exists>i. vol_index mem c s k = Some (i, v))"
  by (auto simp: vol_map_def)

lemma dom_vol_map: "dom (vol_map mem c s) = dom (vol_index mem c s)"
  by (auto simp: vol_map_def)

lemma scan_dom_card: "finite (dom (scan c sl n)) \<and> card (dom (scan c sl n)) \<le> n"
proof (induction n)
  case (Suc n)
  then show ?case
    by (cases "live c (sl n)") (auto simp: card_insert_if)
qed simp

lemma nvol_inv_D:
  assumes "nvol_inv mem c s"
  shows "i_sector (inst s) \<in> sectors c"
    "sector_inv c (vol_slots mem c s) (unat (i_next_idx (inst s)))"
    "table_is c s (vol_index mem c s)"
    "header_ok c (header (mem (dev s)) (i_sector (inst s)))"
    "\<And>sec. sec \<in> sectors c \<Longrightarrow> sec \<noteq> i_sector (inst s) \<Longrightarrow> blank_sector (mem (dev s)) c sec"
  using assms by (auto simp: nvol_inv_def)

lemma open_vol_index_Some:
  assumes "nvol_open mem c s" "vol_index mem c s k = Some (i, v)"
  shows "i < unat (i_next_idx (inst s))" "i < mxr c" "live c (vol_slots mem c s i) = Some (k, v)"
  using assms scan_Some [of c "vol_slots mem c s" "unat (i_next_idx (inst s))" k i v] nvol_open_D(2)
  by (force simp: vol_index_def sector_inv_def)+

lemmas vol_index_Some = open_vol_index_Some [OF nvol_inv_open]

section \<open>Looking a key up\<close>

context volume
begin

lemma lookup_ok:
  assumes "table_is c s ix" "length k = ksz c" "loaded_dict s = Some d"
  shows "case ix k of None \<Rightarrow> dictionary_get d k = None
    | Some p \<Rightarrow> \<exists>np. dictionary_get d k = Some np \<and> nkey np = k \<and> nval np = entry_of c p"
proof -
  obtain d' where "loaded_dict s = Some d'" "dict_inv d' (hp s)" "d_keyspec d' = c_keyspec c"
    "dict_map d' = (\<lambda>k. map_option (entry_of c) (ix k))"
    using table_is_loaded [OF assms(1)] by metis
  then have d: "dict_inv d (hp s)" "d_keyspec d = c_keyspec c"
    "dict_map d = (\<lambda>k. map_option (entry_of c) (ix k))" using assms(3) by simp_all
  have kok: "dict_key_ok (d_keyspec d) k"
    using assms(2) d(2) fixed_key_ok [OF cfg_fixed_key] by simp
  note g = dict.get_map [OF d(1) kok]
  show ?thesis
  proof (cases "ix k")
    case None
    then show ?thesis using g d(3) by simp
  next
    case (Some p)
    then obtain np where "dictionary_get d k = Some np" "nval np = entry_of c p"
      using g d(3) by auto
    moreover from this have "nkey np = k"
      using dict_lookup_Some_iff [OF d(1) kok] by (simp add: dictionary_get_def)
    ultimately show ?thesis using Some by simp
  qed
qed

lemma retrieve_ok:
  assumes t: "table_is c s ix" and rb: "rec_buf c rec" and k: "k = take (ksz c) (key_and_data rec)"
  shows "case ix k of None \<Rightarrow> retrieve_lookup_table rec s = Some None
    | Some p \<Rightarrow> \<exists>np. retrieve_lookup_table rec s = Some (Some np) \<and> nkey np = k \<and> nval np = entry_of c p"
proof -
  obtain d where d: "loaded_dict s = Some d" "d_keyspec d = c_keyspec c"
    using table_is_loaded [OF t] by metis
  have "length k = ksz c" using rb cfg_sizes(1) by (simp add: k rec_buf_def)
  from lookup_ok [OF t this d(1)] show ?thesis
    using d key_at_record [OF rb] by (auto simp: retrieve_lookup_table_def k split: option.splits)
qed

lemma slot_length_u16: "live c b = Some (k, v) \<Longrightarrow> length b = rsz c \<Longrightarrow> length k + length v + 8 \<le> rsz c"
  using slot_body_length [of b] live_body [of c b k v] by simp

lemma unat_idx: "i < mxr c \<Longrightarrow> unat (of_nat i :: u16) = i"
  using cfg_sizes(5) by (simp add: unat_of_nat_u16)

lemma idx_valid: "i < mxr c \<Longrightarrow> (of_nat i :: u16) \<noteq> NVOL3_INVALID_VAR_IDX"
proof
  assume i: "i < mxr c" and e: "(of_nat i :: u16) = NVOL3_INVALID_VAR_IDX"
  have "unat NVOL3_INVALID_VAR_IDX = 65535" by (simp add: NVOL3_INVALID_VAR_IDX_def unsigned_minus_1_eq_mask mask_eq_exp_minus_1)
  with e unat_idx [OF i] i cfg_sizes(5) show False by simp
qed

lemma open_index_key_length:
  assumes "nvol_open mem c s" "vol_index mem c s k = Some (i, v)"
  shows "length k = ksz c"
proof -
  note i = open_vol_index_Some [OF assms]
  have "valid_slot c (vol_slots mem c s i)" using live_body(1) [OF i(3)] .
  then have "ksz c \<le> length (slot_body (vol_slots mem c s i))"
    using nvol_open_D(2) [OF assms(1)] i(1) by (auto simp: sector_inv_def keyed_slots_def)
  moreover have "k = take (ksz c) (slot_body (vol_slots mem c s i))"
    using i(3) by (simp add: live_def split: if_splits)
  ultimately show ?thesis by simp
qed

lemmas index_key_length = open_index_key_length [OF nvol_inv_open]

text \<open>Reading a live slot, and the record of an indexed key.\<close>

lemma read_live_slot:
  assumes sec: "i_sector (inst s) \<in> sectors c" and i: "i < mxr c" and rb: "rec_buf c rec"
    and lv: "live c (slot (mem (dev s)) c (i_sector (inst s)) i) = Some (k, v)"
  obtains rec' where "read_variable_record c rec (of_nat i) 0 s = Some (EOK, rec')" "rec_buf c rec'"
    "take (length k + length v) (key_and_data rec') = k @ v"
    "head rec' = dec_head (slot (mem (dev s)) c (i_sector (inst s)) i)"
    "unat (h_length (head rec')) = length k + length v"
proof -
  let ?b = "slot (mem (dev s)) c (i_sector (inst s)) i"
  note l = live_body [OF lv]
  have lb: "length ?b = rsz c" by simp
  have b: "?b = slot (mem (dev s)) c (i_sector (inst s)) (unat (of_nat i :: u16))"
    using unat_idx [OF i] by simp
  have "unat (of_nat i :: u16) < mxr c" using unat_idx [OF i] i by simp
  from read_record_ok [OF sec this rb b]
  have r: "read_variable_record c rec (of_nat i) 0 s = Some (EOK, read_result c ?b rec)"
    "rec_buf c (read_result c ?b rec)" using l(3) by simp_all
  have "unat (h_length (dec_head ?b)) = length k + length v"
    using slot_body_length(2) [OF l(3) lb] l(2) by simp
  with that r l show ?thesis by (simp add: read_result_def)
qed

lemma open_read_live:
  assumes inv: "nvol_open mem c s" and ix: "vol_index mem c s k = Some (i, v)" and rb: "rec_buf c rec"
  obtains rec' where "read_variable_record c rec (of_nat i) 0 s = Some (EOK, rec')" "rec_buf c rec'"
    "take (length k + length v) (key_and_data rec') = k @ v"
    "unat (h_length (head rec')) = length k + length v"
  using read_live_slot [OF nvol_open_D(1) [OF inv] open_vol_index_Some(2) [OF inv ix] rb]
    open_vol_index_Some(3) [OF inv ix] unfolding vol_slots_def by metis

lemmas read_live = open_read_live [OF nvol_inv_open]

section \<open>Getting a record\<close>

lemma open_get_absent:
  assumes "nvol_open mem c s" "rec_buf c rec" "vol_map mem c s (take (ksz c) (key_and_data rec)) = None"
  shows "nvol3_record_get c rec s = Some (E_NOTFOUND, rec\<lparr>head := zero_head\<rparr>)"
  using retrieve_ok [OF nvol_open_D(3) [OF assms(1)] assms(2) refl] assms(3)
  by (simp add: vol_map_None nvol3_record_get_def record_get_def)

lemmas get_absent = open_get_absent [OF nvol_inv_open]

lemma open_record_get_ok:
  assumes inv: "nvol_open mem c s" and rb: "rec_buf c rec"
    and ix: "vol_index mem c s k = Some (i, v)" and np: "nkey np = k" "nval np = entry_of c (i, v)"
  shows "\<exists>rec'. record_get c rec (Some np) s = Some (int (ksz c + length v), rec') \<and> rec_buf c rec' \<and>
    take (ksz c + length v) (key_and_data rec') = k @ v"
proof -
  note i = open_vol_index_Some [OF inv ix]
  obtain d where d: "loaded_dict s = Some d" using table_is_loaded [OF nvol_open_D(3) [OF inv]] by metis
  have kl: "length k = ksz c" by (rule open_index_key_length [OF inv ix])
  have fit: "length k + length v + 8 \<le> rsz c"
    using slot_length_u16 [OF i(3)] by (simp add: vol_slots_def)
  then have vl: "unat (of_nat (length v) :: u16) = length v"
    using cfg_sizes(8) by (intro unat_of_nat_u16) simp
  let ?rec = "rec\<lparr>head := zero_head\<rparr>"
  have rb': "rec_buf c ?rec" using rb by (simp add: rec_buf_def)
  show ?thesis
  proof (cases "length v \<le> unat (c_local_size c)")
    case True
    have key: "buf_read (dictionary_get_key d np) 0 (unat (c_key_size c)) = Some k"
      using kl np(1) by (auto simp: buf_read_def dictionary_get_key_def ksz_def split: keytype.splits)
    let ?kd = "k @ v @ drop (ksz c + length v) (key_and_data rec)"
    have kdl: "ksz c + length v \<le> length (key_and_data rec)"
      using rb fit kl by (simp add: rec_buf_def)
    have w: "buf_write (key_and_data rec) 0 k = Some (k @ drop (ksz c) (key_and_data rec))"
      "buf_write (k @ drop (ksz c) (key_and_data rec)) (unat (c_key_size c)) v = Some ?kd"
      using kdl kl by (simp_all add: buf_write_def ksz_def add.commute)
    have "record_get c rec (Some np) s =
        Some (int (length v) + int (unat (c_key_size c)), ?rec\<lparr>key_and_data := ?kd\<rparr>)"
      using np d True vl key w
      by (simp add: record_get_def dictionary_get_value_def dec_entry_of cached_def
          Let_def word_le_nat_alt buf_read_def)
    then show ?thesis using kl rb kdl
      by (intro exI [of _ "?rec\<lparr>key_and_data := ?kd\<rparr>"]) (simp add: ksz_def rec_buf_def)
  next
    case False
    obtain rec' where r: "read_variable_record c ?rec (of_nat i) 0 s = Some (EOK, rec')" "rec_buf c rec'"
      "take (length k + length v) (key_and_data rec') = k @ v"
      "unat (h_length (head rec')) = length k + length v"
      using open_read_live [OF inv ix rb'] by metis
    have "uint (h_length (head rec')) = int (ksz c + length v)" by (simp only: uint_nat r(4) kl)
    then have "record_get c rec (Some np) s = Some (int (ksz c + length v), rec')"
      using np d False vl r kl idx_valid [OF i(2)]
      by (simp add: record_get_def dictionary_get_value_def dec_entry_of
          Let_def word_le_nat_alt)
    then show ?thesis using r kl by simp
  qed
qed

lemmas record_get_ok = open_record_get_ok [OF nvol_inv_open]

lemma open_get_present:
  assumes inv: "nvol_open mem c s" and rb: "rec_buf c rec"
    and k: "k = take (ksz c) (key_and_data rec)" and v: "vol_map mem c s k = Some v"
  shows "\<exists>rec'. nvol3_record_get c rec s = Some (int (ksz c + length v), rec') \<and> rec_buf c rec' \<and>
    take (ksz c + length v) (key_and_data rec') = k @ v"
proof -
  obtain i where ix: "vol_index mem c s k = Some (i, v)" using v by (auto simp: vol_map_Some)
  then obtain np where np: "retrieve_lookup_table rec s = Some (Some np)" "nkey np = k"
    "nval np = entry_of c (i, v)"
    using retrieve_ok [OF nvol_open_D(3) [OF inv] rb k] by auto
  with open_record_get_ok [OF inv rb ix np(2,3)] show ?thesis by (simp add: nvol3_record_get_def)
qed

lemmas get_present = open_get_present [OF nvol_inv_open]

end

end
