(* ===== verification/Nvol_Set.thy ===== *)
theory Nvol_Set
  imports Nvol_Store
begin

text \<open>
  What \<^verbatim>\<open>record_set\<close> and \<^verbatim>\<open>nvol3_record_delete\<close> do to the map of a volume whose sector has a
  free slot: an update, a refusal when the volume is full, nothing when the data is the same,
  a removal.
\<close>

unbundle bit_operations_syntax

text \<open>The write callback of the configuration accepts every record.\<close>

definition cb_accepts :: "'f nvol_config \<Rightarrow> bool" where
  "cb_accepts c \<longleftrightarrow> (\<forall>f. c_write_cb c = Some f \<longrightarrow> (\<forall>i r x. f i r x = EOK))"

text \<open>The bytes of the new record.\<close>

definition stored_bytes :: "'f nvol_config \<Rightarrow> nvol_record \<Rightarrow> u32 \<Rightarrow> u8 list" where
  "stored_bytes c rec len = flag_bytes NVOL3_RECORD_FLAGS_VALID (rec_bytes c
     (rec\<lparr>head := new_head len (take (unat len) (key_and_data rec))\<rparr>))"

text \<open>The slots of one sector are \<open>sl\<close> afterwards; nothing else changes.\<close>

definition slots_change ::
  "'f nvol_config \<Rightarrow> (nat \<Rightarrow> u8) \<Rightarrow> u32 \<Rightarrow> (nat \<Rightarrow> u8 list) \<Rightarrow> (nat \<Rightarrow> u8) \<Rightarrow> bool" where
  "slots_change c m sec sl m' \<longleftrightarrow>
     (\<forall>sec' \<in> sectors c. header m' sec' = header m sec' \<and>
        (\<forall>j < mxr c. slot m' c sec' j = (if sec' = sec then sl j else slot m c sec' j)))"

lemma table_is_hp:
  "table_is c s ix \<Longrightarrow> next_addr (hp s) \<le> next_addr h \<Longrightarrow> table_is c (s\<lparr>hp := h\<rparr>) ix"
  by (auto simp: table_is_def intro: dict_inv_mono)

lemma vol_index_hp [simp]: "vol_index mem c (s\<lparr>hp := h\<rparr>) = vol_index mem c s"
  by (simp add: vol_index_def vol_slots_def)

lemma nvol_inv_hp:
  "nvol_inv mem c s \<Longrightarrow> next_addr (hp s) \<le> next_addr h \<Longrightarrow> nvol_inv mem c (s\<lparr>hp := h\<rparr>)"
  by (simp add: nvol_inv_def table_is_hp vol_slots_def)

lemma vol_map_hp [simp]: "vol_map mem c (s\<lparr>hp := h\<rparr>) = vol_map mem c s"
  by (simp add: vol_map_def)

lemma scan_slots_cong:
  "(\<And>j. j < mxr c \<Longrightarrow> sl j = sl' j) \<Longrightarrow> n \<le> mxr c \<Longrightarrow> scan c sl n = scan c sl' n"
  by (rule scan_cong) simp

text \<open>Marking the slot of an indexed key invalid.\<close>

lemma sector_inv_kill:
  assumes inv: "sector_inv c sl n" and ix: "scan c sl n k = Some (i, v)"
  shows "sector_inv c (sl(i := flag_bytes NVOL3_RECORD_FLAGS_INVALID (sl i))) n"
    "scan c (sl(i := flag_bytes NVOL3_RECORD_FLAGS_INVALID (sl i))) n = (scan c sl n)(k := None)"
proof -
  let ?b = "flag_bytes NVOL3_RECORD_FLAGS_INVALID (sl i)"
  have u: "unique_keys c sl n" using inv by (simp add: sector_inv_def)
  have i: "i < n" using scan_Some [OF ix] by simp
  note k = scan_kill [OF u ix flags_invalid_live, of "sl i"]
  show "scan c (sl(i := ?b)) n = (scan c sl n)(k := None)" by (rule k(1))
  have "rd16 ?b \<noteq> NVOL3_RECORD_FLAGS_EMPTY" by (simp add: record_flags_defs)
  moreover have "\<not> valid_slot c ?b" using flags_invalid_live [of c "sl i"] by (auto simp: live_def)
  ultimately show "sector_inv c (sl(i := ?b)) n"
    using inv k(2) i by (auto simp: sector_inv_def keyed_slots_def)
qed

text \<open>Appending a live slot for a key that has none.\<close>

lemma sector_inv_append:
  assumes inv: "sector_inv c sl n" and n: "n < mxr c" and b: "live c b = Some (k, v)"
    "rd16 b = NVOL3_RECORD_FLAGS_VALID" "length k = ksz c" and new: "scan c sl n k = None"
  shows "sector_inv c (sl(n := b)) (Suc n)"
    "scan c (sl(n := b)) (Suc n) = (scan c sl n)(k \<mapsto> (n, v))"
proof -
  have low: "scan c (sl(n := b)) n = scan c sl n" by (rule scan_cong) simp
  show "scan c (sl(n := b)) (Suc n) = (scan c sl n)(k \<mapsto> (n, v))" using b(1) low by simp
  have "unique_keys c (sl(n := b)) n"
    using inv by (subst unique_keys_cong [of n c _ sl]) (auto simp: sector_inv_def)
  then have "unique_keys c (sl(n := b)) (Suc n)"
    using b(1) new low by (intro unique_keys_Suc_Some [of c _ n k v]) simp_all
  moreover have "ksz c \<le> length (slot_body b)" using live_body(2) [OF b(1)] b(3) by simp
  moreover have "rd16 b \<noteq> NVOL3_RECORD_FLAGS_EMPTY" using b(2) by (simp add: record_flags_defs)
  ultimately show "sector_inv c (sl(n := b)) (Suc n)"
    using inv n by (auto simp: sector_inv_def keyed_slots_def less_Suc_eq)
qed

context volume
begin

text \<open>The dictionary after removing a key.\<close>

lemma table_remove:
  assumes "table_is c s ix" "length k = ksz c" "loaded_dict s = Some d"
  shows "table_is c (set_dict (snd (dictionary_remove d k)) s) (ix(k := None))"
proof -
  obtain d' where d': "loaded_dict s = Some d'" "dict_inv d' (hp s)" "d_keyspec d' = c_keyspec c"
    "dict_map d' = (\<lambda>k. map_option (entry_of c) (ix k))"
    using table_is_loaded [OF assms(1)] by metis
  then have [simp]: "d' = d" using assms(3) by simp
  have "dict_key_ok (d_keyspec d) k" using assms(2) d'(3) fixed_key_ok [OF cfg_fixed_key] by simp
  from dictionary_remove_map [OF d'(2) [simplified] this] show ?thesis
    using d' by (auto simp: table_is_def set_dict_def)
qed

lemma kill_ok:
  assumes inv: "nvol_inv mem c s" and ix: "vol_index mem c s k = Some (i, v)"
  obtains f where
    "set_variable_record_flags c (i_sector (inst s)) NVOL3_RECORD_FLAGS_INVALID (of_nat i) s =
       Some (EOK, s\<lparr>dev := f\<rparr>)"
    "slot_update c (mem (dev s)) (i_sector (inst s)) i
       (flag_bytes NVOL3_RECORD_FLAGS_INVALID (vol_slots mem c s i)) (mem f)"
proof -
  note i = vol_index_Some [OF inv ix]
  have u: "unat (of_nat i :: u16) = i" by (rule unat_idx [OF i(2)])
  obtain f where
    "set_variable_record_flags c (i_sector (inst s)) NVOL3_RECORD_FLAGS_INVALID (of_nat i) s =
       Some (EOK, s\<lparr>dev := f\<rparr>)"
    "slot_update c (mem (dev s)) (i_sector (inst s)) (unat (of_nat i :: u16))
       (flag_bytes NVOL3_RECORD_FLAGS_INVALID
         (slot (mem (dev s)) c (i_sector (inst s)) (unat (of_nat i :: u16)))) (mem f)"
    by (rule set_flags_ok [OF nvol_inv_D(1) [OF inv], of "of_nat i" NVOL3_RECORD_FLAGS_INVALID s])
       (use u i(2) in simp_all)
  then show ?thesis using that u by (simp add: vol_slots_def)
qed

text \<open>A state whose device differs in the slots of the sector in use.\<close>

lemma slots_change_1:
  "slot_update c m sec i b m' \<Longrightarrow> slots_change c m sec ((slot m c sec)(i := b)) m'"
  by (simp add: slot_update_def slots_change_def)

lemma slots_change_trans:
  "slots_change c m sec sl m1 \<Longrightarrow> slot_update c m1 sec i b m2 \<Longrightarrow> slots_change c m sec (sl(i := b)) m2"
  by (simp add: slot_update_def slots_change_def)

lemma inv_slots_change:
  assumes inv: "nvol_inv mem c s"
    and upd: "slots_change c (mem (dev s)) (i_sector (inst s)) sl (mem (dev s'))"
    and s': "i_sector (inst s') = i_sector (inst s)" "unat (i_next_idx (inst s')) = n'"
    and sl: "sector_inv c sl n'" and t: "table_is c s' (scan c sl n')"
  shows "nvol_inv mem c s'" "vol_index mem c s' = scan c sl n'"
proof -
  note sec = nvol_inv_D(1) [OF inv]
  have eq: "vol_slots mem c s' j = sl j" if "j < mxr c" for j
    using upd sec that by (simp add: slots_change_def vol_slots_def s')
  have n': "n' \<le> mxr c" using sl by (simp add: sector_inv_def)
  show ix: "vol_index mem c s' = scan c sl n'"
    unfolding vol_index_def s'(2) by (rule scan_slots_cong [OF _ n']) (rule eq)
  have "sector_inv c (vol_slots mem c s') n'"
    using sl sector_inv_cong [of c "vol_slots mem c s'" sl n'] eq by blast
  moreover have "blank_sector (mem (dev s')) c sec"
    if "sec \<in> sectors c" "sec \<noteq> i_sector (inst s)" for sec
    using nvol_inv_D(5) [OF inv that] upd that by (simp add: blank_sector_def slots_change_def)
  moreover have "header_ok c (header (mem (dev s')) (i_sector (inst s)))"
    using nvol_inv_D(4) [OF inv] upd sec by (simp add: slots_change_def)
  ultimately show "nvol_inv mem c s'"
    using sec t ix unfolding nvol_inv_def s'(1) by (simp add: s'(2))
qed

section \<open>Deleting a record\<close>

lemma delete_ok:
  assumes inv: "nvol_inv mem c s" and rb: "rec_buf c rec" and k: "k = take (ksz c) (key_and_data rec)"
  shows "\<exists>s'. nvol3_record_delete c rec s =
      Some (if vol_map mem c s k = None then E_NOTFOUND else EOK, rec\<lparr>head := zero_head\<rparr>, s') \<and>
    nvol_inv mem c s' \<and> vol_map mem c s' = (vol_map mem c s)(k := None) \<and> hp s' = hp s \<and>
    i_next_idx (inst s') = i_next_idx (inst s) \<and> i_sector (inst s') = i_sector (inst s)"
proof -
  let ?rec = "rec\<lparr>head := zero_head\<rparr>"
  have rb': "rec_buf c ?rec" using rb by (simp add: rec_buf_def)
  have k': "k = take (ksz c) (key_and_data ?rec)" by (simp add: k)
  have kl: "length k = ksz c" using rb cfg_sizes(1) by (simp add: k rec_buf_def)
  note t = nvol_inv_D(3) [OF inv]
  note r = retrieve_ok [OF t rb' k']
  show ?thesis
  proof (cases "vol_index mem c s k")
    case None
    then have "vol_map mem c s k = None" by (simp add: vol_map_None)
    then show ?thesis
      using None r inv by (intro exI [of _ s]) (simp add: nvol3_record_delete_def fun_upd_idem)
  next
    case (Some p)
    then obtain i v where ix: "vol_index mem c s k = Some (i, v)" by (cases p) simp
    then obtain np where np: "retrieve_lookup_table ?rec s = Some (Some np)" "nval np = entry_of c (i, v)"
      using r by auto
    obtain f where f:
      "set_variable_record_flags c (i_sector (inst s)) NVOL3_RECORD_FLAGS_INVALID (of_nat i) s =
         Some (EOK, s\<lparr>dev := f\<rparr>)"
      "slot_update c (mem (dev s)) (i_sector (inst s)) i
         (flag_bytes NVOL3_RECORD_FLAGS_INVALID (vol_slots mem c s i)) (mem f)"
      by (rule kill_ok [OF inv ix])
    let ?s1 = "count_invalid (uncount_inuse (s\<lparr>dev := f\<rparr>))"
    have t1: "table_is c ?s1 (vol_index mem c s)"
      using t by (simp add: count_invalid_def uncount_inuse_def table_is_upd_inst)
    obtain d where d: "loaded_dict ?s1 = Some d" "d_keyspec d = c_keyspec c"
      using table_is_loaded [OF t1] by metis
    let ?s' = "set_dict (snd (dictionary_remove d k)) ?s1"
    have key: "dict_key_at (d_keyspec d) (key_and_data rec) = Some k"
      using key_at_record [OF rb] d(2) k by simp
    have run: "nvol3_record_delete c rec s = Some (EOK, ?rec, ?s')"
      using np f(1) d key by (simp add: nvol3_record_delete_def dec_entry_of Let_def)
    note si = nvol_inv_D(2) [OF inv]
    note sc = sector_inv_kill [OF si ix [unfolded vol_index_def]]
    have proj: "dev ?s' = f" "i_sector (inst ?s') = i_sector (inst s)"
      "i_next_idx (inst ?s') = i_next_idx (inst s)" "hp ?s' = hp s"
      by (simp_all add: set_dict_def count_invalid_def uncount_inuse_def)
    have t2: "table_is c ?s' (scan c ((vol_slots mem c s)
        (i := flag_bytes NVOL3_RECORD_FLAGS_INVALID (vol_slots mem c s i))) (unat (i_next_idx (inst s))))"
      using table_remove [OF t1 kl d(1)] by (simp only: sc(2) vol_index_def)
    have ch: "slots_change c (mem (dev s)) (i_sector (inst s)) ((vol_slots mem c s)
        (i := flag_bytes NVOL3_RECORD_FLAGS_INVALID (vol_slots mem c s i))) (mem (dev ?s'))"
      using slots_change_1 [OF f(2)] by (simp only: proj(1) vol_slots_def)
    note fin = inv_slots_change [OF inv ch proj(2) arg_cong [OF proj(3)] sc(1) t2]
    then have "nvol_inv mem c ?s'" "vol_index mem c ?s' = (vol_index mem c s)(k := None)"
      by (simp_all only: sc(2) vol_index_def)
    then show ?thesis using run proj ix
      by (intro exI [of _ ?s']) (auto simp: vol_map_def)
  qed
qed

section \<open>Setting a record\<close>

lemma malloc_plenty:
  assumes "plenty h"
  obtains a h' where "heap_malloc h n = (Some a, h')" "plenty h'" "next_addr h \<le> next_addr h'"
    "junk h' = junk h"
  using heap_malloc_plenty [OF assms, of n] assms that by simp

lemma fresh_record_buf: "rec_buf c (fresh_record c h a)"
  using cfg_sizes(1) by (simp add: rec_buf_def fresh_record_def Let_def rsz_def)

text \<open>The first half of \<^verbatim>\<open>record_set\<close>.\<close>

lemma old_record_ok:
  assumes inv: "nvol_inv mem c s" and pl: "plenty (hp s)" and rb: "rec_buf c rec"
    and l: "ksz c \<le> unat len" "unat len + 8 \<le> rsz c"
    and kv: "k @ v = take (unat len) (key_and_data rec)" "length k = ksz c"
  shows "case vol_index mem c s k of
      None \<Rightarrow> old_record c None rec len s = Some (Inr NVOL3_INVALID_VAR_IDX, s)
    | Some (i, w) \<Rightarrow> \<exists>h'. plenty h' \<and> next_addr (hp s) \<le> next_addr h' \<and>
        old_record c (Some (entry_of c (i, w))) rec len s =
          Some (if w = v then Inl EOK else Inr (of_nat i), s\<lparr>hp := h'\<rparr>)"
proof (cases "vol_index mem c s k")
  case None
  have "len \<noteq> 0" using l(1) cfg_sizes(2) by auto
  then show ?thesis using None by (simp add: old_record_def)
next
  case (Some p)
  then obtain i w where ix: "vol_index mem c s k = Some (i, w)" by (cases p) simp
  obtain a h' where h': "heap_malloc (hp s) (ucast (c_record_size c)) = (Some a, h')" "plenty h'"
    "next_addr (hp s) \<le> next_addr h'"
    using malloc_plenty [OF pl] by metis
  let ?s = "s\<lparr>hp := h'\<rparr>"
  obtain var where var: "read_variable_record c (fresh_record c h' a) (of_nat i) 0 ?s = Some (EOK, var)"
    "rec_buf c var" "take (length k + length w) (key_and_data var) = k @ w"
    "unat (h_length (head var)) = length k + length w"
    using read_live [OF nvol_inv_hp [OF inv h'(3)], of k i w "fresh_record c h' a"]
      ix fresh_record_buf by (metis vol_index_hp)
  have lv: "length v = unat len - ksz c"
    using arg_cong [OF kv(1), of length] kv(2) rb l by (simp add: rec_buf_def)
  have lens: "len = ucast (h_length (head var)) \<longleftrightarrow> length v = length w"
  proof -
    have "len = ucast (h_length (head var)) \<longleftrightarrow> unat len = unat (h_length (head var))"
      by (metis unat_ucast_u16_u32 word_unat_eq_iff)
    then show ?thesis using lv l(1) kv(2) by (auto simp: var(4))
  qed
  have new: "buf_read (key_and_data rec) 0 (unat len) = Some (k @ v)"
    using kv(1) rb l by (simp add: buf_read_def rec_buf_def)
  have old: "buf_read (key_and_data var) 0 (unat len) = Some (k @ w)" if "length v = length w"
  proof -
    have "length k + length w = unat len" using that lv l kv(2) by simp
    then show ?thesis using var(2,3) l by (simp add: buf_read_def rec_buf_def)
  qed
  have len0: "0 \<noteq> unat len" using l(1) cfg_sizes(2) by simp
  have lkv: "unat len = length (k @ v)" using lv l kv(2) by simp
  have sp: "length v = length w \<Longrightarrow> same_prefix (k @ v) (k @ w) = unat len \<longleftrightarrow> w = v"
    using same_prefix_eq [of "k @ v" "k @ w"] lkv by auto
  have "old_record c (Some (entry_of c (i, w))) rec len s =
      Some (if w = v then Inl EOK else Inr (of_nat i), ?s)"
  proof (cases "length v = length w")
    case True
    then show ?thesis
      using h'(1) var(1) lens new old sp by (simp add: old_record_def dec_entry_of Let_def)
  next
    case False
    then have "w \<noteq> v" by auto
    with False show ?thesis
      using h'(1) var(1) lens len0 by (simp add: old_record_def dec_entry_of Let_def)
  qed
  with ix h' show ?thesis by auto
qed

lemma stored_bytes_live:
  assumes rb: "rec_buf c rec" and l: "unat len + 8 \<le> rsz c"
    and kv: "k @ v = take (unat len) (key_and_data rec)" "length k = ksz c"
  shows "live c (stored_bytes c rec len) = Some (k, v)"
    "rd16 (stored_bytes c rec len) = NVOL3_RECORD_FLAGS_VALID"
proof -
  let ?rec = "rec\<lparr>head := new_head len (take (unat len) (key_and_data rec))\<rparr>"
  have ul: "unat (ucast len :: u16) = unat len"
    using l cfg_sizes(8) by (intro unat_ucast_u32_u16) simp
  have f: "h_flags (head ?rec) AND NVOL3_RECORD_FLAGS_VALID = NVOL3_RECORD_FLAGS_VALID"
    using flags_new_valid by (simp add: new_head_def)
  show "rd16 (stored_bytes c rec len) = NVOL3_RECORD_FLAGS_VALID"
    using f by (simp add: stored_bytes_def)
  have hd: "dec_head (stored_bytes c rec len) = (head ?rec)\<lparr>h_flags := NVOL3_RECORD_FLAGS_VALID\<rparr>"
    using f by (simp add: stored_bytes_def dec_head_flag_bytes)
  have body: "slot_body (stored_bytes c rec len) = k @ v"
    using rb l body_rec_bytes [of ?rec] kv(1)
    by (simp add: stored_bytes_def slot_body_flag_bytes new_head_def ul rec_buf_def)
  have "\<not> record_room c < ucast (ucast len :: u16)" using l by (simp add: room_iff ul)
  then have "head_status c (dec_head (stored_bytes c rec len)) = EOK"
    unfolding hd head_status_EOK by (simp add: new_head_def)
  then have "valid_slot c (stored_bytes c rec len)"
    by (simp add: valid_slot_def body hd) (simp add: new_head_def kv(1))
  then show "live c (stored_bytes c rec len) = Some (k, v)"
    using kv(2) by (simp add: live_def body)
qed

text \<open>The second half of \<^verbatim>\<open>record_set\<close>: write, validate, invalidate the old record.\<close>

lemma store_record_ok:
  assumes inv: "nvol_inv mem c s" and pl: "plenty (hp s)" and rb: "rec_buf c rec"
    and l: "ksz c \<le> unat len" "unat len + 8 \<le> rsz c"
    and kv: "k @ v = take (unat len) (key_and_data rec)" "length k = ksz c"
    and n: "unat (i_next_idx (inst s)) < mxr c"
    and idx: "case vol_index mem c s k of None \<Rightarrow> idx = NVOL3_INVALID_VAR_IDX
                | Some (i, w) \<Rightarrow> idx = of_nat i"
    and rec': "rec' = rec\<lparr>head := new_head len (take (unat len) (key_and_data rec))\<rparr>"
  shows "\<exists>s'. store_record c idx rec' s = Some (EOK, s') \<and> nvol_inv mem c s' \<and> plenty (hp s') \<and>
    vol_map mem c s' = (vol_map mem c s)(k \<mapsto> v) \<and> i_sector (inst s') = i_sector (inst s) \<and>
    unat (i_next_idx (inst s')) = Suc (unat (i_next_idx (inst s)))"
proof -
  let ?sec = "i_sector (inst s)" and ?idx = "i_next_idx (inst s)" and ?sl = "vol_slots mem c s"
  define n where "n = unat ?idx"
  define B where "B = stored_bytes c rec len"
  note sec = nvol_inv_D(1) [OF inv] and si = nvol_inv_D(2) [OF inv, folded n_def]
  note live = stored_bytes_live [OF rb l(2) kv, folded B_def]
  have ul: "unat (ucast len :: u16) = unat len"
    using l cfg_sizes(8) by (intro unat_ucast_u32_u16) simp
  have rb': "rec_buf c rec'" using rb by (simp add: rec_buf_def rec')
  have blank: "slot (mem (dev s)) c ?sec (unat ?idx) = blank_slot c"
    using si n by (simp add: sector_inv_def vol_slots_def n_def)
  have hf: "h_flags (head rec') \<noteq> 0" "unat (h_length (head rec')) + 8 \<le> rsz c"
    using l by (simp_all add: rec' new_head_def ul) (simp add: record_flags_defs)
  obtain f1 where f1: "write_variable_record c ?sec rec' ?idx s = Some (EOK, s\<lparr>dev := f1\<rparr>)"
    "slot_update c (mem (dev s)) ?sec n (rec_bytes c rec') (mem f1)"
    using write_record_ok [OF sec n rb' blank hf] unfolding n_def by metis
  obtain f2 where f2: "set_variable_record_flags c ?sec NVOL3_RECORD_FLAGS_VALID ?idx (s\<lparr>dev := f1\<rparr>) =
      Some (EOK, s\<lparr>dev := f2\<rparr>)"
    "slot_update c (mem f1) ?sec n (flag_bytes NVOL3_RECORD_FLAGS_VALID (slot (mem f1) c ?sec n)) (mem f2)"
    using set_flags_ok [OF sec n, of NVOL3_RECORD_FLAGS_VALID "s\<lparr>dev := f1\<rparr>"] unfolding n_def by auto
  have "slot (mem f1) c ?sec n = rec_bytes c rec'"
    using f1(2) sec n by (simp add: slot_update_def n_def)
  then have c2: "slots_change c (mem (dev s)) ?sec (?sl(n := B)) (mem f2)"
    using slots_change_trans [OF slots_change_1 [OF f1(2)] f2(2)]
    by (simp add: B_def stored_bytes_def rec' vol_slots_def)
  have n1: "unat (?idx + 1) = Suc n"
    unfolding n_def by (rule unat_Suc_u16) (use n cfg_sizes(5) in simp)
  let ?s3 = "count_inuse (bump_idx (s\<lparr>dev := f2\<rparr>))"
  have t3: "table_is c ?s3 (vol_index mem c s)"
    using nvol_inv_D(3) [OF inv] by (simp add: count_inuse_def bump_idx_def table_is_upd_inst)
  have proj3: "dev ?s3 = f2" "hp ?s3 = hp s" "i_sector (inst ?s3) = ?sec" "i_next_idx (inst ?s3) = ?idx + 1"
    by (simp_all add: count_inuse_def bump_idx_def)
  obtain s4 sl4 where
    run: "store_record c idx rec' s = insert_lookup_table c rec' ?idx s4"
    and old: "sector_inv c sl4 n" "scan c sl4 n = (vol_index mem c s)(k := None)"
    and s4: "table_is c s4 (vol_index mem c s)" "hp s4 = hp s" "i_sector (inst s4) = ?sec"
      "i_next_idx (inst s4) = ?idx + 1"
      "slots_change c (mem (dev s)) ?sec (sl4(n := B)) (mem (dev s4))"
  proof (cases "vol_index mem c s k")
    case None
    then have "store_record c idx rec' s = insert_lookup_table c rec' ?idx ?s3"
      using idx f1(1) f2(1) proj3(4) by (simp add: store_record_def Let_def)
    moreover have "scan c ?sl n = (vol_index mem c s)(k := None)"
      using None by (simp add: vol_index_def n_def fun_upd_idem)
    ultimately show ?thesis using that [of ?s3 ?sl] si t3 proj3 c2 by simp
  next
    case (Some p)
    then obtain i w where ix: "vol_index mem c s k = Some (i, w)" by (cases p) simp
    note i = vol_index_Some [OF inv ix]
    have idx': "idx = of_nat i" "idx \<noteq> NVOL3_INVALID_VAR_IDX" "unat idx = i"
      using idx ix idx_valid [OF i(2)] unat_idx [OF i(2)] by simp_all
    let ?dead = "flag_bytes NVOL3_RECORD_FLAGS_INVALID (?sl i)"
    obtain f3 where f3: "set_variable_record_flags c ?sec NVOL3_RECORD_FLAGS_INVALID idx ?s3 =
        Some (EOK, ?s3\<lparr>dev := f3\<rparr>)"
      "slot_update c (mem f2) ?sec i (flag_bytes NVOL3_RECORD_FLAGS_INVALID (slot (mem f2) c ?sec i)) (mem f3)"
      using set_flags_ok [OF sec, of idx NVOL3_RECORD_FLAGS_INVALID ?s3] idx'(3) i(2) proj3(1) by metis
    have ne: "i \<noteq> n" using i(1) by (simp add: n_def)
    have "slot (mem f2) c ?sec i = ?sl i"
      using c2 sec i(2) ne by (simp add: slots_change_def)
    then have ch: "slots_change c (mem (dev s)) ?sec ((?sl(i := ?dead))(n := B)) (mem f3)"
      using slots_change_trans [OF c2 f3(2)] fun_upd_twist [OF ne, of ?sl ?dead B] by simp
    let ?s4 = "count_invalid (uncount_inuse (?s3\<lparr>dev := f3\<rparr>))"
    have p4: "dev ?s4 = f3" "hp ?s4 = hp s" "i_sector (inst ?s4) = ?sec" "i_next_idx (inst ?s4) = ?idx + 1"
      using proj3 by (simp_all add: count_invalid_def uncount_inuse_def)
    have "store_record c idx rec' s = insert_lookup_table c rec' ?idx ?s4"
      using f1(1) f2(1) f3(1) idx'(2) p4(4) proj3(3) by (simp add: store_record_def Let_def)
    moreover have "table_is c ?s4 (vol_index mem c s)"
      using t3 by (simp add: count_invalid_def uncount_inuse_def table_is_upd_inst)
    moreover note sector_inv_kill [OF si ix [unfolded vol_index_def, folded n_def]]
    ultimately show ?thesis
      using that [of ?s4 "?sl(i := ?dead)"] p4 ch by (simp add: vol_index_def n_def)
  qed
  let ?sl' = "sl4(n := B)"
  have nm: "n < mxr c" using n by (simp add: n_def)
  have new: "scan c sl4 n k = None" using old(2) by simp
  note ap = sector_inv_append [OF old(1) nm live kv(2) new]
  have kl: "k = take (ksz c) (key_and_data rec')" "v = drop (ksz c) (take (unat len) (key_and_data rec'))"
    "unat len = unat (h_length (head rec'))"
  proof -
    have kd: "key_and_data rec' = key_and_data rec" by (simp add: rec')
    have "take (ksz c) (take (unat len) (key_and_data rec)) = k"
      "drop (ksz c) (take (unat len) (key_and_data rec)) = v"
      unfolding kv(1) [symmetric] using kv(2) by simp_all
    then show "k = take (ksz c) (key_and_data rec')" "v = drop (ksz c) (take (unat len) (key_and_data rec'))"
      unfolding kd using l(1) by (simp_all add: min_absorb1)
    show "unat len = unat (h_length (head rec'))" by (simp add: rec' new_head_def ul)
  qed
  obtain d' h' where ins: "insert_lookup_table c rec' ?idx s4 = Some (EOK, (set_dict d' s4)\<lparr>hp := h'\<rparr>)"
    "table_is c ((set_dict d' s4)\<lparr>hp := h'\<rparr>) ((vol_index mem c s)(k \<mapsto> (n, v)))" "plenty h'"
    using insert_table_ok [OF s4(1) _ rb' kl(3) l(2,1) kl(1,2), of ?idx] pl s4(2) unfolding n_def by metis
  let ?s' = "(set_dict d' s4)\<lparr>hp := h'\<rparr>"
  have proj: "dev ?s' = dev s4" "i_sector (inst ?s') = ?sec" "unat (i_next_idx (inst ?s')) = Suc n"
    using s4(3,4) n1 by (simp_all add: set_dict_def)
  have ix: "scan c ?sl' (Suc n) = (vol_index mem c s)(k \<mapsto> (n, v))"
    using ap(2) old(2) by simp
  have "nvol_inv mem c ?s'" "vol_index mem c ?s' = (vol_index mem c s)(k \<mapsto> (n, v))"
    using inv_slots_change [OF inv _ proj(2,3) ap(1)] s4(5) ins(2) by (simp_all only: proj(1) ix)
  then show ?thesis
    using run ins proj by (intro exI [of _ ?s']) (auto simp: vol_map_def n_def)
qed

text \<open>The number of keys against the capacity.\<close>

lemma count_full:
  assumes inv: "nvol_inv mem c s" and d: "loaded_dict s = Some d"
  shows "of_nat (mxr c) - NVOL3_HEADROOM \<le> dictionary_count d \<longleftrightarrow>
         mxr c \<le> card (dom (vol_map mem c s)) + 4"
proof -
  obtain d' where d': "loaded_dict s = Some d'" "dict_inv d' (hp s)"
    "dict_map d' = (\<lambda>k. map_option (entry_of c) (vol_index mem c s k))"
    using table_is_loaded [OF nvol_inv_D(3) [OF inv]] by metis
  then have "dom (dict_map d) = dom (vol_map mem c s)"
    using d by (auto simp: vol_map_def)
  then have cnt: "dictionary_count d = of_nat (card (dom (vol_map mem c s)))"
    using dict.cnt_card [OF d'(2)] d' d by simp
  have "card (dom (vol_map mem c s)) \<le> mxr c"
    using scan_dom_card [of c "vol_slots mem c s" "unat (i_next_idx (inst s))"] nvol_inv_D(2) [OF inv]
    by (simp add: dom_vol_map vol_index_def sector_inv_def)
  then have uc: "unat (of_nat (card (dom (vol_map mem c s))) :: u32) = card (dom (vol_map mem c s))"
    using cfg_sizes(5) by (intro unat_of_nat_u32) simp
  have "unat (of_nat (mxr c) - NVOL3_HEADROOM) = mxr c - 4"
    by (subst unat_sub) (use cfg_sizes(4) in \<open>auto simp: word_le_nat_alt unat_mxr NVOL3_HEADROOM_def\<close>)
  then show ?thesis using cfg_sizes(4) by (auto simp: word_le_nat_alt cnt uc)
qed

lemma record_set_ok:
  assumes inv: "nvol_inv mem c s" and pl: "plenty (hp s)" and rb: "rec_buf c rec"
    and l: "ksz c \<le> unat len" "unat len + 8 \<le> rsz c" and cb: "cb_accepts c"
    and kv: "k @ v = take (unat len) (key_and_data rec)" "length k = ksz c"
    and n: "unat (i_next_idx (inst s)) < mxr c \<or> mxr c \<le> card (dom (vol_map mem c s)) + 4"
    and m: "retrieve_lookup_table rec s = Some m"
  shows "if mxr c \<le> card (dom (vol_map mem c s)) + 4
    then record_set c (map_option nval m) rec len s = Some (EFAIL, rec, s)
    else \<exists>rec' s'. record_set c (map_option nval m) rec len s = Some (EOK, rec', s') \<and>
      nvol_inv mem c s' \<and> plenty (hp s') \<and> vol_map mem c s' = (vol_map mem c s)(k \<mapsto> v) \<and>
      key_and_data rec' = key_and_data rec"
proof -
  obtain d where d: "loaded_dict s = Some d" using table_is_loaded [OF nvol_inv_D(3) [OF inv]] by metis
  have room: "ucast len \<le> record_room c"
    using l(2) by (simp add: word_le_nat_alt unat_room)
  have k: "k = take (ksz c) (key_and_data rec)"
    using arg_cong [OF kv(1), of "take (ksz c)"] kv(2) l(1) by (simp add: min_absorb1)
  note ret = retrieve_ok [OF nvol_inv_D(3) [OF inv] rb k]
  show ?thesis
  proof (cases "mxr c \<le> card (dom (vol_map mem c s)) + 4")
    case True
    then show ?thesis
      using room d count_full [OF inv d] by (simp add: record_set_def max_records_eq)
  next
    case False
    then have n': "unat (i_next_idx (inst s)) < mxr c" using n by simp
    have big: "\<not> 0xFFFF < len" using l(2) cfg_sizes(8) by (simp add: word_less_nat_alt)
    have rd: "buf_read (key_and_data rec) 0 (unat len) = Some (take (unat len) (key_and_data rec))"
      using rb l by (simp add: buf_read_def rec_buf_def)
    let ?rec = "rec\<lparr>head := new_head len (take (unat len) (key_and_data rec))\<rparr>"
    have cbs: "(case c_write_cb c of None \<Rightarrow> EOK | Some f \<Rightarrow> f i r (c_ctx c)) = EOK" for i r
      using cb by (auto simp: cb_accepts_def split: option.splits)
    have run: "record_set c (map_option nval m) rec len s =
        do { (status, s) \<leftarrow> store_record c idx ?rec s1; Some (status, ?rec, s) }"
      if "old_record c (map_option nval m) rec len s = Some (Inr idx, s1)" for idx s1
      using room d False count_full [OF inv d] that big rd cbs
      by (simp add: record_set_def max_records_eq Let_def)
    note old = old_record_ok [OF inv pl rb l kv]
    have store: ?thesis
      if o: "old_record c (map_option nval m) rec len s = Some (Inr idx, s\<lparr>hp := h\<rparr>)" "plenty h"
        "next_addr (hp s) \<le> next_addr h"
        "case vol_index mem c s k of None \<Rightarrow> idx = NVOL3_INVALID_VAR_IDX | Some (i, w) \<Rightarrow> idx = of_nat i"
      for idx h
    proof -
      have "\<exists>s'. store_record c idx ?rec (s\<lparr>hp := h\<rparr>) = Some (EOK, s') \<and> nvol_inv mem c s' \<and>
          plenty (hp s') \<and> vol_map mem c s' = (vol_map mem c (s\<lparr>hp := h\<rparr>))(k \<mapsto> v) \<and>
          i_sector (inst s') = i_sector (inst (s\<lparr>hp := h\<rparr>)) \<and>
          unat (i_next_idx (inst s')) = Suc (unat (i_next_idx (inst (s\<lparr>hp := h\<rparr>))))"
        by (rule store_record_ok [OF nvol_inv_hp [OF inv o(3)] _ rb l kv _ _ refl])
           (use o n' in simp_all)
      with run [OF o(1)] False show ?thesis by auto
    qed
    show ?thesis
    proof (cases "vol_index mem c s k")
      case None
      then show ?thesis using store [of NVOL3_INVALID_VAR_IDX "hp s"] old ret m pl by simp
    next
      case (Some p)
      then obtain i w where ix: "vol_index mem c s k = Some (i, w)" by (cases p) simp
      then obtain np where np: "m = Some np" "nval np = entry_of c (i, w)" using ret m by auto
      obtain h' where h': "plenty h'" "next_addr (hp s) \<le> next_addr h'"
        "old_record c (map_option nval m) rec len s =
           Some (if w = v then Inl EOK else Inr (of_nat i), s\<lparr>hp := h'\<rparr>)"
        using old ix np by auto
      show ?thesis
      proof (cases "w = v")
        case True
        then have "vol_map mem c s = (vol_map mem c s)(k \<mapsto> v)"
          using ix by (simp add: vol_map_def fun_upd_idem)
        moreover have "record_set c (map_option nval m) rec len s = Some (EOK, rec, s\<lparr>hp := h'\<rparr>)"
          using room d False count_full [OF inv d] h'(3) True
          by (simp add: record_set_def max_records_eq)
        ultimately show ?thesis using False h' nvol_inv_hp [OF inv h'(2)] by auto
      next
        case False
        then show ?thesis using store [of "of_nat i" h'] h' ix by simp
      qed
    qed
  qed
qed

end

end
