(* ===== verification/Nvol_Swap.thy ===== *)
theory Nvol_Swap
  imports Nvol_Set
begin

text \<open>
  Swapping sectors: \<^verbatim>\<open>swap_sectors\<close> copies the records of the lookup table to the other
  sector, validates it, rebuilds the table and erases the old sector.  The map of the volume
  stays the same; afterwards the sector holds exactly one slot per key.
\<close>

unbundle bit_operations_syntax

section \<open>Sector headers\<close>

lemma and_bytes_append:
  "length a = length b \<Longrightarrow> and_bytes (a @ x) (b @ y) = and_bytes a b @ and_bytes x y"
  by (simp add: and_bytes_def)

lemma and_bytes_same [simp]: "and_bytes xs xs = xs"
  by (induction xs) (simp_all add: and_bytes_def)

lemma le32_AND: "and_bytes (le32 v) (le32 w) = le32 (v AND w)"
  unfolding and_bytes_def le32_def
  by (auto intro!: bit_word_eqI simp: bit_and_iff bit_ucast_iff bit_drop_bit_eq)

lemma sector_record_AND:
  "and_bytes (sector_record c f) (sector_record c g) = sector_record c (f AND g)"
  by (simp add: sector_record_def and_bytes_append le32_AND)

lemma sector_record_blank: "and_bytes blank_header (sector_record c f) = sector_record c f"
  by (rule and_bytes_blank) (auto simp: blank_header_def sector_record_def)

lemma hdr_flags_record [simp]: "hdr_flags (sector_record c f) = f"
  by (simp add: hdr_flags_def sector_record_def)

lemma hdr_version_record [simp]: "hdr_version (sector_record c f) = c_version c"
proof -
  have "drop 12 (sector_record c f) = le32 (NOT (ucast (c_version c)))"
    by (simp add: sector_record_def)
  then show ?thesis by (simp add: hdr_version_def)
qed

lemma flags_init_valid:
  "NVOL3_SECTOR_INITIALIZING AND NVOL3_SECTOR_VALID = NVOL3_SECTOR_VALID"
  by (simp add: sector_flags_defs)

lemma header_ok_record: "header_ok c (sector_record c NVOL3_SECTOR_VALID)"
  by (simp add: header_ok_def)

lemma rd32_blank: "rd32 (replicate 16 (- 1)) = 0xFFFFFFFF"
  by (simp add: numeral_eq_Suc) code_simp

lemma hdr_flags_blank [simp]: "hdr_flags blank_header = NVOL3_SECTOR_EMPTY"
  by (simp add: hdr_flags_def blank_header_def rd32_blank NVOL3_SECTOR_EMPTY_def)

section \<open>Copies of live slots\<close>

lemma live_copy:
  assumes lv: "live c b = Some (k, v)" and hd: "head rec = dec_head b"
    and kd: "take (length k + length v) (key_and_data rec) = k @ v"
    and len: "unat (h_length (head rec)) = length k + length v"
  shows "live c (rec_bytes c rec) = Some (k, v)" "rd16 (rec_bytes c rec) = NVOL3_RECORD_FLAGS_VALID"
proof -
  note l = live_body [OF lv]
  have "length k + length v \<le> length (key_and_data rec)"
    using arg_cong [OF kd, of length] by simp
  then have body: "slot_body (rec_bytes c rec) = k @ v"
    using body_rec_bytes [of rec c] kd len by simp
  have "valid_slot c (rec_bytes c rec)"
    using l unfolding valid_slot_def by (simp add: body hd)
  moreover have "take (ksz c) (k @ v) = k" "drop (ksz c) (k @ v) = v"
    using lv l(2) by (auto simp: live_def split: if_splits)
  ultimately show "live c (rec_bytes c rec) = Some (k, v)" by (simp add: live_def body)
  show "rd16 (rec_bytes c rec) = NVOL3_RECORD_FLAGS_VALID"
    using l(3) unfolding head_status_EOK by (simp add: hd)
qed

text \<open>The destination sector holds the records of the keys \<open>K\<close>.\<close>

definition copied ::
  "'f nvol_config \<Rightarrow> (nat \<Rightarrow> u8 list) \<Rightarrow> (u8 list \<rightharpoonup> nat \<times> u8 list) \<Rightarrow> u8 list set \<Rightarrow> nat \<Rightarrow> bool" where
  "copied c sl ix K j \<longleftrightarrow>
     sector_inv c sl j \<and> finite K \<and> card K = j \<and> (\<forall>i < j. valid_slot c (sl i)) \<and>
     (\<forall>k. map_option snd (scan c sl j k) = (if k \<in> K then map_option snd (ix k) else None))"

lemma copied_empty:
  "(\<And>j. j < mxr c \<Longrightarrow> sl j = blank_slot c) \<Longrightarrow> copied c sl ix {} 0"
  by (simp add: copied_def sector_inv_def keyed_slots_def)

lemma copied_step:
  assumes cp: "copied c sl ix K j" and j: "j < mxr c" and k: "k \<notin> K" "ix k = Some (i, v)"
    and b: "live c b = Some (k, v)" "rd16 b = NVOL3_RECORD_FLAGS_VALID" "length k = ksz c"
  shows "copied c (sl(j := b)) ix (insert k K) (Suc j)"
proof -
  have si: "sector_inv c sl j" and s: "\<And>x. map_option snd (scan c sl j x) =
      (if x \<in> K then map_option snd (ix x) else None)"
    using cp by (simp_all add: copied_def)
  have "scan c sl j k = None" using s [of k] k(1) by simp
  note ap = sector_inv_append [OF si j b this]
  have "map_option snd (scan c (sl(j := b)) (Suc j) x) =
      (if x \<in> insert k K then map_option snd (ix x) else None)" for x
    using s [of x] k(2) by (simp add: ap(2) del: scan.simps)
  moreover have "\<forall>i < Suc j. valid_slot c ((sl(j := b)) i)"
    using cp live_body(1) [OF b(1)] by (simp add: copied_def less_Suc_eq)
  ultimately show ?thesis using cp k(1) ap(1) by (simp add: copied_def del: scan.simps)
qed

context volume
begin

lemma set_sector_flags_header:
  assumes sec: "sec \<in> sectors c"
    and h: "and_bytes (header (mem (dev s)) sec) (sector_record c flags) = sector_record c flags'"
  obtains f where "set_sector_flags c sec flags s = Some (EOK, s\<lparr>dev := f\<rparr>)"
    "header_update c (mem (dev s)) sec (sector_record c flags') (mem f)"
  using set_sector_flags_ok [OF sec, of flags s] h by metis

text \<open>Preparing an erased sector.\<close>

lemma prepare_blank:
  assumes sec: "dst \<in> sectors c" and b: "blank_sector (mem (dev s)) c dst"
  obtains f where "prepare_sector c dst s = Some (EOK, s\<lparr>dev := f\<rparr>)"
    "header_update c (mem (dev s)) dst (sector_record c NVOL3_SECTOR_INITIALIZING) (mem f)"
proof -
  have h: "header (mem (dev s)) dst = blank_header" using b by (simp add: blank_sector_def)
  obtain f where f: "set_sector_flags c dst NVOL3_SECTOR_INITIALIZING s = Some (EOK, s\<lparr>dev := f\<rparr>)"
    "header_update c (mem (dev s)) dst (sector_record c NVOL3_SECTOR_INITIALIZING) (mem f)"
    using set_sector_flags_header [OF sec, of s NVOL3_SECTOR_INITIALIZING NVOL3_SECTOR_INITIALIZING] h
      sector_record_blank by metis
  then show ?thesis
    using that get_sector_version_ok [OF sec, of s] h by (simp add: prepare_sector_def)
qed

text \<open>
  The loop: \<open>np\<close> is the node fetched before the iteration, \<open>ns\<close> the nodes not yet copied.
\<close>

lemma swap_loop_ok:
  fixes m0 :: "nat \<Rightarrow> u8"
  assumes src: "src \<in> sectors c" and dst: "dst \<in> sectors c" "dst \<noteq> src"
    and ixlive: "\<And>k i v. ix k = Some (i, v) \<Longrightarrow> i < mxr c \<and> live c (slot m0 c src i) = Some (k, v) \<and> length k = ksz c"
    and ixcard: "finite (dom ix)" "card (dom ix) \<le> mxr c"
  assumes "i_sector (inst s) = src" "rec_buf c scratch"
    "i_dict (inst s) = Some d" "dict_inv d (hp s)" "d_keyspec d = c_keyspec c"
    "it_pos d it rest" "it_cmp it = None" "set ns \<subseteq> set (dict_nodes d)" "map naddr ns = map snd rest"
    "\<forall>np \<in> set ns. \<exists>p. ix (nkey np) = Some p \<and> nval np = entry_of c p"
    "K \<inter> nkey ` set ns = {}" "K \<union> nkey ` set ns = dom ix"
    "slots_change c m0 dst dsl (mem (dev s))" "copied c dsl ix K j" "unat dst_idx = j"
  shows "\<exists>m it' scratch' s' dsl'. it_next d it = Some (m, it') \<and>
    swap_loop c scratch dst dst_idx m it' EOK s = Some (EOK, scratch', s') \<and> rec_buf c scratch' \<and>
    inst s' = (inst s)\<lparr>i_dict := i_dict (inst s')\<rparr> \<and> hp s' = hp s \<and>
    (\<exists>d'. i_dict (inst s') = Some d' \<and> dict_inv d' (hp s) \<and> d_keyspec d' = c_keyspec c) \<and>
    slots_change c m0 dst dsl' (mem (dev s')) \<and> copied c dsl' ix (dom ix) (card (dom ix))"
  using assms(7-)
proof (induction ns arbitrary: s scratch d it rest K dsl j dst_idx)
  case Nil
  then have "rest = []" by simp
  then obtain it' where "it_next d it = Some (None, it')"
    using it_next_Nil Nil.prems(4,6) by blast
  moreover have "K = dom ix" using Nil.prems by simp
  moreover have "j = card (dom ix)" using Nil.prems(14) \<open>K = dom ix\<close> by (simp add: copied_def)
  ultimately show ?case using Nil.prems
    by (intro exI [of _ None] exI [of _ it'] exI [of _ scratch] exI [of _ s] exI [of _ dsl])
       (simp add: swap_loop.simps)
next
  case (Cons np ns)
  obtain p rest' where "rest = p # rest'" using Cons.prems(9) by (cases rest) auto
  moreover obtain b a where "p = (b, a)" by fastforce
  ultimately have r: "rest = (b, a) # rest'" "a = naddr np" "map naddr ns = map snd rest'"
    using Cons.prems(9) by simp_all
  note inv = Cons.prems(4)
  obtain n it' where nx: "it_next d it = Some (Some n, it')" "n \<in> set (dict_nodes d)" "naddr n = a"
    "it_pos d it' rest'" "it_cmp it' = None"
    using it_next_Cons [OF inv] Cons.prems(6,7) unfolding r(1) by metis
  have np: "np \<in> set (dict_nodes d)" using Cons.prems(8) by simp
  then have [simp]: "n = np" using dict_inv_addr_unique [OF inv nx(2)] nx(3) r(2) by simp
  obtain i v where ix: "ix (nkey np) = Some (i, v)" "nval np = entry_of c (i, v)"
    using Cons.prems(10) by force
  note il = ixlive [OF ix(1)]
  let ?k = "nkey np"
  have ld: "loaded_dict s = Some d" using Cons.prems(3) inv by (simp add: loaded_dict_def dict_inv_def)
  have si: "slot (mem (dev s)) c src i = slot m0 c src i"
    using Cons.prems(13) src dst(2) il by (simp add: slots_change_def)
  obtain rec where rec: "read_variable_record c scratch (of_nat i) 0 s = Some (EOK, rec)" "rec_buf c rec"
    "take (length ?k + length v) (key_and_data rec) = ?k @ v" "head rec = dec_head (slot m0 c src i)"
    "unat (h_length (head rec)) = length ?k + length v"
    using read_live_slot [of s i scratch ?k v] Cons.prems(1,2) src il si by metis
  note cp = live_copy [OF conjunct1 [OF conjunct2 [OF il]] rec(4,3,5)]
  have kK: "?k \<notin> K" "?k \<in> dom ix" using Cons.prems(11) ix(1) by auto
  have jm: "j < mxr c"
  proof -
    have "K \<subset> dom ix" using Cons.prems(12) kK by auto
    then have "card K < card (dom ix)" using ixcard(1) by (rule psubset_card_mono [rotated])
    then show ?thesis using Cons.prems(14) ixcard(2) by (simp add: copied_def)
  qed
  have jidx: "unat dst_idx < mxr c" using jm Cons.prems(15) by simp
  have blank: "slot (mem (dev s)) c dst (unat dst_idx) = blank_slot c"
    using Cons.prems(13-15) dst(1) jm by (simp add: slots_change_def copied_def sector_inv_def)
  have fit: "unat (h_length (head rec)) + 8 \<le> rsz c"
    using slot_length_u16 [OF conjunct1 [OF conjunct2 [OF il]]] rec(5) by simp
  have hf: "h_flags (head rec) \<noteq> 0" using cp(2) by (simp add: record_flags_defs)
  obtain f where f: "write_variable_record c dst rec dst_idx s = Some (EOK, s\<lparr>dev := f\<rparr>)"
    "slot_update c (mem (dev s)) dst j (rec_bytes c rec) (mem f)"
    using write_record_ok [OF dst(1) jidx rec(2) blank hf fit] Cons.prems(15) by metis
  have bw: "buf_write (nval np) 0 (le16 dst_idx) = Some (le16 dst_idx @ drop 2 (nval np))"
    by (simp add: buf_write_def ix(2) entry_of_def enc_entry_def)
  let ?d' = "dict_set_value d (naddr np) (le16 dst_idx @ drop 2 (nval np))"
  let ?s' = "set_dict ?d' (s\<lparr>dev := f\<rparr>)"
  have dw: "dict_write_value d (naddr np) 0 (le16 dst_idx) = Some ?d'"
    by (rule dict_write_value_ok [OF inv np bw])
  have inv': "dict_inv ?d' (hp s)" by (rule dict_set_value_inv [OF inv])
  have dist: "distinct (map naddr (np # ns))"
  proof -
    obtain pre where "slots d = pre @ rest"
      using Cons.prems(6) by (auto simp: it_pos_def)
    then have "distinct (map snd rest)"
      using map_snd_slots [of d] inv by (simp add: dict_inv_def) (metis distinct_append map_append)
    then show ?thesis using Cons.prems(9) by simp
  qed
  have sub: "set ns \<subseteq> set (dict_nodes ?d')"
  proof
    fix x assume x: "x \<in> set ns"
    then have "naddr x \<in> set (map naddr ns)" by simp
    then have "naddr x \<noteq> naddr np" using dist by (metis distinct.simps(2) list.simps(9))
    moreover have "x \<in> set (dict_nodes d)" using \<open>x \<in> set ns\<close> Cons.prems(8) by auto
    ultimately show "x \<in> set (dict_nodes ?d')" by (force simp: dict_set_value_nodes)
  qed
  have u: "unat (dst_idx + 1) = Suc j"
    using jidx cfg_sizes(5) Cons.prems(15) by (subst unat_Suc_u16) simp_all
  have keys: "distinct (map nkey (np # ns))"
  proof -
    have "inj_on nkey (set (dict_nodes d))" "distinct (np # ns)"
      using inv dist by (auto simp: dict_inv_def distinct_map)
    then show ?thesis
      unfolding distinct_map using Cons.prems(8) inj_on_subset by blast
  qed
  have "\<exists>m it'' scratch' s' dsl'. it_next ?d' it' = Some (m, it'') \<and>
    swap_loop c rec dst (dst_idx + 1) m it'' EOK ?s' = Some (EOK, scratch', s') \<and> rec_buf c scratch' \<and>
    inst s' = (inst ?s')\<lparr>i_dict := i_dict (inst s')\<rparr> \<and> hp s' = hp ?s' \<and>
    (\<exists>d'. i_dict (inst s') = Some d' \<and> dict_inv d' (hp ?s') \<and> d_keyspec d' = c_keyspec c) \<and>
    slots_change c m0 dst dsl' (mem (dev s')) \<and> copied c dsl' ix (dom ix) (card (dom ix))"
  proof (rule Cons.IH [of ?s' rec ?d' it' rest' "insert ?k K" "dsl(j := rec_bytes c rec)" "Suc j" "dst_idx + 1"])
    show "slots_change c m0 dst (dsl(j := rec_bytes c rec)) (mem (dev ?s'))"
      using slots_change_trans [OF Cons.prems(13) f(2)] by (simp add: set_dict_def)
    show "copied c (dsl(j := rec_bytes c rec)) ix (insert ?k K) (Suc j)"
      using copied_step [OF Cons.prems(14) jm kK(1) ix(1) cp] il by simp
  qed (use Cons.prems rec(2) inv' nx r(3) sub u keys in \<open>auto simp: set_dict_def\<close>)
  then obtain m it'' scratch' s' dsl' where IH: "it_next ?d' it' = Some (m, it'')"
    "swap_loop c rec dst (dst_idx + 1) m it'' EOK ?s' = Some (EOK, scratch', s')" "rec_buf c scratch'"
    "inst s' = (inst ?s')\<lparr>i_dict := i_dict (inst s')\<rparr>" "hp s' = hp ?s'"
    "\<exists>d'. i_dict (inst s') = Some d' \<and> dict_inv d' (hp ?s') \<and> d_keyspec d' = c_keyspec c"
    "slots_change c m0 dst dsl' (mem (dev s'))" "copied c dsl' ix (dom ix) (card (dom ix))" by blast
  have "swap_loop c scratch dst dst_idx (Some np) it' EOK s = Some (EOK, scratch', s')"
    using ld ix(2) rec(1) f(1) dw nx(5) IH(1,2)
    by (subst swap_loop.simps) (simp add: dictionary_get_value_def dec_entry_of dictionary_it_next_def)
  moreover have "hp ?s' = hp s" "(inst ?s')\<lparr>i_dict := x\<rparr> = (inst s)\<lparr>i_dict := x\<rparr>" for x
    by (simp_all add: set_dict_def)
  ultimately show ?case using nx(1) IH(3-8) by auto
qed

lemma other_sector_ok:
  assumes "i_sector (inst s) \<in> sectors c"
  obtains dst where "other_sector c s = (i_sector (inst s), dst)" "dst \<in> sectors c"
    "dst \<noteq> i_sector (inst s)" "sectors c = {i_sector (inst s), dst}"
  using assms sectors_distinct that
  by (cases "i_sector (inst s) = c_sector1_addr c") (auto simp: other_sector_def sectors_def)

lemma used_of_sector_inv: "sector_inv c sl n \<Longrightarrow> used_slots c sl n"
  using cfg_sizes(1) by (auto simp: sector_inv_def used_slots_def blank_slot_def NVOL3_RECORD_FLAGS_EMPTY_def)

lemma header_updateD:
  "header_update c m sec h m' \<Longrightarrow> sec' \<in> sectors c \<Longrightarrow> j < mxr c \<Longrightarrow> slot m' c sec' j = slot m c sec' j"
  "header_update c m sec h m' \<Longrightarrow> sec' \<in> sectors c \<Longrightarrow>
     header m' sec' = (if sec' = sec then h else header m sec')"
  by (simp_all add: header_update_def)

lemma cleaned_valid:
  assumes "cleaned c m sec n m'" "\<forall>i < n. valid_slot c (slot m c sec i)" "sec' \<in> sectors c" "j < mxr c"
  shows "slot m' c sec' j = slot m c sec' j"
  using assms by (auto simp: cleaned_def clean_valid)

text \<open>
  After the copy: validate the destination, rebuild the table over it, erase the source.
\<close>

lemma swap_finish:
  assumes src: "src \<in> sectors c" and dst: "dst \<in> sectors c" "dst \<noteq> src" "sectors c = {src, dst}"
    and h: "header (mem (dev s)) dst = sector_record c NVOL3_SECTOR_INITIALIZING"
    and si: "sector_inv c (slot (mem (dev s)) c dst) j" "\<forall>i < j. valid_slot c (slot (mem (dev s)) c dst i)"
    and d: "i_dict (inst s) = Some d" "dict_inv d (hp s)" "d_keyspec d = c_keyspec c"
    and rb: "rec_buf c scratch" and pl: "plenty (hp s)"
  shows "\<exists>s1 scratch' s2 s'. set_sector_flags c dst NVOL3_SECTOR_VALID s = Some (EOK, s1) \<and>
    construct_lookup_table c scratch (upd_inst (\<lambda>i. i\<lparr>i_sector := dst\<rparr>) s1) = Some (EOK, scratch', s2) \<and>
    erase_sector c src (c_sector_size c) s2 = Some (EOK, s') \<and> rec_buf c scratch' \<and>
    nvol_inv mem c s' \<and> plenty (hp s') \<and> i_sector (inst s') = dst \<and> unat (i_next_idx (inst s')) = j \<and>
    vol_index mem c s' = scan c (slot (mem (dev s)) c dst) j"
proof -
  let ?sl = "slot (mem (dev s)) c dst"
  have "and_bytes (header (mem (dev s)) dst) (sector_record c NVOL3_SECTOR_VALID) =
      sector_record c NVOL3_SECTOR_VALID"
    by (simp add: h sector_record_AND flags_init_valid)
  then obtain f where f: "set_sector_flags c dst NVOL3_SECTOR_VALID s = Some (EOK, s\<lparr>dev := f\<rparr>)"
    "header_update c (mem (dev s)) dst (sector_record c NVOL3_SECTOR_VALID) (mem f)"
    using set_sector_flags_header [OF dst(1)] by metis
  let ?s1 = "upd_inst (\<lambda>i. i\<lparr>i_sector := dst\<rparr>) (s\<lparr>dev := f\<rparr>)"
  have jm: "j \<le> mxr c" using si(1) by (simp add: sector_inv_def)
  have sl: "slot (mem f) c dst i = ?sl i" if "i < mxr c" for i
    using header_updateD(1) [OF f(2) dst(1) that] .
  then have si': "sector_inv c (slot (mem f) c dst) j"
    using si(1) sector_inv_cong [of c "slot (mem f) c dst" ?sl] by blast
  have v': "\<forall>i < j. valid_slot c (slot (mem f) c dst i)" using si(2) sl jm by simp
  have hf: "header (mem f) dst = sector_record c NVOL3_SECTOR_VALID"
    using header_updateD(2) [OF f(2) dst(1)] by simp
  have p1: "i_sector (inst ?s1) = dst" "dev ?s1 = f" "hp ?s1 = hp s" "i_dict (inst ?s1) = Some d"
    using d(1) by simp_all
  have "keyed_slots c (slot (mem f) c dst) j" using si' by (simp add: sector_inv_def)
  from construct_table_ok [of ?s1 j d scratch, unfolded p1, OF dst(1) used_of_sector_inv [OF si'] this refl d(2,3) rb pl]
  obtain scratch' s2 where con: "construct_lookup_table c scratch ?s1 = Some (EOK, scratch', s2)"
    "rec_buf c scratch'" "plenty (hp s2)" "i_sector (inst s2) = dst" "i_next_idx (inst s2) = of_nat j"
    "cleaned c (mem f) dst j (mem (dev s2))" "table_is c s2 (scan c (slot (mem f) c dst) j)"
    by (auto simp: hf)
  obtain f3 where er: "erase_sector c src (c_sector_size c) s2 = Some (EOK, s2\<lparr>dev := f3\<rparr>)"
    "sector_erased c (mem (dev s2)) src (mem f3)"
    using erase_ok [OF src] by metis
  let ?s' = "s2\<lparr>dev := f3\<rparr>"
  have sl3: "slot (mem f3) c dst i = ?sl i" if "i < mxr c" for i
    using er(2) dst that cleaned_valid [OF con(6) v' dst(1) that] sl [OF that]
    by (simp add: sector_erased_def)
  then have si3: "sector_inv c (slot (mem f3) c dst) j"
    using si(1) sector_inv_cong [of c "slot (mem f3) c dst" ?sl] by blast
  have sc3: "scan c (slot (mem f3) c dst) j = scan c ?sl j"
    "scan c (slot (mem f) c dst) j = scan c ?sl j"
    using sl3 sl by (auto intro!: scan_slots_cong [OF _ jm])
  have uj: "unat (of_nat j :: u16) = j" using jm cfg_sizes(5) by (simp add: unat_of_nat_u16)
  have hd3: "header (mem f3) dst = sector_record c NVOL3_SECTOR_VALID"
    using er(2) con(6) dst hf by (simp add: sector_erased_def cleaned_def)
  then have hok: "header_ok c (header (mem f3) dst)" by (simp only: header_ok_record)
  have "vol_slots mem c ?s' = slot (mem f3) c dst" by (simp add: vol_slots_def con(4))
  moreover from this have ix: "vol_index mem c ?s' = scan c ?sl j"
    by (simp add: vol_index_def con(5) uj sc3)
  ultimately have "nvol_inv mem c ?s'"
    using si3 con(4,5,7) uj hok dst er(2) sc3
    by (auto simp: nvol_inv_def sector_erased_def)
  with ix f con er uj show ?thesis by auto
qed

text \<open>
  The phases of a swap: prepare the destination, copy, validate, rebuild the table, erase the source.
\<close>

lemma swap_phases:
  assumes inv: "nvol_inv mem c s" and pl: "plenty (hp s)" and rb: "rec_buf c scratch"
  obtains dst d m it s1 s2 s3 s4 s' scratch1 scratch2 j where
    "other_sector c s = (i_sector (inst s), dst)" "dst \<in> sectors c" "dst \<noteq> i_sector (inst s)"
    "prepare_sector c dst s = Some (EOK, s1)" "loaded_dict s1 = Some d" "inst s1 = inst s"
    "dictionary_it_first d None = Some (m, it)"
    "swap_loop c scratch dst 0 m it EOK s1 = Some (EOK, scratch1, s2)" "rec_buf c scratch1"
    "header (mem (dev s2)) dst = sector_record c NVOL3_SECTOR_INITIALIZING"
    "sector_inv c (slot (mem (dev s2)) c dst) j" "\<forall>i < j. valid_slot c (slot (mem (dev s2)) c dst i)"
    "\<forall>k. map_option snd (scan c (slot (mem (dev s2)) c dst) j k) = vol_map mem c s k"
    "set_sector_flags c dst NVOL3_SECTOR_VALID s2 = Some (EOK, s3)"
    "construct_lookup_table c scratch1 (upd_inst (\<lambda>i. i\<lparr>i_sector := dst\<rparr>) s3) = Some (EOK, scratch2, s4)"
    "erase_sector c (i_sector (inst s)) (c_sector_size c) s4 = Some (EOK, s')" "rec_buf c scratch2"
    "nvol_inv mem c s'" "plenty (hp s')" "i_sector (inst s') = dst"
    "unat (i_next_idx (inst s')) = card (dom (vol_map mem c s))" "vol_map mem c s' = vol_map mem c s"
proof -
  let ?src = "i_sector (inst s)" and ?ix = "vol_index mem c s"
  note src = nvol_inv_D(1) [OF inv]
  obtain dst where dst: "other_sector c s = (?src, dst)" "dst \<in> sectors c" "dst \<noteq> ?src"
    "sectors c = {?src, dst}" by (rule other_sector_ok [OF src])
  note blank = nvol_inv_D(5) [OF inv dst(2,3)]
  obtain f1 where f1: "prepare_sector c dst s = Some (EOK, s\<lparr>dev := f1\<rparr>)"
    "header_update c (mem (dev s)) dst (sector_record c NVOL3_SECTOR_INITIALIZING) (mem f1)"
    by (rule prepare_blank [OF dst(2) blank])
  let ?s1 = "s\<lparr>dev := f1\<rparr>"
  have same: "slot (mem f1) c sec j = slot (mem (dev s)) c sec j" if "sec \<in> sectors c" "j < mxr c" for sec j
    using header_updateD(1) [OF f1(2) that] .
  obtain d where d: "loaded_dict s = Some d" "i_dict (inst s) = Some d" "dict_inv d (hp s)"
    "d_keyspec d = c_keyspec c" "dict_map d = (\<lambda>k. map_option (entry_of c) (?ix k))"
    by (rule table_is_loaded [OF nvol_inv_D(3) [OF inv]])
  have live: "i < mxr c \<and> live c (slot (mem f1) c ?src i) = Some (k, v) \<and> length k = ksz c"
    if "?ix k = Some (i, v)" for k i v
    using vol_index_Some [OF inv that] index_key_length [OF inv that] same [OF src]
    by (simp add: vol_slots_def)
  have fin: "finite (dom ?ix)" "card (dom ?ix) \<le> mxr c"
    using scan_dom_card [of c "vol_slots mem c s" "unat (i_next_idx (inst s))"] nvol_inv_D(2) [OF inv]
    by (simp_all add: vol_index_def sector_inv_def)
  have vals: "\<forall>np \<in> set (dict_nodes d). \<exists>p. ?ix (nkey np) = Some p \<and> nval np = entry_of c p"
  proof
    fix np assume "np \<in> set (dict_nodes d)"
    then have "dict_map d (nkey np) = Some (nval np)" using dict_map_Some_iff [OF d(3)] by blast
    then show "\<exists>p. ?ix (nkey np) = Some p \<and> nval np = entry_of c p" using d(5) by auto
  qed
  have dom: "nkey ` set (dict_nodes d) = dom ?ix"
  proof -
    have "nkey ` set (dict_nodes d) = dom (dict_map d)"
      by (simp add: dict_map_def dom_map_of_conv_image_fst image_image)
    then show ?thesis by (auto simp: d(5))
  qed
  have ch0: "slots_change c (mem f1) dst (slot (mem f1) c dst) (mem (dev ?s1))"
    by (simp add: slots_change_def)
  have cp0: "copied c (slot (mem f1) c dst) ?ix {} 0"
    using blank same [OF dst(2)] by (intro copied_empty) (simp add: blank_sector_def)
  obtain m it scratch1 s2 dsl where lp: "it_next d (it_init None) = Some (m, it)"
    "swap_loop c scratch dst 0 m it EOK ?s1 = Some (EOK, scratch1, s2)" "rec_buf c scratch1"
    "inst s2 = (inst ?s1)\<lparr>i_dict := i_dict (inst s2)\<rparr>" "hp s2 = hp ?s1"
    "\<exists>d'. i_dict (inst s2) = Some d' \<and> dict_inv d' (hp ?s1) \<and> d_keyspec d' = c_keyspec c"
    "slots_change c (mem f1) dst dsl (mem (dev s2))" "copied c dsl ?ix (dom ?ix) (card (dom ?ix))"
    using swap_loop_ok [where ix = ?ix and s = ?s1 and K = "{}" and j = 0 and dst_idx = 0
        and ns = "dict_nodes d" and d = d and it = "it_init None", OF src dst(2,3) live fin _ rb _ _ d(4)
          it_pos_init _ subset_refl map_snd_slots [symmetric] vals _ _ ch0 cp0] d(2,3) dom
    by (auto simp: it_init_def)
  obtain d2 where d2: "i_dict (inst s2) = Some d2" "dict_inv d2 (hp s2)" "d_keyspec d2 = c_keyspec c"
    using lp(5,6) by auto
  let ?j = "card (dom ?ix)"
  have sl2: "slot (mem (dev s2)) c dst i = dsl i" if "i < mxr c" for i
    using lp(7) dst(2) that by (simp add: slots_change_def)
  have h2: "header (mem (dev s2)) dst = sector_record c NVOL3_SECTOR_INITIALIZING"
    using lp(7) header_updateD(2) [OF f1(2) dst(2)] dst(2) by (simp add: slots_change_def)
  have si2: "sector_inv c (slot (mem (dev s2)) c dst) ?j" "\<forall>i < ?j. valid_slot c (slot (mem (dev s2)) c dst i)"
    "scan c (slot (mem (dev s2)) c dst) ?j = scan c dsl ?j"
    subgoal using lp(8) sector_inv_cong [of c "slot (mem (dev s2)) c dst" dsl] sl2
      by (auto simp: copied_def)
    subgoal using lp(8) sl2 fin(2) by (simp add: copied_def)
    subgoal by (rule scan_slots_cong [OF sl2 fin(2)])
    done
  obtain s3 scratch3 s4 s' where fin: "set_sector_flags c dst NVOL3_SECTOR_VALID s2 = Some (EOK, s3)"
    "construct_lookup_table c scratch1 (upd_inst (\<lambda>i. i\<lparr>i_sector := dst\<rparr>) s3) = Some (EOK, scratch3, s4)"
    "erase_sector c ?src (c_sector_size c) s4 = Some (EOK, s')" "rec_buf c scratch3"
    "nvol_inv mem c s'" "plenty (hp s')" "i_sector (inst s') = dst" "unat (i_next_idx (inst s')) = ?j"
    "vol_index mem c s' = scan c dsl ?j"
    using swap_finish [OF src dst(2,3,4) h2 si2(1,2) d2 lp(3)] pl lp(5) unfolding si2(3) by auto
  have map: "map_option snd (scan c dsl ?j k) = vol_map mem c s k" for k
    using lp(8) by (cases "?ix k") (auto simp: copied_def vol_map_def)
  then have "vol_map mem c s' = vol_map mem c s" using fin(9) by (simp add: vol_map_def [of _ _ s'] fun_eq_iff)
  moreover have "dictionary_it_first d None = Some (m, it)" "loaded_dict ?s1 = Some d" "inst ?s1 = inst s"
    using lp(1) d(1) by (simp_all add: dictionary_it_first_def loaded_dict_dev)
  ultimately show ?thesis
    using that [OF dst(1-3) f1(1) _ _ _ lp(2,3) h2 si2(1,2) _ fin(1-7)] map fin(8) by (simp add: si2(3) dom_vol_map)
qed

lemma swap_sectors_ok:
  assumes inv: "nvol_inv mem c s" and pl: "plenty (hp s)" and rb: "rec_buf c scratch"
  shows "\<exists>scratch' s'. swap_sectors c scratch s = Some (EOK, scratch', s') \<and> rec_buf c scratch' \<and>
    nvol_inv mem c s' \<and> plenty (hp s') \<and> vol_map mem c s' = vol_map mem c s \<and>
    unat (i_next_idx (inst s')) = card (dom (vol_map mem c s)) \<and>
    i_sector (inst s') \<noteq> i_sector (inst s)"
  using assms by (rule swap_phases) (simp add: swap_sectors_def Let_def)

end

end
