(* ===== verification/Nvol_Load.thy ===== *)
theory Nvol_Load
  imports Nvol_Swap
begin

text \<open>
  The volume interface: \<^verbatim>\<open>nvol3_record_set\<close> with its swap, loading a volume from FLASH after
  a clean stop or an interrupted swap, and resetting it.
\<close>

unbundle bit_operations_syntax

lemma sector_inv_clean:
  assumes si: "sector_inv c sl n"
    and eq: "\<And>j. j < mxr c \<Longrightarrow> sl' j = (if j < n then clean c (sl j) else sl j)"
  shows "sector_inv c sl' n" "scan c sl' n = scan c sl n"
proof -
  have n: "n \<le> mxr c" using si by (simp add: sector_inv_def)
  have live: "live c (sl' i) = live c (sl i)" if "i < n" for i
    using that n eq [of i] by simp
  show "scan c sl' n = scan c sl n" by (rule scan_cong) (rule live)
  have "unique_keys c sl' n"
    using si unique_keys_cong [of n c sl' sl] live by (simp add: sector_inv_def)
  moreover have "keyed_slots c sl' n"
  proof -
    have "valid_slot c (sl' i) \<Longrightarrow> sl' i = sl i" if "i < n" for i
    proof -
      assume v: "valid_slot c (sl' i)"
      then have "live c (sl' i) \<noteq> None" by (simp add: live_def)
      then have "valid_slot c (sl i)" using live [OF that] by (auto simp: live_def split: if_splits)
      then show "sl' i = sl i" using that n eq [of i] by (simp add: clean_valid)
    qed
    then show ?thesis using si by (auto simp: sector_inv_def keyed_slots_def)
  qed
  moreover have "rd16 (sl' i) \<noteq> NVOL3_RECORD_FLAGS_EMPTY" if "i < n" for i
    using that n eq [of i] si by (auto simp: sector_inv_def clean_def record_flags_defs)
  ultimately show "sector_inv c sl' n" using si eq by (auto simp: sector_inv_def)
qed

text \<open>What sector initialisation needs: an allocated, empty dictionary.\<close>

definition fresh_dict :: "'f nvol_config \<Rightarrow> 'f nvol \<Rightarrow> bool" where
  "fresh_dict c s \<longleftrightarrow>
     (\<exists>d. i_dict (inst s) = Some d \<and> dict_inv d (hp s) \<and> d_keyspec d = c_keyspec c) \<and> plenty (hp s)"

text \<open>A sector that holds a volume with \<open>n\<close> used slots.\<close>

definition sector_holds :: "'f nvol_config \<Rightarrow> (nat \<Rightarrow> u8) \<Rightarrow> u32 \<Rightarrow> nat \<Rightarrow> bool" where
  "sector_holds c m sec n \<longleftrightarrow> header_ok c (header m sec) \<and> sector_inv c (slot m c sec) n"

context volume
begin

section \<open>Setting a record, with the swap\<close>

lemma ensure_slot_ok:
  assumes inv: "nvol_inv mem c s" and pl: "plenty (hp s)"
  shows "\<exists>s'. ensure_slot c s = Some (EOK, s') \<and> nvol_inv mem c s' \<and> plenty (hp s') \<and>
    vol_map mem c s' = vol_map mem c s \<and>
    (unat (i_next_idx (inst s')) < mxr c \<or> mxr c \<le> card (dom (vol_map mem c s')) + 4)"
proof (cases "unat (i_next_idx (inst s)) < mxr c")
  case True
  then show ?thesis using inv pl by (intro exI [of _ s]) (simp add: ensure_slot_def max_records_eq)
next
  case False
  obtain a h where h: "heap_malloc (hp s) (ucast (c_record_size c)) = (Some a, h)" "plenty h"
    "next_addr (hp s) \<le> next_addr h"
    using malloc_plenty [OF pl] by metis
  have "nvol_inv mem c (s\<lparr>hp := h\<rparr>)" using nvol_inv_hp [OF inv h(3)] .
  from swap_sectors_ok [OF this _ fresh_record_buf, of h a] h(2)
  obtain scratch' s' where
    "swap_sectors c (fresh_record c h a) (s\<lparr>hp := h\<rparr>) = Some (EOK, scratch', s')"
    "nvol_inv mem c s'" "plenty (hp s')" "vol_map mem c s' = vol_map mem c s"
    "unat (i_next_idx (inst s')) = card (dom (vol_map mem c s))" by auto
  with False h(1) show ?thesis
    by (intro exI [of _ s']) (auto simp: ensure_slot_def max_records_eq)
qed

lemma volume_set_ok:
  assumes inv: "nvol_inv mem c s" and pl: "plenty (hp s)" and rb: "rec_buf c rec"
    and l: "ksz c \<le> unat len" "unat len + 8 \<le> rsz c" and cb: "cb_accepts c"
    and kv: "k @ v = take (unat len) (key_and_data rec)" "length k = ksz c"
  shows "\<exists>status rec' s'. nvol3_record_set c rec len s = Some (status, rec', s') \<and>
    nvol_inv mem c s' \<and> plenty (hp s') \<and> key_and_data rec' = key_and_data rec \<and>
    (if mxr c \<le> card (dom (vol_map mem c s)) + 4
     then status = EFAIL \<and> vol_map mem c s' = vol_map mem c s
     else status = EOK \<and> vol_map mem c s' = (vol_map mem c s)(k \<mapsto> v))"
proof -
  obtain s1 where s1: "ensure_slot c s = Some (EOK, s1)" "nvol_inv mem c s1" "plenty (hp s1)"
    "vol_map mem c s1 = vol_map mem c s"
    "unat (i_next_idx (inst s1)) < mxr c \<or> mxr c \<le> card (dom (vol_map mem c s1)) + 4"
    using ensure_slot_ok [OF inv pl] by auto
  obtain m where m: "retrieve_lookup_table rec s1 = Some m"
    using retrieve_ok [OF nvol_inv_D(3) [OF s1(2)] rb refl] by (auto split: option.splits prod.splits)
  note r = record_set_ok [OF s1(2,3) rb l cb kv s1(5) m]
  show ?thesis
  proof (cases "mxr c \<le> card (dom (vol_map mem c s)) + 4")
    case True
    then show ?thesis using r s1 m by (simp add: nvol3_record_set_def)
  next
    case False
    then obtain rec' s' where "record_set c (map_option nval m) rec len s1 = Some (EOK, rec', s')"
      "nvol_inv mem c s'" "plenty (hp s')" "vol_map mem c s' = (vol_map mem c s)(k \<mapsto> v)"
      "key_and_data rec' = key_and_data rec" using r s1(4) by auto
    then show ?thesis using s1(1) m False by (simp add: nvol3_record_set_def)
  qed
qed

section \<open>Building the table establishes the invariant\<close>

lemma construct_open:
  assumes sec: "sec \<in> sectors c" "i_sector (inst s) = sec"
    and hok: "header_ok c (header (mem (dev s)) sec)"
    and si: "sector_inv c (slot (mem (dev s)) c sec) n"
    and d: "i_dict (inst s) = Some d" "dict_inv d (hp s)" "d_keyspec d = c_keyspec c"
    and rb: "rec_buf c scratch" and pl: "plenty (hp s)"
  shows "\<exists>scratch' s'. construct_lookup_table c scratch s = Some (EOK, scratch', s') \<and>
    nvol_open mem c s' \<and> plenty (hp s') \<and> i_sector (inst s') = sec \<and>
    unat (i_next_idx (inst s')) = n \<and>
    vol_index mem c s' = scan c (slot (mem (dev s)) c sec) n \<and>
    cleaned c (mem (dev s)) sec n (mem (dev s'))"
proof -
  let ?sl = "slot (mem (dev s)) c sec"
  have n: "n \<le> mxr c" using si by (simp add: sector_inv_def)
  have "keyed_slots c ?sl n" using si by (simp add: sector_inv_def)
  from construct_table_ok [of s n d scratch, unfolded sec(2), OF sec(1) used_of_sector_inv [OF si] this d rb pl]
  obtain scratch' s' where con: "construct_lookup_table c scratch s = Some (EOK, scratch', s')"
    "plenty (hp s')" "i_sector (inst s') = sec" "i_next_idx (inst s') = of_nat n"
    "cleaned c (mem (dev s)) sec n (mem (dev s'))" "table_is c s' (scan c ?sl n)"
    using hok by (auto simp: header_ok_def)
  have un: "unat (of_nat n :: u16) = n" using n cfg_sizes(5) by (simp add: unat_of_nat_u16)
  have "slot (mem (dev s')) c sec j = (if j < n then clean c (?sl j) else ?sl j)" if "j < mxr c" for j
    using con(5) sec(1) that by (simp add: cleaned_def)
  note si' = sector_inv_clean [OF si this]
  have sl': "vol_slots mem c s' = slot (mem (dev s')) c sec" by (simp add: vol_slots_def con(3))
  then have ix: "vol_index mem c s' = scan c ?sl n" by (simp add: vol_index_def con(4) un si'(2))
  have "header_ok c (header (mem (dev s')) sec)"
    using hok con(5) sec(1) by (simp add: cleaned_def)
  then have "nvol_open mem c s'"
    using sec con(3,4,6) si'(1) sl' ix un by (simp add: nvol_open_def)
  with con un ix show ?thesis by auto
qed

lemma construct_inv:
  assumes sec: "sec \<in> sectors c" "i_sector (inst s) = sec"
    and hok: "header_ok c (header (mem (dev s)) sec)"
    and si: "sector_inv c (slot (mem (dev s)) c sec) n"
    and bl: "\<And>sec'. sec' \<in> sectors c \<Longrightarrow> sec' \<noteq> sec \<Longrightarrow> blank_sector (mem (dev s)) c sec'"
    and d: "i_dict (inst s) = Some d" "dict_inv d (hp s)" "d_keyspec d = c_keyspec c"
    and rb: "rec_buf c scratch" and pl: "plenty (hp s)"
  shows "\<exists>scratch' s'. construct_lookup_table c scratch s = Some (EOK, scratch', s') \<and>
    nvol_inv mem c s' \<and> plenty (hp s') \<and> i_sector (inst s') = sec \<and>
    unat (i_next_idx (inst s')) = n \<and>
    vol_index mem c s' = scan c (slot (mem (dev s)) c sec) n"
proof -
  obtain scratch' s' where o: "construct_lookup_table c scratch s = Some (EOK, scratch', s')"
    "nvol_open mem c s'" "plenty (hp s')" "i_sector (inst s') = sec" "unat (i_next_idx (inst s')) = n"
    "vol_index mem c s' = scan c (slot (mem (dev s)) c sec) n"
    "cleaned c (mem (dev s)) sec n (mem (dev s'))"
    using construct_open [OF sec hok si d rb pl] by blast
  have "nvol_inv mem c s'"
    by (rule nvol_open_inv [OF o(2)]) (use bl o(4,7) in \<open>simp add: cleaned_def blank_sector_def\<close>)
  with o show ?thesis by blast
qed

section \<open>Loading\<close>

lemma fresh_dictD:
  assumes "fresh_dict c s"
  obtains d where "i_dict (inst s) = Some d" "dict_inv d (hp s)" "d_keyspec d = c_keyspec c" "plenty (hp s)"
  using assms by (auto simp: fresh_dict_def)

lemma fresh_dict_simps [simp]:
  "fresh_dict c (s\<lparr>dev := f\<rparr>) = fresh_dict c s"
  "(\<And>i. i_dict (g i) = i_dict i) \<Longrightarrow> fresh_dict c (upd_inst g s) = fresh_dict c s"
  by (simp_all add: fresh_dict_def)

lemma two_sectors: "sectors c = {c_sector1_addr c, c_sector2_addr c}"
  by (simp add: sectors_def)

lemma sector_mem [simp]: "c_sector1_addr c \<in> sectors c" "c_sector2_addr c \<in> sectors c"
  by (simp_all add: sectors_def)

lemma scrub_ok:
  assumes sec: "sec \<in> sectors c"
  obtains f where
    "scrub_sector c sec flags s =
       Some (if known_sector_flags flags then flags else NVOL3_SECTOR_EMPTY, s\<lparr>dev := f\<rparr>)"
    "if known_sector_flags flags then f = dev s else sector_erased c (mem (dev s)) sec (mem f)"
proof (cases "known_sector_flags flags")
  case True
  then show ?thesis using that [of "dev s"] by (simp add: scrub_sector_def)
next
  case False
  obtain f where "erase_sector c sec (c_sector_size c) s = Some (EOK, s\<lparr>dev := f\<rparr>)"
    "sector_erased c (mem (dev s)) sec (mem f)" by (rule erase_ok [OF sec])
  with False that [of f] show ?thesis by (simp add: scrub_sector_def)
qed

lemma holds_same:
  assumes "sector_holds c m sec n" "\<And>j. j < mxr c \<Longrightarrow> slot m' c sec j = slot m c sec j"
    "header m' sec = header m sec"
  shows "sector_holds c m' sec n" "scan c (slot m' c sec) n = scan c (slot m c sec) n"
proof -
  have "n \<le> mxr c" using assms(1) by (simp add: sector_holds_def sector_inv_def)
  then show "scan c (slot m' c sec) n = scan c (slot m c sec) n"
    by (intro scan_slots_cong assms(2))
  show "sector_holds c m' sec n"
    using assms sector_inv_cong [of c "slot m' c sec" "slot m c sec" n]
    by (simp add: sector_holds_def)
qed

lemma holds_erased:
  assumes "sector_holds c m sec n" "sector_erased c m sec' m'" "sec \<in> sectors c" "sec \<noteq> sec'"
  shows "sector_holds c m' sec n" "scan c (slot m' c sec) n = scan c (slot m c sec) n"
  using holds_same [OF assms(1), of m'] assms(2-) by (simp_all add: sector_erased_def)

text \<open>Sector initialisation when the choice selects a sector that holds a volume.\<close>

lemma init_finish:
  assumes run: "apply_choice c (choose_sector fl1 fl2) s = Some s1"
    and sec: "sec \<in> sectors c" "i_sector (inst s1) = sec" and h: "sector_holds c (mem (dev s1)) sec n"
    and bl: "\<And>sec'. sec' \<in> sectors c \<Longrightarrow> sec' \<noteq> sec \<Longrightarrow> blank_sector (mem (dev s1)) c sec'"
    and d: "fresh_dict c s1" and rb: "rec_buf c scratch"
  shows "\<exists>scratch' s'. do { s \<leftarrow> apply_choice c (choose_sector fl1 fl2) s; construct_lookup_table c scratch s } =
      Some (EOK, scratch', s') \<and> nvol_inv mem c s' \<and> plenty (hp s') \<and> i_sector (inst s') = sec \<and>
    unat (i_next_idx (inst s')) = n \<and> vol_index mem c s' = scan c (slot (mem (dev s1)) c sec) n"
proof -
  obtain d where d: "i_dict (inst s1) = Some d" "dict_inv d (hp s1)" "d_keyspec d = c_keyspec c"
    "plenty (hp s1)" by (rule fresh_dictD [OF d])
  from construct_inv [OF sec _ _ bl d(1-3) rb d(4), of n] h run show ?thesis
    by (auto simp: sector_holds_def)
qed

lemma init_first:
  assumes h: "sector_holds c (mem (dev s)) (c_sector1_addr c) n"
    and d: "fresh_dict c s" and rb: "rec_buf c scratch"
  shows "\<exists>scratch' s'. init_sectors c scratch s = Some (EOK, scratch', s') \<and> nvol_inv mem c s' \<and>
    plenty (hp s') \<and> i_sector (inst s') = c_sector1_addr c \<and> unat (i_next_idx (inst s')) = n \<and>
    vol_index mem c s' = scan c (slot (mem (dev s)) c (c_sector1_addr c)) n"
proof -
  let ?a1 = "c_sector1_addr c" and ?a2 = "c_sector2_addr c"
  have ne: "?a1 \<noteq> ?a2" by (rule sectors_distinct)
  let ?f1 = "hdr_flags (header (mem (dev s)) ?a1)" and ?f2 = "hdr_flags (header (mem (dev s)) ?a2)"
  have v1: "?f1 = NVOL3_SECTOR_VALID" using h by (simp add: sector_holds_def header_ok_def)
  then have k1: "known_sector_flags ?f1" by (simp add: known_sector_flags_def)
  obtain f where f: "scrub_sector c ?a2 ?f2 s =
       Some (if known_sector_flags ?f2 then ?f2 else NVOL3_SECTOR_EMPTY, s\<lparr>dev := f\<rparr>)"
    "if known_sector_flags ?f2 then f = dev s else sector_erased c (mem (dev s)) ?a2 (mem f)"
    by (rule scrub_ok [OF sector_mem(2)])
  let ?fl2 = "if known_sector_flags ?f2 then ?f2 else NVOL3_SECTOR_EMPTY"
  have h1: "sector_holds c (mem f) ?a1 n" "scan c (slot (mem f) c ?a1) n = scan c (slot (mem (dev s)) c ?a1) n"
    using f(2) h holds_erased [OF h _ sector_mem(1) ne] by (auto split: if_splits)
  let ?s1 = "upd_inst (\<lambda>i. i\<lparr>i_next_idx := 0\<rparr>) (s\<lparr>dev := f\<rparr>)"
  obtain g where g: "erase_sector c ?a2 (c_sector_size c) ?s1 = Some (EOK, ?s1\<lparr>dev := g\<rparr>)"
    "sector_erased c (mem f) ?a2 (mem g)"
    using erase_ok [OF sector_mem(2), of ?s1] by auto
  have ch: "choose_sector ?f1 ?fl2 = UseFirst"
    by (simp add: v1 choose_sector_def sector_flags_defs)
  let ?s2 = "use_sector ?a1 (?s1\<lparr>dev := g\<rparr>)"
  have run: "apply_choice c (choose_sector ?f1 ?fl2) ?s1 = Some ?s2"
    using g(1) by (simp add: ch apply_choice_def)
  note h2 = holds_erased [OF h1(1) g(2) sector_mem(1) ne]
  have dev2: "dev ?s2 = g" "i_sector (inst ?s2) = ?a1" by (simp_all add: use_sector_def)
  have "blank_sector (mem g) c sec'" if "sec' \<in> sectors c" "sec' \<noteq> ?a1" for sec'
    using g(2) that by (auto simp: sectors_def sector_erased_def)
  with init_finish [OF run sector_mem(1) dev2(2), of n scratch] h2 h1(2) d rb
  have "\<exists>scratch' s'. do { s \<leftarrow> apply_choice c (choose_sector ?f1 ?fl2) ?s1; construct_lookup_table c scratch s } =
      Some (EOK, scratch', s') \<and> nvol_inv mem c s' \<and> plenty (hp s') \<and> i_sector (inst s') = ?a1 \<and>
    unat (i_next_idx (inst s')) = n \<and> vol_index mem c s' = scan c (slot (mem (dev s)) c ?a1) n"
    by (simp add: dev2 use_sector_def)
  moreover have "init_sectors c scratch s =
      do { s \<leftarrow> apply_choice c (choose_sector ?f1 ?fl2) ?s1; construct_lookup_table c scratch s }"
    using f(1) k1 by (simp add: init_sectors_def get_sector_version_ok scrub_sector_def Let_def)
  ultimately show ?thesis by simp
qed

lemma choose_second:
  "fl1 \<noteq> NVOL3_SECTOR_VALID \<Longrightarrow> known_sector_flags fl1 \<Longrightarrow>
   choose_sector fl1 NVOL3_SECTOR_VALID =
     (if fl1 = NVOL3_SECTOR_EMPTY then UseSecond else UseSecondErase)"
  by (auto simp: choose_sector_def known_sector_flags_def sector_flags_defs)

lemma init_second:
  assumes h: "sector_holds c (mem (dev s)) (c_sector2_addr c) n"
    and other: "hdr_flags (header (mem (dev s)) (c_sector1_addr c)) \<noteq> NVOL3_SECTOR_VALID"
      "hdr_flags (header (mem (dev s)) (c_sector1_addr c)) = NVOL3_SECTOR_EMPTY \<Longrightarrow>
         blank_sector (mem (dev s)) c (c_sector1_addr c)"
    and d: "fresh_dict c s" and rb: "rec_buf c scratch"
  shows "\<exists>scratch' s'. init_sectors c scratch s = Some (EOK, scratch', s') \<and> nvol_inv mem c s' \<and>
    plenty (hp s') \<and> i_sector (inst s') = c_sector2_addr c \<and> unat (i_next_idx (inst s')) = n \<and>
    vol_index mem c s' = scan c (slot (mem (dev s)) c (c_sector2_addr c)) n"
proof -
  let ?a1 = "c_sector1_addr c" and ?a2 = "c_sector2_addr c"
  have ne: "?a2 \<noteq> ?a1" using sectors_distinct by metis
  let ?f1 = "hdr_flags (header (mem (dev s)) ?a1)" and ?f2 = "hdr_flags (header (mem (dev s)) ?a2)"
  have v2: "?f2 = NVOL3_SECTOR_VALID" using h by (simp add: sector_holds_def header_ok_def)
  then have k2: "known_sector_flags ?f2" by (simp add: known_sector_flags_def)
  obtain f where f: "scrub_sector c ?a1 ?f1 s =
       Some (if known_sector_flags ?f1 then ?f1 else NVOL3_SECTOR_EMPTY, s\<lparr>dev := f\<rparr>)"
    "if known_sector_flags ?f1 then f = dev s else sector_erased c (mem (dev s)) ?a1 (mem f)"
    by (rule scrub_ok [OF sector_mem(1)])
  let ?fl1 = "if known_sector_flags ?f1 then ?f1 else NVOL3_SECTOR_EMPTY"
  have h1: "sector_holds c (mem f) ?a2 n" "scan c (slot (mem f) c ?a2) n = scan c (slot (mem (dev s)) c ?a2) n"
    using f(2) h holds_erased [OF h _ sector_mem(2) ne] by (auto split: if_splits)
  let ?s1 = "upd_inst (\<lambda>i. i\<lparr>i_next_idx := 0\<rparr>) (s\<lparr>dev := f\<rparr>)"
  have kn: "known_sector_flags ?fl1" "?fl1 \<noteq> NVOL3_SECTOR_VALID"
    using other(1) by (auto simp: known_sector_flags_def sector_flags_defs)
  obtain s2 where run: "apply_choice c (choose_sector ?fl1 ?f2) ?s1 = Some s2"
    and i2: "i_sector (inst s2) = ?a2" and bl: "blank_sector (mem (dev s2)) c ?a1"
    and h2: "sector_holds c (mem (dev s2)) ?a2 n"
      "scan c (slot (mem (dev s2)) c ?a2) n = scan c (slot (mem (dev s)) c ?a2) n"
    and d2: "fresh_dict c s2"
  proof (cases "?fl1 = NVOL3_SECTOR_EMPTY")
    case True
    have "blank_sector (mem f) c ?a1"
      using True f(2) other(2) by (auto simp: sector_erased_def split: if_splits)
    then show ?thesis
      using that [of "use_sector ?a2 ?s1"] choose_second [OF kn(2,1)] True v2 h1 d
      by (simp add: apply_choice_def use_sector_def)
  next
    case False
    obtain g where g: "erase_sector c ?a1 (c_sector_size c) (use_sector ?a2 ?s1) =
        Some (EOK, (use_sector ?a2 ?s1)\<lparr>dev := g\<rparr>)" "sector_erased c (mem f) ?a1 (mem g)"
      using erase_ok [OF sector_mem(1), of "use_sector ?a2 ?s1"] by (auto simp: use_sector_def)
    note h2 = holds_erased [OF h1(1) g(2) sector_mem(2) ne]
    show ?thesis
      using that [of "(use_sector ?a2 ?s1)\<lparr>dev := g\<rparr>"] choose_second [OF kn(2,1)] False v2 g h1 h2 d
      by (simp add: apply_choice_def Let_def) (simp add: use_sector_def sector_erased_def)
  qed
  have "blank_sector (mem (dev s2)) c sec'" if "sec' \<in> sectors c" "sec' \<noteq> ?a2" for sec'
    using bl that by (auto simp: sectors_def)
  from init_finish [OF run sector_mem(2) i2 h2(1) this d2 rb] h2(2)
  have "\<exists>scratch' s'. do { s \<leftarrow> apply_choice c (choose_sector ?fl1 ?f2) ?s1; construct_lookup_table c scratch s } =
      Some (EOK, scratch', s') \<and> nvol_inv mem c s' \<and> plenty (hp s') \<and> i_sector (inst s') = ?a2 \<and>
    unat (i_next_idx (inst s')) = n \<and> vol_index mem c s' = scan c (slot (mem (dev s)) c ?a2) n"
    by simp
  moreover have "init_sectors c scratch s =
      do { s \<leftarrow> apply_choice c (choose_sector ?fl1 ?f2) ?s1; construct_lookup_table c scratch s }"
    using f(1) k2 by (simp add: init_sectors_def get_sector_version_ok scrub_sector_def Let_def)
  ultimately show ?thesis by simp
qed

lemma blank_holds:
  assumes "header m sec = sector_record c NVOL3_SECTOR_VALID" "\<And>j. j < mxr c \<Longrightarrow> slot m c sec j = blank_slot c"
  shows "sector_holds c m sec 0"
  using assms header_ok_record by (simp add: sector_holds_def sector_inv_def keyed_slots_def)

lemma init_blank:
  assumes b: "blank_sector (mem (dev s)) c (c_sector1_addr c)" "blank_sector (mem (dev s)) c (c_sector2_addr c)"
    and d: "fresh_dict c s" and rb: "rec_buf c scratch"
  shows "\<exists>scratch' s'. init_sectors c scratch s = Some (EOK, scratch', s') \<and> nvol_inv mem c s' \<and>
    plenty (hp s') \<and> i_sector (inst s') = c_sector1_addr c \<and> unat (i_next_idx (inst s')) = 0 \<and>
    vol_index mem c s' = Map.empty"
proof -
  let ?a1 = "c_sector1_addr c" and ?a2 = "c_sector2_addr c"
  have ne: "?a2 \<noteq> ?a1" using sectors_distinct by metis
  have fl: "hdr_flags (header (mem (dev s)) ?a1) = NVOL3_SECTOR_EMPTY"
    "hdr_flags (header (mem (dev s)) ?a2) = NVOL3_SECTOR_EMPTY"
    using b by (simp_all add: blank_sector_def)
  let ?s1 = "use_sector ?a1 (upd_inst (\<lambda>i. i\<lparr>i_next_idx := 0\<rparr>) s)"
  have p1: "dev ?s1 = dev s" "i_sector (inst ?s1) = ?a1" by (simp_all add: use_sector_def)
  obtain f where f: "erase_sector c ?a1 (c_sector_size c) ?s1 = Some (EOK, ?s1\<lparr>dev := f\<rparr>)"
    "sector_erased c (mem (dev s)) ?a1 (mem f)"
    using erase_ok [OF sector_mem(1), of ?s1] p1 by auto
  have "and_bytes (header (mem f) ?a1) (sector_record c NVOL3_SECTOR_VALID) = sector_record c NVOL3_SECTOR_VALID"
    using f(2) by (simp add: sector_erased_def blank_sector_def sector_record_blank)
  then obtain g where g: "set_sector_flags c ?a1 NVOL3_SECTOR_VALID (?s1\<lparr>dev := f\<rparr>) = Some (EOK, ?s1\<lparr>dev := g\<rparr>)"
    "header_update c (mem f) ?a1 (sector_record c NVOL3_SECTOR_VALID) (mem g)"
    using set_sector_flags_header [OF sector_mem(1), of "?s1\<lparr>dev := f\<rparr>"] by auto
  let ?s2 = "?s1\<lparr>dev := g\<rparr>"
  have run: "apply_choice c (choose_sector NVOL3_SECTOR_EMPTY NVOL3_SECTOR_EMPTY)
      (upd_inst (\<lambda>i. i\<lparr>i_next_idx := 0\<rparr>) s) = Some ?s2"
    using f(1) g(1) p1 by (simp add: choose_sector_def apply_choice_def Let_def)
  have h2: "sector_holds c (mem (dev ?s2)) ?a1 0"
    using g(2) f(2) by (intro blank_holds) (simp_all add: header_update_def sector_erased_def blank_sector_def)
  have "blank_sector (mem (dev ?s2)) c ?a2"
    using g(2) f(2) b(2) ne by (simp add: header_update_def sector_erased_def blank_sector_def)
  then have "blank_sector (mem (dev ?s2)) c sec'" if "sec' \<in> sectors c" "sec' \<noteq> ?a1" for sec'
    using that by (auto simp: sectors_def)
  from init_finish [OF run sector_mem(1) _ h2 this _ rb] p1 d
  have "\<exists>scratch' s'. do { s \<leftarrow> apply_choice c (choose_sector NVOL3_SECTOR_EMPTY NVOL3_SECTOR_EMPTY)
        (upd_inst (\<lambda>i. i\<lparr>i_next_idx := 0\<rparr>) s); construct_lookup_table c scratch s } =
      Some (EOK, scratch', s') \<and> nvol_inv mem c s' \<and> plenty (hp s') \<and> i_sector (inst s') = ?a1 \<and>
    unat (i_next_idx (inst s')) = 0 \<and> vol_index mem c s' = Map.empty"
    by (simp add: use_sector_def)
  moreover have "init_sectors c scratch s = do { s \<leftarrow> apply_choice c
      (choose_sector NVOL3_SECTOR_EMPTY NVOL3_SECTOR_EMPTY) (upd_inst (\<lambda>i. i\<lparr>i_next_idx := 0\<rparr>) s);
      construct_lookup_table c scratch s }"
    by (simp add: init_sectors_def get_sector_version_ok scrub_sector_def Let_def fl known_sector_flags_def)
  ultimately show ?thesis by simp
qed

text \<open>The allocations of \<^verbatim>\<open>nvol3_load\<close>.\<close>

lemma load_init:
  assumes pl: "plenty (hp s)"
  obtains scratch s1 where
    "nvol3_load c s = do { (status, _, s) \<leftarrow> init_sectors c scratch s1; Some (status, s) }"
    "rec_buf c scratch" "fresh_dict c s1" "dev s1 = dev s"
proof -
  obtain a h where h: "heap_malloc (hp s) (ucast (c_record_size c)) = (Some a, h)" "plenty h"
    using malloc_plenty [OF pl] by metis
  have "ucast (c_hashsize c) \<noteq> (0 :: u32)"
    using cfg_sizes(7) unat_ucast_u16_u32 [of "c_hashsize c"] by (metis unat_0 unat_eq_zero)
  then obtain d h' where d: "dictionary_init h (c_keyspec c) (ucast (c_hashsize c)) = (Some d, h')"
    "dict_inv d h'" "d_keyspec d = c_keyspec c" "plenty h'"
    using dictionary_init_inv [OF h(2)] by metis
  let ?i = "\<lambda>i. i\<lparr>i_sector := 0, i_next_idx := 0, i_inuse := 0, i_invalid := 0\<rparr>"
  let ?s1 = "(set_dict d (upd_inst ?i (s\<lparr>hp := h\<rparr>)))\<lparr>hp := h'\<rparr>"
  have "0 < record_room c" using cfg_sizes(1,2) by (simp add: word_less_nat_alt unat_room)
  then have "nvol3_load c s =
      do { (status, _, s) \<leftarrow> init_sectors c (fresh_record c h' a) ?s1; Some (status, s) }"
    using h(1) d(1) by (simp add: nvol3_load_def Let_def)
  moreover have "fresh_dict c ?s1" using d by (simp add: fresh_dict_def set_dict_def)
  moreover have "dev ?s1 = dev s" by (simp add: set_dict_def)
  ultimately show ?thesis using that fresh_record_buf by blast
qed

text \<open>Loading a device on which a sector holds a volume.\<close>

lemma load_holds:
  assumes pl: "plenty (hp s)" and sec: "sec \<in> sectors c" and h: "sector_holds c (mem (dev s)) sec n"
    and other: "sec = c_sector2_addr c \<Longrightarrow>
        hdr_flags (header (mem (dev s)) (c_sector1_addr c)) \<noteq> NVOL3_SECTOR_VALID"
      "sec = c_sector2_addr c \<Longrightarrow>
        hdr_flags (header (mem (dev s)) (c_sector1_addr c)) = NVOL3_SECTOR_EMPTY \<Longrightarrow>
        blank_sector (mem (dev s)) c (c_sector1_addr c)"
  shows "\<exists>s'. nvol3_load c s = Some (EOK, s') \<and> nvol_inv mem c s' \<and> plenty (hp s') \<and>
    i_sector (inst s') = sec \<and> unat (i_next_idx (inst s')) = n \<and>
    vol_index mem c s' = scan c (slot (mem (dev s)) c sec) n"
proof -
  obtain scratch s1 where l:
    "nvol3_load c s = do { (status, _, s) \<leftarrow> init_sectors c scratch s1; Some (status, s) }"
    "rec_buf c scratch" "fresh_dict c s1" "dev s1 = dev s" by (rule load_init [OF pl])
  consider "sec = c_sector1_addr c" | "sec = c_sector2_addr c" using sec by (auto simp: sectors_def)
  then show ?thesis
  proof cases
    case 1
    then show ?thesis using init_first [of s1 n scratch] h l by fastforce
  next
    case 2
    then show ?thesis using init_second [of s1 n scratch] h other l by fastforce
  qed
qed

text \<open>
  An interrupted erase of sector 1 that got past its header: the header reads as empty, and neither
  the load nor the preparation of a later swap erases what is left in the slots.
\<close>

lemma init_second_unerased:
  assumes h: "sector_holds c (mem (dev s)) (c_sector2_addr c) n"
    and e: "hdr_flags (header (mem (dev s)) (c_sector1_addr c)) = NVOL3_SECTOR_EMPTY"
    and d: "fresh_dict c s" and rb: "rec_buf c scratch"
  shows "\<exists>scratch' s'. init_sectors c scratch s = Some (EOK, scratch', s') \<and> nvol_open mem c s' \<and>
    plenty (hp s') \<and> i_sector (inst s') = c_sector2_addr c \<and> unat (i_next_idx (inst s')) = n \<and>
    vol_index mem c s' = scan c (slot (mem (dev s)) c (c_sector2_addr c)) n \<and>
    cleaned c (mem (dev s)) (c_sector2_addr c) n (mem (dev s'))"
proof -
  let ?a2 = "c_sector2_addr c"
  let ?s1 = "use_sector ?a2 (upd_inst (\<lambda>i. i\<lparr>i_next_idx := 0\<rparr>) s)"
  have v2: "hdr_flags (header (mem (dev s)) ?a2) = NVOL3_SECTOR_VALID"
    using h by (simp add: sector_holds_def header_ok_def)
  have d1: "fresh_dict c ?s1" using d by (simp add: use_sector_def)
  obtain d where d: "i_dict (inst ?s1) = Some d" "dict_inv d (hp ?s1)" "d_keyspec d = c_keyspec c"
    "plenty (hp ?s1)" by (rule fresh_dictD [OF d1])
  have s1: "i_sector (inst ?s1) = ?a2" "dev ?s1 = dev s" by (simp_all add: use_sector_def)
  have "init_sectors c scratch s = construct_lookup_table c scratch ?s1"
    using v2 e by (simp add: init_sectors_def get_sector_version_ok scrub_sector_def Let_def
        known_sector_flags_def choose_sector_def apply_choice_def sector_flags_defs)
  with construct_open [OF sector_mem(2) s1(1) _ _ d(1-3) rb d(4), of n] h show ?thesis
    by (simp add: s1 sector_holds_def)
qed

lemma load_unerased:
  assumes pl: "plenty (hp s)" and h: "sector_holds c (mem (dev s)) (c_sector2_addr c) n"
    and e: "hdr_flags (header (mem (dev s)) (c_sector1_addr c)) = NVOL3_SECTOR_EMPTY"
  shows "\<exists>s'. nvol3_load c s = Some (EOK, s') \<and> nvol_open mem c s' \<and> plenty (hp s') \<and>
    i_sector (inst s') = c_sector2_addr c \<and> unat (i_next_idx (inst s')) = n \<and>
    vol_index mem c s' = scan c (slot (mem (dev s)) c (c_sector2_addr c)) n \<and>
    cleaned c (mem (dev s)) (c_sector2_addr c) n (mem (dev s'))"
proof -
  obtain scratch s1 where l:
    "nvol3_load c s = do { (status, _, s) \<leftarrow> init_sectors c scratch s1; Some (status, s) }"
    "rec_buf c scratch" "fresh_dict c s1" "dev s1 = dev s" by (rule load_init [OF pl])
  with init_second_unerased [of s1 n scratch] h e show ?thesis by fastforce
qed

lemma inv_holds:
  "nvol_inv mem c s \<Longrightarrow> sector_holds c (mem (dev s)) (i_sector (inst s)) (unat (i_next_idx (inst s)))"
  by (simp add: nvol_inv_def sector_holds_def vol_slots_def)

text \<open>Loading again what a running volume left on the device.\<close>

lemma reload_ok:
  assumes inv: "nvol_inv mem c s" and s': "dev s' = dev s" "plenty (hp s')"
  shows "\<exists>s''. nvol3_load c s' = Some (EOK, s'') \<and> nvol_inv mem c s'' \<and> plenty (hp s'') \<and>
    vol_map mem c s'' = vol_map mem c s \<and> i_sector (inst s'') = i_sector (inst s) \<and>
    i_next_idx (inst s'') = i_next_idx (inst s)"
proof -
  let ?sec = "i_sector (inst s)" and ?n = "unat (i_next_idx (inst s))"
  note sec = nvol_inv_D(1) [OF inv]
  have b: "blank_sector (mem (dev s)) c (c_sector1_addr c)" if "?sec = c_sector2_addr c"
    using nvol_inv_D(5) [OF inv sector_mem(1)] sectors_distinct that by metis
  have "NVOL3_SECTOR_EMPTY \<noteq> NVOL3_SECTOR_VALID" by (simp add: sector_flags_defs)
  then have "?sec = c_sector2_addr c \<Longrightarrow>
      hdr_flags (header (mem (dev s)) (c_sector1_addr c)) \<noteq> NVOL3_SECTOR_VALID"
    using b by (simp add: blank_sector_def)
  with load_holds [of s' ?sec ?n] s' sec inv_holds [OF inv] b
  obtain s'' where l: "nvol3_load c s' = Some (EOK, s'')" "nvol_inv mem c s''" "plenty (hp s'')"
    "i_sector (inst s'') = ?sec" "unat (i_next_idx (inst s'')) = ?n"
    "vol_index mem c s'' = scan c (slot (mem (dev s)) c ?sec) ?n" by auto
  have "vol_index mem c s'' = vol_index mem c s"
    using l(6) by (simp add: vol_index_def vol_slots_def)
  then have "vol_map mem c s'' = vol_map mem c s" by (simp add: vol_map_def)
  moreover have "i_next_idx (inst s'') = i_next_idx (inst s)" using l(5) by (rule unsigned_word_eqI)
  ultimately show ?thesis using l by auto
qed

section \<open>Resetting\<close>

lemma reset_ok:
  assumes pl: "plenty (hp s)"
  shows "\<exists>s'. nvol3_reset c s = Some (EOK, s') \<and> nvol_inv mem c s' \<and> plenty (hp s') \<and>
    vol_map mem c s' = Map.empty \<and> i_sector (inst s') = c_sector1_addr c \<and> i_next_idx (inst s') = 0"
proof -
  let ?a1 = "c_sector1_addr c" and ?a2 = "c_sector2_addr c"
  obtain f where f: "erase_sector c ?a1 (c_sector_size c) (drop_dict s) = Some (EOK, (drop_dict s)\<lparr>dev := f\<rparr>)"
    "sector_erased c (mem (dev s)) ?a1 (mem f)"
    using erase_ok [OF sector_mem(1), of "drop_dict s"] by (auto simp: drop_dict_def)
  obtain g where g: "erase_sector c ?a2 (c_sector_size c) ((drop_dict s)\<lparr>dev := f\<rparr>) =
      Some (EOK, (drop_dict s)\<lparr>dev := g\<rparr>)" "sector_erased c (mem f) ?a2 (mem g)"
    using erase_ok [OF sector_mem(2), of "(drop_dict s)\<lparr>dev := f\<rparr>"] by auto
  let ?s1 = "(drop_dict s)\<lparr>dev := g\<rparr>"
  have b: "blank_sector (mem g) c ?a1" "blank_sector (mem g) c ?a2"
    using f(2) g(2) sectors_distinct by (auto simp: sector_erased_def blank_sector_def)
  have pl': "plenty (hp ?s1)" using pl by (simp add: drop_dict_def)
  obtain scratch s1 where l:
    "nvol3_load c ?s1 = do { (status, _, s) \<leftarrow> init_sectors c scratch s1; Some (status, s) }"
    "rec_buf c scratch" "fresh_dict c s1" "dev s1 = dev ?s1" by (rule load_init [OF pl'])
  have "nvol3_reset c s = nvol3_load c ?s1"
    using f(1) g(1) by (simp add: nvol3_reset_def Let_def get_sector_version_ok)
  with init_blank [of s1 scratch] b l obtain s' where
    "nvol3_reset c s = Some (EOK, s')" "nvol_inv mem c s'" "plenty (hp s')"
    "i_sector (inst s') = ?a1" "unat (i_next_idx (inst s')) = 0" "vol_index mem c s' = Map.empty"
    by auto
  then show ?thesis by (auto simp: vol_map_def unat_eq_zero)
qed

end

end
