(* ===== verification/Ram_Drv.thy ===== *)
theory Ram_Drv
  imports Flash_Interface
begin

text \<open>
  The RAM emulation of a FLASH device, \<^verbatim>\<open>src/drivers/ramdrv.c\<close>, with the sizes of
  \<^verbatim>\<open>test/system_config.h\<close>.  The device is the array \<^verbatim>\<open>_ramdrv_test\<close>: a function from
  indices to bytes, of which the indices below \<open>NVRAM_SIZE\<close> exist.  An access outside the
  array has no defined result.
\<close>

unbundle bit_operations_syntax

definition STORAGE_32K :: u32 where "STORAGE_32K = 32 * 1024"
definition NVOL3_REGISTRY_START :: u32 where "NVOL3_REGISTRY_START = 0"
definition NVOL3_REGISTRY_SECTOR_SIZE :: u32 where "NVOL3_REGISTRY_SECTOR_SIZE = STORAGE_32K"
definition NVOL3_REGISTRY_SECTOR_COUNT :: u32 where "NVOL3_REGISTRY_SECTOR_COUNT = 2"
definition NVOL3_STRTAB_START :: u32 where
  "NVOL3_STRTAB_START =
     NVOL3_REGISTRY_START + NVOL3_REGISTRY_SECTOR_SIZE * NVOL3_REGISTRY_SECTOR_COUNT"
definition NVOL3_STRTAB_SECTOR_SIZE :: u32 where "NVOL3_STRTAB_SECTOR_SIZE = STORAGE_32K"
definition NVOL3_STRTAB_SECTOR_COUNT :: u32 where "NVOL3_STRTAB_SECTOR_COUNT = 2"

definition NVRAM_SIZE :: u32 where
  "NVRAM_SIZE = NVOL3_REGISTRY_SECTOR_SIZE * NVOL3_REGISTRY_SECTOR_COUNT
     + NVOL3_STRTAB_SECTOR_SIZE * NVOL3_STRTAB_SECTOR_COUNT"

lemmas storage_defs = STORAGE_32K_def NVOL3_REGISTRY_START_def NVOL3_REGISTRY_SECTOR_SIZE_def
  NVOL3_REGISTRY_SECTOR_COUNT_def NVOL3_STRTAB_START_def NVOL3_STRTAB_SECTOR_SIZE_def
  NVOL3_STRTAB_SECTOR_COUNT_def

lemma NVRAM_SIZE_eq: "NVRAM_SIZE = 131072"
  by (simp add: NVRAM_SIZE_def storage_defs)

lemma unat_NVRAM_SIZE [simp]: "unat NVRAM_SIZE = 131072"
  by (simp add: NVRAM_SIZE_eq)

type_synonym ramdrv = "nat \<Rightarrow> u8"

definition ramdrv_init :: status where "ramdrv_init = EOK"
definition ramdrv_start :: status where "ramdrv_start = EOK"
definition ramdrv_stop :: status where "ramdrv_stop = EOK"

text \<open>\<^verbatim>\<open>memset (_ramdrv_test + p, 0xFF, n)\<close>.\<close>

definition ram_set :: "ramdrv \<Rightarrow> nat \<Rightarrow> nat \<Rightarrow> ramdrv" where
  "ram_set m p n = (\<lambda>x. if p \<le> x \<and> x < p + n then 0xFF else m x)"

text \<open>The loop \<^verbatim>\<open>_ramdrv_test[i+addr] &= data[i]\<close>.\<close>

fun ram_and :: "ramdrv \<Rightarrow> nat \<Rightarrow> u8 list \<Rightarrow> ramdrv" where
  "ram_and m p [] = m"
| "ram_and m p (d # ds) = ram_and (m(p := m p AND d)) (Suc p) ds"

definition ramdrv_erase :: "ramdrv \<Rightarrow> u32 \<Rightarrow> u32 \<Rightarrow> (status \<times> ramdrv) option" where
  "ramdrv_erase m addr_start addr_end =
     (if addr_end < addr_start then Some (E_PARM, m)
      else if addr_start \<ge> NVRAM_SIZE then Some (E_PARM, m)
      else let addr_end = (if addr_end \<ge> NVRAM_SIZE then NVRAM_SIZE - 1 else addr_end)
           in Some (EOK, ram_set m (unat addr_start) (unat (addr_end - addr_start))))"

definition ramdrv_write :: "ramdrv \<Rightarrow> u32 \<Rightarrow> u32 \<Rightarrow> u8 list \<Rightarrow> (status \<times> ramdrv) option" where
  "ramdrv_write m addr len data =
     (if addr \<ge> NVRAM_SIZE then Some (E_PARM, m)
      else if addr + len \<ge> NVRAM_SIZE then Some (E_PARM, m)
      else if unat addr + unat len \<le> unat NVRAM_SIZE \<and> unat len \<le> length data
           then Some (EOK, ram_and m (unat addr) (take (unat len) data))
      else None)"

definition ramdrv_read :: "ramdrv \<Rightarrow> u32 \<Rightarrow> u32 \<Rightarrow> (status \<times> u8 list) option" where
  "ramdrv_read m addr len =
     (if addr \<ge> NVRAM_SIZE then Some (E_PARM, [])
      else if addr + len \<ge> NVRAM_SIZE then Some (E_PARM, [])
      else if unat addr + unat len \<le> unat NVRAM_SIZE
           then Some (EOK, map m [unat addr..<unat addr + unat len])
      else None)"

definition ramdrv_ops :: "ramdrv flash_ops" where
  "ramdrv_ops = \<lparr>f_read = ramdrv_read, f_write = ramdrv_write, f_erase = ramdrv_erase\<rparr>"

definition ram_mem :: "ramdrv \<Rightarrow> nat \<Rightarrow> u8" where
  "ram_mem m x = m x"

text \<open>The array range an erase really clears: the last byte of the device is left out.\<close>

definition ram_blank :: "ramdrv \<Rightarrow> nat \<Rightarrow> nat \<Rightarrow> ramdrv" where
  "ram_blank m p q = ram_set m p ((if q \<ge> 131072 then 131071 else q) - p)"

lemma ram_and_apply:
  "ram_and m p ds x = (if p \<le> x \<and> x < p + length ds then m x AND ds ! (x - p) else m x)"
proof (induction ds arbitrary: m p)
  case Nil
  show ?case by auto
next
  case (Cons d ds)
  show ?case
    by (auto simp: Cons.IH nth_Cons' Suc_diff_Suc)
qed

lemma ram_sum_lt:
  "unat (a::u32) + unat n < 131072 \<Longrightarrow> unat (a + n) = unat a + unat n"
  by (rule unat_add_lt) simp

lemma ramdrv_in_range:
  assumes "unat (a::u32) + unat n < 131072"
  shows "\<not> NVRAM_SIZE \<le> a" "\<not> NVRAM_SIZE \<le> a + n"
  using assms by (simp_all add: word_le_nat_alt ram_sum_lt)

lemma ramdrv_read_ok:
  "unat a + unat n < 131072 \<Longrightarrow>
   ramdrv_read m a n = Some (EOK, bytes_at (ram_mem m) (unat a) (unat n))"
  by (simp add: ramdrv_read_def ramdrv_in_range bytes_at_def ram_mem_def)

lemma ramdrv_write_ok:
  "unat a + unat n < 131072 \<Longrightarrow> length ds = unat n \<Longrightarrow>
   ramdrv_write m a n ds = Some (EOK, ram_and m (unat a) ds)"
  by (simp add: ramdrv_write_def ramdrv_in_range)

lemma ramdrv_erase_ok:
  assumes "unat a \<le> unat b" "unat a < 131072"
  shows "ramdrv_erase m a b = Some (EOK, ram_blank m (unat a) (unat b))"
proof -
  have ab: "\<not> b < a" "\<not> NVRAM_SIZE \<le> a"
    using assms by (simp_all add: word_less_nat_alt word_le_nat_alt)
  have le: "a \<le> (if NVRAM_SIZE \<le> b then NVRAM_SIZE - 1 else b)"
    using assms by (auto simp: word_le_nat_alt NVRAM_SIZE_eq)
  show ?thesis
    using ab le
    by (auto simp: ramdrv_erase_def ram_blank_def Let_def unat_sub word_le_nat_alt NVRAM_SIZE_eq)
qed

interpretation ram: flash_driver ramdrv_ops ram_mem ram_and ram_blank 131072
proof unfold_locales
  show "(131072::nat) \<le> 2 ^ 32" by simp
qed (auto simp: ramdrv_ops_def ramdrv_read_ok ramdrv_write_ok ramdrv_erase_ok
       ram_mem_def ram_and_apply ram_blank_def ram_set_def)

end
