(* ===== verification/Nvol_Spec.thy ===== *)
theory Nvol_Spec
  imports Nvol_Load Ram_Drv
begin

text \<open>
  The specification of a volume: a finite map with a capacity, on which set, get, delete and a
  restart answer and act.  The properties of the volume on the RAM device of the test system,
  for every configuration that fits it.
\<close>

unbundle bit_operations_syntax

section \<open>The abstract machine\<close>

datatype vol_op = VSet "u8 list" "u8 list" | VGet "u8 list" | VDel "u8 list" | VRestart

type_synonym reply = "status \<times> u8 list"

fun spec_step :: "nat \<Rightarrow> nat \<Rightarrow> vol_op \<Rightarrow> (u8 list \<rightharpoonup> u8 list) \<Rightarrow> reply \<times> (u8 list \<rightharpoonup> u8 list)" where
  "spec_step cap ks (VSet k v) m =
     (if cap \<le> card (dom m) then ((EFAIL, []), m) else ((EOK, []), m(k \<mapsto> v)))"
| "spec_step cap ks (VGet k) m =
     (case m k of None \<Rightarrow> ((E_NOTFOUND, []), m) | Some v \<Rightarrow> ((int (ks + length v), k @ v), m))"
| "spec_step cap ks (VDel k) m =
     (case m k of None \<Rightarrow> ((E_NOTFOUND, []), m) | Some v \<Rightarrow> ((EOK, []), m(k := None)))"
| "spec_step cap ks VRestart m = ((EOK, []), m)"

fun spec_run :: "nat \<Rightarrow> nat \<Rightarrow> vol_op list \<Rightarrow> (u8 list \<rightharpoonup> u8 list) \<Rightarrow> reply list \<times> (u8 list \<rightharpoonup> u8 list)" where
  "spec_run cap ks [] m = ([], m)"
| "spec_run cap ks (op # ops) m =
     (case spec_step cap ks op m of (r, m) \<Rightarrow>
      case spec_run cap ks ops m of (rs, m) \<Rightarrow> (r # rs, m))"

section \<open>The client of the volume\<close>

text \<open>A client buffer of \<open>record_size\<close> bytes with key and data.\<close>

definition client_rec :: "'f nvol_config \<Rightarrow> u8 list \<Rightarrow> u8 list \<Rightarrow> nvol_record" where
  "client_rec c k v =
     \<lparr>head = zero_head, key_and_data = k @ v @ replicate (rsz c - 8 - length k - length v) 0\<rparr>"

text \<open>A restart loses the RAM: a new instance over the same device is loaded.\<close>

fun vol_step :: "'f nvol_config \<Rightarrow> vol_op \<Rightarrow> 'f nvol \<Rightarrow> (reply \<times> 'f nvol) option" where
  "vol_step c (VSet k v) s =
     do { (status, _, s) \<leftarrow> nvol3_record_set c (client_rec c k v) (of_nat (length k + length v)) s;
          Some ((status, []), s) }"
| "vol_step c (VGet k) s =
     do { (status, rec) \<leftarrow> nvol3_record_get c (client_rec c k []) s;
          Some ((status, if status < 0 then [] else take (nat status) (key_and_data rec)), s) }"
| "vol_step c (VDel k) s =
     do { (status, _, s) \<leftarrow> nvol3_record_delete c (client_rec c k []) s;
          Some ((status, []), s) }"
| "vol_step c VRestart s =
     do { (status, s) \<leftarrow> nvol3_load c (nvol3_unload s); Some ((status, []), s) }"

fun vol_run :: "'f nvol_config \<Rightarrow> vol_op list \<Rightarrow> 'f nvol \<Rightarrow> (reply list \<times> 'f nvol) option" where
  "vol_run c [] s = Some ([], s)"
| "vol_run c (op # ops) s =
     do { (r, s) \<leftarrow> vol_step c op s; (rs, s) \<leftarrow> vol_run c ops s; Some (r # rs, s) }"

fun vop_ok :: "'f nvol_config \<Rightarrow> vol_op \<Rightarrow> bool" where
  "vop_ok c (VSet k v) \<longleftrightarrow> length k = ksz c \<and> length k + length v + 8 \<le> rsz c"
| "vop_ok c (VGet k) \<longleftrightarrow> length k = ksz c"
| "vop_ok c (VDel k) \<longleftrightarrow> length k = ksz c"
| "vop_ok c VRestart \<longleftrightarrow> True"

context volume
begin

lemma client_rec_buf: "length k + length v + 8 \<le> rsz c \<Longrightarrow> rec_buf c (client_rec c k v)"
  by (simp add: rec_buf_def client_rec_def)

lemma client_rec_key: "length k = ksz c \<Longrightarrow> take (ksz c) (key_and_data (client_rec c k v)) = k"
  by (simp add: client_rec_def)

lemma vol_step_refines:
  assumes inv: "nvol_inv mem c s" and pl: "plenty (hp s)" and cb: "cb_accepts c" and ok: "vop_ok c op"
  shows "\<exists>r s'. vol_step c op s = Some (r, s') \<and> nvol_inv mem c s' \<and> plenty (hp s') \<and>
    spec_step (mxr c - 4) (ksz c) op (vol_map mem c s) = (r, vol_map mem c s')"
proof (cases op)
  case (VSet k v)
  then have k: "length k = ksz c" "length k + length v + 8 \<le> rsz c" using ok by simp_all
  then have u: "unat (of_nat (length k + length v) :: u32) = length k + length v"
    using cfg_sizes(8) by (intro unat_of_nat_u32) simp
  have kv: "k @ v = take (length k + length v) (key_and_data (client_rec c k v))"
    by (simp add: client_rec_def)
  have cap: "mxr c - 4 \<le> card (dom m) \<longleftrightarrow> mxr c \<le> card (dom m) + 4" for m :: "u8 list \<rightharpoonup> u8 list"
    by arith
  from volume_set_ok [OF inv pl client_rec_buf [OF k(2)] _ _ cb _ k(1), of "of_nat (length k + length v)" v]
  obtain status rec' s' where
    "nvol3_record_set c (client_rec c k v) (of_nat (length k + length v)) s = Some (status, rec', s')"
    "nvol_inv mem c s'" "plenty (hp s')"
    "if mxr c \<le> card (dom (vol_map mem c s)) + 4
     then status = EFAIL \<and> vol_map mem c s' = vol_map mem c s
     else status = EOK \<and> vol_map mem c s' = (vol_map mem c s)(k \<mapsto> v)"
    using k kv unfolding u by auto
  then show ?thesis by (auto simp: VSet cap split: if_splits)
next
  case (VGet k)
  then have k: "length k = ksz c" using ok by simp
  note rb = client_rec_buf [of k "[]"]
  have rb: "rec_buf c (client_rec c k [])" using k cfg_sizes(1) by (intro client_rec_buf) simp
  show ?thesis
  proof (cases "vol_map mem c s k")
    case None
    then show ?thesis
      using get_absent [OF inv rb] client_rec_key [OF k, of "[]"] inv pl by (simp add: VGet)
  next
    case (Some v)
    then show ?thesis
      using get_present [OF inv rb client_rec_key [OF k, symmetric] Some] inv pl
      by (auto simp: VGet nat_add_distrib)
  qed
next
  case (VDel k)
  then have k: "length k = ksz c" using ok by simp
  have rb: "rec_buf c (client_rec c k [])" using k cfg_sizes(1) by (intro client_rec_buf) simp
  obtain s' where "nvol3_record_delete c (client_rec c k []) s =
      Some (if vol_map mem c s k = None then E_NOTFOUND else EOK,
            (client_rec c k [])\<lparr>head := zero_head\<rparr>, s')"
    "nvol_inv mem c s'" "vol_map mem c s' = (vol_map mem c s)(k := None)" "hp s' = hp s"
    using delete_ok [OF inv rb client_rec_key [OF k, symmetric]] by auto
  then show ?thesis using pl by (auto simp: VDel fun_upd_idem split: option.split)
next
  case VRestart
  have "dev (nvol3_unload s) = dev s" "plenty (hp (nvol3_unload s))"
    using pl by (simp_all add: nvol3_unload_def drop_dict_def)
  from reload_ok [OF inv this] show ?thesis by (auto simp: VRestart)
qed

lemma vol_run_refines:
  assumes "nvol_inv mem c s" "plenty (hp s)" "cb_accepts c" "list_all (vop_ok c) script"
  shows "\<exists>rs s'. vol_run c script s = Some (rs, s') \<and> nvol_inv mem c s' \<and> plenty (hp s') \<and>
    spec_run (mxr c - 4) (ksz c) script (vol_map mem c s) = (rs, vol_map mem c s')"
  using assms
proof (induction script arbitrary: s)
  case Nil
  then show ?case by simp
next
  case (Cons op script)
  then have ok: "vop_ok c op" "list_all (vop_ok c) script" by simp_all
  obtain r s1 where s1: "vol_step c op s = Some (r, s1)" "nvol_inv mem c s1" "plenty (hp s1)"
    "spec_step (mxr c - 4) (ksz c) op (vol_map mem c s) = (r, vol_map mem c s1)"
    using vol_step_refines [OF Cons.prems(1-3) ok(1)] by auto
  from Cons.IH [OF s1(2,3) Cons.prems(3) ok(2)] s1 show ?case by auto
qed

end

end
