(* ===== verification/Nvol_Frame.thy ===== *)
theory Nvol_Frame
  imports Nvol_Spec
begin

text \<open>
  What a volume leaves alone.  Whatever the device, the instance and the arguments are, an
  operation that ends has changed no byte outside the two sectors of its configuration, and the
  heap has only grown.  Two volumes on one device are therefore independent.
\<close>

unbundle bit_operations_syntax

section \<open>The heap grows\<close>

definition heap_le :: "heap \<Rightarrow> heap \<Rightarrow> bool" where
  "heap_le h h' \<longleftrightarrow> next_addr h \<le> next_addr h' \<and> (plenty h \<longrightarrow> plenty h')"

lemma heap_le_refl [simp]: "heap_le h h"
  by (simp add: heap_le_def)

lemma heap_le_trans: "heap_le a b \<Longrightarrow> heap_le b c \<Longrightarrow> heap_le a c"
  by (auto simp: heap_le_def)

lemma malloc_le: "heap_malloc h n = (r, h') \<Longrightarrow> heap_le h h'"
  by (auto simp: heap_le_def heap_malloc_def plenty_def split: list.splits if_splits)

lemma dict_alloc_le: "dict_alloc d key n h = (r, h') \<Longrightarrow> heap_le h h'"
  by (auto simp: dict_alloc_def keyval_alloc_defs split: prod.splits option.splits keytype.splits
      dest!: malloc_le intro: heap_le_trans)

lemma install_le: "dictionary_install_size d key n h = (r, d', h') \<Longrightarrow> heap_le h h'"
  by (auto simp: dictionary_install_size_def split: prod.splits option.splits dest: dict_alloc_le)

lemma dict_init_le: "dictionary_init h k n = (r, h') \<Longrightarrow> heap_le h h'"
  by (auto simp: dictionary_init_def split: prod.splits option.splits dest: malloc_le)

section \<open>Bytes outside the sectors\<close>

context volume
begin

definition outside :: "(nat \<Rightarrow> u8) \<Rightarrow> (nat \<Rightarrow> u8) \<Rightarrow> bool" where
  "outside m m' \<longleftrightarrow>
     (\<forall>x < dsize - 1. (\<forall>sec \<in> sectors c. x < unat sec \<or> unat sec + unat (c_sector_size c) \<le> x) \<longrightarrow>
        m' x = m x)"

definition kept :: "'f nvol \<Rightarrow> 'f nvol \<Rightarrow> bool" where
  "kept s s' \<longleftrightarrow>
     i_sector (inst s') \<in> sectors c \<and> outside (mem (dev s)) (mem (dev s')) \<and> heap_le (hp s) (hp s')"

lemma outside_refl [simp]: "outside m m"
  by (simp add: outside_def)

lemma outside_trans: "outside a b \<Longrightarrow> outside b d \<Longrightarrow> outside a d"
  by (simp add: outside_def)

lemma kept_trans: "kept a b \<Longrightarrow> kept b d \<Longrightarrow> kept a d"
  by (auto simp: kept_def intro: outside_trans heap_le_trans)

lemma kept_sector: "kept s s' \<Longrightarrow> i_sector (inst s') \<in> sectors c"
  by (simp add: kept_def)

lemma kept_inst: "i_sector (inst s') \<in> sectors c \<Longrightarrow> dev s' = dev s \<Longrightarrow> heap_le (hp s) (hp s') \<Longrightarrow> kept s s'"
  by (simp add: kept_def)

lemma prog_outside:
  assumes "sec \<in> sectors c" "unat sec \<le> p" "p + length ds \<le> unat sec + unat (c_sector_size c)"
  shows "outside (mem f) (mem (prog f p ds))"
  using assms by (auto simp: outside_def mem_prog)

lemma blank_outside:
  assumes "sec \<in> sectors c"
  shows "outside (mem f) (mem (blank f (unat sec) (unat sec + unat (c_sector_size c))))"
  using assms by (auto simp: outside_def mem_blank)

section \<open>The four writes\<close>

lemma set_sector_flags_kept:
  assumes "set_sector_flags c sec flags s = Some (r, s')" "sec \<in> sectors c" "i_sector (inst s) \<in> sectors c"
  shows "kept s s'"
proof -
  have len: "length (sector_record c flags) = 16" by (simp add: sector_record_def)
  have "f_write ops (dev s) sec 16 (sector_record c flags) =
      Some (EOK, prog (dev s) (unat sec) (sector_record c flags))"
    using drv_write [of sec 16 "sector_record c flags" "dev s"] sector_bounds(1) [OF assms(2)] len by simp
  moreover have "outside (mem (dev s)) (mem (prog (dev s) (unat sec) (sector_record c flags)))"
    using len cfg_sizes(3) by (intro prog_outside [OF assms(2)]) auto
  ultimately show ?thesis
    using assms(1,3) by (auto simp: set_sector_flags_def kept_def bind_eq_Some_conv Let_def)
qed

lemma erase_kept:
  assumes "erase_sector c sec (c_sector_size c) s = Some (r, s')" "sec \<in> sectors c"
    "i_sector (inst s) \<in> sectors c"
  shows "kept s s'"
proof -
  note b = sector_bounds [OF assms(2)]
  have u: "unat (sec + c_sector_size c) = unat sec + unat (c_sector_size c)"
    using b(2) by (intro unat_add_lt) simp
  have "f_erase ops (dev s) sec (sec + c_sector_size c) =
      Some (EOK, blank (dev s) (unat sec) (unat sec + unat (c_sector_size c)))"
    using drv_erase [of sec "sec + c_sector_size c" "dev s"] b u by simp
  then show ?thesis
    using assms(1,3) blank_outside [OF assms(2), of "dev s"]
    by (auto simp: erase_sector_def kept_def bind_eq_Some_conv)
qed

lemma slot_inside:
  assumes "i < mxr c" "n \<le> rsz c"
  shows "unat sec \<le> slot_addr c sec i" "slot_addr c sec i + n \<le> unat sec + unat (c_sector_size c)"
  using slot_in_sector [OF assms(1), of sec] slots_fit assms by (auto simp: slot_addr_def)

lemma set_flags_kept:
  assumes "set_variable_record_flags c sec flags idx s = Some (r, s')" "sec \<in> sectors c"
    "i_sector (inst s) \<in> sectors c"
  shows "kept s s'"
proof (cases "unat idx < mxr c")
  case False
  then show ?thesis
    using assms(1,3) by (auto simp: set_variable_record_flags_def max_records_eq kept_def)
next
  case True
  have n: "2 \<le> rsz c" using cfg_sizes(1) by simp
  have "f_write ops (dev s) (sec + record_offset c idx) 2 (le16 flags) =
      Some (EOK, prog (dev s) (slot_addr c sec (unat idx)) (le16 flags))"
    using drv_write [of "sec + record_offset c idx" 2 "le16 flags" "dev s"]
      record_offset_unat(2) [OF assms(2) True] slot_access [OF assms(2) True n] by simp
  moreover have "outside (mem (dev s)) (mem (prog (dev s) (slot_addr c sec (unat idx)) (le16 flags)))"
    using slot_inside [OF True n, of sec] by (intro prog_outside [OF assms(2)]) auto
  ultimately show ?thesis
    using assms(1,3) True
    by (auto simp: set_variable_record_flags_def max_records_eq kept_def)
qed

lemma write_record_kept:
  assumes "write_variable_record c sec rec idx s = Some (r, s')" "sec \<in> sectors c"
    "i_sector (inst s) \<in> sectors c" "unat (h_length (head rec)) + 8 \<le> rsz c"
  shows "kept s s'"
proof (cases "unat idx < mxr c \<and> h_flags (head rec) \<noteq> 0")
  case False
  then show ?thesis
    using assms(1,3)
    by (auto simp: write_variable_record_def max_records_eq kept_def split: if_splits)
next
  case True
  let ?n = "unat (h_length (head rec))"
  show ?thesis
  proof (cases "buf_read (key_and_data rec) 0 ?n")
    case None
    then show ?thesis using assms(1) True by (simp add: write_variable_record_def max_records_eq)
  next
    case (Some data)
    then have "length data = ?n" by (auto simp: buf_read_def split: if_splits)
    let ?ds = "enc_head (head rec) @ data"
    have len: "length ?ds = ?n + 8" using \<open>length data = ?n\<close> by simp
    have un: "unat (ucast (h_length (head rec)) + SIZEOF_HEAD) = ?n + 8"
      by (subst unat_add_lt)
         (use unat_u16_lt [of "h_length (head rec)"] in
           \<open>simp_all add: SIZEOF_HEAD_def del: unat_u16_lt\<close>)
    have i: "unat idx < mxr c" using True by simp
    have "f_write ops (dev s) (sec + record_offset c idx)
          (ucast (h_length (head rec)) + SIZEOF_HEAD) ?ds =
        Some (EOK, prog (dev s) (slot_addr c sec (unat idx)) ?ds)"
      using drv_write [of "sec + record_offset c idx" "ucast (h_length (head rec)) + SIZEOF_HEAD" ?ds "dev s"]
        record_offset_unat(2) [OF assms(2) i] slot_access [OF assms(2) i assms(4)] un len by simp
    moreover have "outside (mem (dev s)) (mem (prog (dev s) (slot_addr c sec (unat idx)) ?ds))"
      using slot_inside [OF i assms(4), of sec] len by (intro prog_outside [OF assms(2)]) auto
    ultimately show ?thesis
      using assms(1,3) True Some
      by (auto simp: write_variable_record_def max_records_eq kept_def)
  qed
qed

section \<open>Composed operations\<close>

lemma read_status_length:
  assumes "read_variable_record c rec idx n s = Some (EOK, rec')"
  shows "unat (h_length (head rec')) + 8 \<le> rsz c"
proof -
  have "head_status c (head rec') = EOK"
    using assms
    by (cases rec; cases rec')
       (auto simp: read_variable_record_def max_records_eq bind_eq_Some_conv Let_def split: if_splits)
  then have "\<not> ucast (h_length (head rec')) > record_room c" unfolding head_status_EOK by (rule conjunct2)
  then show ?thesis by (simp add: room_iff)
qed

lemma insert_kept:
  "insert_lookup_table c rec idx s = Some (r, s') \<Longrightarrow> i_sector (inst s) \<in> sectors c \<Longrightarrow> kept s s'"
proof -
  assume a: "insert_lookup_table c rec idx s = Some (r, s')" "i_sector (inst s) \<in> sectors c"
  define n where "n = SIZEOF_ENTRY +
    (if ucast (h_length (head rec)) - ucast (c_key_size c) > (ucast (c_local_size c) :: u32) then 0
     else ucast (h_length (head rec)) - ucast (c_key_size c))"
  obtain d key where dk: "loaded_dict s = Some d" "dict_key_at (d_keyspec d) (key_and_data rec) = Some key"
    using a(1) by (auto simp: insert_lookup_table_def bind_eq_Some_conv Let_def)
  obtain np d' h where i: "dictionary_install_size (snd (dictionary_remove d key)) key n (hp s) = (np, d', h)"
    by (metis prod_cases3)
  show "kept s s'"
    using a(1) dk i install_le [OF i] a(2)
    by (cases np)
       (auto simp: insert_lookup_table_def n_def bind_eq_Some_conv kept_def set_dict_def Let_def)
qed

lemma counters_kept [simp]:
  "kept s (count_invalid s') = kept s s'" "kept (count_invalid s) s' = kept s s'"
  "kept s (count_error s') = kept s s'" "kept (count_error s) s' = kept s s'"
  "kept s (count_inuse s') = kept s s'" "kept (count_inuse s) s' = kept s s'"
  "kept s (uncount_inuse s') = kept s s'" "kept (uncount_inuse s) s' = kept s s'"
  "kept s (bump_idx s') = kept s s'" "kept (bump_idx s) s' = kept s s'"
  "kept s (set_dict d s') = kept s s'" "kept (set_dict d s) s' = kept s s'"
  "kept s (drop_dict s') = kept s s'" "kept (drop_dict s) s' = kept s s'"
  by (simp_all add: kept_def count_invalid_def count_error_def count_inuse_def uncount_inuse_def
      bump_idx_def set_dict_def drop_dict_def)

lemma counters_sector [simp]:
  "i_sector (inst (count_invalid s)) = i_sector (inst s)"
  "i_sector (inst (count_error s)) = i_sector (inst s)"
  "i_sector (inst (count_inuse s)) = i_sector (inst s)"
  "i_sector (inst (uncount_inuse s)) = i_sector (inst s)"
  "i_sector (inst (bump_idx s)) = i_sector (inst s)"
  "i_sector (inst (set_dict d s)) = i_sector (inst s)"
  "i_sector (inst (drop_dict s)) = i_sector (inst s)"
  by (simp_all add: count_invalid_def count_error_def count_inuse_def uncount_inuse_def
      bump_idx_def set_dict_def drop_dict_def)

lemma kept_refl: "i_sector (inst s) \<in> sectors c \<Longrightarrow> kept s s"
  by (simp add: kept_def)

lemma construct_loop_kept:
  assumes "construct_loop c scratch idx st s = Some (st', idx', scratch', s')"
    "i_sector (inst s) \<in> sectors c"
  shows "kept s s'"
proof -
  have "cc = c \<longrightarrow> i_sector (inst s) \<in> sectors c \<longrightarrow> kept s (snd (snd (snd r)))"
    if "construct_loop cc scratch idx st s = Some r" for cc :: "'f nvol_config" and scratch idx st s r
    using that
  proof (rule construct_loop.raw_induct [rotated])
    fix f and cc :: "'f nvol_config" and scratch idx st s r
    assume IH: "\<And>cc scratch idx st s r. f cc scratch idx st s = Some r \<Longrightarrow>
        cc = c \<longrightarrow> i_sector (inst s) \<in> sectors c \<longrightarrow> kept s (snd (snd (snd r)))"
      and eq: "do { mx \<leftarrow> max_records cc;
          if \<not> ucast idx < mx then Some (st, idx, scratch, s)
          else do {
            (status, scratch) \<leftarrow> read_variable_record cc scratch idx 0 s;
            if status = E_EMPTY then Some (Some EOK, idx, scratch, s)
            else if status = E_TIMEOUT
                 then f cc scratch (idx + 1) (Some EOK) (count_invalid s)
            else if status = E_INVALID
                 then f cc scratch (idx + 1) (Some EOK) (count_invalid s)
            else if status \<noteq> EOK
                 then f cc scratch (idx + 1) (Some EOK) (count_error s)
            else do {
              v \<leftarrow> variable_record_valid scratch;
              if v = EOK
              then do {
                (status, s) \<leftarrow> insert_lookup_table cc scratch idx s;
                if status \<noteq> EOK then Some (Some status, idx, scratch, s)
                else f cc scratch (idx + 1) (Some status) (count_inuse s) }
              else do {
                (_, s) \<leftarrow> set_variable_record_flags cc (i_sector (inst s))
                            NVOL3_RECORD_FLAGS_INVALID idx s;
                f cc scratch (idx + 1) (Some status)
                  (count_invalid (count_error s)) } } } } = Some r"
    show "cc = c \<longrightarrow> i_sector (inst s) \<in> sectors c \<longrightarrow> kept s (snd (snd (snd r)))"
    proof (intro impI)
      assume e: "cc = c" "i_sector (inst s) \<in> sectors c"
      note IH' = IH [rule_format, OF _ refl]
      show "kept s (snd (snd (snd r)))"
        using eq e(2) unfolding e(1) max_records_eq
        by (auto simp: bind_eq_Some_conv kept_refl split: if_splits
            dest!: IH' insert_kept set_flags_kept dest: kept_sector intro: kept_trans)
    qed
  qed
  from this [OF assms(1)] assms(2) show ?thesis by simp
qed

lemma construct_table_kept:
  "construct_lookup_table c scratch s = Some (r, scratch', s') \<Longrightarrow> i_sector (inst s) \<in> sectors c \<Longrightarrow>
   kept s s'"
  by (auto simp: construct_lookup_table_def bind_eq_Some_conv Let_def kept_def set_dict_def
      split: if_splits dest!: construct_loop_kept)

lemma prepare_kept:
  "prepare_sector c sec s = Some (r, s') \<Longrightarrow> sec \<in> sectors c \<Longrightarrow> i_sector (inst s) \<in> sectors c \<Longrightarrow>
   kept s s'"
  by (auto simp: prepare_sector_def bind_eq_Some_conv kept_refl split: if_splits
      dest!: erase_kept set_sector_flags_kept dest: kept_sector intro: kept_trans)

lemma move_loop_kept:
  assumes "move_loop c scratch dst idx dst_idx s = Some (scratch', s')" "dst \<in> sectors c"
    "i_sector (inst s) \<in> sectors c"
  shows "kept s s'"
proof -
  have "cc = c \<longrightarrow> dst' = dst \<longrightarrow> i_sector (inst s) \<in> sectors c \<longrightarrow> kept s (snd r)"
    if "move_loop cc scratch dst' idx dst_idx s = Some r"
    for cc :: "'f nvol_config" and scratch dst' idx dst_idx s r
    using that
  proof (rule move_loop.raw_induct [rotated])
    fix f and cc :: "'f nvol_config" and scratch dst' idx dst_idx s r
    assume IH: "\<And>cc scratch dst' idx dst_idx s r. f cc scratch dst' idx dst_idx s = Some r \<Longrightarrow>
        cc = c \<longrightarrow> dst' = dst \<longrightarrow> i_sector (inst s) \<in> sectors c \<longrightarrow> kept s (snd r)"
      and eq: "do { mx \<leftarrow> max_records cc;
          if \<not> ucast idx < mx then Some (scratch, s)
          else do {
            (status, scratch) \<leftarrow> read_variable_record cc scratch idx 0 s;
            if status = E_EMPTY then Some (scratch, s)
            else if status \<noteq> EOK then f cc scratch dst' (idx + 1) dst_idx s
            else do {
              v \<leftarrow> variable_record_valid scratch;
              if v = EOK
              then do {
                (_, s) \<leftarrow> write_variable_record cc dst' scratch dst_idx s;
                f cc scratch dst' (idx + 1) (dst_idx + 1) s }
              else f cc scratch dst' (idx + 1) dst_idx s } } } = Some r"
    show "cc = c \<longrightarrow> dst' = dst \<longrightarrow> i_sector (inst s) \<in> sectors c \<longrightarrow> kept s (snd r)"
    proof (intro impI)
      assume e: "cc = c" "dst' = dst" "i_sector (inst s) \<in> sectors c"
      note IH' = IH [rule_format, OF _ refl refl]
      show "kept s (snd r)"
        using eq e(3) assms(2) unfolding e(1,2) max_records_eq
        by (auto simp: bind_eq_Some_conv kept_refl split: if_splits
            dest!: IH' write_record_kept dest: kept_sector read_status_length [simplified]
            intro: kept_trans)
    qed
  qed
  from this [OF assms(1)] assms(3) show ?thesis by simp
qed

lemma move_kept:
  "move_sector c scratch dst s = Some (r, scratch', s') \<Longrightarrow> dst \<in> sectors c \<Longrightarrow>
   i_sector (inst s) \<in> sectors c \<Longrightarrow> kept s s'"
  by (auto simp: move_sector_def bind_eq_Some_conv split: if_splits
      dest!: prepare_kept move_loop_kept set_sector_flags_kept dest: kept_sector intro: kept_trans)

lemma swap_loop_kept:
  assumes "swap_loop c scratch dst dst_idx m it st s = Some (r, scratch', s')" "dst \<in> sectors c"
    "i_sector (inst s) \<in> sectors c"
  shows "kept s s'"
proof -
  have "cc = c \<longrightarrow> dst' = dst \<longrightarrow> i_sector (inst s) \<in> sectors c \<longrightarrow> kept s (snd (snd r))"
    if "swap_loop cc scratch dst' dst_idx m it st s = Some r"
    for cc :: "'f nvol_config" and scratch dst' dst_idx m it st s r
    using that
  proof (rule swap_loop.raw_induct [rotated])
    fix f and cc :: "'f nvol_config" and scratch dst' dst_idx m it st s r
    assume IH: "\<And>cc scratch dst' dst_idx m it st s r. f cc scratch dst' dst_idx m it st s = Some r \<Longrightarrow>
        cc = c \<longrightarrow> dst' = dst \<longrightarrow> i_sector (inst s) \<in> sectors c \<longrightarrow> kept s (snd (snd r))"
      and eq: "(case m of
        None \<Rightarrow> Some (st, scratch, s)
      | Some np \<Rightarrow>
          do { d \<leftarrow> loaded_dict s;
               e \<leftarrow> dec_entry (dictionary_get_value d np);
               (status, scratch) \<leftarrow> read_variable_record cc scratch (e_idx e) 0 s;
               if status \<noteq> EOK then Some (status, scratch, s)
               else do {
                 (status, s) \<leftarrow> write_variable_record cc dst' scratch dst_idx s;
                 if status \<noteq> EOK then Some (status, scratch, s)
                 else do {
                   d \<leftarrow> dict_write_value d (naddr np) 0 (le16 dst_idx);
                   (m, it) \<leftarrow> dictionary_it_next d it;
                   f cc scratch dst' (dst_idx + 1) m it status (set_dict d s) } } }) = Some r"
    show "cc = c \<longrightarrow> dst' = dst \<longrightarrow> i_sector (inst s) \<in> sectors c \<longrightarrow> kept s (snd (snd r))"
    proof (intro impI)
      assume e: "cc = c" "dst' = dst" "i_sector (inst s) \<in> sectors c"
      note IH' = IH [rule_format, OF _ refl refl]
      show "kept s (snd (snd r))"
        using eq e(3) assms(2) unfolding e(1,2) max_records_eq
        by (cases m)
           (auto simp: bind_eq_Some_conv kept_refl split: if_splits
            dest!: IH' write_record_kept dest: kept_sector read_status_length [simplified]
            intro: kept_trans)
    qed
  qed
  from this [OF assms(1)] assms(3) show ?thesis by simp
qed

lemma other_sector_mem: "other_sector c s = (src, dst) \<Longrightarrow> src \<in> sectors c \<and> dst \<in> sectors c"
  by (auto simp: other_sector_def sectors_def split: if_splits)

lemma use_sector_kept [simp]: "dst \<in> sectors c \<Longrightarrow> kept s (use_sector dst s') = (outside (mem (dev s)) (mem (dev s')) \<and> heap_le (hp s) (hp s'))"
  by (simp add: kept_def use_sector_def)

lemma erase_frame:
  assumes "erase_sector c sec (c_sector_size c) s = Some (r, s')" "sec \<in> sectors c"
  shows "outside (mem (dev s)) (mem (dev s'))" "hp s' = hp s" "inst s' = inst s"
proof -
  let ?s = "use_sector sec s"
  have h: "hp s' = hp s" "inst s' = inst s"
    using assms(1) by (auto simp: erase_sector_def bind_eq_Some_conv)
  have "erase_sector c sec (c_sector_size c) ?s = Some (r, use_sector sec s')"
    using assms(1) by (auto simp: erase_sector_def bind_eq_Some_conv use_sector_def upd_inst_def)
  then have "kept ?s (use_sector sec s')"
    using assms(2) by (rule erase_kept) (use assms(2) in \<open>simp add: use_sector_def\<close>)
  then show "outside (mem (dev s)) (mem (dev s'))" by (simp add: kept_def use_sector_def)
  show "hp s' = hp s" "inst s' = inst s" by (fact h)+
qed

lemma repair_kept:
  assumes "nvol3_repair c s = Some (r, s')" "i_sector (inst s) \<in> sectors c"
  shows "kept s s'"
proof -
  obtain src dst where o: "other_sector c (s\<lparr>hp := snd (heap_malloc (hp s) (ucast (c_record_size c)))\<rparr>) =
      (src, dst)" by (metis surj_pair)
  note m = other_sector_mem [OF o]
  obtain a h where mal: "heap_malloc (hp s) (ucast (c_record_size c)) = (a, h)" by (metis surj_pair)
  note le = malloc_le [OF mal]
  show ?thesis
  proof (cases a)
    case None
    then show ?thesis using assms mal le by (auto simp: nvol3_repair_def kept_def)
  next
    case (Some a)
    let ?s = "s\<lparr>hp := h\<rparr>"
    have k0: "kept s ?s" using assms(2) le by (simp add: kept_def)
    obtain st scr s1 where mv: "move_sector c (fresh_record c h a) dst ?s = Some (st, scr, s1)"
      using assms(1) mal Some o by (auto simp: nvol3_repair_def bind_eq_Some_conv)
    have k1: "kept s s1"
      by (rule kept_trans [OF k0 move_kept [OF mv]]) (use m assms(2) in simp_all)
    show ?thesis
    proof (cases "st = EOK")
      case False
      then show ?thesis using assms(1) mal Some o mv k1 by (simp add: nvol3_repair_def)
    next
      case True
      let ?s1 = "upd_inst (\<lambda>i. i\<lparr>i_sector := dst\<rparr>) s1"
      have k1': "kept s ?s1" using k1 m by (simp add: kept_def)
      obtain r2 scr2 s2 where ct: "construct_lookup_table c scr ?s1 = Some (r2, scr2, s2)"
        and er: "erase_sector c src (c_sector_size c) s2 = Some (r, s')"
        using assms(1) mal Some o mv True by (auto simp: nvol3_repair_def bind_eq_Some_conv)
      have k2: "kept s s2"
        by (rule kept_trans [OF k1' construct_table_kept [OF ct]]) (use m in simp)
      show ?thesis
        by (rule kept_trans [OF k2 erase_kept [OF er]]) (use m kept_sector [OF k2] in simp_all)
    qed
  qed
qed

text \<open>A load may start with an instance that points nowhere: the choice of a sector sets it.\<close>

definition framed :: "'f nvol \<Rightarrow> 'f nvol \<Rightarrow> bool" where
  "framed s s' \<longleftrightarrow> outside (mem (dev s)) (mem (dev s')) \<and> heap_le (hp s) (hp s')"

lemma framed_kept: "framed s t \<Longrightarrow> kept t s' \<Longrightarrow> kept s s'"
  by (auto simp: framed_def kept_def intro: outside_trans heap_le_trans)

lemma kept_framed: "kept s s' \<Longrightarrow> framed s s'"
  by (simp add: framed_def kept_def)

lemma scrub_framed:
  "scrub_sector c sec fl s = Some (r, s') \<Longrightarrow> sec \<in> sectors c \<Longrightarrow> framed s s'"
  by (auto simp: scrub_sector_def framed_def bind_eq_Some_conv split: if_splits dest: erase_frame)

lemma apply_choice_kept:
  assumes "apply_choice c ch s = Some s'"
  shows "kept s s'"
  using assms
proof (cases ch)
  case FormatFirst
  let ?s = "use_sector (c_sector1_addr c) s"
  obtain r1 s1 r2 where e: "erase_sector c (c_sector1_addr c) (c_sector_size c) ?s = Some (r1, s1)"
    and f: "set_sector_flags c (i_sector (inst s1)) NVOL3_SECTOR_VALID s1 = Some (r2, s')"
    using assms FormatFirst by (auto simp: apply_choice_def bind_eq_Some_conv Let_def)
  have k0: "kept s ?s" by simp
  have k1: "kept s s1"
    by (rule kept_trans [OF k0 erase_kept [OF e]]) (use kept_sector [OF k0] in simp_all)
  show ?thesis
    by (rule kept_trans [OF k1 set_sector_flags_kept [OF f]]) (use kept_sector [OF k1] in simp_all)
next
  case UseFirst
  then show ?thesis
    using assms erase_frame [of "c_sector2_addr c" s] by (fastforce simp: apply_choice_def bind_eq_Some_conv)
next
  case UseSecond
  then show ?thesis using assms by (auto simp: apply_choice_def)
next
  case UseSecondErase
  let ?s = "use_sector (c_sector2_addr c) s"
  obtain r1 where e: "erase_sector c (c_sector1_addr c) (c_sector_size c) ?s = Some (r1, s')"
    using assms UseSecondErase by (auto simp: apply_choice_def bind_eq_Some_conv Let_def)
  have k0: "kept s ?s" by simp
  show ?thesis by (rule kept_trans [OF k0 erase_kept [OF e]]) (use kept_sector [OF k0] in simp_all)
next
  case RepairFirst
  then obtain r where e: "nvol3_repair c (use_sector (c_sector1_addr c) s) = Some (r, s')"
    using assms by (auto simp: apply_choice_def bind_eq_Some_conv)
  have k0: "kept s (use_sector (c_sector1_addr c) s)" by simp
  show ?thesis by (rule kept_trans [OF k0 repair_kept [OF e kept_sector [OF k0]]])
next
  case RepairSecond
  then obtain r where e: "nvol3_repair c (use_sector (c_sector2_addr c) s) = Some (r, s')"
    using assms by (auto simp: apply_choice_def bind_eq_Some_conv)
  have k0: "kept s (use_sector (c_sector2_addr c) s)" by simp
  show ?thesis by (rule kept_trans [OF k0 repair_kept [OF e kept_sector [OF k0]]])
qed

lemma framed_trans: "framed a b \<Longrightarrow> framed b d \<Longrightarrow> framed a d"
  by (auto simp: framed_def intro: outside_trans heap_le_trans)

lemma init_kept:
  assumes "init_sectors c scratch s = Some (r, scratch', s')"
  shows "kept s s'"
proof -
  obtain v1 f1 v2 f2 g1 s1 g2 s2 s3 where
    1: "scrub_sector c (c_sector1_addr c) f1 s = Some (g1, s1)"
      "scrub_sector c (c_sector2_addr c) f2 s1 = Some (g2, s2)" and
    2: "apply_choice c (choose_sector g1 g2) (upd_inst (\<lambda>i. i\<lparr>i_next_idx := 0\<rparr>) s2) = Some s3" and
    3: "construct_lookup_table c scratch s3 = Some (r, scratch', s')"
    using assms by (auto simp: init_sectors_def bind_eq_Some_conv Let_def)
  have "framed s s2" using scrub_framed [OF 1(1)] scrub_framed [OF 1(2)] by (auto intro: framed_trans)
  then have "framed s (upd_inst (\<lambda>i. i\<lparr>i_next_idx := 0\<rparr>) s2)" by (simp add: framed_def)
  from framed_kept [OF this apply_choice_kept [OF 2]] have k: "kept s s3" .
  show ?thesis by (rule kept_trans [OF k construct_table_kept [OF 3 kept_sector [OF k]]])
qed

lemma load_framed:
  assumes "nvol3_load c s = Some (r, s')"
  shows "framed s s'"
proof -
  obtain a h where mal: "heap_malloc (hp s) (ucast (c_record_size c)) = (a, h)" by (metis surj_pair)
  let ?s = "upd_inst (\<lambda>i. i\<lparr>i_sector := 0, i_next_idx := 0, i_inuse := 0, i_invalid := 0\<rparr>) (s\<lparr>hp := h\<rparr>)"
  obtain d h2 where di: "dictionary_init h (c_keyspec c) (ucast (c_hashsize c)) = (d, h2)"
    by (metis surj_pair)
  note le = malloc_le [OF mal] dict_init_le [OF di]
  have f: "framed s (x\<lparr>hp := h2\<rparr>)" if "dev x = dev s" for x
    using le that by (auto simp: framed_def intro: heap_le_trans)
  show ?thesis
  proof (cases "a = None \<or> d = None")
    case True
    then show ?thesis
      using assms mal di le f [of "drop_dict ?s"]
      by (auto simp: nvol3_load_def Let_def framed_def drop_dict_def split: if_splits option.splits)
  next
    case False
    then obtain scr where "init_sectors c (fresh_record c h2 (the a)) ((set_dict (the d) ?s)\<lparr>hp := h2\<rparr>) =
        Some (r, scr, s')"
      using assms mal di by (auto simp: nvol3_load_def Let_def bind_eq_Some_conv split: if_splits)
    from kept_framed [OF init_kept [OF this]] f [of "set_dict (the d) ?s"] show ?thesis
      by (auto simp: set_dict_def intro: framed_trans)
  qed
qed

lemma reset_framed:
  assumes "nvol3_reset c s = Some (r, s')"
  shows "framed s s'"
proof -
  obtain r1 s1 r2 s2 where
    e: "erase_sector c (c_sector1_addr c) (c_sector_size c) (drop_dict s) = Some (r1, s1)"
      "erase_sector c (c_sector2_addr c) (c_sector_size c) s1 = Some (r2, s2)" and
    l: "nvol3_load c s2 = Some (r, s')"
    using assms by (auto simp: nvol3_reset_def bind_eq_Some_conv Let_def)
  have "framed s s2"
    using erase_frame [OF e(1)] erase_frame [OF e(2)]
    by (auto simp: framed_def drop_dict_def intro: outside_trans)
  with load_framed [OF l] show ?thesis by (blast intro: framed_trans)
qed

section \<open>The record interface\<close>

lemma old_record_kept:
  assumes "old_record c entry rec len s = Some (r, s')" "i_sector (inst s) \<in> sectors c"
  shows "kept s s'"
proof (cases entry)
  case None
  then show ?thesis using assms by (auto simp: old_record_def kept_def)
next
  case (Some v)
  obtain a h where mal: "heap_malloc (hp s) (ucast (c_record_size c)) = (a, h)" by (metis surj_pair)
  show ?thesis
    using assms mal Some malloc_le [OF mal]
    by (cases a) (auto simp: old_record_def kept_def bind_eq_Some_conv Let_def)
qed

lemma store_record_kept:
  assumes "store_record c idx rec s = Some (r, s')" "i_sector (inst s) \<in> sectors c"
    "unat (h_length (head rec)) + 8 \<le> rsz c"
  shows "kept s s'"
proof -
  obtain st s1 where w: "write_variable_record c (i_sector (inst s)) rec (i_next_idx (inst s)) s = Some (st, s1)"
    using assms(1) by (auto simp: store_record_def bind_eq_Some_conv)
  have k1: "kept s s1" by (rule write_record_kept [OF w assms(2,2,3)])
  note m1 = kept_sector [OF k1]
  show ?thesis
  proof (cases "st = EOK")
    case False
    then obtain r2 s2 where f: "set_variable_record_flags c (i_sector (inst s1)) NVOL3_RECORD_FLAGS_INVALID
        (i_next_idx (inst s1)) s1 = Some (r2, s2)" "s' = count_error (count_invalid (bump_idx s2))"
      using assms(1) w by (auto simp: store_record_def bind_eq_Some_conv)
    then show ?thesis using kept_trans [OF k1 set_flags_kept [OF f(1) m1 m1]] by simp
  next
    case True
    then obtain st2 s2 where f: "set_variable_record_flags c (i_sector (inst s1)) NVOL3_RECORD_FLAGS_VALID
        (i_next_idx (inst s1)) s1 = Some (st2, s2)"
      using assms(1) w by (auto simp: store_record_def bind_eq_Some_conv)
    have k2: "kept s s2" by (rule kept_trans [OF k1 set_flags_kept [OF f m1 m1]])
    note m2 = kept_sector [OF k2]
    show ?thesis
    proof (cases "st2 = EOK \<and> idx \<noteq> NVOL3_INVALID_VAR_IDX")
      case True
      let ?s = "count_inuse (bump_idx s2)"
      have m: "i_sector (inst ?s) \<in> sectors c" using m2 by simp
      obtain r3 s3 where f3: "set_variable_record_flags c (i_sector (inst ?s)) NVOL3_RECORD_FLAGS_INVALID
          idx ?s = Some (r3, s3)"
        and i: "insert_lookup_table c rec (i_next_idx (inst (count_invalid (uncount_inuse s3))) - 1)
          (count_invalid (uncount_inuse s3)) = Some (r, s')"
        using assms(1) w \<open>st = EOK\<close> f True
        by (auto simp: store_record_def bind_eq_Some_conv Let_def)
      have k3: "kept s s3"
        using kept_trans [OF k2, of s3] set_flags_kept [OF f3 m m] by simp
      show ?thesis
        using kept_trans [OF k3, of s'] insert_kept [OF i] kept_sector [OF k3] by simp
    next
      case False
      then show ?thesis
        using assms(1) w \<open>st = EOK\<close> f k2 m2
        by (auto simp: store_record_def bind_eq_Some_conv Let_def split: if_splits
            dest!: insert_kept intro: kept_trans)
    qed
  qed
qed

lemma record_set_kept:
  assumes "record_set c entry rec len s = Some (r, rec', s')" "i_sector (inst s) \<in> sectors c"
  shows "kept s s'"
proof (cases "\<not> record_room c \<ge> ucast len")
  case True
  then show ?thesis using assms by (auto simp: record_set_def kept_def)
next
  case False
  then have room: "unat len + 8 \<le> rsz c"
    using unat_room cfg_sizes(1) by (simp add: word_le_nat_alt)
  obtain d where d: "loaded_dict s = Some d" using assms(1) False by (auto simp: record_set_def bind_eq_Some_conv)
  show ?thesis
  proof (cases "dictionary_count d \<ge> of_nat (mxr c) - NVOL3_HEADROOM")
    case True
    then show ?thesis using assms False d by (auto simp: record_set_def max_records_eq kept_def)
  next
    case nfull: False
    obtain old s1 where o: "old_record c entry rec len s = Some (old, s1)"
      using assms(1) False d nfull by (auto simp: record_set_def max_records_eq bind_eq_Some_conv)
    have k1: "kept s s1" by (rule old_record_kept [OF o assms(2)])
    show ?thesis
    proof (cases old)
      case (Inl st)
      then show ?thesis using assms(1) False d nfull o k1 by (auto simp: record_set_def max_records_eq)
    next
      case (Inr idx)
      then obtain bs where bs: "\<not> 0xFFFF < len" "buf_read (key_and_data rec) 0 (unat len) = Some bs"
        using assms(1) False d nfull o
        by (auto simp: record_set_def max_records_eq bind_eq_Some_conv split: if_splits)
      let ?rec = "rec\<lparr>head := new_head len bs\<rparr>"
      let ?cb = "case c_write_cb c of None \<Rightarrow> EOK | Some f \<Rightarrow> f (inst s1) ?rec (c_ctx c)"
      have l: "unat (h_length (head ?rec)) + 8 \<le> rsz c"
        using room bs(1) by (simp add: new_head_def unat_ucast_u32_u16 word_less_nat_alt not_less)
      show ?thesis
      proof (cases "?cb = EOK")
        case True
        then obtain st where "store_record c idx ?rec s1 = Some (st, s')"
          using assms(1) False d nfull o Inr bs
          by (auto simp: record_set_def max_records_eq bind_eq_Some_conv Let_def split: if_splits option.splits)
        from kept_trans [OF k1 store_record_kept [OF this kept_sector [OF k1] l]] show ?thesis .
      next
        case cbn: False
        then show ?thesis
          using assms(1) False d nfull o Inr bs k1
          by (auto simp: record_set_def max_records_eq bind_eq_Some_conv Let_def split: if_splits option.splits)
      qed
    qed
  qed
qed

lemma swap_kept:
  assumes "swap_sectors c scratch s = Some (r, scratch', s')" "i_sector (inst s) \<in> sectors c"
  shows "kept s s'"
proof -
  obtain src dst where o: "other_sector c s = (src, dst)" by (metis surj_pair)
  note m = other_sector_mem [OF o]
  obtain st s1 where p: "prepare_sector c dst s = Some (st, s1)"
    using assms(1) o by (auto simp: swap_sectors_def bind_eq_Some_conv)
  have k1: "kept s s1" using prepare_kept [OF p] m assms(2) by blast
  show ?thesis
  proof (cases "st = EOK")
    case False
    then show ?thesis using assms(1) o p k1 by (auto simp: swap_sectors_def)
  next
    case True
    then obtain mm it st2 scr2 s2 where l: "swap_loop c scratch dst 0 mm it st s1 = Some (st2, scr2, s2)"
      and rest: "do { (status, scratch, s) \<leftarrow>
              (if st2 \<noteq> EOK
               then do { (status, scratch, s) \<leftarrow> move_sector c scr2 dst s2;
                         Some (if status \<noteq> EOK then EFAIL else EOK, scratch, s) }
               else do { (status, s) \<leftarrow> set_sector_flags c dst NVOL3_SECTOR_VALID s2;
                         Some (status, scr2, s) });
            if status \<noteq> EOK then Some (status, scratch, s)
            else do {
              let s = upd_inst (\<lambda>i. i\<lparr>i_sector := dst\<rparr>) s;
              (_, scratch, s) \<leftarrow> construct_lookup_table c scratch s;
              (status, s) \<leftarrow> erase_sector c src (c_sector_size c) s;
              Some (status, scratch, s) } } = Some (r, scratch', s')"
      using assms(1) o p by (auto simp: swap_sectors_def bind_eq_Some_conv)
    have k2: "kept s s2"
      by (rule kept_trans [OF k1 swap_loop_kept [OF l]]) (use m kept_sector [OF k1] in simp_all)
    note s2 = kept_sector [OF k2]
    obtain st3 scr3 s3 where k3: "kept s s3" and
      fin: "(if st3 \<noteq> EOK then Some (st3, scr3, s3)
            else do {
              let s = upd_inst (\<lambda>i. i\<lparr>i_sector := dst\<rparr>) s3;
              (_, scratch, s) \<leftarrow> construct_lookup_table c scr3 s;
              (status, s) \<leftarrow> erase_sector c src (c_sector_size c) s;
              Some (status, scratch, s) }) = Some (r, scratch', s')"
    proof (cases "st2 = EOK")
      case True
      with rest obtain st3 s3 where f: "set_sector_flags c dst NVOL3_SECTOR_VALID s2 = Some (st3, s3)"
        by (auto simp: bind_eq_Some_conv)
      have "kept s s3" by (rule kept_trans [OF k2 set_sector_flags_kept [OF f]]) (use m s2 in simp_all)
      with that [of s3 st3 scr2] rest True f show ?thesis by simp
    next
      case False
      with rest obtain st3 scr3 s3 where f: "move_sector c scr2 dst s2 = Some (st3, scr3, s3)"
        by (auto simp: bind_eq_Some_conv)
      have "kept s s3" by (rule kept_trans [OF k2 move_kept [OF f]]) (use m s2 in simp_all)
      with that [of s3 "if st3 \<noteq> EOK then EFAIL else EOK" scr3] rest False f show ?thesis
        by (cases "st3 = EOK") simp_all
    qed
    show ?thesis
    proof (cases "st3 = EOK")
      case False
      then show ?thesis using fin k3 by simp
    next
      case True
      let ?s = "upd_inst (\<lambda>i. i\<lparr>i_sector := dst\<rparr>) s3"
      have k4: "kept s ?s" using k3 m by (simp add: kept_def)
      obtain r5 scr5 s5 r6 where ct: "construct_lookup_table c scr3 ?s = Some (r5, scr5, s5)"
        and er: "erase_sector c src (c_sector_size c) s5 = Some (r6, s')"
        using fin True by (auto simp: bind_eq_Some_conv)
      have k5: "kept s s5"
        by (rule kept_trans [OF k4 construct_table_kept [OF ct kept_sector [OF k4]]])
      show ?thesis by (rule kept_trans [OF k5 erase_kept [OF er]]) (use m kept_sector [OF k5] in simp_all)
    qed
  qed
qed

lemma ensure_slot_kept:
  assumes "ensure_slot c s = Some (r, s')" "i_sector (inst s) \<in> sectors c"
  shows "kept s s'"
proof -
  obtain a h where mal: "heap_malloc (hp s) (ucast (c_record_size c)) = (a, h)" by (metis surj_pair)
  have k: "kept s (s\<lparr>hp := h\<rparr>)" using assms(2) malloc_le [OF mal] by (simp add: kept_def)
  show ?thesis
    using assms mal k
    by (cases a)
       (auto simp: ensure_slot_def max_records_eq bind_eq_Some_conv kept_refl split: if_splits
         dest!: swap_kept intro: kept_trans)
qed

lemma nvol3_record_set_kept:
  assumes "nvol3_record_set c rec len s = Some (r, rec', s')" "i_sector (inst s) \<in> sectors c"
  shows "kept s s'"
  using assms
  by (auto simp: nvol3_record_set_def bind_eq_Some_conv split: if_splits
      dest!: ensure_slot_kept record_set_kept dest: kept_sector intro: kept_trans)

lemma nvol3_record_delete_kept:
  assumes "nvol3_record_delete c rec s = Some (r, rec', s')" "i_sector (inst s) \<in> sectors c"
  shows "kept s s'"
  using assms
  by (auto simp: nvol3_record_delete_def bind_eq_Some_conv Let_def kept_refl
      split: option.splits dest!: set_flags_kept)

end

section \<open>Two volumes on one device\<close>

text \<open>A volume does not notice changes elsewhere on the device and in the heap.\<close>

lemma dict_inv_le: "dict_inv d h \<Longrightarrow> heap_le h h' \<Longrightarrow> dict_inv d h'"
  by (fastforce simp: dict_inv_def heap_le_def)

lemma header_cong:
  "(\<And>x. unat sec \<le> x \<Longrightarrow> x < unat sec + 16 \<Longrightarrow> m' x = m x) \<Longrightarrow> header m' sec = header m sec"
  unfolding header_def by (rule bytes_at_cong) simp

lemma slot_cong:
  assumes "\<And>x. unat sec \<le> x \<Longrightarrow> x < unat sec + (32 + rsz c * mxr c) \<Longrightarrow> m' x = m x" "j < mxr c"
  shows "slot m' c sec j = slot m c sec j"
proof -
  have "rsz c * j + rsz c \<le> rsz c * mxr c"
    using assms(2) by (metis Suc_leI add.commute mult_Suc_right mult_le_mono2)
  then show ?thesis
    unfolding slot_def slot_addr_def by (intro bytes_at_cong assms(1)) simp_all
qed

lemma nvol_inv_frame:
  assumes inv: "nvol_inv mem c s" and i: "inst s' = inst s" and h: "heap_le (hp s) (hp s')"
    and m: "\<And>sec x. sec \<in> sectors c \<Longrightarrow> unat sec \<le> x \<Longrightarrow> x < unat sec + (32 + rsz c * mxr c) \<Longrightarrow>
      mem (dev s') x = mem (dev s) x"
  shows "nvol_inv mem c s'" "vol_map mem c s' = vol_map mem c s"
proof -
  note D = nvol_inv_D [OF inv]
  have hd: "header (mem (dev s')) sec = header (mem (dev s)) sec" if "sec \<in> sectors c" for sec
    by (rule header_cong) (use m [OF that] in simp)
  have sl: "slot (mem (dev s')) c sec j = slot (mem (dev s)) c sec j" if "sec \<in> sectors c" "j < mxr c" for sec j
    by (rule slot_cong) (use m [OF that(1)] that(2) in simp_all)
  have vs: "vol_slots mem c s' j = vol_slots mem c s j" if "j < mxr c" for j
    using sl [OF D(1) that] by (simp add: vol_slots_def i)
  have n: "unat (i_next_idx (inst s)) \<le> mxr c" using D(2) by (simp add: sector_inv_def)
  have ix: "vol_index mem c s' = vol_index mem c s"
    unfolding vol_index_def i by (rule scan_cong) (use vs n in simp)
  then show "vol_map mem c s' = vol_map mem c s" by (simp add: vol_map_def)
  have "sector_inv c (vol_slots mem c s') (unat (i_next_idx (inst s)))"
    using D(2) sector_inv_cong [of c "vol_slots mem c s'" "vol_slots mem c s"] vs by blast
  moreover have "table_is c s' (vol_index mem c s)"
    using D(3) dict_inv_le [OF _ h] by (auto simp: table_is_def i)
  moreover have "blank_sector (mem (dev s')) c sec" if "sec \<in> sectors c" "sec \<noteq> i_sector (inst s)" for sec
    using D(5) [OF that] hd [OF that(1)] sl [OF that(1)] by (simp add: blank_sector_def)
  ultimately show "nvol_inv mem c s'"
    using D(1,4) hd [OF D(1)] by (simp add: nvol_inv_def i ix)
qed

end
