(* ===== verification/Nvol_Power.thy ===== *)
theory Nvol_Power
  imports Nvol_Load Nvol_Frame
begin

text \<open>
  Power failures during a swap.  A device is wrapped so that it keeps the list of all its states:
  the one after each write and each erase, and those in which a write or an erase was cut short,
  with only its first bytes programmed or erased.  A run of \<^verbatim>\<open>swap_sectors\<close> on the wrapped device
  leaves in this list everything that a power failure could leave on the real one, and a load from
  each of these states finds the map the volume had before the swap.
\<close>

unbundle bit_operations_syntax

section \<open>A device that remembers its states\<close>

text \<open>What an interrupted write or erase leaves: the effect on its first bytes, in some number.\<close>

definition cut_writes :: "'f flash_ops \<Rightarrow> 'f \<Rightarrow> u32 \<Rightarrow> u32 \<Rightarrow> u8 list \<Rightarrow> 'f list" where
  "cut_writes ops f a n ds =
     List.map_filter (\<lambda>i. map_option snd (f_write ops f a (of_nat i) (take i ds))) [0..<unat n]"

definition cut_erases :: "'f flash_ops \<Rightarrow> 'f \<Rightarrow> u32 \<Rightarrow> u32 \<Rightarrow> 'f list" where
  "cut_erases ops f a b =
     List.map_filter (\<lambda>i. map_option snd (f_erase ops f a (a + of_nat i))) [0..<unat (b - a)]"

text \<open>The newest state is the first of the list.\<close>

definition logged :: "'f flash_ops \<Rightarrow> 'f list flash_ops" where
  "logged ops = \<lparr>
     f_read = (\<lambda>h a n. f_read ops (hd h) a n),
     f_write = (\<lambda>h a n ds. do { (status, f) \<leftarrow> f_write ops (hd h) a n ds;
                                Some (status, f # cut_writes ops (hd h) a n ds @ h) }),
     f_erase = (\<lambda>h a b. do { (status, f) \<leftarrow> f_erase ops (hd h) a b;
                             Some (status, f # cut_erases ops (hd h) a b @ h) })\<rparr>"

definition logged_config :: "'f nvol_config \<Rightarrow> 'f list nvol_config" where
  "logged_config c =
     \<lparr>c_flash = logged (c_flash c), c_sector1_addr = c_sector1_addr c, c_sector2_addr = c_sector2_addr c,
      c_sector_size = c_sector_size c, c_record_size = c_record_size c, c_local_size = c_local_size c,
      c_key_size = c_key_size c, c_hashsize = c_hashsize c, c_keyspec = c_keyspec c,
      c_version = c_version c, c_write_cb = c_write_cb c, c_ctx = c_ctx c\<rparr>"

definition logged_state :: "'f nvol \<Rightarrow> 'f list nvol" where
  "logged_state s = \<lparr>dev = [dev s], hp = hp s, inst = inst s\<rparr>"

text \<open>
  A load from the device state \<open>f\<close>, with whatever is in RAM, opens a volume with the map \<open>m\<close>: every
  get finds what \<open>m\<close> holds.  The other sector is then erased, unless it is sector 1 and only a
  part of it, its header included, was erased before.
\<close>

definition gets :: "'f nvol_config \<Rightarrow> (u8 list \<rightharpoonup> u8 list) \<Rightarrow> 'f nvol \<Rightarrow> bool" where
  "gets c m s \<longleftrightarrow>
     (\<forall>rec. rec_buf c rec \<longrightarrow>
        (case m (take (ksz c) (key_and_data rec)) of
           None \<Rightarrow> nvol3_record_get c rec s = Some (E_NOTFOUND, rec\<lparr>head := zero_head\<rparr>)
         | Some v \<Rightarrow> \<exists>rec'. nvol3_record_get c rec s = Some (int (ksz c + length v), rec') \<and>
             take (ksz c + length v) (key_and_data rec') = take (ksz c) (key_and_data rec) @ v))"

definition recovers ::
  "('f \<Rightarrow> nat \<Rightarrow> u8) \<Rightarrow> 'f nvol_config \<Rightarrow> (u8 list \<rightharpoonup> u8 list) \<Rightarrow> 'f \<Rightarrow> bool" where
  "recovers mem c m f \<longleftrightarrow>
     (\<forall>s. dev s = f \<and> plenty (hp s) \<longrightarrow>
        (\<exists>s'. nvol3_load c s = Some (EOK, s') \<and> vol_map mem c s' = m \<and> gets c m s' \<and>
           ((hdr_flags (header (mem f) (c_sector1_addr c)) = NVOL3_SECTOR_EMPTY \<longrightarrow>
               blank_sector (mem f) c (c_sector1_addr c)) \<longrightarrow> nvol_inv mem c s')))"

lemma map_filter_Some: "(\<And>x. x \<in> set xs \<Longrightarrow> f x = Some (g x)) \<Longrightarrow> List.map_filter f xs = map g xs"
  by (induction xs) (auto simp: List.map_filter_def)

context flash_driver
begin

definition log_prog :: "'f list \<Rightarrow> nat \<Rightarrow> u8 list \<Rightarrow> 'f list" where
  "log_prog h p ds = prog (hd h) p ds # map (\<lambda>i. prog (hd h) p (take i ds)) [0..<length ds] @ h"

definition log_blank :: "'f list \<Rightarrow> nat \<Rightarrow> nat \<Rightarrow> 'f list" where
  "log_blank h p q = blank (hd h) p q # map (\<lambda>i. blank (hd h) p (p + i)) [0..<q - p] @ h"

lemma logged_driver: "flash_driver (logged ops) (\<lambda>h. mem (hd h)) log_prog log_blank size"
proof unfold_locales
  fix h :: "'f list" and a n :: u32 and ds :: "u8 list"
  assume a: "unat a + unat n < size" "length ds = unat n"
  have "f_write ops (hd h) a (of_nat i) (take i ds) = Some (EOK, prog (hd h) (unat a) (take i ds))"
    if "i < unat n" for i
  proof -
    have "i < 2 ^ 32" using order.strict_trans [OF that unsigned_less] by simp
    then have "unat (of_nat i :: u32) = i" by (intro unat_of_nat_u32) simp
    then show ?thesis using drv_write [of a "of_nat i" "take i ds" "hd h"] a that by simp
  qed
  then have "cut_writes ops (hd h) a n ds = map (\<lambda>i. prog (hd h) (unat a) (take i ds)) [0..<unat n]"
    unfolding cut_writes_def by (intro map_filter_Some) simp
  then show "f_write (logged ops) h a n ds = Some (EOK, log_prog h (unat a) ds)"
    using drv_write [OF a, of "hd h"] a(2) by (simp add: logged_def log_prog_def)
next
  fix h :: "'f list" and a b :: u32
  assume a: "unat a \<le> unat b" "unat a < size"
  have u: "unat (b - a) = unat b - unat a" using a(1) by (simp add: unat_sub word_le_nat_alt)
  have "f_erase ops (hd h) a (a + of_nat i) = Some (EOK, blank (hd h) (unat a) (unat a + i))"
    if "i < unat (b - a)" for i
  proof -
    have "unat a + i < unat b" using that u by simp
    then have i: "unat a + i < 2 ^ 32" using order.strict_trans [OF _ unsigned_less] by fastforce
    then have "unat (of_nat i :: u32) = i" by (intro unat_of_nat_u32) simp
    with i have "unat (a + of_nat i) = unat a + i" by (subst unat_add_lt) simp_all
    then show ?thesis using drv_erase [of a "a + of_nat i" "hd h"] a by simp
  qed
  then have "cut_erases ops (hd h) a b = map (\<lambda>i. blank (hd h) (unat a) (unat a + i)) [0..<unat b - unat a]"
    unfolding cut_erases_def u [symmetric] by (intro map_filter_Some) simp
  then show "f_erase (logged ops) h a b = Some (EOK, log_blank h (unat a) (unat b))"
    using drv_erase [OF a, of "hd h"] by (simp add: logged_def log_blank_def)
qed (use size_u32 drv_read mem_prog mem_blank in \<open>simp_all add: logged_def log_prog_def log_blank_def\<close>)

end

section \<open>The configuration and the state with the wrapped device\<close>

lemma logged_fields [simp]:
  "c_flash (logged_config c) = logged (c_flash c)"
  "c_sector1_addr (logged_config c) = c_sector1_addr c" "c_sector2_addr (logged_config c) = c_sector2_addr c"
  "c_sector_size (logged_config c) = c_sector_size c" "c_record_size (logged_config c) = c_record_size c"
  "c_local_size (logged_config c) = c_local_size c" "c_key_size (logged_config c) = c_key_size c"
  "c_hashsize (logged_config c) = c_hashsize c" "c_keyspec (logged_config c) = c_keyspec c"
  "c_version (logged_config c) = c_version c"
  "dev (logged_state s) = [dev s]" "hp (logged_state s) = hp s" "inst (logged_state s) = inst s"
  by (simp_all add: logged_config_def logged_state_def)

lemma logged_layout [simp]:
  "rsz (logged_config c) = rsz c" "ksz (logged_config c) = ksz c" "mxr (logged_config c) = mxr c"
  "sectors (logged_config c) = sectors c" "slot_addr (logged_config c) = slot_addr c"
  "slot m (logged_config c) = slot m c" "blank_slot (logged_config c) = blank_slot c"
  "blank_sector m (logged_config c) = blank_sector m c" "record_room (logged_config c) = record_room c"
  "head_status (logged_config c) = head_status c" "sector_record (logged_config c) = sector_record c"
  "fixed_key (logged_config c) = fixed_key c" "rec_buf (logged_config c) = rec_buf c"
  "header_ok (logged_config c) = header_ok c" "entry_of (logged_config c) = entry_of c"
  by (simp_all add: rsz_def ksz_def mxr_def sectors_def slot_addr_def slot_def blank_slot_def
      blank_sector_def record_room_def head_status_def sector_record_def fixed_key_def rec_buf_def
      header_ok_def entry_of_def cached_def fun_eq_iff)

lemma logged_slots [simp]:
  "valid_slot (logged_config c) = valid_slot c" "live (logged_config c) = live c"
  "keyed_slots (logged_config c) = keyed_slots c" "unique_keys (logged_config c) = unique_keys c"
  by (simp_all add: valid_slot_def live_def keyed_slots_def unique_keys_def fun_eq_iff)

lemma logged_scan [simp]: "scan (logged_config c) sl n = scan c sl n"
  by (induction n) (auto split: option.split)

lemma logged_inv [simp]:
  "sector_inv (logged_config c) = sector_inv c"
  "vol_map (\<lambda>h. mem (hd h)) (logged_config c) (logged_state s) = vol_map mem c s"
  "nvol_inv (\<lambda>h. mem (hd h)) (logged_config c) (logged_state s) = nvol_inv mem c s"
  by (simp_all add: sector_inv_def vol_map_def vol_index_def vol_slots_def nvol_inv_def table_is_def fun_eq_iff)

section \<open>The device through a swap\<close>

context volume
begin

definition slot_stable :: "('f \<Rightarrow> bool) \<Rightarrow> u32 \<Rightarrow> bool" where
  "slot_stable P sec \<longleftrightarrow>
     (\<forall>f i ds. P f \<longrightarrow> i < mxr c \<longrightarrow> length ds \<le> rsz c \<longrightarrow> P (prog f (slot_addr c sec i) ds))"

lemma write_record_stable:
  assumes "write_variable_record c sec rec idx s = Some (r, s')" "sec \<in> sectors c"
    "unat (h_length (head rec)) + 8 \<le> rsz c" "slot_stable P sec" "P (dev s)"
  shows "P (dev s')"
proof (cases "unat idx < mxr c \<and> h_flags (head rec) \<noteq> 0")
  case False
  then show ?thesis using assms(1,5)
    by (auto simp: write_variable_record_def max_records_eq split: if_splits)
next
  case True
  let ?n = "unat (h_length (head rec))"
  obtain data where data: "buf_read (key_and_data rec) 0 ?n = Some data"
    using assms(1) True by (auto simp: write_variable_record_def max_records_eq bind_eq_Some_conv)
  then have len: "length (enc_head (head rec) @ data) = ?n + 8" by (auto simp: buf_read_def split: if_splits)
  have un: "unat (ucast (h_length (head rec)) + SIZEOF_HEAD) = ?n + 8"
    by (subst unat_add_lt)
       (use unat_u16_lt [of "h_length (head rec)"] in
         \<open>simp_all add: SIZEOF_HEAD_def del: unat_u16_lt\<close>)
  have i: "unat idx < mxr c" using True by simp
  have "f_write ops (dev s) (sec + record_offset c idx)
        (ucast (h_length (head rec)) + SIZEOF_HEAD) (enc_head (head rec) @ data) =
      Some (EOK, prog (dev s) (slot_addr c sec (unat idx)) (enc_head (head rec) @ data))"
    using drv_write [of "sec + record_offset c idx" "ucast (h_length (head rec)) + SIZEOF_HEAD"
        "enc_head (head rec) @ data" "dev s"]
      record_offset_unat(2) [OF assms(2) i] slot_access [OF assms(2) i assms(3)] un len by simp
  then have "dev s' = prog (dev s) (slot_addr c sec (unat idx)) (enc_head (head rec) @ data)"
    using assms(1) True data by (auto simp: write_variable_record_def max_records_eq)
  then show ?thesis using assms(3-5) i len unfolding slot_stable_def by simp
qed

lemma swap_loop_stable:
  assumes "swap_loop c scratch dst dst_idx m it st s = Some (r, scratch', s')" "dst \<in> sectors c"
    "slot_stable P dst" "P (dev s)"
  shows "P (dev s')"
proof -
  have "cc = c \<longrightarrow> dst' = dst \<longrightarrow> P (dev s) \<longrightarrow> P (dev (snd (snd r)))"
    if "swap_loop cc scratch dst' dst_idx m it st s = Some r"
    for cc :: "'f nvol_config" and scratch dst' dst_idx m it st s r
    using that
  proof (rule swap_loop.raw_induct [rotated])
    fix f and cc :: "'f nvol_config" and scratch dst' dst_idx m it st s r
    assume IH: "\<And>cc scratch dst' dst_idx m it st s r. f cc scratch dst' dst_idx m it st s = Some r \<Longrightarrow>
        cc = c \<longrightarrow> dst' = dst \<longrightarrow> P (dev s) \<longrightarrow> P (dev (snd (snd r)))"
      and eq: "(case m of
        None \<Rightarrow> Some (st, scratch, s)
      | Some np \<Rightarrow>
          do { d \<leftarrow> loaded_dict s;
               e \<leftarrow> dec_entry (dictionary_get_value d np);
               (status, scratch) \<leftarrow> read_variable_record cc scratch (e_idx e) 0 s;
               if status \<noteq> EOK then Some (status, scratch, s)
               else do {
                 (status, s) \<leftarrow> write_variable_record cc dst' scratch dst_idx s;
                 if status \<noteq> EOK then Some (status, scratch, s)
                 else do {
                   d \<leftarrow> dict_write_value d (naddr np) 0 (le16 dst_idx);
                   (m, it) \<leftarrow> dictionary_it_next d it;
                   f cc scratch dst' (dst_idx + 1) m it status (set_dict d s) } } }) = Some r"
    show "cc = c \<longrightarrow> dst' = dst \<longrightarrow> P (dev s) \<longrightarrow> P (dev (snd (snd r)))"
    proof (intro impI)
      assume e: "cc = c" "dst' = dst" "P (dev s)"
      note IH' = IH [rule_format, OF _ refl refl]
      note wr = write_record_stable [OF _ assms(2) _ assms(3)]
      have d: "dev (set_dict d s) = dev s" for d and s :: "'f nvol" by (simp add: set_dict_def)
      show "P (dev (snd (snd r)))"
        using eq e(3) unfolding e(1,2)
        by (cases m)
           (auto simp: bind_eq_Some_conv d split: if_splits
            dest!: IH' wr dest: read_status_length [simplified])
    qed
  qed
  from this [OF assms(1)] assms(4) show ?thesis by simp
qed

lemma set_sector_flags_dev:
  assumes "set_sector_flags c sec flags s = Some (r, s')" "sec \<in> sectors c"
  shows "dev s' = prog (dev s) (unat sec) (sector_record c flags)" "inst s' = inst s" "hp s' = hp s"
proof -
  have len: "length (sector_record c flags) = 16" by (simp add: sector_record_def)
  have "f_write ops (dev s) sec 16 (sector_record c flags) =
      Some (EOK, prog (dev s) (unat sec) (sector_record c flags))"
    using drv_write [of sec 16 "sector_record c flags" "dev s"] sector_bounds(1) [OF assms(2)] len by simp
  then show "dev s' = prog (dev s) (unat sec) (sector_record c flags)" "inst s' = inst s" "hp s' = hp s"
    using assms(1) by (auto simp: set_sector_flags_def bind_eq_Some_conv Let_def)
qed

lemma erase_dev:
  assumes "erase_sector c sec (c_sector_size c) s = Some (r, s')" "sec \<in> sectors c"
  shows "dev s' = blank (dev s) (unat sec) (unat sec + unat (c_sector_size c))"
proof -
  note b = sector_bounds [OF assms(2)]
  have u: "unat (sec + c_sector_size c) = unat sec + unat (c_sector_size c)"
    using b(2) by (intro unat_add_lt) simp
  have "f_erase ops (dev s) sec (sec + c_sector_size c) =
      Some (EOK, blank (dev s) (unat sec) (unat sec + unat (c_sector_size c)))"
    using drv_erase [of sec "sec + c_sector_size c" "dev s"] b u by simp
  then show ?thesis using assms(1) by (auto simp: erase_sector_def bind_eq_Some_conv)
qed

text \<open>Building the table over a sector without corrupt records writes nothing.\<close>

lemma insert_dev:
  assumes "insert_lookup_table c rec idx s = Some (r, s')"
  shows "dev s' = dev s \<and> i_sector (inst s') = i_sector (inst s)"
proof -
  define n where "n = SIZEOF_ENTRY +
    (if ucast (h_length (head rec)) - ucast (c_key_size c) > (ucast (c_local_size c) :: u32) then 0
     else ucast (h_length (head rec)) - ucast (c_key_size c))"
  obtain d key where dk: "loaded_dict s = Some d" "dict_key_at (d_keyspec d) (key_and_data rec) = Some key"
    using assms by (auto simp: insert_lookup_table_def bind_eq_Some_conv Let_def)
  obtain np d' h where i: "dictionary_install_size (snd (dictionary_remove d key)) key n (hp s) = (np, d', h)"
    by (metis prod_cases3)
  show ?thesis
    using assms dk i
    by (cases np) (auto simp: insert_lookup_table_def n_def bind_eq_Some_conv set_dict_def Let_def)
qed

definition sound_slots :: "(nat \<Rightarrow> u8 list) \<Rightarrow> bool" where
  "sound_slots sl \<longleftrightarrow> (\<forall>i < mxr c. head_status c (dec_head (sl i)) = EOK \<longrightarrow> valid_slot c (sl i))"

lemma construct_loop_dev:
  assumes "construct_loop c scratch idx st s = Some (st', idx', scratch', s')"
    "i_sector (inst s) \<in> sectors c" "rec_buf c scratch"
    "sound_slots (slot (mem (dev s)) c (i_sector (inst s)))"
  shows "dev s' = dev s"
proof -
  have "cc = c \<longrightarrow> i_sector (inst s) \<in> sectors c \<longrightarrow> rec_buf c scratch \<longrightarrow>
      sound_slots (slot (mem (dev s)) c (i_sector (inst s))) \<longrightarrow> dev (snd (snd (snd r))) = dev s"
    if "construct_loop cc scratch idx st s = Some r" for cc :: "'f nvol_config" and scratch idx st s r
    using that
  proof (rule construct_loop.raw_induct [rotated])
    fix f and cc :: "'f nvol_config" and scratch idx st s r
    assume IH: "\<And>cc scratch idx st s r. f cc scratch idx st s = Some r \<Longrightarrow>
        cc = c \<longrightarrow> i_sector (inst s) \<in> sectors c \<longrightarrow> rec_buf c scratch \<longrightarrow>
        sound_slots (slot (mem (dev s)) c (i_sector (inst s))) \<longrightarrow> dev (snd (snd (snd r))) = dev s"
      and eq: "do { mx \<leftarrow> max_records cc;
          if \<not> ucast idx < mx then Some (st, idx, scratch, s)
          else do {
            (status, scratch) \<leftarrow> read_variable_record cc scratch idx 0 s;
            if status = E_EMPTY then Some (Some EOK, idx, scratch, s)
            else if status = E_TIMEOUT
                 then f cc scratch (idx + 1) (Some EOK) (count_invalid s)
            else if status = E_INVALID
                 then f cc scratch (idx + 1) (Some EOK) (count_invalid s)
            else if status \<noteq> EOK
                 then f cc scratch (idx + 1) (Some EOK) (count_error s)
            else do {
              v \<leftarrow> variable_record_valid scratch;
              if v = EOK
              then do {
                (status, s) \<leftarrow> insert_lookup_table cc scratch idx s;
                if status \<noteq> EOK then Some (Some status, idx, scratch, s)
                else f cc scratch (idx + 1) (Some status) (count_inuse s) }
              else do {
                (_, s) \<leftarrow> set_variable_record_flags cc (i_sector (inst s))
                            NVOL3_RECORD_FLAGS_INVALID idx s;
                f cc scratch (idx + 1) (Some status)
                  (count_invalid (count_error s)) } } } } = Some r"
    show "cc = c \<longrightarrow> i_sector (inst s) \<in> sectors c \<longrightarrow> rec_buf c scratch \<longrightarrow>
        sound_slots (slot (mem (dev s)) c (i_sector (inst s))) \<longrightarrow> dev (snd (snd (snd r))) = dev s"
    proof (intro impI)
      assume e: "cc = c" and sec: "i_sector (inst s) \<in> sectors c" and rb: "rec_buf c scratch"
        and snd: "sound_slots (slot (mem (dev s)) c (i_sector (inst s)))"
      note IH' = IH [rule_format, OF _ refl]
      have cnt: "dev (count_invalid s) = dev s" "dev (count_error s) = dev s" "dev (count_inuse s) = dev s"
        for s :: "'f nvol" by (simp_all add: count_invalid_def count_error_def count_inuse_def)
      show "dev (snd (snd (snd r))) = dev s"
      proof (cases "unat idx < mxr c")
        case False
        then show ?thesis using eq by (auto simp: e max_records_eq)
      next
        case True
        let ?b = "slot (mem (dev s)) c (i_sector (inst s)) (unat idx)"
        note rd = read_record_ok [OF sec True rb refl]
        show ?thesis
        proof (cases "head_status c (dec_head ?b) = EOK")
          case False
          then show ?thesis
            using eq rd True sec snd unfolding e
            by (auto simp: max_records_eq cnt split: if_splits dest!: IH')
        next
          case st: True
          then have "valid_slot c ?b" using snd True by (simp add: sound_slots_def)
          then have "variable_record_valid (read_result c ?b scratch) = Some EOK"
            using record_valid_iff [OF _ rb st] by simp
          then show ?thesis
            using eq rd True sec snd st unfolding e
            by (auto simp: max_records_eq cnt bind_eq_Some_conv split: if_splits
                dest!: IH' insert_dev)
        qed
      qed
    qed
  qed
  from this [OF assms(1)] assms(2-) show ?thesis by simp
qed

lemma construct_table_dev:
  assumes "construct_lookup_table c scratch s = Some (r, scratch', s')"
    "i_sector (inst s) \<in> sectors c" "rec_buf c scratch"
    "sound_slots (slot (mem (dev s)) c (i_sector (inst s)))"
  shows "dev s' = dev s"
  using assms
  by (auto simp: construct_lookup_table_def bind_eq_Some_conv Let_def set_dict_def
      split: if_splits dest!: construct_loop_dev)

lemma sound_of_inv:
  assumes "sector_inv c sl n" "\<forall>i < n. valid_slot c (sl i)"
  shows "sound_slots sl"
  unfolding sound_slots_def
proof (intro allI impI)
  fix i assume i: "i < mxr c" "head_status c (dec_head (sl i)) = EOK"
  show "valid_slot c (sl i)"
  proof (cases "i < n")
    case False
    then have "sl i = blank_slot c" using assms(1) i(1) by (simp add: sector_inv_def)
    then have "h_flags (dec_head (sl i)) = NVOL3_RECORD_FLAGS_EMPTY"
      using cfg_sizes(1) by (simp add: blank_slot_def record_flags_defs)
    then show ?thesis using i(2) by (simp add: head_status_def)
  qed (use assms(2) in simp)
qed

text \<open>
  A swap drives the device through three phases: \<open>P1\<close> while records are copied, \<open>P2\<close> from the
  validation of the destination, \<open>P3\<close> after the erase of the source.
\<close>

definition holds_map :: "'f \<Rightarrow> u32 \<Rightarrow> (u8 list \<rightharpoonup> u8 list) \<Rightarrow> bool" where
  "holds_map f sec m \<longleftrightarrow>
     (\<exists>n. sector_inv c (slot (mem f) c sec) n \<and>
        (\<forall>k. map_option snd (scan c (slot (mem f) c sec) n k) = m k))"

lemma holds_map_same:
  assumes "holds_map f sec m" "\<And>j. j < mxr c \<Longrightarrow> slot (mem f') c sec j = slot (mem f) c sec j"
  shows "holds_map f' sec m"
proof -
  obtain n where n: "sector_inv c (slot (mem f) c sec) n"
    "\<forall>k. map_option snd (scan c (slot (mem f) c sec) n k) = m k"
    using assms(1) by (auto simp: holds_map_def)
  then have "n \<le> mxr c" by (simp add: sector_inv_def)
  then have "scan c (slot (mem f') c sec) n = scan c (slot (mem f) c sec) n"
    by (intro scan_slots_cong assms(2))
  with n sector_inv_cong [of c "slot (mem f') c sec" "slot (mem f) c sec" n] assms(2) show ?thesis
    unfolding holds_map_def by (intro exI [of _ n]) simp
qed

lemma swap_trace:
  assumes inv: "nvol_inv mem c s" and pl: "plenty (hp s)" and rb: "rec_buf c scratch"
    and dst: "dst \<in> sectors c" "dst \<noteq> i_sector (inst s)"
    and init: "P1 (prog (dev s) (unat dst) (sector_record c NVOL3_SECTOR_INITIALIZING))"
    and copy: "slot_stable P1 dst"
    and valid: "\<And>f. P1 f \<Longrightarrow> header (mem f) dst = sector_record c NVOL3_SECTOR_INITIALIZING \<Longrightarrow>
        holds_map f dst (vol_map mem c s) \<Longrightarrow>
        P2 (prog f (unat dst) (sector_record c NVOL3_SECTOR_VALID))"
    and erase: "\<And>f. P2 f \<Longrightarrow> header (mem f) dst = sector_record c NVOL3_SECTOR_VALID \<Longrightarrow>
        holds_map f dst (vol_map mem c s) \<Longrightarrow>
        P3 (blank f (unat (i_sector (inst s))) (unat (i_sector (inst s)) + unat (c_sector_size c)))"
  shows "\<exists>scratch' s'. swap_sectors c scratch s = Some (EOK, scratch', s') \<and>
    nvol_inv mem c s' \<and> i_sector (inst s') = dst \<and> P3 (dev s')"
proof -
  let ?src = "i_sector (inst s)"
  note src = nvol_inv_D(1) [OF inv]
  obtain dst' d m it s1 s2 s3 s4 s' scratch1 scratch2 j where p:
    "other_sector c s = (?src, dst')" "dst' \<in> sectors c" "dst' \<noteq> ?src"
    "prepare_sector c dst' s = Some (EOK, s1)" "loaded_dict s1 = Some d" "inst s1 = inst s"
    "dictionary_it_first d None = Some (m, it)"
    "swap_loop c scratch dst' 0 m it EOK s1 = Some (EOK, scratch1, s2)" "rec_buf c scratch1"
    "header (mem (dev s2)) dst' = sector_record c NVOL3_SECTOR_INITIALIZING"
    "sector_inv c (slot (mem (dev s2)) c dst') j" "\<forall>i < j. valid_slot c (slot (mem (dev s2)) c dst' i)"
    "\<forall>k. map_option snd (scan c (slot (mem (dev s2)) c dst') j k) = vol_map mem c s k"
    "set_sector_flags c dst' NVOL3_SECTOR_VALID s2 = Some (EOK, s3)"
    "construct_lookup_table c scratch1 (upd_inst (\<lambda>i. i\<lparr>i_sector := dst'\<rparr>) s3) = Some (EOK, scratch2, s4)"
    "erase_sector c ?src (c_sector_size c) s4 = Some (EOK, s')" "rec_buf c scratch2"
    "nvol_inv mem c s'" "plenty (hp s')" "i_sector (inst s') = dst'"
    "unat (i_next_idx (inst s')) = card (dom (vol_map mem c s))" "vol_map mem c s' = vol_map mem c s"
    by (rule swap_phases [OF inv pl rb])
  have [simp]: "dst' = dst" using p(2,3) dst src by (auto simp: sectors_def)
  have "hdr_flags (header (mem (dev s)) dst) = NVOL3_SECTOR_EMPTY"
    using nvol_inv_D(5) [OF inv dst] by (simp add: blank_sector_def)
  then have "set_sector_flags c dst NVOL3_SECTOR_INITIALIZING s = Some (EOK, s1)"
    using p(4) get_sector_version_ok [OF dst(1), of s] by (simp add: prepare_sector_def)
  then have "P1 (dev s1)" using init set_sector_flags_dev(1) dst(1) by simp
  with p(8) have P1: "P1 (dev s2)" using swap_loop_stable [OF _ dst(1) copy] by simp
  have h2: "holds_map (dev s2) dst (vol_map mem c s)" using p(11,13) by (auto simp: holds_map_def)
  obtain f3 where f3: "set_sector_flags c dst NVOL3_SECTOR_VALID s2 = Some (EOK, s2\<lparr>dev := f3\<rparr>)"
    "header_update c (mem (dev s2)) dst (sector_record c NVOL3_SECTOR_VALID) (mem f3)"
    using set_sector_flags_header [OF dst(1), of s2 NVOL3_SECTOR_VALID NVOL3_SECTOR_VALID] p(10)
    by (auto simp: sector_record_AND flags_init_valid)
  then have s3: "s3 = s2\<lparr>dev := f3\<rparr>" using p(14) by simp
  have same: "slot (mem f3) c dst i = slot (mem (dev s2)) c dst i" if "i < mxr c" for i
    using header_updateD(1) [OF f3(2) dst(1) that] .
  have P2: "P2 f3" using valid [OF P1 _ h2] p(10) set_sector_flags_dev(1) [OF f3(1) dst(1)] by simp
  have h3: "header (mem f3) dst = sector_record c NVOL3_SECTOR_VALID"
    using header_updateD(2) [OF f3(2) dst(1)] by simp
  have hm3: "holds_map f3 dst (vol_map mem c s)" by (rule holds_map_same [OF h2 same])
  have "sector_inv c (slot (mem f3) c dst) j"
    using p(11) sector_inv_cong [of c "slot (mem f3) c dst" "slot (mem (dev s2)) c dst" j] same by simp
  moreover have "j \<le> mxr c" using p(11) by (simp add: sector_inv_def)
  then have "\<forall>i < j. valid_slot c (slot (mem f3) c dst i)" using p(12) same by simp
  ultimately have "sound_slots (slot (mem f3) c dst)" by (rule sound_of_inv)
  then have "dev s4 = f3"
    using construct_table_dev [OF p(15) _ p(9)] dst(1) s3 by simp
  then have "P3 (dev s')" using erase [OF P2 h3 hm3] erase_dev [OF p(16) src] by simp
  moreover have "swap_sectors c scratch s = Some (EOK, scratch2, s')"
    using p(1,4,5,7,8,14,15,16) by (simp add: swap_sectors_def Let_def)
  ultimately show ?thesis using p(18,20) by auto
qed

section \<open>What a load recovers\<close>

lemma gets_open: "nvol_open mem c s \<Longrightarrow> gets c (vol_map mem c s) s"
  using open_get_absent open_get_present by (fastforce simp: gets_def split: option.split)

lemma load_finds:
  assumes sec: "sec \<in> sectors c" and h: "header_ok c (header (mem f) sec)" and m: "holds_map f sec m"
    and other: "sec = c_sector2_addr c \<Longrightarrow>
      hdr_flags (header (mem f) (c_sector1_addr c)) \<noteq> NVOL3_SECTOR_VALID"
  shows "recovers mem c m f"
  unfolding recovers_def
proof (intro allI impI)
  fix s :: "'f nvol" assume s: "dev s = f \<and> plenty (hp s)"
  then have pl: "plenty (hp s)" and d: "dev s = f" by simp_all
  obtain n where n: "sector_inv c (slot (mem f) c sec) n"
    "\<forall>k. map_option snd (scan c (slot (mem f) c sec) n k) = m k" using m by (auto simp: holds_map_def)
  have sh: "sector_holds c (mem (dev s)) sec n" using h n(1) d by (simp add: sector_holds_def)
  have vm: "vol_map mem c s' = m" if "vol_index mem c s' = scan c (slot (mem (dev s)) c sec) n" for s'
    using that n(2) d by (auto simp: vol_map_def)
  let ?e = "hdr_flags (header (mem f) (c_sector1_addr c)) = NVOL3_SECTOR_EMPTY"
  let ?b = "blank_sector (mem f) c (c_sector1_addr c)"
  have full: "\<exists>s'. nvol3_load c s = Some (EOK, s') \<and> nvol_inv mem c s' \<and> plenty (hp s') \<and> vol_map mem c s' = m"
    if "sec = c_sector2_addr c \<Longrightarrow> ?e \<longrightarrow> ?b"
    using load_holds [OF pl sec sh] other that vm d by auto
  show "\<exists>s'. nvol3_load c s = Some (EOK, s') \<and> vol_map mem c s' = m \<and> gets c m s' \<and> ((?e \<longrightarrow> ?b) \<longrightarrow> nvol_inv mem c s')"
  proof (cases "sec = c_sector2_addr c \<and> ?e \<and> \<not> ?b")
    case True
    then show ?thesis using load_unerased [OF pl] sh vm d gets_open by fastforce
  next
    case False
    then show ?thesis using full nvol_inv_open gets_open by metis
  qed
qed

end

section \<open>Interrupted writes and erases\<close>

lemma le32_rd32_front: "le32 (rd32 (a # b # x # y # r)) = [a, b, x, y]"
  unfolding le32_def rd32.simps list.inject
  by (intro conjI refl bit_word_eqI) (auto simp: bit_simps dest: bit_imp_le_length)

lemma flags_valid_byte:
  assumes "length h = 16" "hdr_flags h = NVOL3_SECTOR_VALID"
  shows "h ! 0 = 0xFF \<and> h ! 1 = 0xFF \<and> h ! 2 = 0xAA"
proof -
  have "\<exists>a b x y r. h = a # b # x # y # r"
    using assms(1) by (cases h rule: rd32.cases) auto
  then obtain a b x y r where h: "h = a # b # x # y # r" by blast
  have "[a, b, x, y] = le32 NVOL3_SECTOR_VALID"
    using assms(2) unfolding h hdr_flags_def by (metis le32_rd32_front)
  then have "a = 0xFF \<and> b = 0xFF \<and> x = 0xAA"
    by (simp add: le32_def NVOL3_SECTOR_VALID_def)
  then show ?thesis by (simp add: h numeral_2_eq_2)
qed

lemma length_sector_record [simp]: "length (sector_record c flags) = 16"
  by (simp add: sector_record_def)

text \<open>The records that mark a sector differ in one byte.\<close>

lemma sector_record_nth:
  "sector_record c NVOL3_SECTOR_INITIALIZING ! 2 = 0xFF"
  "x \<noteq> 2 \<Longrightarrow> x < 16 \<Longrightarrow> sector_record c NVOL3_SECTOR_INITIALIZING ! x = sector_record c NVOL3_SECTOR_VALID ! x"
proof -
  show "sector_record c NVOL3_SECTOR_INITIALIZING ! 2 = 0xFF"
    by (simp add: sector_record_def le32_def NVOL3_SECTOR_INITIALIZING_def)
  show "sector_record c NVOL3_SECTOR_INITIALIZING ! x = sector_record c NVOL3_SECTOR_VALID ! x"
    if "x \<noteq> 2" "x < 16"
  proof (cases "x < 4")
    case True
    then have "x = 0 \<or> x = 1 \<or> x = 3" using that(1) by auto
    then show ?thesis
      by (auto simp: sector_record_def le32_def sector_flags_defs)
  next
    case False
    then show ?thesis by (simp add: sector_record_def nth_append)
  qed
qed

context volume
begin

lemma part_prog:
  assumes sec: "sec \<in> sectors c" and ds: "length ds \<le> 16"
  shows "sec' \<in> sectors c \<Longrightarrow> j < mxr c \<Longrightarrow>
      slot (mem (prog f (unat sec) ds)) c sec' j = slot (mem f) c sec' j"
    "sec' \<in> sectors c \<Longrightarrow> sec' \<noteq> sec \<Longrightarrow> header (mem (prog f (unat sec) ds)) sec' = header (mem f) sec'"
    "x < 16 \<Longrightarrow> header (mem (prog f (unat sec) ds)) sec ! x =
      (if x < length ds then header (mem f) sec ! x AND ds ! x else header (mem f) sec ! x)"
proof -
  show "slot (mem (prog f (unat sec) ds)) c sec' j = slot (mem f) c sec' j"
    if "sec' \<in> sectors c" "j < mxr c"
    unfolding slot_def by (rule prog_frame) (use header_slot_apart [OF that(1) sec that(2)] ds in auto)
  show "header (mem (prog f (unat sec) ds)) sec' = header (mem f) sec'"
    if "sec' \<in> sectors c" "sec' \<noteq> sec"
    unfolding header_def
    by (rule prog_frame) (use sectors_apart [OF sec that] cfg_sizes(3) ds in auto)
  show "header (mem (prog f (unat sec) ds)) sec ! x =
      (if x < length ds then header (mem f) sec ! x AND ds ! x else header (mem f) sec ! x)" if "x < 16"
    using that by (simp add: header_def mem_prog)
qed

lemma part_blank:
  assumes sec: "sec \<in> sectors c" and n: "n \<le> unat (c_sector_size c)"
  shows "sec' \<in> sectors c \<Longrightarrow> sec' \<noteq> sec \<Longrightarrow> j < mxr c \<Longrightarrow>
      slot (mem (blank f (unat sec) (unat sec + n))) c sec' j = slot (mem f) c sec' j"
    "sec' \<in> sectors c \<Longrightarrow> sec' \<noteq> sec \<Longrightarrow>
      header (mem (blank f (unat sec) (unat sec + n))) sec' = header (mem f) sec'"
    "n \<le> 16 \<Longrightarrow> j < mxr c \<Longrightarrow>
      slot (mem (blank f (unat sec) (unat sec + n))) c sec j = slot (mem f) c sec j"
    "x < 16 \<Longrightarrow> header (mem (blank f (unat sec) (unat sec + n))) sec ! x =
      (if x < n then - 1 else header (mem f) sec ! x)"
proof -
  show "slot (mem (blank f (unat sec) (unat sec + n))) c sec' j = slot (mem f) c sec' j"
    if s: "sec' \<in> sectors c" "sec' \<noteq> sec" and j: "j < mxr c"
    unfolding slot_def
    by (rule blank_frame)
       (use sectors_apart [OF sec s] sector_bounds [OF s(1)] slot_bounds [OF j, of sec']
         slot_in_sector [OF j, of sec'] n in auto)
  show "header (mem (blank f (unat sec) (unat sec + n))) sec' = header (mem f) sec'"
    if s: "sec' \<in> sectors c" "sec' \<noteq> sec"
    unfolding header_def
    by (rule blank_frame)
       (use sectors_apart [OF sec s] sector_bounds [OF s(1)] cfg_sizes(3) n in auto)
  show "slot (mem (blank f (unat sec) (unat sec + n))) c sec j = slot (mem f) c sec j"
    if "n \<le> 16" and j: "j < mxr c"
    unfolding slot_def
    by (rule blank_frame)
       (use sector_bounds [OF sec] slot_bounds [OF j, of sec] that in auto)
  show "header (mem (blank f (unat sec) (unat sec + n))) sec ! x =
      (if x < n then - 1 else header (mem f) sec ! x)" if "x < 16"
    using that sector_bounds(1) [OF sec] by (simp add: header_def mem_blank)
qed

text \<open>The sector \<open>sec\<close> is in \<open>f\<close> what it is in \<open>f0\<close>.\<close>

definition intact :: "'f \<Rightarrow> u32 \<Rightarrow> 'f \<Rightarrow> bool" where
  "intact f0 sec f \<longleftrightarrow>
     header (mem f) sec = header (mem f0) sec \<and>
     (\<forall>j < mxr c. slot (mem f) c sec j = slot (mem f0) c sec j)"

lemma intact_refl: "intact f sec f"
  by (simp add: intact_def)

lemma source_facts:
  assumes inv: "nvol_inv mem c s"
  shows "i_sector (inst s) \<in> sectors c" "header_ok c (header (mem (dev s)) (i_sector (inst s)))"
    "holds_map (dev s) (i_sector (inst s)) (vol_map mem c s)"
  using nvol_inv_D(1,4) [OF inv] nvol_inv_D(2) [OF inv]
  by (auto simp: holds_map_def vol_map_def vol_index_def vol_slots_def)

lemma intact_source:
  assumes "nvol_inv mem c s" "intact (dev s) (i_sector (inst s)) f"
  shows "header_ok c (header (mem f) (i_sector (inst s)))" "holds_map f (i_sector (inst s)) (vol_map mem c s)"
  using source_facts [OF assms(1)] assms(2) holds_map_same [of "dev s" "i_sector (inst s)" "vol_map mem c s" f]
  by (simp_all add: intact_def)

text \<open>Before the destination is valid, and from then on.\<close>

lemma recovers_source:
  assumes inv: "nvol_inv mem c s" and f: "intact (dev s) (i_sector (inst s)) f"
    and dst: "dst \<in> sectors c" "dst \<noteq> i_sector (inst s)"
    and fl: "hdr_flags (header (mem f) dst) \<noteq> NVOL3_SECTOR_VALID"
  shows "recovers mem c (vol_map mem c s) f"
proof (rule load_finds [OF source_facts(1) [OF inv] intact_source [OF inv f]])
  assume "i_sector (inst s) = c_sector2_addr c"
  then have "dst = c_sector1_addr c" using dst by (auto simp: sectors_def)
  with fl show "hdr_flags (header (mem f) (c_sector1_addr c)) \<noteq> NVOL3_SECTOR_VALID" by simp
qed

lemma recovers_dest:
  assumes inv: "nvol_inv mem c s" and dst: "dst \<in> sectors c" "dst \<noteq> i_sector (inst s)"
    and h: "header_ok c (header (mem f) dst)" "holds_map f dst (vol_map mem c s)"
    and or: "intact (dev s) (i_sector (inst s)) f \<or>
      hdr_flags (header (mem f) (i_sector (inst s))) \<noteq> NVOL3_SECTOR_VALID"
  shows "recovers mem c (vol_map mem c s) f"
proof (cases "dst = c_sector1_addr c")
  case True
  with load_finds [OF dst(1) h] sectors_distinct show ?thesis by simp
next
  case False
  then have s: "i_sector (inst s) = c_sector1_addr c" "dst = c_sector2_addr c"
    using dst source_facts(1) [OF inv] by (auto simp: sectors_def)
  show ?thesis
  proof (cases "intact (dev s) (i_sector (inst s)) f")
    case True
    then show ?thesis
      using load_finds [OF source_facts(1) [OF inv] intact_source [OF inv]] s sectors_distinct by simp
  next
    case False
    then show ?thesis using load_finds [OF dst(1) h] or s by simp
  qed
qed

text \<open>The mark of a sector being initialised, cut after \<open>i\<close> bytes, is not a valid mark.\<close>

lemma cut_initialising:
  assumes dst: "dst \<in> sectors c" and b: "blank_sector (mem f) c dst"
  shows "hdr_flags (header (mem (prog f (unat dst) (take i (sector_record c NVOL3_SECTOR_INITIALIZING)))) dst)
    \<noteq> NVOL3_SECTOR_VALID"
proof
  let ?r = "sector_record c NVOL3_SECTOR_INITIALIZING"
  assume "hdr_flags (header (mem (prog f (unat dst) (take i ?r))) dst) = NVOL3_SECTOR_VALID"
  from flags_valid_byte [OF _ this]
  have "header (mem (prog f (unat dst) (take i ?r))) dst ! 2 = 0xAA" by simp
  moreover have "header (mem f) dst ! 2 = - 1" using b by (simp add: blank_sector_def blank_header_def)
  ultimately show False
    using part_prog(3) [OF dst, of "take i ?r" 2 f] sector_record_nth(1) [of c] by (auto split: if_splits)
qed

text \<open>The mark of a valid sector, cut after \<open>i\<close> bytes, is still the old mark or already the new one.\<close>

lemma cut_valid:
  assumes dst: "dst \<in> sectors c" and h: "header (mem f) dst = sector_record c NVOL3_SECTOR_INITIALIZING"
  shows "header (mem (prog f (unat dst) (take i (sector_record c NVOL3_SECTOR_VALID)))) dst =
    sector_record c (if i \<le> 2 then NVOL3_SECTOR_INITIALIZING else NVOL3_SECTOR_VALID)"
proof (rule nth_equalityI)
  let ?v = "sector_record c NVOL3_SECTOR_VALID" and ?i = "sector_record c NVOL3_SECTOR_INITIALIZING"
  fix x assume "x < length (header (mem (prog f (unat dst) (take i ?v))) dst)"
  then have x: "x < 16" by simp
  have "and_bytes ?i ?v ! x = ?v ! x" by (simp add: sector_record_AND flags_init_valid)
  then have "?i ! x AND ?v ! x = ?v ! x" using x by (simp add: and_bytes_def)
  with x h sector_record_nth(2) [of x c] part_prog(3) [OF dst, of "take i ?v" x f]
  show "header (mem (prog f (unat dst) (take i ?v))) dst ! x =
      sector_record c (if i \<le> 2 then NVOL3_SECTOR_INITIALIZING else NVOL3_SECTOR_VALID) ! x"
    by (cases "x = 2") auto
qed simp

text \<open>An erase of the source, cut after \<open>i\<close> bytes, leaves it intact or its header invalid.\<close>

lemma cut_erase:
  assumes src: "src \<in> sectors c" and i: "i \<le> unat (c_sector_size c)"
    and v: "hdr_flags (header (mem f) src) = NVOL3_SECTOR_VALID"
  shows "intact f src (blank f (unat src) (unat src + i)) \<or>
    hdr_flags (header (mem (blank f (unat src) (unat src + i))) src) \<noteq> NVOL3_SECTOR_VALID"
proof (cases "i \<le> 2")
  case True
  note b = flags_valid_byte [OF _ v]
  have "header (mem (blank f (unat src) (unat src + i))) src = header (mem f) src"
  proof (rule nth_equalityI)
    fix x assume "x < length (header (mem (blank f (unat src) (unat src + i))) src)"
    then have x: "x < 16" by simp
    then have "x < i \<longrightarrow> x = 0 \<or> x = 1" using True by auto
    with part_blank(4) [OF src i x, of f] b
    show "header (mem (blank f (unat src) (unat src + i))) src ! x = header (mem f) src ! x" by auto
  qed simp
  then show ?thesis using part_blank(3) [OF src i] True by (simp add: intact_def)
next
  case False
  have "hdr_flags (header (mem (blank f (unat src) (unat src + i))) src) \<noteq> NVOL3_SECTOR_VALID"
  proof
    assume "hdr_flags (header (mem (blank f (unat src) (unat src + i))) src) = NVOL3_SECTOR_VALID"
    from flags_valid_byte [OF _ this] part_blank(4) [OF src i, of 2 f] False show False by simp
  qed
  then show ?thesis by blast
qed

lemma holds_map_prog:
  "dst \<in> sectors c \<Longrightarrow> length ds \<le> 16 \<Longrightarrow> holds_map f dst m \<Longrightarrow> holds_map (prog f (unat dst) ds) dst m"
  by (erule holds_map_same) (rule part_prog(1))

lemma intact_prog_header:
  "dst \<in> sectors c \<Longrightarrow> src \<in> sectors c \<Longrightarrow> dst \<noteq> src \<Longrightarrow> length ds \<le> 16 \<Longrightarrow> intact f0 src f \<Longrightarrow>
   intact f0 src (prog f (unat dst) ds)"
  by (simp add: intact_def part_prog)

lemma prog_slot_apart:
  assumes "dst \<in> sectors c" "i < mxr c" "length ds \<le> rsz c"
  shows "sec \<in> sectors c \<Longrightarrow> header (mem (prog f (slot_addr c dst i) ds)) sec = header (mem f) sec"
    "src \<in> sectors c \<Longrightarrow> dst \<noteq> src \<Longrightarrow> intact f0 src f \<Longrightarrow> intact f0 src (prog f (slot_addr c dst i) ds)"
  using prog_slot [OF assms(1,2), of 0 ds f] assms(3) by (auto simp: slot_update_def intact_def)

section \<open>The swap on the wrapped device\<close>

lemma logged_volume:
  "volume (logged ops) (\<lambda>h. mem (hd h)) log_prog log_blank dsize (logged_config c)"
proof (intro volume.intro logged_driver volume_axioms.intro)
  show "cfg_ok (logged ops) dsize (logged_config c)"
    using cfg by (simp add: cfg_ok_def sector_fits_def)
qed

lemma swap_power_failure:
  assumes inv: "nvol_inv mem c s" and pl: "plenty (hp s)" and rb: "rec_buf c scratch"
  shows "\<exists>scratch' s'. swap_sectors (logged_config c) scratch (logged_state s) = Some (EOK, scratch', s') \<and>
    i_sector (inst s') \<noteq> i_sector (inst s) \<and> dev s \<in> set (dev s') \<and>
    (\<forall>f \<in> set (dev s'). recovers mem c (vol_map mem c s) f)"
proof -
  let ?src = "i_sector (inst s)" and ?R = "recovers mem c (vol_map mem c s)"
  let ?init = "sector_record c NVOL3_SECTOR_INITIALIZING" and ?valid = "sector_record c NVOL3_SECTOR_VALID"
  note src = source_facts(1) [OF inv]
  obtain dst where dst: "dst \<in> sectors c" "dst \<noteq> ?src" by (rule other_sector_ok [OF src])
  note blank = nvol_inv_D(5) [OF inv dst]
  have vsrc: "hdr_flags (header (mem (dev s)) ?src) = NVOL3_SECTOR_VALID"
    using source_facts(2) [OF inv] by (simp add: header_ok_def)
  define L where "L = (\<lambda>h. dev s \<in> set h \<and> (\<forall>f \<in> set h. ?R f))"
  define P1 where "P1 = (\<lambda>h. L h \<and> intact (dev s) ?src (hd h) \<and> header (mem (hd h)) dst = ?init)"
  define P2 where "P2 = (\<lambda>h. L h \<and> intact (dev s) ?src (hd h))"
  have notvalid: "hdr_flags ?init \<noteq> NVOL3_SECTOR_VALID" by (simp add: sector_flags_defs)
  have "?R (dev s)"
    using recovers_source [OF inv intact_refl dst] blank by (simp add: blank_sector_def sector_flags_defs)
  moreover have "?R (prog (dev s) (unat dst) (take i ?init))" for i
    using recovers_source [OF inv _ dst cut_initialising [OF dst(1) blank, of i]]
      intact_prog_header [OF dst(1) src dst(2) _ intact_refl] by simp
  from this this [of 16] have "?R (prog (dev s) (unat dst) (take i ?init))" "?R (prog (dev s) (unat dst) ?init)" for i
    by simp_all
  moreover have "header (mem (prog (dev s) (unat dst) ?init)) dst = ?init"
    using prog_header [OF dst(1), of ?init "dev s"] blank dst(1)
    by (simp add: header_update_def blank_sector_def sector_record_blank)
  ultimately have init: "P1 (log_prog [dev s] (unat dst) ?init)"
    using intact_prog_header [OF dst(1) src dst(2) _ intact_refl, of ?init]
    by (auto simp: P1_def L_def log_prog_def)
  have slot1: "?R (prog (hd h) (slot_addr c dst i) ds) \<and> intact (dev s) ?src (prog (hd h) (slot_addr c dst i) ds) \<and>
      header (mem (prog (hd h) (slot_addr c dst i) ds)) dst = ?init"
    if "P1 h" "i < mxr c" "length ds \<le> rsz c" for h i ds
  proof -
    have h: "intact (dev s) ?src (hd h)" "header (mem (hd h)) dst = ?init" using that(1) by (simp_all add: P1_def)
    note p = prog_slot_apart(1) [OF dst(1) that(2,3) dst(1)] prog_slot_apart(2) [OF dst(1) that(2,3) src dst(2) h(1)]
    show ?thesis using recovers_source [OF inv p(2) dst] p h(2) notvalid by simp
  qed
  then have copy: "P1 (log_prog h (slot_addr c dst i) ds)" if "P1 h" "i < mxr c" "length ds \<le> rsz c" for h i ds
    using that by (auto simp: P1_def L_def log_prog_def)
  have valid: "P2 (log_prog h (unat dst) ?valid)"
    if P1: "P1 h" and hm: "holds_map (hd h) dst (vol_map mem c s)" for h
  proof -
    have h: "intact (dev s) ?src (hd h)" "header (mem (hd h)) dst = ?init" using P1 by (simp_all add: P1_def)
    have it: "intact (dev s) ?src (prog (hd h) (unat dst) (take i ?valid))" for i
      using intact_prog_header [OF dst(1) src dst(2) _ h(1)] by simp
    have "?R (prog (hd h) (unat dst) (take i ?valid))" for i
    proof (cases "i \<le> 2")
      case True
      then show ?thesis
        using recovers_source [OF inv it dst] cut_valid [OF dst(1) h(2), of i] notvalid by simp
    next
      case False
      then have "header_ok c (header (mem (prog (hd h) (unat dst) (take i ?valid))) dst)"
        using cut_valid [OF dst(1) h(2), of i] header_ok_record by simp
      then show ?thesis
        using recovers_dest [OF inv dst _ holds_map_prog [OF dst(1) _ hm]] it by simp
    qed
    from this this [of 16] have "?R (prog (hd h) (unat dst) (take i ?valid))" "?R (prog (hd h) (unat dst) ?valid)" for i
      by simp_all
    with P1 it [of 16] show ?thesis by (auto simp: P1_def P2_def L_def log_prog_def)
  qed
  have erase: "L (log_blank h (unat ?src) (unat ?src + unat (c_sector_size c)))"
    if P2: "P2 h" and hv: "header (mem (hd h)) dst = ?valid" and hm: "holds_map (hd h) dst (vol_map mem c s)" for h
  proof -
    have it: "intact (dev s) ?src (hd h)" using P2 by (simp add: P2_def)
    then have v: "hdr_flags (header (mem (hd h)) ?src) = NVOL3_SECTOR_VALID" using vsrc by (simp add: intact_def)
    have "?R (blank (hd h) (unat ?src) (unat ?src + i))" if i: "i \<le> unat (c_sector_size c)" for i
    proof (rule recovers_dest [OF inv dst])
      show "header_ok c (header (mem (blank (hd h) (unat ?src) (unat ?src + i))) dst)"
        using part_blank(2) [OF src i dst] hv header_ok_record by simp
      show "holds_map (blank (hd h) (unat ?src) (unat ?src + i)) dst (vol_map mem c s)"
        by (rule holds_map_same [OF hm part_blank(1) [OF src i dst]])
      show "intact (dev s) ?src (blank (hd h) (unat ?src) (unat ?src + i)) \<or>
          hdr_flags (header (mem (blank (hd h) (unat ?src) (unat ?src + i))) ?src) \<noteq> NVOL3_SECTOR_VALID"
        using cut_erase [OF src i v] it by (auto simp: intact_def)
    qed
    with P2 show ?thesis by (auto simp: P2_def L_def log_blank_def)
  qed
  have linv: "nvol_inv (\<lambda>h. mem (hd h)) (logged_config c) (logged_state s)" using inv by simp
  have lhm: "volume.holds_map (\<lambda>h. mem (hd h)) (logged_config c) h dst m = holds_map (hd h) dst m" for h m
    by (simp add: volume.holds_map_def [OF logged_volume] holds_map_def)
  have lst: "volume.slot_stable log_prog (logged_config c) P1 dst"
    using copy by (simp add: volume.slot_stable_def [OF logged_volume])
  have "\<exists>scratch' s'. swap_sectors (logged_config c) scratch (logged_state s) = Some (EOK, scratch', s') \<and>
      nvol_inv (\<lambda>h. mem (hd h)) (logged_config c) s' \<and> i_sector (inst s') = dst \<and> L (dev s')"
    by (rule volume.swap_trace [OF logged_volume linv, where ?P1.0 = P1 and ?P2.0 = P2])
       (use pl rb dst init lst valid erase in \<open>simp_all add: lhm\<close>)
  with dst(2) show ?thesis by (auto simp: L_def)
qed

section \<open>A sector that was not erased to its end\<close>

lemma write_record_and:
  assumes sec: "sec \<in> sectors c" and i: "unat idx < mxr c" and rb: "rec_buf c rec"
    and h: "h_flags (head rec) \<noteq> 0" "unat (h_length (head rec)) + 8 \<le> rsz c"
  defines "n \<equiv> unat (h_length (head rec))"
  shows "\<exists>s'. write_variable_record c sec rec idx s = Some (EOK, s') \<and>
    take (n + 8) (slot (mem (dev s')) c sec (unat idx)) =
      and_bytes (take (n + 8) (slot (mem (dev s)) c sec (unat idx))) (enc_head (head rec) @ take n (key_and_data rec))"
proof -
  let ?ds = "enc_head (head rec) @ take n (key_and_data rec)"
  have kd: "n \<le> length (key_and_data rec)" using rb h(2) by (simp add: rec_buf_def n_def)
  then have len: "length ?ds = n + 8" by simp
  have un: "unat (ucast (h_length (head rec)) + SIZEOF_HEAD) = n + 8"
    unfolding n_def
    by (subst unat_add_lt)
       (use unat_u16_lt [of "h_length (head rec)"] in
         \<open>simp_all add: SIZEOF_HEAD_def del: unat_u16_lt\<close>)
  have "f_write ops (dev s) (sec + record_offset c idx) (ucast (h_length (head rec)) + SIZEOF_HEAD) ?ds =
      Some (EOK, prog (dev s) (slot_addr c sec (unat idx)) ?ds)"
    using drv_write [of "sec + record_offset c idx" "ucast (h_length (head rec)) + SIZEOF_HEAD" ?ds "dev s"]
      record_offset_unat(2) [OF sec i] slot_access [OF sec i h(2)] un len by (simp add: n_def)
  then have w: "write_variable_record c sec rec idx s =
      Some (EOK, s\<lparr>dev := prog (dev s) (slot_addr c sec (unat idx)) ?ds\<rparr>)"
    using i h kd by (simp add: write_variable_record_def max_records_eq buf_read_def n_def)
  have "take (n + 8) (slot (mem (prog (dev s) (slot_addr c sec (unat idx)) ?ds)) c sec (unat idx)) =
      and_bytes (take (n + 8) (slot (mem (dev s)) c sec (unat idx))) ?ds"
    using prog_slot [OF sec i, of 0 ?ds "dev s"] sec i len h(2)
    by (simp add: slot_update_def and_bytes_def n_def add.commute)
  with w show ?thesis by simp
qed

lemma unerased_kept:
  assumes pl: "plenty (hp s)" and h: "sector_holds c (mem (dev s)) (c_sector2_addr c) n"
    and e: "header (mem (dev s)) (c_sector1_addr c) = blank_header"
  shows "\<exists>s1 s2. nvol3_load c s = Some (EOK, s1) \<and> other_sector c s1 = (c_sector2_addr c, c_sector1_addr c) \<and>
    prepare_sector c (c_sector1_addr c) s1 = Some (EOK, s2) \<and>
    (\<forall>j < mxr c. slot (mem (dev s2)) c (c_sector1_addr c) j = slot (mem (dev s)) c (c_sector1_addr c) j)"
proof -
  let ?a1 = "c_sector1_addr c" and ?a2 = "c_sector2_addr c"
  have ne: "?a2 \<noteq> ?a1" using sectors_distinct by metis
  obtain s1 where l: "nvol3_load c s = Some (EOK, s1)" "i_sector (inst s1) = ?a2"
    "cleaned c (mem (dev s)) ?a2 n (mem (dev s1))"
    using load_unerased [OF pl h] e by auto
  have h1: "header (mem (dev s1)) ?a1 = blank_header" using l(3) e by (simp add: cleaned_def)
  then obtain f where f: "set_sector_flags c ?a1 NVOL3_SECTOR_INITIALIZING s1 = Some (EOK, s1\<lparr>dev := f\<rparr>)"
    "header_update c (mem (dev s1)) ?a1 (sector_record c NVOL3_SECTOR_INITIALIZING) (mem f)"
    using set_sector_flags_header [of ?a1 s1 NVOL3_SECTOR_INITIALIZING NVOL3_SECTOR_INITIALIZING]
      sector_record_blank by (metis sector_mem(1))
  have "prepare_sector c ?a1 s1 = Some (EOK, s1\<lparr>dev := f\<rparr>)"
    using f(1) get_sector_version_ok [of ?a1 s1] h1 by (simp add: prepare_sector_def)
  moreover have "slot (mem f) c ?a1 j = slot (mem (dev s)) c ?a1 j" if "j < mxr c" for j
    using f(2) l(3) ne that by (simp add: header_update_def cleaned_def)
  ultimately show ?thesis using l(1,2) ne by (auto simp: other_sector_def)
qed

end

end
