(* ===== verification/Nvol_Walk.thy ===== *)
theory Nvol_Walk
  imports Nvol_Load
begin

text \<open>
  Queries over a loaded volume: the status and the length of a record, and the loop with which
  clients enumerate the records (\<^verbatim>\<open>nvol3_record_first\<close>, \<^verbatim>\<open>nvol3_record_next\<close>).
\<close>

unbundle bit_operations_syntax

text \<open>The client's loop: collect key and data of each record until a negative status.\<close>

partial_function (option) record_loop ::
  "'f nvol_config \<Rightarrow> status \<Rightarrow> nvol_record \<Rightarrow> dict_it \<Rightarrow> 'f nvol \<Rightarrow> u8 list list option" where
  "record_loop c status rec it s =
     (if status < 0 then Some []
      else do { (status', rec', it') \<leftarrow> nvol3_record_next c rec it s;
                xs \<leftarrow> record_loop c status' rec' it' s;
                Some (take (nat status) (key_and_data rec) # xs) })"

definition all_records :: "'f nvol_config \<Rightarrow> nvol_record \<Rightarrow> 'f nvol \<Rightarrow> u8 list list option" where
  "all_records c rec s =
     do { (status, rec, it) \<leftarrow> nvol3_record_first c rec None s; record_loop c status rec it s }"

context volume
begin

lemma record_loop_ok:
  assumes inv: "nvol_inv mem c s" and d: "loaded_dict s = Some d" "dict_inv d (hp s)"
    and vals: "\<And>np. np \<in> set (dict_nodes d) \<Longrightarrow>
      \<exists>i v. vol_index mem c s (nkey np) = Some (i, v) \<and> nval np = entry_of c (i, v)"
    and pos: "it_pos d it rest" "it_cmp it = None" and rb: "rec_buf c rec"
  shows "\<exists>ns m it' status rec' xs. it_next d it = Some (m, it') \<and>
    record_or_eof c rec m s = Some (status, rec') \<and> record_loop c status rec' it' s = Some xs \<and>
    set ns \<subseteq> set (dict_nodes d) \<and> map naddr ns = map snd rest \<and>
    xs = map (\<lambda>np. nkey np @ the (vol_map mem c s (nkey np))) ns"
  using pos rb
proof (induction rest arbitrary: it rec)
  case Nil
  obtain it' where "it_next d it = Some (None, it')" using it_next_Nil [OF d(2) Nil(1)] by blast
  moreover have "record_or_eof c rec None s = Some (E_EOF, rec)" by (simp add: record_or_eof_def)
  moreover have "record_loop c E_EOF rec it' s = Some []" by (subst record_loop.simps) simp
  ultimately show ?case by (intro exI [of _ "[]"]) auto
next
  case (Cons p rest)
  obtain b a where p: "p = (b, a)" by fastforce
  obtain n it' where n: "it_next d it = Some (Some n, it')" "n \<in> set (dict_nodes d)" "naddr n = a"
    "it_pos d it' rest" "it_cmp it' = None"
    using it_next_Cons [OF d(2)] Cons.prems(1,2) unfolding p by metis
  obtain i v where v: "vol_index mem c s (nkey n) = Some (i, v)" "nval n = entry_of c (i, v)"
    using vals [OF n(2)] by blast
  obtain rec' where g: "record_get c rec (Some n) s = Some (int (ksz c + length v), rec')"
    "rec_buf c rec'" "take (ksz c + length v) (key_and_data rec') = nkey n @ v"
    using record_get_ok [OF inv Cons.prems(3) v(1) refl v(2)] by blast
  obtain ns m it'' status rec'' xs where IH: "it_next d it' = Some (m, it'')"
    "record_or_eof c rec' m s = Some (status, rec'')" "record_loop c status rec'' it'' s = Some xs"
    "set ns \<subseteq> set (dict_nodes d)" "map naddr ns = map snd rest"
    "xs = map (\<lambda>np. nkey np @ the (vol_map mem c s (nkey np))) ns"
    using Cons.IH [OF n(4,5) g(2)] by blast
  have "record_loop c (int (ksz c + length v)) rec' it' s = Some ((nkey n @ v) # xs)"
    using IH n(5) d(1) g(3)
    by (subst record_loop.simps) (simp add: nvol3_record_next_def dictionary_it_next_def nat_add_distrib)
  moreover have "vol_map mem c s (nkey n) = Some v" using v(1) by (simp add: vol_map_def)
  moreover have "record_or_eof c rec (Some n) s = Some (int (ksz c + length v), rec')"
    using g(1) by (simp add: record_or_eof_def)
  ultimately show ?case
    using n IH p by (intro exI [of _ "n # ns"] exI [of _ "Some n"] exI [of _ it']) auto
qed

lemma all_records_ok:
  assumes inv: "nvol_inv mem c s" and rb: "rec_buf c rec"
  shows "\<exists>xs. all_records c rec s = Some xs \<and> distinct xs \<and>
    set xs = {k @ v | k v. vol_map mem c s k = Some v}"
proof -
  obtain d where d: "loaded_dict s = Some d" "i_dict (inst s) = Some d" "dict_inv d (hp s)"
    "d_keyspec d = c_keyspec c" "dict_map d = (\<lambda>k. map_option (entry_of c) (vol_index mem c s k))"
    by (rule table_is_loaded [OF nvol_inv_D(3) [OF inv]])
  have vals: "\<exists>i v. vol_index mem c s (nkey np) = Some (i, v) \<and> nval np = entry_of c (i, v)"
    if "np \<in> set (dict_nodes d)" for np
  proof -
    have "dict_map d (nkey np) = Some (nval np)" using dict_map_Some_iff [OF d(3)] that by blast
    then show ?thesis by (auto simp: d(5))
  qed
  obtain ns m it' status rec' xs where r: "it_next d (it_init None) = Some (m, it')"
    "record_or_eof c rec m s = Some (status, rec')" "record_loop c status rec' it' s = Some xs"
    "set ns \<subseteq> set (dict_nodes d)" "map naddr ns = map snd (slots d)"
    "xs = map (\<lambda>np. nkey np @ the (vol_map mem c s (nkey np))) ns"
    using record_loop_ok [OF inv d(1,3) vals it_pos_init _ rb, of None] by (auto simp: it_init_def)
  have dn: "distinct (map naddr ns)" using r(5) d(3) by (simp add: map_snd_slots dict_inv_def)
  have "set ns = set (dict_nodes d)"
  proof
    show "set (dict_nodes d) \<subseteq> set ns"
    proof
      fix x assume x: "x \<in> set (dict_nodes d)"
      then have "naddr x \<in> set (map naddr ns)" by (simp only: r(5) map_snd_slots set_map imageI)
      then obtain y where "y \<in> set ns" "naddr y = naddr x" by auto
      then show "x \<in> set ns" using dict_inv_addr_unique [OF d(3), of x y] x r(4) by auto
    qed
  qed (rule r(4))
  then have keys: "nkey ` set ns = dom (vol_map mem c s)"
  proof -
    have "nkey ` set (dict_nodes d) = dom (dict_map d)"
      by (simp add: dict_map_def dom_map_of_conv_image_fst image_image)
    also have "\<dots> = dom (vol_map mem c s)" by (auto simp: d(5) vol_map_def)
    finally show ?thesis using \<open>set ns = set (dict_nodes d)\<close> by simp
  qed
  have len: "length (nkey np) = ksz c" if "np \<in> set ns" for np
    using vals [of np] that r(4) index_key_length [OF inv] by blast
  have "inj_on nkey (set ns)"
    using d(3) r(4) inj_on_subset by (fastforce simp: dict_inv_def distinct_map)
  then have "inj_on (\<lambda>np. nkey np @ the (vol_map mem c s (nkey np))) (set ns)"
    using len by (auto simp: inj_on_def)
  then have "distinct xs" using dn by (simp add: r(6) distinct_map)
  moreover have "set xs = {k @ v | k v. vol_map mem c s k = Some v}"
    unfolding r(6) using keys by (auto simp: image_def dom_def set_eq_iff) (metis option.sel)+
  moreover have "all_records c rec s = Some xs"
    using d(1) r(1-3) by (simp add: all_records_def nvol3_record_first_def dictionary_it_first_def)
  ultimately show ?thesis by blast
qed

text \<open>Status and length.\<close>

lemma lookup_key_ok:
  assumes inv: "nvol_inv mem c s" and p: "ksz c \<le> length p"
  shows "case vol_index mem c s (take (ksz c) p) of None \<Rightarrow> lookup_key p s = Some None
    | Some q \<Rightarrow> \<exists>np. lookup_key p s = Some (Some np) \<and> nval np = entry_of c q"
proof -
  obtain d where d: "loaded_dict s = Some d" "d_keyspec d = c_keyspec c"
    using table_is_loaded [OF nvol_inv_D(3) [OF inv]] by metis
  have "length (take (ksz c) p) = ksz c" using p by simp
  from lookup_ok [OF nvol_inv_D(3) [OF inv] this d(1)] show ?thesis
    using d fixed_key_at [OF cfg_fixed_key p] by (auto simp: lookup_key_def split: option.splits)
qed

lemma status_ok:
  assumes inv: "nvol_inv mem c s" and p: "ksz c \<le> length p"
  shows "nvol3_record_status p s =
    Some (if vol_map mem c s (take (ksz c) p) = None then E_NOTFOUND else EOK)"
  using lookup_key_ok [OF assms]
  by (auto simp: nvol3_record_status_def vol_map_def split: option.splits)

lemma length_ok:
  assumes inv: "nvol_inv mem c s" and p: "ksz c \<le> length p"
  shows "nvol3_record_key_and_data_length c p s =
    Some (case vol_map mem c s (take (ksz c) p) of None \<Rightarrow> EFAIL | Some v \<Rightarrow> int (ksz c + length v))"
proof (cases "vol_index mem c s (take (ksz c) p)")
  case None
  then show ?thesis
    using lookup_key_ok [OF assms] by (simp add: nvol3_record_key_and_data_length_def vol_map_def)
next
  case (Some q)
  then obtain i v where ix: "vol_index mem c s (take (ksz c) p) = Some (i, v)" by (cases q) simp
  then obtain np where np: "lookup_key p s = Some (Some np)" "nval np = entry_of c (i, v)"
    using lookup_key_ok [OF assms] by auto
  note i = vol_index_Some [OF inv ix]
  let ?b = "vol_slots mem c s i"
  have u: "unat (of_nat i :: u16) = i" by (rule unat_idx [OF i(2)])
  have st: "head_status c (dec_head ?b) = EOK" using live_body(3) [OF i(3)] .
  have "unat (h_length (dec_head ?b)) = length (slot_body ?b)"
    using slot_body_length(2) [OF st] by (simp add: vol_slots_def)
  also have "\<dots> = ksz c + length v"
    using live_body(2) [OF i(3)] index_key_length [OF inv ix] by simp
  finally have "uint (h_length (dec_head ?b)) = int (ksz c + length v)" by (simp only: uint_nat)
  moreover have "read_variable_record_head c zero_head (of_nat i) s =
      Some (head_status c (dec_head ?b), dec_head ?b)"
    using read_head_ok [OF nvol_inv_D(1) [OF inv], of "of_nat i" ?b] u i(2) by (simp add: vol_slots_def)
  ultimately show ?thesis
    using np st ix by (simp add: nvol3_record_key_and_data_length_def dec_entry_of vol_map_def)
qed

section \<open>Validating a volume\<close>

lemma validate_result:
  "nvol3_validate c s =
     (let h1 = header (mem (dev s)) (c_sector1_addr c); h2 = header (mem (dev s)) (c_sector2_addr c);
          used = {NVOL3_SECTOR_INITIALIZING, NVOL3_SECTOR_VALID, NVOL3_SECTOR_INVALID} in
      Some (if hdr_flags h1 \<in> used then (if hdr_version h1 = c_version c then EOK else E_VERSION)
            else if hdr_flags h2 \<in> used then (if hdr_version h2 = c_version c then EOK else E_VERSION)
            else EFAIL))"
  by (simp add: nvol3_validate_def get_sector_version_ok sectors_def Let_def)

lemma validate_ok:
  assumes inv: "nvol_inv mem c s" and d: "dev s' = dev s"
  shows "nvol3_validate c s' = Some EOK"
proof -
  note D = nvol_inv_D [OF inv]
  let ?h = "header (mem (dev s)) (i_sector (inst s))"
  have h: "hdr_flags ?h = NVOL3_SECTOR_VALID" "hdr_version ?h = c_version c"
    using D(4) by (simp_all add: header_ok_def)
  consider "i_sector (inst s) = c_sector1_addr c"
    | "i_sector (inst s) = c_sector2_addr c" "i_sector (inst s) \<noteq> c_sector1_addr c"
    using D(1) by (cases "i_sector (inst s) = c_sector1_addr c") (auto simp: sectors_def)
  then show ?thesis
  proof cases
    case 1
    then show ?thesis using h by (simp add: validate_result d Let_def)
  next
    case 2
    then have "header (mem (dev s)) (c_sector1_addr c) = blank_header"
      using D(5) [of "c_sector1_addr c"] by (auto simp: blank_sector_def sectors_def)
    moreover have "hdr_flags blank_header = NVOL3_SECTOR_EMPTY"
      unfolding hdr_flags_def blank_header_def sector_flags_defs by code_simp
    ultimately show ?thesis using h 2 by (simp add: validate_result d Let_def sector_flags_defs)
  qed
qed

end

end
