(* ===== verification/Nvol_Props.thy ===== *)
theory Nvol_Props
  imports Nvol_Power Nvol_Walk
begin

text \<open>
  The properties of the volume over the RAM device of the test system, for every configuration
  that fits the device.  Each rests on a lemma of the locale \<open>volume\<close>, instantiated by
  \<open>ram_volume\<close>.  The witnesses run a small volume of two 128-byte sectors.
\<close>

unbundle bit_operations_syntax

lemma ram_volume:
  "cfg_ok ramdrv_ops 131072 c \<Longrightarrow> volume ramdrv_ops ram_mem ram_and ram_blank 131072 c"
  by (intro volume.intro volume_axioms.intro ram.flash_driver_axioms)

section \<open>A small volume for the witnesses\<close>

definition wit_cfg :: "ramdrv nvol_config" where
  "wit_cfg = \<lparr>c_flash = ramdrv_ops, c_sector1_addr = 0, c_sector2_addr = 128, c_sector_size = 128,
     c_record_size = 16, c_local_size = 2, c_key_size = 4, c_hashsize = 3,
     c_keyspec = DICTIONARY_KEYSPEC_UINT, c_version = 0x155, c_write_cb = None, c_ctx = 0\<rparr>"

definition wit_heap0 :: heap where
  "wit_heap0 = \<lparr>allocs = [], junk = (\<lambda>a i. of_nat (3 * a + i)), next_addr = 0\<rparr>"

definition wit_start :: "ramdrv nvol" where
  "wit_start = \<lparr>dev = (\<lambda>x. of_nat x), hp = wit_heap0,
     inst = \<lparr>i_version = 0, i_next_idx = 0, i_sector = 0, i_dict = None, i_inuse = 0,
             i_invalid = 0, i_error = 0\<rparr>\<rparr>"

lemma wit_sizes [simp]: "rsz wit_cfg = 16" "ksz wit_cfg = 4" "mxr wit_cfg = 6"
  by (simp_all add: wit_cfg_def rsz_def ksz_def mxr_def)

lemma wit_cfg_ok: "cfg_ok ramdrv_ops 131072 wit_cfg"
proof -
  have "fixed_key wit_cfg"
    by (simp add: fixed_key_def) (simp add: wit_cfg_def dict_keytype_def keyspec_defs DICTIONARY_KEY_SIZE_def)
  then show ?thesis
    unfolding cfg_ok_def sector_fits_def wit_sizes by (simp add: wit_cfg_def)
qed

lemma wit_cb: "cb_accepts wit_cfg"
  by (simp add: cb_accepts_def wit_cfg_def)

lemma wit_start_plenty [simp]: "plenty (hp wit_start)"
  by (simp add: wit_start_def wit_heap0_def plenty_def)

text \<open>A running volume, reached by a reset.\<close>

lemma wit_reset:
  obtains s where "nvol3_reset wit_cfg wit_start = Some (EOK, s)" "nvol_inv ram_mem wit_cfg s"
    "plenty (hp s)" "vol_map ram_mem wit_cfg s = Map.empty"
  using volume.reset_ok [OF ram_volume [OF wit_cfg_ok] wit_start_plenty] by blast

text \<open>A volume with a record.\<close>

lemma wit_one:
  obtains s0 s where "nvol3_reset wit_cfg wit_start = Some (EOK, s0)"
    "vol_step wit_cfg (VSet [1, 0, 0, 0] [7, 8, 9]) s0 = Some ((EOK, []), s)" "nvol_inv ram_mem wit_cfg s"
    "plenty (hp s)" "vol_map ram_mem wit_cfg s = [[1, 0, 0, 0] \<mapsto> [7, 8, 9]]"
proof -
  obtain s0 where s0: "nvol3_reset wit_cfg wit_start = Some (EOK, s0)" "nvol_inv ram_mem wit_cfg s0"
    "plenty (hp s0)" "vol_map ram_mem wit_cfg s0 = Map.empty" by (rule wit_reset)
  have "vop_ok wit_cfg (VSet [1, 0, 0, 0] [7, 8, 9])" by simp
  from volume.vol_step_refines [OF ram_volume [OF wit_cfg_ok] s0(2,3) wit_cb this] s0(1,4) that
  show ?thesis by auto
qed

lemma wit_rec: "rec_buf wit_cfg (client_rec wit_cfg [] [])"
  by (simp add: rec_buf_def client_rec_def)

section \<open>Properties\<close>

text \<open>
  C4: The volume implements a finite map with a capacity.  Started from any loaded volume, every
  sequence of set, get and delete operations and of restarts (the RAM lost, the volume loaded
  again from FLASH) runs without undefined behaviour, and its replies and the data it leaves are
  those of an abstract map: a set stores the data unless the map already holds
  \<^verbatim>\<open>max_records - NVOL3_HEADROOM\<close> keys, a get returns exactly the stored bytes, a delete
  removes the key, a restart changes nothing.  Sectors are swapped on the way whenever one is
  full.
\<close>

theorem volume_refines_map:
  assumes "cfg_ok ramdrv_ops 131072 c" "cb_accepts c" "nvol_inv ram_mem c s" "plenty (hp s)"
    "list_all (vop_ok c) script"
  shows "\<exists>s'. vol_run c script s =
      Some (fst (spec_run (mxr c - 4) (ksz c) script (vol_map ram_mem c s)), s') \<and>
    nvol_inv ram_mem c s' \<and>
    vol_map ram_mem c s' = snd (spec_run (mxr c - 4) (ksz c) script (vol_map ram_mem c s))"
  using volume.vol_run_refines [OF ram_volume [OF assms(1)] assms(3,4,2,5)] by auto

theorem volume_refines_map_witness:
  "\<exists>s s'. nvol3_reset wit_cfg wit_start = Some (EOK, s) \<and>
    vol_run wit_cfg [VSet [1, 0, 0, 0] [7, 8, 9], VRestart, VSet [2, 0, 0, 0] [5],
        VSet [3, 0, 0, 0] [6], VGet [1, 0, 0, 0], VDel [2, 0, 0, 0], VGet [2, 0, 0, 0]] s =
      Some ([(EOK, []), (EOK, []), (EOK, []), (EFAIL, []), (7, [1, 0, 0, 0, 7, 8, 9]), (EOK, []),
             (E_NOTFOUND, [])], s') \<and>
    vol_map ram_mem wit_cfg s' = [[1, 0, 0, 0] \<mapsto> [7, 8, 9]]"
proof -
  obtain s where s: "nvol3_reset wit_cfg wit_start = Some (EOK, s)" "nvol_inv ram_mem wit_cfg s"
    "plenty (hp s)" "vol_map ram_mem wit_cfg s = Map.empty" by (rule wit_reset)
  let ?ops = "[VSet [1, 0, 0, 0] [7, 8, 9], VRestart, VSet [2, 0, 0, 0] [5],
        VSet [3, 0, 0, 0] [6], VGet [1, 0, 0, 0], VDel [2, 0, 0, 0], VGet [2, 0, 0, 0]]"
  have "list_all (vop_ok wit_cfg) ?ops" by simp
  from volume_refines_map [OF wit_cfg_ok wit_cb s(2,3) this] s(4)
  obtain s' where "vol_run wit_cfg ?ops s = Some (fst (spec_run 2 4 ?ops Map.empty), s')"
    "vol_map ram_mem wit_cfg s' = snd (spec_run 2 4 ?ops Map.empty)" by auto
  then show ?thesis using s(1) by (auto simp: fun_upd_twist)
qed

text \<open>
  C22: \<^verbatim>\<open>nvol3_reset\<close> formats the device.  Whatever the device and the instance hold, it
  returns EOK and leaves a loaded, well-formed volume without records on sector 1.
\<close>

theorem volume_reset_empty:
  assumes "cfg_ok ramdrv_ops 131072 c" "plenty (hp s)"
  shows "\<exists>s'. nvol3_reset c s = Some (EOK, s') \<and> nvol_inv ram_mem c s' \<and>
    vol_map ram_mem c s' = Map.empty \<and> i_sector (inst s') = c_sector1_addr c \<and>
    i_next_idx (inst s') = 0"
  using volume.reset_ok [OF ram_volume [OF assms(1)] assms(2)] by blast

theorem volume_reset_empty_witness:
  "\<exists>s'. nvol3_reset wit_cfg wit_start = Some (EOK, s') \<and> nvol_inv ram_mem wit_cfg s' \<and>
    vol_map ram_mem wit_cfg s' = Map.empty"
  using volume_reset_empty [OF wit_cfg_ok wit_start_plenty] by blast

text \<open>
  C6: \<^verbatim>\<open>swap_sectors\<close> loses nothing and compacts.  It ends, returns EOK, keeps the map of the
  volume, moves to the other sector and leaves one slot per key in use.
\<close>

theorem swap_keeps_map:
  assumes "cfg_ok ramdrv_ops 131072 c" "nvol_inv ram_mem c s" "plenty (hp s)" "rec_buf c scratch"
  shows "\<exists>scratch' s'. swap_sectors c scratch s = Some (EOK, scratch', s') \<and>
    nvol_inv ram_mem c s' \<and> vol_map ram_mem c s' = vol_map ram_mem c s \<and>
    unat (i_next_idx (inst s')) = card (dom (vol_map ram_mem c s)) \<and>
    i_sector (inst s') \<noteq> i_sector (inst s)"
  using volume.swap_sectors_ok [OF ram_volume [OF assms(1)] assms(2-4)] by blast

theorem swap_keeps_map_witness:
  "\<exists>s0 s scratch' s'. nvol3_reset wit_cfg wit_start = Some (EOK, s0) \<and>
    vol_step wit_cfg (VSet [1, 0, 0, 0] [7, 8, 9]) s0 = Some ((EOK, []), s) \<and>
    swap_sectors wit_cfg (client_rec wit_cfg [] []) s = Some (EOK, scratch', s') \<and>
    vol_map ram_mem wit_cfg s' = [[1, 0, 0, 0] \<mapsto> [7, 8, 9]] \<and> i_sector (inst s') \<noteq> i_sector (inst s)"
proof -
  obtain s0 s where s: "nvol3_reset wit_cfg wit_start = Some (EOK, s0)"
    "vol_step wit_cfg (VSet [1, 0, 0, 0] [7, 8, 9]) s0 = Some ((EOK, []), s)" "nvol_inv ram_mem wit_cfg s"
    "plenty (hp s)" "vol_map ram_mem wit_cfg s = [[1, 0, 0, 0] \<mapsto> [7, 8, 9]]" by (rule wit_one)
  from swap_keeps_map [OF wit_cfg_ok s(3,4) wit_rec] s(1,2,5) show ?thesis by metis
qed

text \<open>
  C5: A power failure during a swap loses no data.  Run on a device that records its states, the
  swap of a running volume ends and has passed, besides the device it started from, through every
  state after a write or an erase and every state in which one of them was cut short after some of
  its bytes.  From each of these states, with whatever is in RAM, a load returns EOK, the loaded
  volume has the map of before the swap, and every get answers from it.  The loaded volume is also
  ready for further writes, its other sector being erased, except after an erase of sector 1 that was
  cut behind its header.
\<close>

theorem swap_survives_power_failure:
  assumes "cfg_ok ramdrv_ops 131072 c" "nvol_inv ram_mem c s" "plenty (hp s)" "rec_buf c scratch"
  shows "\<exists>scratch' s'. swap_sectors (logged_config c) scratch (logged_state s) = Some (EOK, scratch', s') \<and>
    i_sector (inst s') \<noteq> i_sector (inst s) \<and> dev s \<in> set (dev s') \<and>
    (\<forall>f \<in> set (dev s'). recovers ram_mem c (vol_map ram_mem c s) f)"
  by (rule volume.swap_power_failure [OF ram_volume [OF assms(1)] assms(2-4)])

theorem swap_survives_power_failure_witness:
  "\<exists>s0 s scratch' s'. nvol3_reset wit_cfg wit_start = Some (EOK, s0) \<and>
    vol_step wit_cfg (VSet [1, 0, 0, 0] [7, 8, 9]) s0 = Some ((EOK, []), s) \<and>
    swap_sectors (logged_config wit_cfg) (client_rec wit_cfg [] []) (logged_state s) = Some (EOK, scratch', s') \<and>
    (\<forall>f \<in> set (dev s'). recovers ram_mem wit_cfg [[1, 0, 0, 0] \<mapsto> [7, 8, 9]] f)"
proof -
  obtain s0 s where s: "nvol3_reset wit_cfg wit_start = Some (EOK, s0)"
    "vol_step wit_cfg (VSet [1, 0, 0, 0] [7, 8, 9]) s0 = Some ((EOK, []), s)" "nvol_inv ram_mem wit_cfg s"
    "plenty (hp s)" "vol_map ram_mem wit_cfg s = [[1, 0, 0, 0] \<mapsto> [7, 8, 9]]" by (rule wit_one)
  from swap_survives_power_failure [OF wit_cfg_ok s(3,4) wit_rec] s(1,2,5) show ?thesis by metis
qed

text \<open>
  C39: An erase of sector 1 that was cut behind its header is never completed.  Sector 2 holds the
  volume, the header of sector 1 is erased, its slots hold whatever they held.  The load leaves them
  so, and so does the preparation of the next swap, which takes the sector for an empty one; a
  record copied there ends up as the AND of its bytes and the old ones.
\<close>

theorem unfinished_erase_kept:
  assumes "cfg_ok ramdrv_ops 131072 c" "plenty (hp s)"
    "sector_holds c (ram_mem (dev s)) (c_sector2_addr c) n"
    "header (ram_mem (dev s)) (c_sector1_addr c) = blank_header"
    "unat idx < mxr c" "rec_buf c rec" "h_flags (head rec) \<noteq> 0" "unat (h_length (head rec)) + 8 \<le> rsz c"
  shows "\<exists>s1 s2 s3. nvol3_load c s = Some (EOK, s1) \<and>
    other_sector c s1 = (c_sector2_addr c, c_sector1_addr c) \<and>
    prepare_sector c (c_sector1_addr c) s1 = Some (EOK, s2) \<and>
    write_variable_record c (c_sector1_addr c) rec idx s2 = Some (EOK, s3) \<and>
    take (unat (h_length (head rec)) + 8) (slot (ram_mem (dev s3)) c (c_sector1_addr c) (unat idx)) =
      and_bytes
        (take (unat (h_length (head rec)) + 8) (slot (ram_mem (dev s)) c (c_sector1_addr c) (unat idx)))
        (enc_head (head rec) @ take (unat (h_length (head rec))) (key_and_data rec))"
proof -
  note v = ram_volume [OF assms(1)]
  obtain s1 s2 where l: "nvol3_load c s = Some (EOK, s1)"
    "other_sector c s1 = (c_sector2_addr c, c_sector1_addr c)"
    "prepare_sector c (c_sector1_addr c) s1 = Some (EOK, s2)"
    "\<forall>j < mxr c. slot (ram_mem (dev s2)) c (c_sector1_addr c) j = slot (ram_mem (dev s)) c (c_sector1_addr c) j"
    using volume.unerased_kept [OF v assms(2-4)] by blast
  with volume.write_record_and [OF v volume.sector_mem(1) [OF v] assms(5-8), of s2] assms(5)
  show ?thesis by auto
qed

theorem unfinished_erase_kept_witness:
  "\<exists>s s1 s2 s3. slot (ram_mem (dev s)) wit_cfg 0 0 \<noteq> blank_slot wit_cfg \<and>
    nvol3_load wit_cfg s = Some (EOK, s1) \<and> prepare_sector wit_cfg 0 s1 = Some (EOK, s2) \<and>
    write_variable_record wit_cfg 0
      \<lparr>head = zero_head\<lparr>h_flags := NVOL3_RECORD_FLAGS_VALID, h_length := 4\<rparr>,
       key_and_data = [1, 2, 3, 4, 5, 6, 7, 8]\<rparr> 0 s2 = Some (EOK, s3) \<and>
    slot (ram_mem (dev s3)) wit_cfg 0 0 ! 0 = 0"
proof -
  let ?rec = "\<lparr>head = zero_head\<lparr>h_flags := NVOL3_RECORD_FLAGS_VALID, h_length := 4\<rparr>,
       key_and_data = [1, 2, 3, 4, 5, 6, 7, 8]\<rparr>"
  note v = ram_volume [OF wit_cfg_ok]
  have a: "c_sector1_addr wit_cfg = 0" "c_sector2_addr wit_cfg = 128" by (simp_all add: wit_cfg_def)
  obtain s0 where s0: "nvol_inv ram_mem wit_cfg s0" "plenty (hp s0)" "i_sector (inst s0) = 0"
    using volume.reset_ok [OF v wit_start_plenty] a by auto
  obtain t where t: "nvol_inv ram_mem wit_cfg t" "plenty (hp t)" "i_sector (inst t) \<noteq> 0"
    using volume.swap_sectors_ok [OF v s0(1,2) wit_rec] s0(3) by auto
  then have "i_sector (inst t) = 128" using nvol_inv_D(1) [OF t(1)] a by (auto simp: sectors_def)
  with volume.inv_holds [OF v t(1)] nvol_inv_D(5) [OF t(1), of 0] t(3) obtain n where
    h: "sector_holds wit_cfg (ram_mem (dev t)) 128 n" and b: "blank_sector (ram_mem (dev t)) wit_cfg 0"
    using a by (auto simp: sectors_def)
  let ?s = "t\<lparr>dev := (dev t)(32 := 0)\<rparr>"
  have "bytes_at (ram_mem (dev ?s)) x k = bytes_at (ram_mem (dev t)) x k" if "x + k \<le> 32 \<or> 32 < x" for x k
    using that by (intro bytes_at_cong) (auto simp: ram_mem_def)
  then have "header (ram_mem (dev ?s)) 0 = header (ram_mem (dev t)) 0"
    "header (ram_mem (dev ?s)) 128 = header (ram_mem (dev t)) 128"
    "slot (ram_mem (dev ?s)) wit_cfg 128 j = slot (ram_mem (dev t)) wit_cfg 128 j" for j
    by (simp_all add: header_def slot_def slot_addr_def)
  then have hd: "header (ram_mem (dev ?s)) (c_sector1_addr wit_cfg) = blank_header"
    and hs: "sector_holds wit_cfg (ram_mem (dev ?s)) (c_sector2_addr wit_cfg) n"
    using b volume.holds_same(1) [OF v h, of "ram_mem (dev ?s)"] by (simp_all add: a blank_sector_def)
  have z: "slot (ram_mem (dev ?s)) wit_cfg 0 0 ! 0 = 0"
    by (simp add: slot_def slot_addr_def ram_mem_def)
  then have nb: "slot (ram_mem (dev ?s)) wit_cfg 0 0 \<noteq> blank_slot wit_cfg"
    by (auto simp: blank_slot_def)
  have "rec_buf wit_cfg ?rec" by (simp add: rec_buf_def)
  from unfinished_erase_kept [OF wit_cfg_ok _ hs hd _ this, of 0] t(2)
  obtain s1 s2 s3 where r: "nvol3_load wit_cfg ?s = Some (EOK, s1)" "prepare_sector wit_cfg 0 s1 = Some (EOK, s2)"
    "write_variable_record wit_cfg 0 ?rec 0 s2 = Some (EOK, s3)"
    "take 12 (slot (ram_mem (dev s3)) wit_cfg 0 0) =
      and_bytes (take 12 (slot (ram_mem (dev ?s)) wit_cfg 0 0)) (enc_head (head ?rec) @ take 4 (key_and_data ?rec))"
    by (auto simp: a record_flags_defs)
  have "take 12 (slot (ram_mem (dev s3)) wit_cfg 0 0) ! 0 = 0"
    unfolding r(4) using z by (simp add: and_bytes_def)
  then have "slot (ram_mem (dev s3)) wit_cfg 0 0 ! 0 = 0" by simp
  with nb r(1-3) show ?thesis by blast
qed

text \<open>
  C7: The scan of \<^verbatim>\<open>construct_lookup_table\<close> ends and sorts good records from bad ones.  For a
  sector whose used slots are arbitrary, as long as valid records are long enough to hold a key,
  it rebuilds the lookup table as the index of the valid records (the last record of a key wins),
  stops at the first empty slot, marks records with a wrong checksum invalid, leaves every other
  byte alone, and reports EOK or, for a foreign version, E_VERSION.
\<close>

theorem construct_builds_index:
  assumes "cfg_ok ramdrv_ops 131072 c" "i_sector (inst s) = sec" "sec \<in> sectors c"
    "used_slots c (slot (ram_mem (dev s)) c sec) n" "keyed_slots c (slot (ram_mem (dev s)) c sec) n"
    "i_dict (inst s) = Some d" "dict_inv d (hp s)" "d_keyspec d = c_keyspec c"
    "rec_buf c scratch" "plenty (hp s)"
  shows "\<exists>scratch' s'. construct_lookup_table c scratch s =
      Some (if hdr_version (header (ram_mem (dev s)) sec) = c_version c then EOK else E_VERSION,
            scratch', s') \<and>
    i_next_idx (inst s') = of_nat n \<and> cleaned c (ram_mem (dev s)) sec n (ram_mem (dev s')) \<and>
    table_is c s' (scan c (slot (ram_mem (dev s)) c sec) n)"
  using volume.construct_table_ok [OF ram_volume [OF assms(1)], of s n d scratch] assms(2-)
  by blast

theorem construct_builds_index_witness:
  "\<exists>s scratch' s'. nvol3_reset wit_cfg wit_start = Some (EOK, s) \<and>
    construct_lookup_table wit_cfg (client_rec wit_cfg [] []) s = Some (EOK, scratch', s') \<and>
    i_next_idx (inst s') = i_next_idx (inst s)"
proof -
  obtain s where s: "nvol3_reset wit_cfg wit_start = Some (EOK, s)" "nvol_inv ram_mem wit_cfg s"
    "plenty (hp s)" by (rule wit_reset)
  let ?n = "unat (i_next_idx (inst s))"
  note D = nvol_inv_D [OF s(2)]
  obtain d where d: "i_dict (inst s) = Some d" "dict_inv d (hp s)" "d_keyspec d = c_keyspec wit_cfg"
    by (rule table_is_loaded [OF D(3)])
  have "rec_buf wit_cfg (client_rec wit_cfg [] [])" by (simp add: rec_buf_def client_rec_def)
  moreover have "used_slots wit_cfg (slot (ram_mem (dev s)) wit_cfg (i_sector (inst s))) ?n"
    using volume.used_of_sector_inv [OF ram_volume [OF wit_cfg_ok]] D(2) by (simp add: vol_slots_def)
  moreover have "keyed_slots wit_cfg (slot (ram_mem (dev s)) wit_cfg (i_sector (inst s))) ?n"
    using D(2) by (simp add: sector_inv_def vol_slots_def)
  ultimately show ?thesis
    using construct_builds_index [OF wit_cfg_ok refl D(1) _ _ d, of ?n "client_rec wit_cfg [] []"]
      s(1,3) D(4) by (auto simp: header_ok_def)
qed

text \<open>
  C21: Enumerating with \<^verbatim>\<open>nvol3_record_first\<close> and \<^verbatim>\<open>nvol3_record_next\<close> ends and yields every
  record exactly once: the collected byte strings are distinct, and they are exactly key followed
  by data for the entries of the map.
\<close>

theorem records_enumerated:
  assumes "cfg_ok ramdrv_ops 131072 c" "nvol_inv ram_mem c s" "rec_buf c rec"
  shows "\<exists>xs. all_records c rec s = Some xs \<and> distinct xs \<and>
    set xs = {k @ v | k v. vol_map ram_mem c s k = Some v}"
  by (rule volume.all_records_ok [OF ram_volume [OF assms(1)] assms(2,3)])

theorem records_enumerated_witness:
  "\<exists>s0 s. nvol3_reset wit_cfg wit_start = Some (EOK, s0) \<and>
    vol_step wit_cfg (VSet [1, 0, 0, 0] [7, 8, 9]) s0 = Some ((EOK, []), s) \<and>
    all_records wit_cfg (client_rec wit_cfg [] []) s = Some [[1, 0, 0, 0, 7, 8, 9]]"
proof -
  obtain s0 s where s: "nvol3_reset wit_cfg wit_start = Some (EOK, s0)"
    "vol_step wit_cfg (VSet [1, 0, 0, 0] [7, 8, 9]) s0 = Some ((EOK, []), s)" "nvol_inv ram_mem wit_cfg s"
    "plenty (hp s)" "vol_map ram_mem wit_cfg s = [[1, 0, 0, 0] \<mapsto> [7, 8, 9]]" by (rule wit_one)
  obtain xs where xs: "all_records wit_cfg (client_rec wit_cfg [] []) s = Some xs" "distinct xs"
    "set xs = {k @ v | k v. vol_map ram_mem wit_cfg s k = Some v}"
    using records_enumerated [OF wit_cfg_ok s(3) wit_rec] by blast
  have "set xs = {[1, 0, 0, 0, 7, 8, 9]}" unfolding xs(3) s(5) by (auto split: if_splits)
  then have "xs = [[1, 0, 0, 0, 7, 8, 9]]" using xs(2) by (cases xs; cases "tl xs") (auto split: if_splits)
  with xs(1) s(1,2) show ?thesis by blast
qed

text \<open>
  \<^verbatim>\<open>nvol3_record_status\<close> and \<^verbatim>\<open>nvol3_record_key_and_data_length\<close> answer from the map: EOK
  or E_NOTFOUND, and the length of key and data or EFAIL.
\<close>

theorem status_and_length:
  assumes "cfg_ok ramdrv_ops 131072 c" "nvol_inv ram_mem c s" "ksz c \<le> length p"
  shows "nvol3_record_status p s =
      Some (if vol_map ram_mem c s (take (ksz c) p) = None then E_NOTFOUND else EOK) \<and>
    nvol3_record_key_and_data_length c p s =
      Some (case vol_map ram_mem c s (take (ksz c) p) of
              None \<Rightarrow> EFAIL | Some v \<Rightarrow> int (ksz c + length v))"
  using volume.status_ok [OF ram_volume [OF assms(1)] assms(2,3)]
    volume.length_ok [OF ram_volume [OF assms(1)] assms(2,3)] by blast

theorem status_and_length_witness:
  "\<exists>s. nvol3_reset wit_cfg wit_start = Some (EOK, s) \<and>
    nvol3_record_status [1, 2, 3, 4] s = Some E_NOTFOUND \<and>
    nvol3_record_key_and_data_length wit_cfg [1, 2, 3, 4] s = Some EFAIL"
proof -
  obtain s where s: "nvol3_reset wit_cfg wit_start = Some (EOK, s)" "nvol_inv ram_mem wit_cfg s"
    "vol_map ram_mem wit_cfg s = Map.empty" by (rule wit_reset)
  from status_and_length [OF wit_cfg_ok s(2), of "[1, 2, 3, 4]"] s show ?thesis by auto
qed

lemma byte_sum_foldl: "foldl (\<lambda>sum b. sum + ucast b) x bs = x + byte_sum bs"
proof (induction bs arbitrary: x)
  case (Cons b bs)
  show ?case
    using Cons [of "x + ucast b"] Cons [of "ucast b"] by (simp add: byte_sum_def add.assoc)
qed (simp add: byte_sum_def)

lemma byte_sum_append: "byte_sum (xs @ ys) = byte_sum xs + byte_sum ys"
  using byte_sum_foldl [of "byte_sum xs" ys] by (simp add: byte_sum_def)

lemma byte_sum_Cons: "byte_sum (b # bs) = ucast b + byte_sum bs"
  using byte_sum_foldl [of "ucast b" bs] by (simp add: byte_sum_def)

lemma ucast_u8_u16_inject: "(ucast (a :: u8) :: u16) = ucast b \<longleftrightarrow> a = b"
  by (metis unat_ucast_u8_u16 unsigned_word_eqI)

text \<open>
  C23: The record checksum detects every corruption of a single byte: a record that
  \<^verbatim>\<open>variable_record_valid\<close> accepts is rejected with E_INVALID once any one byte of its key or data
  has another value.
\<close>

theorem checksum_detects_byte:
  assumes "variable_record_valid rec = Some EOK" "i < unat (h_length (head rec))"
    "b \<noteq> key_and_data rec ! i"
  shows "variable_record_valid (rec\<lparr>key_and_data := (key_and_data rec)[i := b]\<rparr>) = Some E_INVALID"
proof -
  let ?n = "unat (h_length (head rec))" and ?kd = "key_and_data rec"
  have n: "?n \<le> length ?kd" and cs: "h_checksum (head rec) = record_checksum (take ?n ?kd)"
    using assms(1) by (auto simp: variable_record_valid_def buf_read_def split: if_splits option.splits)
  have i: "i < length (take ?n ?kd)" using assms(2) n by simp
  define A B where "A = take i (take ?n ?kd)" and "B = drop (Suc i) (take ?n ?kd)"
  have t: "take ?n ?kd = A @ ?kd ! i # B"
    using id_take_nth_drop [OF i] assms(2) by (simp add: A_def B_def)
  have t': "take ?n (?kd[i := b]) = A @ b # B"
    using upd_conv_take_nth_drop [OF i, of b] by (simp add: take_update_swap A_def B_def)
  have "record_checksum (A @ b # B) \<noteq> record_checksum (A @ ?kd ! i # B)"
    using assms(3)
    by (simp add: record_checksum_def byte_sum_append byte_sum_Cons ucast_u8_u16_inject)
  then have "record_checksum (take ?n (?kd[i := b])) \<noteq> record_checksum (take ?n ?kd)"
    using t t' by metis
  then show ?thesis using n cs by (simp add: variable_record_valid_def buf_read_def)
qed

theorem checksum_detects_byte_witness:
  "variable_record_valid \<lparr>head = \<lparr>h_flags = 0xAAAF, h_length = 2, h_checksum = - 7, h_reserved = 0\<rparr>,
     key_and_data = [3, 9]\<rparr> = Some E_INVALID"
  using checksum_detects_byte [of "\<lparr>head = \<lparr>h_flags = 0xAAAF, h_length = 2, h_checksum = - 7,
     h_reserved = 0\<rparr>, key_and_data = [3, 4]\<rparr>" 1 9]
  by (simp add: variable_record_valid_def buf_read_def record_checksum_def byte_sum_def)

end
