(* ===== verification/Selection.thy ===== *)
theory Selection
  imports Main
begin

text \<open>
  The first of the elements of a list with the least, or the greatest, value of a function; the help
  of the shell and the sorted iteration over a dictionary select their next element so.
\<close>

fun least :: "('a \<Rightarrow> 'b::linorder) \<Rightarrow> 'a \<Rightarrow> 'a list \<Rightarrow> 'a" where
  "least f m [] = m"
| "least f m (x # xs) = least f (if f x < f m then x else m) xs"

fun greatest :: "('a \<Rightarrow> 'b::linorder) \<Rightarrow> 'a \<Rightarrow> 'a list \<Rightarrow> 'a" where
  "greatest f m [] = m"
| "greatest f m (x # xs) = greatest f (if f m < f x then x else m) xs"

text \<open>The first element with a given value.\<close>

definition first_with :: "('a \<Rightarrow> 'b) \<Rightarrow> 'a list \<Rightarrow> 'b \<Rightarrow> 'a" where
  "first_with f xs v = the (find (\<lambda>x. f x = v) xs)"

lemma first_with_Cons: "first_with f (x # xs) v = (if f x = v then x else first_with f xs v)"
  by (simp add: first_with_def)

lemma find_first_with: "v \<in> f ` set xs \<Longrightarrow> find (\<lambda>x. f x = v) xs = Some (first_with f xs v)"
  by (cases "find (\<lambda>x. f x = v) xs") (auto simp: first_with_def find_None_iff)

lemma first_with_value: "v \<in> f ` set xs \<Longrightarrow> f (first_with f xs v) = v \<and> first_with f xs v \<in> set xs"
  using find_first_with [of v f xs] by (auto simp: find_Some_iff in_set_conv_nth)

lemma first_with_less:
  fixes f :: "'a \<Rightarrow> 'b::linorder"
  assumes "M \<le> f x" "M \<le> f m"
  shows "first_with f ((if f x < f m then x else m) # xs) M = first_with f (m # x # xs) M"
  using assms by (cases "f x" "f m" rule: linorder_cases) (auto simp: first_with_Cons dest: leD antisym)

lemma first_with_greater:
  fixes f :: "'a \<Rightarrow> 'b::linorder"
  assumes "f x \<le> M" "f m \<le> M"
  shows "first_with f ((if f m < f x then x else m) # xs) M = first_with f (m # x # xs) M"
  using assms by (cases "f x" "f m" rule: linorder_cases) (auto simp: first_with_Cons dest: leD antisym)

lemma least_first: "least f m xs = first_with f (m # xs) (Min (f ` set (m # xs)))"
proof (induction xs arbitrary: m)
  case Nil
  then show ?case by (simp add: first_with_def)
next
  case (Cons x xs)
  have "Min (f ` set (m # x # xs)) = Min (f ` set ((if f x < f m then x else m) # xs))"
    by (cases "xs = []") (auto simp: min_def Min_insert2 insert_commute)
  moreover have "Min (f ` set (m # x # xs)) \<le> f x" "Min (f ` set (m # x # xs)) \<le> f m"
    by ((rule Min_le), auto)+
  ultimately show ?case
    unfolding least.simps Cons.IH by (simp only: first_with_less)
qed

lemma greatest_first: "greatest f m xs = first_with f (m # xs) (Max (f ` set (m # xs)))"
proof (induction xs arbitrary: m)
  case Nil
  then show ?case by (simp add: first_with_def)
next
  case (Cons x xs)
  have "Max (f ` set (m # x # xs)) = Max (f ` set ((if f m < f x then x else m) # xs))"
    by (cases "xs = []") (auto simp: max_def insert_commute)
  moreover have "Max (f ` set (m # x # xs)) \<ge> f x" "Max (f ` set (m # x # xs)) \<ge> f m"
    by ((rule Max_ge), auto)+
  ultimately show ?case
    unfolding greatest.simps Cons.IH by (simp only: first_with_greater)
qed

lemma first_with_filter: "P v \<Longrightarrow> first_with f (filter (\<lambda>x. P (f x)) xs) v = first_with f xs v"
  by (induction xs) (auto simp: first_with_def)

text \<open>Selecting, again and again, the least element above the last one, gives the sorted list.\<close>

lemma least_Min: "f (least f m xs) = Min (f ` set (m # xs))" and least_in: "least f m xs \<in> set (m # xs)"
proof -
  have "Min (f ` set (m # xs)) \<in> f ` set (m # xs)" by (intro Min_in) auto
  from first_with_value [OF this] show "f (least f m xs) = Min (f ` set (m # xs))" "least f m xs \<in> set (m # xs)"
    by (auto simp: least_first)
qed

definition least_above :: "('a \<Rightarrow> 'b::linorder) \<Rightarrow> 'a \<Rightarrow> 'a list \<Rightarrow> 'a option" where
  "least_above f x xs =
     (case filter (\<lambda>y. f x < f y) xs of [] \<Rightarrow> None | m # ms \<Rightarrow> Some (least f m ms))"

text \<open>
  \<open>rest\<close> are the elements above \<open>x\<close>, in order: the next one is its head.
\<close>

lemma least_above_sorted:
  assumes inj: "inj_on f (set xs)" and rest: "set rest = {y \<in> set xs. f x < f y}"
    and sorted: "sorted_wrt (\<lambda>a b. f a < f b) rest"
  shows "least_above f x xs = (case rest of [] \<Rightarrow> None | y # _ \<Rightarrow> Some y)"
proof (cases rest)
  case Nil
  then have "filter (\<lambda>y. f x < f y) xs = []" using rest by (auto simp: filter_empty_conv)
  with Nil show ?thesis by (simp add: least_above_def)
next
  case (Cons y ys)
  have F: "set (filter (\<lambda>y. f x < f y) xs) = set (y # ys)" using rest Cons by auto
  then obtain m ms where m: "filter (\<lambda>y. f x < f y) xs = m # ms"
    by (cases "filter (\<lambda>y. f x < f y) xs") auto
  have "Min (f ` set (y # ys)) = f y" using sorted Cons by (intro Min_eqI) auto
  then have "f (least f m ms) = f y" using F m by (simp add: least_Min)
  moreover have "least f m ms \<in> set xs" "y \<in> set xs"
    using least_in [of f m ms] F m rest Cons by auto
  ultimately show ?thesis using inj m Cons by (auto simp: least_above_def inj_on_def)
qed

end
