(* ===== verification/Dict_Sorted.thy ===== *)
theory Dict_Sorted
  imports Dict_Spec Selection
begin

text \<open>
  The sorted iteration over a dictionary, \<^verbatim>\<open>dictionary_it_first\<close> and \<^verbatim>\<open>dictionary_it_next\<close> with a
  comparison: each step scans the whole table for the least node above the current one.  The
  comparison need only be defined, and follow the order of \<open>f\<close>, for different nodes.
\<close>

section \<open>The scans\<close>

text \<open>The nodes that plain steps of an iterator lead through.\<close>

primrec yields :: "dictionary \<Rightarrow> dict_it \<Rightarrow> dnode list \<Rightarrow> bool" where
  "yields d it [] \<longleftrightarrow> (\<exists>it'. it_next d it = Some (None, it'))"
| "yields d it (n # ns) \<longleftrightarrow> (\<exists>it'. it_next d it = Some (Some n, it') \<and> yields d it' ns)"

lemma it_next_cmp: "it_next d it = Some (m, it') \<Longrightarrow> it_cmp it' = it_cmp it"
  by (auto simp: it_next_def bind_eq_Some_conv split: option.splits)

lemma yields_pos:
  assumes "dict_inv d h"
  shows "it_pos d it rest \<Longrightarrow> \<exists>ns. yields d it ns \<and> set ns \<subseteq> set (dict_nodes d) \<and> map naddr ns = map snd rest"
proof (induction rest arbitrary: it)
  case Nil
  with it_next_Nil [OF assms] show ?case by (intro exI [of _ "[]"]) auto
next
  case (Cons p rest)
  obtain b a where p: "p = (b, a)" by fastforce
  obtain n it' where n: "it_next d it = Some (Some n, it')" "n \<in> set (dict_nodes d)" "naddr n = a"
    "it_pos d it' rest" "it_cmp it' = it_cmp it"
    using it_next_Cons [OF assms Cons.prems [unfolded p]] by metis
  from Cons.IH [OF n(4)] obtain ns where
    "yields d it' ns" "set ns \<subseteq> set (dict_nodes d)" "map naddr ns = map snd rest" by blast
  with n show ?case by (intro exI [of _ "n # ns"]) (auto simp: p)
qed

lemma yields_all: "dict_inv d h \<Longrightarrow> yields d (it_init cmp) (dict_nodes d)"
proof -
  assume inv: "dict_inv d h"
  from yields_pos [OF inv it_pos_init] obtain ns where
    "yields d (it_init cmp) ns" "set ns \<subseteq> set (dict_nodes d)" "map naddr ns = map snd (slots d)" by blast
  moreover from this have "ns = dict_nodes d"
    using map_naddr_inject [OF inv, of ns "dict_nodes d"] by (simp add: map_snd_slots)
  ultimately show ?thesis by simp
qed

text \<open>A comparison in the order of \<open>f\<close>.\<close>

definition compares :: "dlist_compare \<Rightarrow> (dnode \<Rightarrow> 'b::linorder) \<Rightarrow> dnode set \<Rightarrow> bool" where
  "compares cmp f ns \<longleftrightarrow>
     (\<forall>a \<in> ns. \<forall>b \<in> ns. a \<noteq> b \<longrightarrow>
        (\<exists>c. cmp a b = Some c \<and> (c < 0 \<longleftrightarrow> f a < f b) \<and> (c > 0 \<longleftrightarrow> f b < f a)))"

lemma compares_D:
  assumes "compares cmp f ns" "a \<in> ns" "b \<in> ns" "a \<noteq> b"
  obtains c where "cmp a b = Some c" "c < 0 \<longleftrightarrow> f a < f b" "c > 0 \<longleftrightarrow> f b < f a"
  using assms unfolding compares_def by blast

lemma it_min_least:
  assumes "compares cmp f S"
  shows "yields d it ns \<Longrightarrow> distinct (m # ns) \<Longrightarrow> set (m # ns) \<subseteq> S \<Longrightarrow>
    \<exists>idx' it'. it_min d cmp it m idx = Some (least f m ns, idx', it') \<and> it_cmp it' = it_cmp it"
proof (induction ns arbitrary: it m idx)
  case Nil
  then obtain it' where "it_next d it = Some (None, it')" by auto
  with it_next_cmp [OF this] show ?case by (simp add: it_min.simps)
next
  case (Cons n ns)
  then obtain it' where it': "it_next d it = Some (Some n, it')" "yields d it' ns" by auto
  obtain c where c: "cmp m n = Some c" "c > 0 \<longleftrightarrow> f n < f m"
    using compares_D [OF assms, of m n] Cons.prems by auto
  have "distinct ((if f n < f m then n else m) # ns)" "set ((if f n < f m then n else m) # ns) \<subseteq> S"
    using Cons.prems by auto
  from Cons.IH [OF it'(2) this, of "if f n < f m then it_idx it' else idx"] obtain idx' it'' where
    "it_min d cmp it' (if f n < f m then n else m) (if f n < f m then it_idx it' else idx) =
       Some (least f m (n # ns), idx', it'')" "it_cmp it'' = it_cmp it'"
    by auto
  with it' c it_next_cmp [OF it'(1)] show ?case
    by (subst it_min.simps) (auto split: if_splits)
qed

lemma it_above_least:
  assumes cmp: "compares cmp f S" and x: "x \<in> S" "node_at d (naddr x) = Some x"
    and addr: "\<And>y. y \<in> S \<Longrightarrow> naddr y = naddr x \<Longrightarrow> y = x"
  shows "yields d it ns \<Longrightarrow> distinct ns \<Longrightarrow> set ns \<subseteq> S \<Longrightarrow>
    (case nx of None \<Rightarrow> True | Some m \<Rightarrow> m \<in> S - set ns) \<Longrightarrow>
    \<exists>idx'. it_above d cmp (Some (naddr x)) it nx idx =
      Some (case nx of None \<Rightarrow> least_above f x ns
                     | Some m \<Rightarrow> Some (least f m (filter (\<lambda>y. f x < f y) ns)), idx')"
proof (induction ns arbitrary: it nx idx)
  case Nil
  then show ?case by (auto simp: it_above.simps least_above_def split: option.split)
next
  case (Cons n ns)
  then obtain it' where it': "it_next d it = Some (Some n, it')" "yields d it' ns" by auto
  have IH: "\<exists>idx'. it_above d cmp (Some (naddr x)) it' nx' idx0 =
      Some (case nx' of None \<Rightarrow> least_above f x ns
                     | Some m \<Rightarrow> Some (least f m (filter (\<lambda>y. f x < f y) ns)), idx')"
    if "case nx' of None \<Rightarrow> True | Some m \<Rightarrow> m \<in> S - set ns" for nx' idx0
    using Cons.IH [OF it'(2) _ _ that] Cons.prems(2,3) by simp
  have old: "case nx of None \<Rightarrow> True | Some m \<Rightarrow> m \<in> S - set ns"
    using Cons.prems(4) by (auto split: option.splits)
  show ?case
  proof (cases "f x < f n")
    case False
    have "naddr x = naddr n \<or> (\<exists>c. cmp x n = Some c \<and> c \<ge> 0)"
    proof (cases "x = n")
      case False
      then obtain c where "cmp x n = Some c" "c < 0 \<longleftrightarrow> f x < f n"
        using compares_D [OF cmp, of x n] x Cons.prems(3) by auto
      with \<open>\<not> f x < f n\<close> show ?thesis by auto
    qed simp
    moreover have eq: "(case nx of None \<Rightarrow> least_above f x (n # ns)
          | Some m \<Rightarrow> Some (least f m (filter (\<lambda>y. f x < f y) (n # ns)))) =
        (case nx of None \<Rightarrow> least_above f x ns
          | Some m \<Rightarrow> Some (least f m (filter (\<lambda>y. f x < f y) ns)))"
      using False by (cases nx) (simp_all add: least_above_def)
    ultimately show ?thesis
      using IH [OF old] it' x(2) unfolding eq by (subst it_above.simps) auto
  next
    case True
    then have ne: "x \<noteq> n" "naddr n \<noteq> naddr x" using addr [of n] Cons.prems(3) by auto
    obtain c where c: "cmp x n = Some c" "c < 0"
      using compares_D [OF cmp, of x n] x ne Cons.prems(3) True by auto
    show ?thesis
    proof (cases nx)
      case None
      have "n \<in> S - set ns" using Cons.prems(2,3) by auto
      with IH [of "Some n" "it_idx it'"] None it' x(2) c ne True show ?thesis
        by (subst it_above.simps) (auto simp: least_above_def)
    next
      case (Some m)
      then have m: "m \<in> S" "m \<noteq> n" "m \<notin> set ns" using Cons.prems(4) by auto
      obtain c2 where c2: "cmp m n = Some c2" "c2 > 0 \<longleftrightarrow> f n < f m"
        using compares_D [OF cmp m(1) _ m(2)] Cons.prems(3) by auto
      have "(if f n < f m then n else m) \<in> S - set ns" using m Cons.prems(2,3) by auto
      with IH [of "Some (if f n < f m then n else m)" "if f n < f m then it_idx it' else idx"]
        Some it' x(2) c c2 ne True show ?thesis
        by (subst it_above.simps) (auto split: if_splits)
    qed
  qed
qed

section \<open>The whole iteration\<close>

definition sorted_all :: "dictionary \<Rightarrow> dlist_compare \<Rightarrow> dnode list option" where
  "sorted_all d cmp = do { (m, it) \<leftarrow> dictionary_it_first d (Some cmp); walk d m it }"

lemma sorted_next:
  assumes inv: "dict_inv d h" and cmp: "compares cmp f (set (dict_nodes d))"
    and it: "it_np it = Some (naddr x)" "it_cmp it = Some cmp" and x: "x \<in> set (dict_nodes d)"
  shows "\<exists>idx. dictionary_it_next d it = Some (least_above f x (dict_nodes d),
    it\<lparr>it_np := map_option naddr (least_above f x (dict_nodes d)), it_idx := idx\<rparr>)"
proof -
  have "distinct (dict_nodes d)" using inv by (auto simp: dict_inv_def distinct_map)
  with it_above_least [OF cmp x node_at_Some [OF inv x] dict_inv_addr_unique [OF inv _ x]
      yields_all [OF inv, of None], of None "Some (- 1)"]
  obtain idx where "it_above d cmp (Some (naddr x)) (it_init None) None (Some (- 1)) =
      Some (least_above f x (dict_nodes d), idx)" by auto
  then show ?thesis using it by (auto simp: dictionary_it_next_def)
qed

lemma sorted_first:
  assumes inv: "dict_inv d h" and cmp: "compares cmp f (set (dict_nodes d))"
    and nodes: "dict_nodes d = n # ns"
  shows "\<exists>it. dictionary_it_first d (Some cmp) = Some (Some (least f n ns), it) \<and>
    it_np it = Some (naddr (least f n ns)) \<and> it_cmp it = Some cmp"
proof -
  obtain it1 where y: "it_next d (it_init (Some cmp)) = Some (Some n, it1)" "yields d it1 ns"
    using yields_all [OF inv, of "Some cmp"] nodes by auto
  have c: "it_cmp it1 = Some cmp" using it_next_cmp [OF y(1)] by (simp add: it_init_def)
  have "distinct (n # ns)" "set (n # ns) \<subseteq> set (dict_nodes d)"
    using inv nodes by (auto simp: dict_inv_def distinct_map)
  from it_min_least [OF cmp y(2) this] obtain idx it2 where
    "it_min d cmp it1 n None = Some (least f n ns, idx, it2)" "it_cmp it2 = it_cmp it1" by blast
  with y c show ?thesis by (simp add: dictionary_it_first_def)
qed

text \<open>The nodes that \<^verbatim>\<open>dictionary_it_next\<close> leads through.\<close>

primrec visits :: "dictionary \<Rightarrow> dict_it \<Rightarrow> dnode list \<Rightarrow> bool" where
  "visits d it [] \<longleftrightarrow> (\<exists>it'. dictionary_it_next d it = Some (None, it'))"
| "visits d it (n # ns) \<longleftrightarrow>
     (\<exists>it'. dictionary_it_next d it = Some (Some n, it') \<and> it_np it' = Some (naddr n) \<and> visits d it' ns)"

lemma visits_walk: "visits d it ns \<Longrightarrow> walk d (Some n) it = Some (n # ns)"
proof (induction ns arbitrary: n it)
  case Nil
  then obtain it' where "dictionary_it_next d it = Some (None, it')" by auto
  moreover have "walk d None it' = Some []" by (simp add: walk.simps)
  ultimately show ?case by (subst walk.simps) simp
next
  case (Cons a ns)
  then obtain it' where "dictionary_it_next d it = Some (Some a, it')" "visits d it' ns" by auto
  with Cons.IH [of it' a] show ?case by (subst walk.simps) simp
qed

lemma sorted_visits:
  assumes inv: "dict_inv d h" and cmp: "compares cmp f (set (dict_nodes d))"
    and inj: "inj_on f (set (dict_nodes d))"
  shows "it_np it = Some (naddr x) \<Longrightarrow> it_cmp it = Some cmp \<Longrightarrow> x \<in> set (dict_nodes d) \<Longrightarrow>
    set rest = {y \<in> set (dict_nodes d). f x < f y} \<Longrightarrow> sorted_wrt (\<lambda>a b. f a < f b) rest \<Longrightarrow>
    visits d it rest"
proof (induction rest arbitrary: x it)
  case Nil
  from sorted_next [OF inv cmp Nil(1-3)] least_above_sorted [OF inj Nil(4,5)]
  show ?case by auto
next
  case (Cons y rest)
  obtain idx where nx: "dictionary_it_next d it = Some (Some y, it\<lparr>it_np := Some (naddr y), it_idx := idx\<rparr>)"
    using sorted_next [OF inv cmp Cons.prems(1-3)] least_above_sorted [OF inj Cons.prems(4,5)] by auto
  have "{z \<in> set (dict_nodes d). f y < f z} = {z \<in> {z \<in> set (dict_nodes d). f x < f z}. f y < f z}"
    using Cons.prems(4) by (auto intro: less_trans)
  also have "\<dots> = set rest" unfolding Cons.prems(4) [symmetric] using Cons.prems(5) by auto
  finally have "visits d (it\<lparr>it_np := Some (naddr y), it_idx := idx\<rparr>) rest"
    using Cons.IH [of "it\<lparr>it_np := Some (naddr y), it_idx := idx\<rparr>" y] Cons.prems by auto
  with nx show ?case by auto
qed

lemma sort_key_strict:
  assumes "inj_on f (set xs)" "distinct xs"
  shows "sorted_wrt (\<lambda>a b. f a < f b) (sort_key f xs)"
proof -
  have "sorted (map f (sort_key f xs))" "distinct (map f (sort_key f xs))"
    using assms by (simp_all add: distinct_map)
  then have "sorted_wrt (<) (map f (sort_key f xs))" by (simp only: strict_sorted_iff simp_thms)
  then show ?thesis by (simp only: sorted_wrt_map)
qed

lemma sorted_start:
  assumes inv: "dict_inv d h" and cmp: "compares cmp f (set (dict_nodes d))"
    and inj: "inj_on f (set (dict_nodes d))"
  shows "case sort_key f (dict_nodes d) of
      [] \<Rightarrow> \<exists>it. dictionary_it_first d (Some cmp) = Some (None, it)
    | x # rest \<Rightarrow> \<exists>it. dictionary_it_first d (Some cmp) = Some (Some x, it) \<and>
        it_np it = Some (naddr x) \<and> visits d it rest"
proof (cases "dict_nodes d")
  case Nil
  then have "\<exists>it. it_next d (it_init (Some cmp)) = Some (None, it)"
    using yields_all [OF inv, of "Some cmp"] by simp
  then show ?thesis by (auto simp: Nil dictionary_it_first_def)
next
  case (Cons n ns)
  have "distinct (dict_nodes d)" using inv by (auto simp: dict_inv_def distinct_map)
  note strict = sort_key_strict [OF inj this]
  obtain x rest where L: "sort_key f (dict_nodes d) = x # rest"
    using Cons by (cases "sort_key f (dict_nodes d)") (auto dest: arg_cong [of _ _ set])
  have set: "set (x # rest) = set (dict_nodes d)" using L by (metis set_sort)
  have lt: "\<forall>y \<in> set rest. f x < f y" "sorted_wrt (\<lambda>a b. f a < f b) rest" using strict L by simp_all
  have "Min (f ` set (dict_nodes d)) = f x"
    unfolding set [symmetric] using lt(1) by (intro Min_eqI) auto
  then have "Min (f ` set (n # ns)) = f x" using Cons by simp
  then have "f (least f n ns) = f x" by (simp add: least_Min)
  moreover have "least f n ns \<in> set (dict_nodes d)" unfolding Cons by (rule least_in)
  moreover have "x \<in> set (dict_nodes d)" unfolding set [symmetric] by simp
  ultimately have x: "least f n ns = x" by (rule inj_onD [OF inj])
  have "set rest = {y \<in> set (x # rest). f x < f y}" using lt(1) by auto
  then have above: "set rest = {y \<in> set (dict_nodes d). f x < f y}" unfolding set .
  obtain it where "dictionary_it_first d (Some cmp) = Some (Some x, it)" "it_np it = Some (naddr x)"
    "it_cmp it = Some cmp"
    using sorted_first [OF inv cmp Cons] unfolding x by blast
  moreover from this sorted_visits [OF inv cmp inj _ _ _ above lt(2)] set have "visits d it rest" by auto
  ultimately show ?thesis by (auto simp: L)
qed

lemma sorted_all_sort:
  assumes "dict_inv d h" "compares cmp f (set (dict_nodes d))" "inj_on f (set (dict_nodes d))"
  shows "sorted_all d cmp = Some (sort_key f (dict_nodes d))"
  using sorted_start [OF assms]
  by (cases "sort_key f (dict_nodes d)") (auto simp: sorted_all_def walk.simps dest: visits_walk)

text \<open>
  C38: The sorted iteration ends and yields the nodes of the table sorted by the order its comparison
  follows, each one once.
\<close>

theorem dictionary_sorted_iteration:
  assumes "dict_inv d h" "compares cmp f (set (dict_nodes d))" "inj_on f (set (dict_nodes d))"
  shows "sorted_all d cmp = Some (sort_key f (dict_nodes d))"
  by (rule sorted_all_sort [OF assms])

definition byte_compare :: dlist_compare where
  "byte_compare a b = Some (int (unat (hd (nkey a))) - int (unat (hd (nkey b))))"

definition three_dict :: dictionary where
  "three_dict = wit_dict\<lparr>d_count := 3,
     hashtab := [[\<lparr>naddr = 2, nkey = [9, 0, 0, 0], nval = []\<rparr>],
                 [\<lparr>naddr = 1, nkey = [4, 0, 0, 0], nval = []\<rparr>, \<lparr>naddr = 0, nkey = [1, 0, 0, 0], nval = [7]\<rparr>], []]\<rparr>"

theorem dictionary_sorted_iteration_witness:
  "map_option (map nkey) (sorted_all three_dict byte_compare) =
    Some [[1, 0, 0, 0], [4, 0, 0, 0], [9, 0, 0, 0]]"
proof -
  have nodes: "dict_nodes three_dict = [\<lparr>naddr = 2, nkey = [9, 0, 0, 0], nval = []\<rparr>,
      \<lparr>naddr = 1, nkey = [4, 0, 0, 0], nval = []\<rparr>, \<lparr>naddr = 0, nkey = [1, 0, 0, 0], nval = [7]\<rparr>]"
    by (simp add: dict_nodes_def three_dict_def wit_dict_def)
  have inv: "dict_inv three_dict (wit_heap\<lparr>next_addr := 3\<rparr>)"
    by (simp add: dict_inv_def three_dict_def wit_dict_def wit_heap_def dict_nodes_def dict_hash_def
        dict_keytype_def keyspec_defs dictionary_binary_key_hash_def DICTIONARY_KEY_SIZE_def
        dict_key_ok_def All_less_Suc)
  have cmp: "compares byte_compare (\<lambda>n. uint (hd (nkey n))) (set (dict_nodes three_dict))"
    by (simp add: compares_def byte_compare_def)
  have inj: "inj_on (\<lambda>n. uint (hd (nkey n))) (set (dict_nodes three_dict))" by (simp add: nodes)
  from dictionary_sorted_iteration [OF inv cmp inj] show ?thesis by (simp add: nodes)
qed

end
