(* ===== verification/Nvol_Sorted.thy ===== *)
theory Nvol_Sorted
  imports Nvol_Walk Dict_Sorted
begin

text \<open>
  The sorted enumeration of the records of a volume: \<^verbatim>\<open>nvol3_record_first\<close> with a comparison of keys,
  then \<^verbatim>\<open>nvol3_record_next\<close>.  The comparison must follow the order of \<open>g\<close> on the keys of the volume.
\<close>

definition key_order :: "(u8 list \<Rightarrow> u8 list \<Rightarrow> int option) \<Rightarrow> (u8 list \<Rightarrow> 'b::linorder) \<Rightarrow> u8 list set \<Rightarrow> bool" where
  "key_order cmp g K \<longleftrightarrow>
     inj_on g K \<and>
     (\<forall>k \<in> K. \<forall>k' \<in> K. k \<noteq> k' \<longrightarrow> (\<forall>r r'.
        \<exists>c. cmp (k @ r) (k' @ r') = Some c \<and> (c < 0 \<longleftrightarrow> g k < g k') \<and> (c > 0 \<longleftrightarrow> g k' < g k)))"

text \<open>The keys of the records before which an iterator stands, and the key of its own record.\<close>

definition key_visits :: "'f nvol \<Rightarrow> dict_it \<Rightarrow> u8 list list \<Rightarrow> bool" where
  "key_visits s it ks \<longleftrightarrow>
     (\<exists>d ns. loaded_dict s = Some d \<and> visits d it ns \<and> set ns \<subseteq> set (dict_nodes d) \<and> map nkey ns = ks)"

definition key_at :: "'f nvol \<Rightarrow> dict_it \<Rightarrow> u8 list \<Rightarrow> bool" where
  "key_at s it k \<longleftrightarrow>
     (\<exists>d np. loaded_dict s = Some d \<and> it_node it s = Some np \<and> nkey np = k)"

context volume
begin

lemma table_nodes:
  assumes inv: "nvol_inv mem c s"
  obtains d where "loaded_dict s = Some d" "dict_inv d (hp s)"
    "nkey ` set (dict_nodes d) = dom (vol_map mem c s)"
    "\<And>np. np \<in> set (dict_nodes d) \<Longrightarrow>
      \<exists>i v. vol_index mem c s (nkey np) = Some (i, v) \<and> nval np = entry_of c (i, v)"
proof -
  obtain d where d: "loaded_dict s = Some d" "i_dict (inst s) = Some d" "dict_inv d (hp s)"
    "d_keyspec d = c_keyspec c" "dict_map d = (\<lambda>k. map_option (entry_of c) (vol_index mem c s k))"
    by (rule table_is_loaded [OF nvol_inv_D(3) [OF inv]])
  have "nkey ` set (dict_nodes d) = dom (dict_map d)"
    by (simp add: dict_map_def dom_map_of_conv_image_fst image_image)
  also have "\<dots> = dom (vol_map mem c s)" by (auto simp: d(5) vol_map_def)
  finally have keys: "nkey ` set (dict_nodes d) = dom (vol_map mem c s)" .
  have "\<exists>i v. vol_index mem c s (nkey np) = Some (i, v) \<and> nval np = entry_of c (i, v)"
    if "np \<in> set (dict_nodes d)" for np
  proof -
    have "dict_map d (nkey np) = Some (nval np)" using dict_map_Some_iff [OF d(3)] that by blast
    then show ?thesis by (auto simp: d(5))
  qed
  with that d(1,3) keys show ?thesis by blast
qed

text \<open>What is read of the record of a node.\<close>

lemma node_record:
  assumes inv: "nvol_inv mem c s" and rb: "rec_buf c rec" and d: "loaded_dict s = Some d"
    and n: "n \<in> set (dict_nodes d)"
  shows "\<exists>v rec'. vol_map mem c s (nkey n) = Some v \<and>
    record_or_eof c rec (Some n) s = Some (int (ksz c + length v), rec') \<and> rec_buf c rec' \<and>
    take (ksz c + length v) (key_and_data rec') = nkey n @ v"
proof -
  obtain d' where d': "loaded_dict s = Some d'" and vals: "\<And>np. np \<in> set (dict_nodes d') \<Longrightarrow>
      \<exists>i v. vol_index mem c s (nkey np) = Some (i, v) \<and> nval np = entry_of c (i, v)"
    by (rule table_nodes [OF inv]) blast
  with d have "d' = d" by simp
  with vals n obtain i v where v: "vol_index mem c s (nkey n) = Some (i, v)" "nval n = entry_of c (i, v)"
    by blast
  obtain rec' where "record_get c rec (Some n) s = Some (int (ksz c + length v), rec')"
    "rec_buf c rec'" "take (ksz c + length v) (key_and_data rec') = nkey n @ v"
    using record_get_ok [OF inv rb v(1) refl v(2)] by blast
  with v show ?thesis by (auto simp: record_or_eof_def vol_map_def)
qed

lemma record_next_visit:
  assumes inv: "nvol_inv mem c s" and rb: "rec_buf c rec" and vis: "key_visits s it (k # ks)"
  shows "\<exists>v rec' it'. nvol3_record_next c rec it s = Some (int (ksz c + length v), rec', it') \<and>
    vol_map mem c s k = Some v \<and> rec_buf c rec' \<and>
    take (ksz c + length v) (key_and_data rec') = k @ v \<and> key_at s it' k \<and> key_visits s it' ks"
proof -
  obtain d n ns where d: "loaded_dict s = Some d" "visits d it (n # ns)" "n \<in> set (dict_nodes d)"
    "set ns \<subseteq> set (dict_nodes d)" "nkey n = k" "map nkey ns = ks"
    using vis by (auto simp: key_visits_def map_eq_Cons_conv)
  obtain it' where it': "dictionary_it_next d it = Some (Some n, it')" "it_np it' = Some (naddr n)" "visits d it' ns"
    using d(2) by auto
  have "dict_inv d (hp s)" by (rule table_nodes [OF inv]) (use d(1) in auto)
  then have "it_node it' s = Some n" using node_at_Some d(1,3) it'(2) by (simp add: it_node_def)
  then have "key_at s it' k" "key_visits s it' ks" using d it' by (auto simp: key_at_def key_visits_def)
  with node_record [OF inv rb d(1,3)] d(1,5) it'(1) show ?thesis
    by (auto simp: nvol3_record_next_def)
qed

lemma record_next_end:
  assumes "key_visits s it []"
  shows "\<exists>it'. nvol3_record_next c rec it s = Some (E_EOF, rec, it')"
  using assms by (auto simp: key_visits_def nvol3_record_next_def record_or_eof_def)

text \<open>The first record; the keys follow in order.\<close>

lemma record_first_sorted:
  assumes inv: "nvol_inv mem c s" and rb: "rec_buf c rec"
    and ord: "key_order cmp g (dom (vol_map mem c s))"
  shows "\<exists>ks. set ks = dom (vol_map mem c s) \<and> sorted_wrt (\<lambda>a b. g a < g b) ks \<and>
    (case ks of
       [] \<Rightarrow> \<exists>it. nvol3_record_first c rec (Some cmp) s = Some (E_EOF, rec, it)
     | k # ks' \<Rightarrow> \<exists>v rec' it. nvol3_record_first c rec (Some cmp) s = Some (int (ksz c + length v), rec', it) \<and>
         vol_map mem c s k = Some v \<and> rec_buf c rec' \<and>
         take (ksz c + length v) (key_and_data rec') = k @ v \<and> key_at s it k \<and> key_visits s it ks')"
proof -
  obtain d where d: "loaded_dict s = Some d" "dict_inv d (hp s)"
    "nkey ` set (dict_nodes d) = dom (vol_map mem c s)"
    by (rule table_nodes [OF inv]) blast
  define f where "f = (\<lambda>n :: dnode. g (nkey n))"
  have uniq: "inj_on nkey (set (dict_nodes d))" "distinct (dict_nodes d)"
    using d(2) by (auto simp: dict_inv_def distinct_map)
  have inj: "inj_on f (set (dict_nodes d))"
  proof (rule inj_onI)
    fix a b assume "a \<in> set (dict_nodes d)" "b \<in> set (dict_nodes d)" "f a = f b"
    moreover from this have "nkey a \<in> dom (vol_map mem c s)" "nkey b \<in> dom (vol_map mem c s)"
      unfolding d(3) [symmetric] by simp_all
    moreover have "inj_on g (dom (vol_map mem c s))" using ord by (simp add: key_order_def)
    ultimately show "a = b" using uniq(1) by (simp add: f_def inj_on_eq_iff)
  qed
  have key: "\<exists>r. dictionary_get_key d n = nkey n @ r" for n
    by (auto simp: dictionary_get_key_def split: keytype.split)
  have "compares (nvol3_cmp d (Some cmp)) f (set (dict_nodes d))"
    unfolding compares_def
  proof (intro ballI impI)
    fix a b assume ab: "a \<in> set (dict_nodes d)" "b \<in> set (dict_nodes d)" "a \<noteq> b"
    then have "nkey a \<noteq> nkey b" "nkey a \<in> dom (vol_map mem c s)" "nkey b \<in> dom (vol_map mem c s)"
      using uniq(1) d(3) by (auto simp: inj_on_def)
    moreover obtain r r' where "dictionary_get_key d a = nkey a @ r" "dictionary_get_key d b = nkey b @ r'"
      using key by metis
    ultimately show "\<exists>e. nvol3_cmp d (Some cmp) a b = Some e \<and> (e < 0 \<longleftrightarrow> f a < f b) \<and> (e > 0 \<longleftrightarrow> f b < f a)"
      using ord unfolding key_order_def nvol3_cmp_def f_def by simp
  qed
  note start = sorted_start [OF d(2) this inj]
  let ?L = "sort_key f (dict_nodes d)"
  have L: "set (map nkey ?L) = dom (vol_map mem c s)" "sorted_wrt (\<lambda>a b. g a < g b) (map nkey ?L)"
    using d(3) sort_key_strict [OF inj uniq(2)] by (simp_all add: sorted_wrt_map f_def)
  show ?thesis
  proof (cases ?L)
    case Nil
    then show ?thesis
      using start L d(1) by (intro exI [of _ "[]"]) (auto simp: nvol3_record_first_def record_or_eof_def)
  next
    case (Cons x rest)
    then have x: "x \<in> set (dict_nodes d)" "set rest \<subseteq> set (dict_nodes d)"
      using set_sort [of f "dict_nodes d"] by auto
    obtain it where it: "dictionary_it_first d (Some (nvol3_cmp d (Some cmp))) = Some (Some x, it)"
      "it_np it = Some (naddr x)" "visits d it rest"
      using start Cons by auto
    then have "key_at s it (nkey x)" "key_visits s it (map nkey rest)"
      using node_at_Some [OF d(2) x(1)] d(1) x(2) by (auto simp: key_at_def key_visits_def it_node_def)
    with node_record [OF inv rb d(1) x(1)] it(1) L d(1) Cons show ?thesis
      by (intro exI [of _ "map nkey ?L"]) (auto simp: nvol3_record_first_def)
  qed
qed

end

end
