(* ===== verification/Linked_List.thy ===== *)
theory Linked_List
  imports Nvol_Prelude
begin

text \<open>
  Singly linked lists of client-owned nodes, as \<^verbatim>\<open>strsub.c\<close> and \<^verbatim>\<open>corshell.c\<close> keep them: a
  list is a head pointer and the \<^verbatim>\<open>next\<close> field of every node.  \<open>seg nxt h xs t\<close> says that the
  links lead from \<open>h\<close> through the nodes \<open>xs\<close> to \<open>t\<close>.  Both modules look for a node with the same
  loop, modelled here once; on a list that is linked to itself it need not end.
\<close>

primrec seg :: "(nat \<Rightarrow> nat option) \<Rightarrow> nat option \<Rightarrow> nat list \<Rightarrow> nat option \<Rightarrow> bool" where
  "seg nxt h [] t \<longleftrightarrow> h = t"
| "seg nxt h (a # xs) t \<longleftrightarrow> h = Some a \<and> seg nxt (nxt a) xs t"

abbreviation chain :: "(nat \<Rightarrow> nat option) \<Rightarrow> nat option \<Rightarrow> nat list \<Rightarrow> bool" where
  "chain nxt h xs \<equiv> seg nxt h xs None"

lemma seg_append: "seg nxt h (xs @ ys) t \<longleftrightarrow> (\<exists>m. seg nxt h xs m \<and> seg nxt m ys t)"
  by (induction xs arbitrary: h) auto

lemma chain_None [simp]: "chain nxt None xs \<longleftrightarrow> xs = []"
  by (cases xs) auto

lemma seg_cong: "(\<And>a. a \<in> set xs \<Longrightarrow> nxt a = nxt' a) \<Longrightarrow> seg nxt h xs t = seg nxt' h xs t"
  by (induction xs arbitrary: h) auto

lemma seg_upd [simp]: "a \<notin> set xs \<Longrightarrow> seg (nxt(a := x)) h xs t = seg nxt h xs t"
  by (rule seg_cong) auto

lemma chain_unique: "chain nxt h xs \<Longrightarrow> chain nxt h ys \<Longrightarrow> xs = ys"
proof (induction xs arbitrary: h ys)
  case (Cons a xs)
  then show ?case by (cases ys) auto
qed (cases ys; auto)

text \<open>No node repeats in a list that ends, because each node has one successor.\<close>

lemma chain_distinct: "chain nxt h xs \<Longrightarrow> distinct xs"
proof (induction xs arbitrary: h)
  case (Cons a xs)
  then have t: "chain nxt (nxt a) xs" by simp
  have "a \<notin> set xs"
  proof
    assume "a \<in> set xs"
    then obtain us vs where xs: "xs = us @ a # vs" by (auto simp: in_set_conv_decomp)
    then have "chain nxt (Some a) (a # vs)" using t by (auto simp: seg_append)
    with t have "a # vs = a # xs" by (intro chain_unique) auto
    then show False using xs by simp
  qed
  then show ?case using Cons.IH [OF t] by simp
qed simp

text \<open>
  The loop \<^verbatim>\<open>for ( ; (l!=0) && (l!=node) ; ) { prev = l ; l = l->next ; }\<close>: it leaves \<^verbatim>\<open>l\<close> and
  \<^verbatim>\<open>prev\<close>.
\<close>

partial_function (option) find_node ::
  "(nat \<Rightarrow> nat option) \<Rightarrow> nat \<Rightarrow> nat option \<Rightarrow> nat option \<Rightarrow> (nat option \<times> nat option) option" where
  "find_node nxt node l prev =
     (case l of
        None \<Rightarrow> Some (None, prev)
      | Some a \<Rightarrow> if a = node then Some (l, prev) else find_node nxt node (nxt a) l)"

lemma find_node_absent:
  assumes "chain nxt l xs" "node \<notin> set xs"
  shows "\<exists>prev'. find_node nxt node l prev = Some (None, prev')"
  using assms
proof (induction xs arbitrary: l prev)
  case Nil
  then show ?case by (simp add: find_node.simps)
next
  case (Cons a xs)
  then obtain prev' where "find_node nxt node (nxt a) (Some a) = Some (None, prev')" by auto
  with Cons.prems show ?case by (subst find_node.simps) auto
qed

lemma find_node_present:
  assumes "seg nxt l xs (Some node)" "node \<notin> set xs"
  shows "find_node nxt node l prev =
    Some (Some node, if xs = [] then prev else Some (last xs))"
  using assms
proof (induction xs arbitrary: l prev)
  case Nil
  then show ?case by (simp add: find_node.simps)
next
  case (Cons a xs)
  then have "find_node nxt node (nxt a) (Some a) =
      Some (Some node, if xs = [] then Some a else Some (last xs))" by simp
  with Cons.prems show ?case by (subst find_node.simps) auto
qed

text \<open>Unlinking an inner node.\<close>

lemma seg_unlink:
  assumes "chain nxt l (xs @ node # ys)" "xs \<noteq> []"
  shows "chain (nxt(last xs := nxt node)) l (xs @ ys)"
proof -
  obtain us p where xs: "xs = us @ [p]" using assms(2) by (metis rev_exhaust)
  have "distinct (us @ p # node # ys)" using chain_distinct [OF assms(1)] xs by simp
  then have p: "p \<notin> set us" "p \<notin> set ys" by auto
  have "chain nxt l (us @ p # node # ys)" using assms(1) xs by simp
  then obtain m where "seg nxt l us m" "chain nxt m (p # node # ys)"
    by (auto simp only: seg_append)
  then have "seg nxt l us (Some p)" "chain nxt (nxt node) ys" by auto
  then show ?thesis using p by (simp add: xs seg_append)
qed

lemma remove1_split: "node \<notin> set xs \<Longrightarrow> remove1 node (xs @ node # ys) = xs @ ys"
  by (simp add: remove1_append)

text \<open>A node linked to itself: no list, and the search for another node does not end.\<close>

lemma find_node_self_loop:
  assumes "nxt a = Some a" "a \<noteq> node"
  shows "find_node nxt node (Some a) prev = None"
proof -
  have step: "nx = nxt \<longrightarrow> nd = node \<longrightarrow> l \<noteq> Some a"
    if "find_node nx nd l p = Some r" for nx nd l p r
    using that
  proof (rule find_node.raw_induct [rotated])
    fix f nx nd l p r
    assume IH: "\<And>nx nd l p r. f nx nd l p = Some r \<Longrightarrow> nx = nxt \<longrightarrow> nd = node \<longrightarrow> l \<noteq> Some a"
      and "(case l of None \<Rightarrow> Some (None, p)
            | Some b \<Rightarrow> if b = nd then Some (l, p) else f nx nd (nx b) l) = Some r"
    then show "nx = nxt \<longrightarrow> nd = node \<longrightarrow> l \<noteq> Some a"
      using assms by (cases r) (fastforce split: if_splits)
  qed
  show ?thesis
    using step [of nxt node "Some a" prev] by (cases "find_node nxt node (Some a) prev") simp_all
qed

end
