(* ===== verification/Strsub.thy ===== *)
theory Strsub
  imports Linked_List
begin

text \<open>
  String substitution, \<^verbatim>\<open>src/common/strsub.c\<close>.  An instance has an escape character, three pairs
  of delimiters and, for each pair, a linked list of handlers; a handler is a node owned by the
  client.  The parser copies a text through a callback and replaces a delimited word by what the
  first handler that knows it sends to the same callback.

  A callback works on a state \<open>'s\<close> of its client; a handler is named by an identifier of type
  \<open>'c\<close>, which \<open>run\<close> executes.  A string parameter is the list of bytes readable through the
  pointer.
\<close>

unbundle bit_operations_syntax

section \<open>Instance and handlers\<close>

datatype strsub_token = StrsubDull | StrsubEsc | StrsubToken1 | StrsubToken2 | StrsubToken3 | StrsubLast

primrec token_no :: "strsub_token \<Rightarrow> int" where
  "token_no StrsubDull = - 2"
| "token_no StrsubEsc = - 1"
| "token_no StrsubToken1 = 0"
| "token_no StrsubToken2 = 1"
| "token_no StrsubToken3 = 2"
| "token_no StrsubLast = 3"

text \<open>Of a delimiter string the code reads the first two characters.\<close>

record strsub_instance =
  ss_escape :: u8
  ss_tokens :: "(u8 \<times> u8) option list"
  ss_handlers :: "nat option list"

record 'c strsub_handler =
  hd_next :: "nat option"
  hd_cb :: 'c

record 'c strsub =
  ss_inst :: strsub_instance
  ss_nodes :: "nat \<Rightarrow> 'c strsub_handler"

definition STRSUB_ESCAPE_TOKEN :: u8 where "STRSUB_ESCAPE_TOKEN = 92"

definition STRSUB_HANDLERS_TOKENS :: "(u8 \<times> u8) option list" where
  "STRSUB_HANDLERS_TOKENS = [Some (91, 93), Some (37, 37), Some (60, 62)]"

definition strsub_default :: strsub_instance where
  "strsub_default = \<lparr>ss_escape = STRSUB_ESCAPE_TOKEN, ss_tokens = STRSUB_HANDLERS_TOKENS,
                     ss_handlers = [None, None, None]\<rparr>"

definition nexts :: "'c strsub \<Rightarrow> nat \<Rightarrow> nat option" where
  "nexts i a = hd_next (ss_nodes i a)"

definition set_head :: "nat \<Rightarrow> nat option \<Rightarrow> 'c strsub \<Rightarrow> 'c strsub" where
  "set_head k h i = i\<lparr>ss_inst := (ss_inst i)\<lparr>ss_handlers := (ss_handlers (ss_inst i))[k := h]\<rparr>\<rparr>"

definition set_node :: "nat \<Rightarrow> 'c strsub_handler \<Rightarrow> 'c strsub \<Rightarrow> 'c strsub" where
  "set_node a n i = i\<lparr>ss_nodes := (ss_nodes i)(a := n)\<rparr>"

definition strsub_install_handler ::
  "strsub_token \<Rightarrow> nat \<Rightarrow> 'c \<Rightarrow> 'c strsub \<Rightarrow> bool \<times> 'c strsub" where
  "strsub_install_handler token handler cb i =
     (if token_no token \<ge> 0 \<and> token_no token < token_no StrsubLast
      then (let k = nat (token_no token);
                i = set_node handler
                      \<lparr>hd_next = ss_handlers (ss_inst i) ! k, hd_cb = cb\<rparr> i
            in (True, set_head k (Some handler) i))
      else (False, i))"

text \<open>The token is not checked here; outside the array there is no result.\<close>

definition strsub_uninstall_handler ::
  "strsub_token \<Rightarrow> nat \<Rightarrow> 'c strsub \<Rightarrow> 'c strsub option" where
  "strsub_uninstall_handler token handler i =
     (if token_no token < 0 \<or> token_no token \<ge> token_no StrsubLast then None
      else do {
        let k = nat (token_no token);
        (l, prev) \<leftarrow> find_node (nexts i) handler (ss_handlers (ss_inst i) ! k) None;
        Some (case (l, prev) of
                (None, _) \<Rightarrow> i
              | (Some l, Some p) \<Rightarrow> set_node p ((ss_nodes i p)\<lparr>hd_next := nexts i l\<rparr>) i
              | (Some l, None) \<Rightarrow> set_head k (nexts i l) i) })"

section \<open>The parser\<close>

type_synonym 's replace_cb = "u8 list \<Rightarrow> u32 \<Rightarrow> u32 \<Rightarrow> 's \<Rightarrow> (int \<times> 's) option"
type_synonym 's lookup_cb = "'s replace_cb \<Rightarrow> u8 list \<Rightarrow> nat \<Rightarrow> u32 \<Rightarrow> 's \<Rightarrow> (int \<times> 's) option"

text \<open>\<^verbatim>\<open>offset += res\<close> on \<^verbatim>\<open>int32_t\<close>.\<close>

definition add_offset :: "int \<Rightarrow> int \<Rightarrow> int option" where
  "add_offset offset res = (if offset + res < 2 ^ 31 then Some (offset + res) else None)"

text \<open>\<^verbatim>\<open>if ((res = cb (...)) > 0) offset += res\<close>.\<close>

definition emit ::
  "'s replace_cb \<Rightarrow> u8 list \<Rightarrow> nat \<Rightarrow> int \<Rightarrow> 's \<Rightarrow> (int \<times> int \<times> 's) option" where
  "emit cb str len offset s =
     do { (res, s) \<leftarrow> cb str (of_nat len) (word_of_int offset) s;
          offset \<leftarrow> (if res > 0 then add_offset offset res else Some offset);
          Some (offset, res, s) }"

text \<open>The handlers of a token in turn; the result says whether one of them took the word.\<close>

partial_function (option) handler_loop ::
  "('c \<Rightarrow> 's lookup_cb) \<Rightarrow> 'c strsub \<Rightarrow> 's replace_cb \<Rightarrow> u8 list \<Rightarrow> nat \<Rightarrow> int \<Rightarrow> nat option \<Rightarrow>
   's \<Rightarrow> (int option \<times> 's) option" where
  "handler_loop run i cb str len offset start s =
     (case start of
        None \<Rightarrow> Some (None, s)
      | Some a \<Rightarrow>
          do { (res, s) \<leftarrow> run (hd_cb (ss_nodes i a)) cb str len (word_of_int offset) s;
               if res \<ge> 0 then Some (Some res, s)
               else handler_loop run i cb str len offset (nexts i a) s })"

definition close_token ::
  "('c \<Rightarrow> 's lookup_cb) \<Rightarrow> 'c strsub \<Rightarrow> 's replace_cb \<Rightarrow> u8 list \<Rightarrow> nat \<Rightarrow> nat \<Rightarrow> nat \<Rightarrow> int \<Rightarrow>
   's \<Rightarrow> (int \<times> int \<times> 's) option" where
  "close_token run i cb buffer k word p offset s =
     do { (taken, s) \<leftarrow> handler_loop run i cb (drop word buffer) (p - word) offset
                          (ss_handlers (ss_inst i) ! k) s;
          case taken of
            Some res \<Rightarrow> do { offset \<leftarrow> add_offset offset res; Some (offset, res, s) }
          | None \<Rightarrow> emit cb (drop (word - 1) buffer) (p - word + 2) offset s }"

text \<open>The state of the parser: \<^verbatim>\<open>state\<close>, \<^verbatim>\<open>start_of_word\<close>, \<^verbatim>\<open>offset\<close>, \<^verbatim>\<open>res\<close> and the client's.\<close>

type_synonym 's parser = "strsub_token \<times> nat \<times> int \<times> int \<times> 's"

fun opens :: "strsub_instance \<Rightarrow> u8 \<Rightarrow> nat \<Rightarrow> bool" where
  "opens i c k \<longleftrightarrow>
     (case ss_tokens i ! k of None \<Rightarrow> False | Some t \<Rightarrow> ss_handlers i ! k \<noteq> None \<and> c = fst t)"

definition open_token :: "strsub_instance \<Rightarrow> u8 \<Rightarrow> strsub_token option" where
  "open_token i c =
     (if opens i c 0 then Some StrsubToken1
      else if opens i c 1 then Some StrsubToken2
      else if opens i c 2 then Some StrsubToken3
      else None)"

definition parse_char ::
  "('c \<Rightarrow> 's lookup_cb) \<Rightarrow> 'c strsub \<Rightarrow> 's replace_cb \<Rightarrow> u8 list \<Rightarrow> nat \<Rightarrow> 's parser \<Rightarrow>
   's parser option" where
  "parse_char run i cb buffer p st =
     (case st of (state, word, offset, res, s) \<Rightarrow>
      let c = buffer ! p; inst = ss_inst i in
      if state = StrsubDull then
        (if ss_escape inst \<noteq> 0 \<and> c = ss_escape inst then Some (StrsubEsc, word, offset, res, s)
         else case open_token inst c of
                Some t \<Rightarrow> Some (t, p + 1, offset, res, s)
              | None \<Rightarrow> do { (offset, res, s) \<leftarrow> emit cb (drop p buffer) 1 offset s;
                            Some (state, word, offset, res, s) })
      else if state = StrsubEsc then
        do { (offset, res, s) \<leftarrow> emit cb (drop p buffer) 1 offset s;
             Some (StrsubDull, word, offset, res, s) }
      else if state = StrsubLast then Some (StrsubDull, word, offset, res, s)
      else
        (let k = nat (token_no state) in
         case ss_tokens inst ! k of
           None \<Rightarrow> None
         | Some t \<Rightarrow>
             if c = snd t
             then do { (offset, res, s) \<leftarrow> close_token run i cb buffer k word p offset s;
                       Some (StrsubDull, word, offset, res, s) }
             else Some (state, word, offset, res, s)))"

text \<open>
  The loop; \<open>n\<close> is the number of bytes readable at \<^verbatim>\<open>p\<close>.  The loop condition reads \<^verbatim>\<open>*p\<close>
  before it compares \<^verbatim>\<open>p - buffer\<close> with \<^verbatim>\<open>len\<close>.
\<close>

fun parse_loop ::
  "('c \<Rightarrow> 's lookup_cb) \<Rightarrow> 'c strsub \<Rightarrow> 's replace_cb \<Rightarrow> u8 list \<Rightarrow> nat \<Rightarrow> nat \<Rightarrow> nat \<Rightarrow>
   's parser \<Rightarrow> 's parser option" where
  "parse_loop run i cb buffer len p n st =
     (case st of (state, word, offset, res, s) \<Rightarrow>
      if res < 0 then Some st
      else case n of
             0 \<Rightarrow> None
           | Suc n \<Rightarrow>
               if buffer ! p \<noteq> 0 \<and> p mod 2 ^ 32 < len
               then do { st \<leftarrow> parse_char run i cb buffer p st;
                         parse_loop run i cb buffer len (Suc p) n st }
               else Some st)"

definition strsub_parse ::
  "('c \<Rightarrow> 's lookup_cb) \<Rightarrow> 'c strsub \<Rightarrow> 's replace_cb \<Rightarrow> u8 list \<Rightarrow> nat \<Rightarrow> 's \<Rightarrow> (u32 \<times> 's) option" where
  "strsub_parse run i cb buffer len s =
     do { (_, _, offset, res, s) \<leftarrow>
            parse_loop run i cb buffer len 0 (length buffer) (StrsubDull, 0, 0, 0, s);
          if res \<ge> 0
          then do { (_, s) \<leftarrow> cb [0] 1 (word_of_int offset) s; Some (word_of_int offset, s) }
          else Some (word_of_int offset, s) }"

section \<open>Parsing into a buffer\<close>

text \<open>\<^verbatim>\<open>STRSUB_TO_CB_T\<close>, beside the state \<open>'g\<close> that the handlers work on.\<close>

record strsub_to =
  to_buffer :: "u8 list option"
  to_len :: u32

definition strsub_cb :: "(strsub_to \<times> 'g) replace_cb" where
  "strsub_cb str len offset s =
     (let arg = fst s in
      if offset \<ge> to_len arg - 1 then Some (- 1, s)
      else
        (let len = (if len + offset \<ge> to_len arg - 1 then to_len arg - offset - 1 else len) in
         case to_buffer arg of
           None \<Rightarrow> Some (sint len, s)
         | Some b \<Rightarrow>
             do { bs \<leftarrow> buf_read str 0 (unat len);
                  b \<leftarrow> buf_write b (unat offset) bs;
                  Some (sint len, arg\<lparr>to_buffer := Some b\<rparr>, snd s) }))"

definition src_len :: "u8 list \<Rightarrow> u32 \<Rightarrow> u32 option" where
  "src_len str len = (if len = 0 then map_option (\<lambda>s. of_nat (length s)) (cstr str) else Some len)"

definition strsub_parse_get_dst_length ::
  "('c \<Rightarrow> (strsub_to \<times> 'g) lookup_cb) \<Rightarrow> 'c strsub \<Rightarrow> u8 list option \<Rightarrow> u32 \<Rightarrow> 'g \<Rightarrow>
   (u32 \<times> 'g) option" where
  "strsub_parse_get_dst_length run i str len g =
     (case str of
        None \<Rightarrow> Some (0, g)
      | Some str \<Rightarrow>
          do { len \<leftarrow> src_len str len;
               (dstlen, _, g) \<leftarrow> strsub_parse run i strsub_cb str (unat len)
                                   (\<lparr>to_buffer = None, to_len = - 1\<rparr>, g);
               if sint dstlen < 0 then Some (0, g) else Some (dstlen + 1, g) })"

definition strsub_parse_string_to ::
  "('c \<Rightarrow> (strsub_to \<times> 'g) lookup_cb) \<Rightarrow> 'c strsub \<Rightarrow> u8 list option \<Rightarrow> u32 \<Rightarrow> u8 list option \<Rightarrow>
   u32 \<Rightarrow> 'g \<Rightarrow> (u32 \<times> u8 list \<times> 'g) option" where
  "strsub_parse_string_to run i str len dst dst_len g =
     do { dst \<leftarrow> dst;
          dst \<leftarrow> buf_write dst 0 [0];
          case str of
            None \<Rightarrow> Some (0, dst, g)
          | Some str \<Rightarrow>
              do { len \<leftarrow> src_len str len;
                   (offset, arg, g) \<leftarrow> strsub_parse run i strsub_cb str (unat len)
                                          (\<lparr>to_buffer = Some dst, to_len = dst_len\<rparr>, g);
                   dst \<leftarrow> to_buffer arg;
                   Some (offset, dst, g) } }"

end
