(* ===== verification/Strsub_Spec.thy ===== *)
theory Strsub_Spec
  imports Strsub
begin

text \<open>
  What string substitution computes.  A text is a list of pieces: literal characters and delimited
  words; \<open>expand\<close> is its translation.  The locale \<open>substitution\<close> states what the parser relies on
  in a handler: for a word it knows it sends the value to the callback, once, and for another one
  it answers with a negative status and sends nothing.
\<close>

unbundle bit_operations_syntax

section \<open>Texts and their translation\<close>

datatype piece = Lit u8 | Sub nat "u8 list"

definition opener :: "strsub_instance \<Rightarrow> u8 \<Rightarrow> nat option" where
  "opener i c = find (opens i c) [0, 1, 2]"

definition closer :: "strsub_instance \<Rightarrow> nat \<Rightarrow> u8" where
  "closer i k = snd (the (ss_tokens i ! k))"

function pieces :: "strsub_instance \<Rightarrow> u8 list \<Rightarrow> piece list" where
  "pieces i [] = []"
| "pieces i (c # cs) =
     (if ss_escape i \<noteq> 0 \<and> c = ss_escape i
      then (case cs of [] \<Rightarrow> [] | d # ds \<Rightarrow> Lit d # pieces i ds)
      else case opener i c of
             None \<Rightarrow> Lit c # pieces i cs
           | Some k \<Rightarrow>
               (case dropWhile (\<lambda>x. x \<noteq> closer i k) cs of
                  [] \<Rightarrow> []
                | _ # r \<Rightarrow> Sub k (takeWhile (\<lambda>x. x \<noteq> closer i k) cs) # pieces i r))"
  by pat_completeness auto
termination
proof (relation "measure (length \<circ> snd)", goal_cases)
  case (4 i c cs k x r)
  have "length (x # r) \<le> length cs"
    unfolding 4(3) [symmetric] by (rule length_dropWhile_le)
  then show ?case by simp
qed auto

definition render ::
  "strsub_instance \<Rightarrow> (nat \<Rightarrow> u8 list \<Rightarrow> u8 list option) \<Rightarrow> piece \<Rightarrow> u8 list" where
  "render i L p =
     (case p of
        Lit c \<Rightarrow> [c]
      | Sub k w \<Rightarrow>
          (case L k w of Some v \<Rightarrow> v | None \<Rightarrow> fst (the (ss_tokens i ! k)) # w @ [closer i k]))"

definition expand ::
  "strsub_instance \<Rightarrow> (nat \<Rightarrow> u8 list \<Rightarrow> u8 list option) \<Rightarrow> u8 list \<Rightarrow> u8 list" where
  "expand i L text = concat (map (render i L) (pieces i text))"

text \<open>The translation of what follows when the parser is in a state with part of a word read.\<close>

definition pending_word :: "strsub_instance \<Rightarrow> nat \<Rightarrow> u8 list \<Rightarrow> u8 list \<Rightarrow> piece list" where
  "pending_word i k w cs =
     (case dropWhile (\<lambda>x. x \<noteq> closer i k) cs of
        [] \<Rightarrow> []
      | _ # r \<Rightarrow> Sub k (w @ takeWhile (\<lambda>x. x \<noteq> closer i k) cs) # pieces i r)"

definition pending :: "strsub_instance \<Rightarrow> strsub_token \<Rightarrow> u8 list \<Rightarrow> u8 list \<Rightarrow> piece list" where
  "pending i state w cs =
     (case state of
        StrsubEsc \<Rightarrow> (case cs of [] \<Rightarrow> [] | d # ds \<Rightarrow> Lit d # pieces i ds)
      | StrsubDull \<Rightarrow> pieces i cs
      | _ \<Rightarrow> pending_word i (nat (token_no state)) w cs)"

definition is_word :: "strsub_token \<Rightarrow> bool" where
  "is_word state \<longleftrightarrow> state \<in> {StrsubToken1, StrsubToken2, StrsubToken3}"

lemma is_word_cases:
  assumes "is_word state"
  obtains "state = StrsubToken1" | "state = StrsubToken2" | "state = StrsubToken3"
  using assms by (auto simp: is_word_def)

lemma is_word_not [simp]: "\<not> is_word StrsubDull" "\<not> is_word StrsubEsc" "\<not> is_word StrsubLast"
  by (simp_all add: is_word_def)

lemma opener_open_token:
  "opener i c = map_option (nat \<circ> token_no) (open_token i c)"
  by (simp add: opener_def open_token_def del: opens.simps)

lemma open_token_word: "open_token i c = Some t \<Longrightarrow> is_word t"
  by (auto simp: open_token_def is_word_def split: if_splits)

lemma open_token_Some:
  "open_token i c = Some t \<Longrightarrow> ss_tokens i ! nat (token_no t) = Some (c, closer i (nat (token_no t)))"
  by (auto simp: open_token_def closer_def split: if_splits option.splits)

lemma pending_Nil [simp]: "pending i state w [] = []"
  by (simp add: pending_def pending_word_def split: strsub_token.split)

lemma pending_Dull: "pending i StrsubDull w cs = pieces i cs"
  by (simp add: pending_def)

lemma pending_Esc_case:
  "pending i StrsubEsc w cs = (case cs of [] \<Rightarrow> [] | d # ds \<Rightarrow> Lit d # pieces i ds)"
  by (simp add: pending_def)

lemma pending_Esc [simp]: "pending i StrsubEsc w (c # cs) = Lit c # pieces i cs"
  by (simp add: pending_def)

lemma pending_is_word:
  "is_word state \<Longrightarrow> pending i state w cs = pending_word i (nat (token_no state)) w cs"
  by (erule is_word_cases) (simp_all only: pending_def strsub_token.case)

lemma pending_word_Cons:
  "pending_word i k w (c # cs) =
     (if c = closer i k then Sub k w # pieces i cs else pending_word i k (w @ [c]) cs)"
  by (cases "dropWhile (\<lambda>x. x \<noteq> closer i k) cs")
     (simp_all add: pending_word_def del: dropWhile_eq_Nil_conv)

lemma pieces_Cons:
  "pieces i (c # cs) =
     (if ss_escape i \<noteq> 0 \<and> c = ss_escape i then pending i StrsubEsc [] cs
      else case open_token i c of
             None \<Rightarrow> Lit c # pieces i cs
           | Some t \<Rightarrow> pending i t [] cs)"
proof (cases "open_token i c")
  case None
  then show ?thesis by (simp add: opener_open_token pending_Esc_case)
next
  case (Some t)
  then show ?thesis
    by (cases "dropWhile (\<lambda>x. x \<noteq> closer i (nat (token_no t))) cs")
       (simp_all add: opener_open_token pending_is_word [OF open_token_word] pending_word_def
          pending_Esc_case del: dropWhile_eq_Nil_conv)
qed

declare pieces.simps(2) [simp del]

section \<open>The output buffer\<close>

text \<open>
  \<open>emitted D n out\<close>: a buffer \<open>D\<close> after \<open>out\<close> has been sent to it, of which \<open>n\<close> bytes fit.
\<close>

definition emitted :: "u8 list \<Rightarrow> nat \<Rightarrow> u8 list \<Rightarrow> u8 list" where
  "emitted D n out = take n out @ drop (min (length out) n) D"

definition holds :: "u8 list option \<Rightarrow> nat \<Rightarrow> u8 list \<Rightarrow> strsub_to \<Rightarrow> bool" where
  "holds D n out t \<longleftrightarrow>
     unat (to_len t) = Suc n \<and> to_buffer t = map_option (\<lambda>b. emitted b n out) D \<and>
     (\<forall>b. D = Some b \<longrightarrow> Suc n \<le> length b)"

lemma emitted_full: "n \<le> length out \<Longrightarrow> emitted D n (out @ v) = emitted D n out"
  by (simp add: emitted_def)

lemma emitted_Nil [simp]: "emitted D n [] = D"
  by (simp add: emitted_def)

lemma holds_full: "n \<le> length out \<Longrightarrow> holds D n (out @ v) t = holds D n out t"
  by (simp add: holds_def emitted_full)

lemma emitted_write:
  assumes "length out < n" "n \<le> length D"
  shows "buf_write (emitted D n out) (length out) (take (n - length out) v) =
    Some (emitted D n (out @ v))"
proof -
  have l: "length (emitted D n out) = length D" using assms by (simp add: emitted_def)
  have t: "take (length out) (emitted D n out) = out" using assms by (simp add: emitted_def)
  have d: "drop (length out + m) (emitted D n out) = drop (length out + m) D" for m
    using assms by (simp add: emitted_def add.commute)
  let ?m = "length (take (n - length out) v)"
  have "length out + ?m \<le> length D" using assms by simp
  moreover have "min (length (out @ v)) n = length out + ?m" using assms by (auto simp: min_def)
  ultimately show ?thesis
    using assms by (simp only: buf_write_def l t d) (simp add: emitted_def)
qed

lemma sint_of_nat_u32: "n < 2 ^ 31 \<Longrightarrow> sint (of_nat n :: u32) = int n"
  by (simp add: signed_of_nat signed_take_bit_int_eq_self)

lemma to_len_pred: "holds D n out t \<Longrightarrow> unat (to_len t - 1) = n"
proof -
  assume "holds D n out t"
  then have "unat (to_len t) = Suc n" by (simp add: holds_def)
  then show ?thesis by (simp add: unat_sub word_le_nat_alt)
qed

text \<open>Sending \<open>v\<close>: it fails when the buffer is full, else as much as fits is stored.\<close>

lemma strsub_cb_full:
  assumes "holds D n out t" "n \<le> length out" "off = of_nat (min (length out) n)"
  shows "strsub_cb str len off (t, g) = Some (- 1, (t, g))"
proof -
  have "n < 2 ^ 32" using assms(1) unat_u32_lt [of "to_len t"] by (simp add: holds_def)
  then have "unat off = n" using assms by (simp add: unat_of_nat_u32)
  then show ?thesis
    using to_len_pred [OF assms(1)] by (simp add: strsub_cb_def word_le_nat_alt)
qed

lemma strsub_cb_stores:
  assumes h: "holds D n out t" and l: "length out < n" and v: "length v < 2 ^ 31"
    and off: "off = of_nat (length out)" and len: "len = of_nat (length v)"
    and small: "length out < 2 ^ 31" "min n (length out + length v) < 2 ^ 31"
  shows "\<exists>t'. strsub_cb (v @ r) len off (t, g) =
      Some (int (min (length v) (n - length out)), (t', g)) \<and> holds D n (out @ v) t'"
proof -
  have n: "Suc n < 2 ^ 32" "unat (to_len t) = Suc n"
    using h unat_u32_lt [of "to_len t"] by (simp_all add: holds_def)
  let ?k = "min (length v) (n - length out)"
  have u: "unat off = length out" "unat len = length v"
    using off len small(1) v by (simp_all add: unat_of_nat_u32)
  have p: "unat (to_len t - 1) = n" by (rule to_len_pred [OF h])
  have lo: "unat (len + off) = length v + length out"
    using u small(1) v by (subst unat_add_lt) auto
  have d: "unat (to_len t - off - 1) = n - length out"
  proof -
    have "to_len t - off - 1 = (to_len t - 1) - off" by simp
    moreover have "off \<le> to_len t - 1" using p u l by (simp add: word_le_nat_alt)
    ultimately show ?thesis using p u by (simp only: unat_sub)
  qed
  have lt: "\<not> to_len t - 1 \<le> off" using p u l by (simp add: word_le_nat_alt)
  let ?len = "if to_len t - 1 \<le> len + off then to_len t - off - 1 else len"
  have uk: "unat ?len = ?k" using p lo d u l by (auto simp: word_le_nat_alt)
  have "?k < 2 ^ 31" using v by simp
  then have sk: "sint ?len = int ?k"
    using uk sint_of_nat_u32 [of ?k] by (metis of_nat_unat ucast_id)
  show ?thesis
  proof (cases D)
    case None
    then show ?thesis
      using h lt sk by (simp add: strsub_cb_def Let_def holds_def)
  next
    case (Some b)
    then have b: "to_buffer t = Some (emitted b n out)" "Suc n \<le> length b"
      using h by (simp_all add: holds_def)
    have rd: "buf_read (v @ r) 0 ?k = Some (take (n - length out) v)"
      by (simp add: buf_read_def) (simp add: min_def)
    have "buf_write (emitted b n out) (length out) (take (n - length out) v) =
        Some (emitted b n (out @ v))"
      using l b(2) by (intro emitted_write) simp_all
    then have "strsub_cb (v @ r) len off (t, g) =
        Some (int ?k, (t\<lparr>to_buffer := Some (emitted b n (out @ v))\<rparr>, g))"
      using lt b(1) rd sk unfolding strsub_cb_def Let_def fst_conv snd_conv
      by (simp add: uk u)
    then show ?thesis using h Some by (simp add: holds_def)
  qed
qed

lemma emit_ok:
  assumes "holds D n out t" "length v < 2 ^ 31" "min n (length out + length v) < 2 ^ 31"
  shows "\<exists>res t'. emit strsub_cb (v @ r) (length v) (int (min (length out) n)) (t, g) =
      Some (int (min (length (out @ v)) n), res, (t', g)) \<and> holds D n (out @ v) t' \<and>
      (0 \<le> res \<or> n \<le> length (out @ v))"
proof (cases "n \<le> length out")
  case True
  then show ?thesis
    using strsub_cb_full [OF assms(1) True refl, of "v @ r" "of_nat (length v)" g] assms(1)
    by (simp add: emit_def holds_full)
next
  case False
  then have "length out < n" "length out < 2 ^ 31" using assms(3) by (auto simp: min_def split: if_splits)
  then obtain t' where "strsub_cb (v @ r) (of_nat (length v)) (of_nat (length out)) (t, g) =
      Some (int (min (length v) (n - length out)), (t', g))" "holds D n (out @ v) t'"
    using strsub_cb_stores [OF assms(1) _ assms(2) refl refl _ assms(3), of r g] by blast
  then show ?thesis
    using False assms(3) by (auto simp: emit_def add_offset_def)
qed

section \<open>Handlers\<close>

fun first_some :: "('a \<Rightarrow> 'b option) \<Rightarrow> 'a list \<Rightarrow> 'b option" where
  "first_some f [] = None"
| "first_some f (x # xs) = (case f x of None \<Rightarrow> first_some f xs | Some y \<Rightarrow> Some y)"

text \<open>The handlers of the three tokens as lists of nodes.\<close>

definition strsub_lists :: "'c strsub \<Rightarrow> nat list list \<Rightarrow> bool" where
  "strsub_lists i ls \<longleftrightarrow>
     length ls = 3 \<and> length (ss_handlers (ss_inst i)) = 3 \<and>
     (\<forall>j < 3. \<forall>k < 3. j \<noteq> k \<longrightarrow> set (ls ! j) \<inter> set (ls ! k) = {}) \<and>
     (\<forall>k < 3. chain (nexts i) (ss_handlers (ss_inst i) ! k) (ls ! k))"

definition handler_of :: "'c strsub \<Rightarrow> nat \<Rightarrow> 'c" where
  "handler_of i a = hd_cb (ss_nodes i a)"

locale substitution =
  fixes run :: "'c \<Rightarrow> (strsub_to \<times> 'g) lookup_cb"
    and value_of :: "'g \<Rightarrow> 'c \<Rightarrow> u8 list \<Rightarrow> u8 list option"
    and fits :: "'c \<Rightarrow> u8 list \<Rightarrow> u8 \<Rightarrow> bool"
    and ok :: "'g \<Rightarrow> bool"
  assumes run_known: "ok g \<Longrightarrow> m < length str \<Longrightarrow> 0 \<notin> set (take m str) \<Longrightarrow>
        fits c (take m str) (str ! m) \<Longrightarrow> value_of g c (take m str) = Some v \<Longrightarrow>
        length v < 2 ^ 31 \<and>
        (\<exists>g' r. run c cb str m off (t, g) = cb (v @ r) (of_nat (length v)) off (t, g') \<and>
           ok g' \<and> value_of g' = value_of g)"
    and run_unknown: "ok g \<Longrightarrow> m < length str \<Longrightarrow> 0 \<notin> set (take m str) \<Longrightarrow>
        fits c (take m str) (str ! m) \<Longrightarrow> value_of g c (take m str) = None \<Longrightarrow>
        \<exists>g' res. run c cb str m off (t, g) = Some (res, (t, g')) \<and> res < 0 \<and>
           ok g' \<and> value_of g' = value_of g"
begin

definition lookup_in :: "'c strsub \<Rightarrow> nat list list \<Rightarrow> 'g \<Rightarrow> nat \<Rightarrow> u8 list \<Rightarrow> u8 list option" where
  "lookup_in i ls g k w = first_some (\<lambda>a. value_of g (handler_of i a) w) (ls ! k)"

text \<open>Every delimited word of the pieces may be passed to every handler of its token.\<close>

definition words_fit :: "'c strsub \<Rightarrow> nat list list \<Rightarrow> piece list \<Rightarrow> bool" where
  "words_fit i ls ps \<longleftrightarrow>
     (\<forall>k w. Sub k w \<in> set ps \<longrightarrow>
        (\<forall>a \<in> set (ls ! k). fits (handler_of i a) w (closer (ss_inst i) k)))"

lemma handler_loop_full:
  assumes "chain (nexts i) start xs" "ok g" "holds D n out t" "n \<le> length out"
    "m < length str" "0 \<notin> set (take m str)"
    "\<forall>a \<in> set xs. fits (handler_of i a) (take m str) (str ! m)"
  shows "\<exists>g'. handler_loop run i strsub_cb str m (int (min (length out) n)) start (t, g) =
      Some (None, (t, g')) \<and> ok g' \<and> value_of g' = value_of g"
  using assms
proof (induction xs arbitrary: start g)
  case Nil
  then show ?case by (simp add: handler_loop.simps)
next
  case (Cons a xs)
  then have f: "fits (handler_of i a) (take m str) (str ! m)" by simp
  have "\<exists>g' res. run (handler_of i a) strsub_cb str m (of_nat (min (length out) n)) (t, g) =
      Some (res, (t, g')) \<and> res < 0 \<and> ok g' \<and> value_of g' = value_of g"
  proof (cases "value_of g (handler_of i a) (take m str)")
    case None
    then show ?thesis using run_unknown [OF Cons.prems(2,5,6) f] by blast
  next
    case (Some v)
    from run_known [OF Cons.prems(2,5,6) f Some, of strsub_cb "of_nat (min (length out) n)" t]
    obtain g' r where "run (handler_of i a) strsub_cb str m (of_nat (min (length out) n)) (t, g) =
        strsub_cb (v @ r) (of_nat (length v)) (of_nat (min (length out) n)) (t, g')"
      "ok g'" "value_of g' = value_of g" by blast
    moreover have "strsub_cb (v @ r) (of_nat (length v)) (of_nat (min (length out) n)) (t, g') =
        Some (- 1, (t, g'))"
      by (rule strsub_cb_full [OF Cons.prems(3,4) refl])
    ultimately show ?thesis by (intro exI [of _ g'] exI [of _ "- 1"]) simp
  qed
  then obtain g' res where g': "run (handler_of i a) strsub_cb str m (of_nat (min (length out) n)) (t, g) =
      Some (res, (t, g'))" "res < 0" "ok g'" "value_of g' = value_of g" by blast
  moreover have "chain (nexts i) (nexts i a) xs" "start = Some a" using Cons.prems(1) by simp_all
  ultimately show ?case
    using Cons.IH [of "nexts i a" g'] Cons.prems
    by (subst handler_loop.simps) (simp add: handler_of_def)
qed

lemma handler_loop_room:
  assumes "chain (nexts i) start xs" "ok g" "holds D n out t" "length out < n"
    "m < length str" "0 \<notin> set (take m str)"
    "\<forall>a \<in> set xs. fits (handler_of i a) (take m str) (str ! m)"
    "first_some (\<lambda>a. value_of g (handler_of i a) (take m str)) xs = val"
    "\<forall>v. val = Some v \<longrightarrow> min n (length out + length v) < 2 ^ 31" "length out < 2 ^ 31"
  shows "\<exists>t' g'. handler_loop run i strsub_cb str m (int (length out)) start (t, g) =
      Some (map_option (\<lambda>v. int (min (length v) (n - length out))) val, (t', g')) \<and>
      holds D n (out @ (case val of None \<Rightarrow> [] | Some v \<Rightarrow> v)) t' \<and> (val = None \<longrightarrow> t' = t) \<and>
      ok g' \<and> value_of g' = value_of g"
  using assms
proof (induction xs arbitrary: start g)
  case Nil
  then show ?case by (auto simp: handler_loop.simps)
next
  case (Cons a xs)
  then have f: "fits (handler_of i a) (take m str) (str ! m)"
    and s: "start = Some a" "chain (nexts i) (nexts i a) xs" by simp_all
  show ?case
  proof (cases "value_of g (handler_of i a) (take m str)")
    case None
    from run_unknown [OF Cons.prems(2,5,6) f None, of strsub_cb "of_nat (length out)" t]
    obtain g' res where g': "run (handler_of i a) strsub_cb str m (of_nat (length out)) (t, g) =
        Some (res, (t, g'))" "res < 0" "ok g'" "value_of g' = value_of g" by blast
    have fs: "first_some (\<lambda>a. value_of g' (handler_of i a) (take m str)) xs = val"
      using Cons.prems(8) None g'(4) by simp
    have "\<forall>a \<in> set xs. fits (handler_of i a) (take m str) (str ! m)" using Cons.prems(7) by simp
    from Cons.IH [OF s(2) g'(3) Cons.prems(3-6) this fs Cons.prems(9,10)] g'(4)
    obtain t' g'' where ih: "handler_loop run i strsub_cb str m (int (length out)) (nexts i a) (t, g') =
        Some (map_option (\<lambda>v. int (min (length v) (n - length out))) val, (t', g''))"
      "holds D n (out @ (case val of None \<Rightarrow> [] | Some v \<Rightarrow> v)) t'" "val = None \<longrightarrow> t' = t"
      "ok g''" "value_of g'' = value_of g" by auto
    have "handler_loop run i strsub_cb str m (int (length out)) start (t, g) =
        handler_loop run i strsub_cb str m (int (length out)) (nexts i a) (t, g')"
      using g'(1,2) s(1) by (subst handler_loop.simps) (simp add: handler_of_def)
    from this [unfolded ih(1)] ih(2-) show ?thesis by blast
  next
    case (Some v)
    then have val: "val = Some v" using Cons.prems(8) by simp
    from run_known [OF Cons.prems(2,5,6) f Some, of strsub_cb "of_nat (length out)" t]
    obtain g' r where v: "length v < 2 ^ 31" and
      g': "run (handler_of i a) strsub_cb str m (of_nat (length out)) (t, g) =
        strsub_cb (v @ r) (of_nat (length v)) (of_nat (length out)) (t, g')"
      "ok g'" "value_of g' = value_of g" by blast
    have "min n (length out + length v) < 2 ^ 31" by (rule Cons.prems(9) [rule_format, OF val])
    from strsub_cb_stores [OF Cons.prems(3,4) v refl refl Cons.prems(10) this, of r g']
    obtain t' where t': "strsub_cb (v @ r) (of_nat (length v)) (of_nat (length out)) (t, g') =
        Some (int (min (length v) (n - length out)), (t', g'))" "holds D n (out @ v) t'" by blast
    have "handler_loop run i strsub_cb str m (int (length out)) start (t, g) =
        Some (Some (int (min (length v) (n - length out))), (t', g'))"
      using g'(1) t'(1) s(1) by (subst handler_loop.simps) (simp add: handler_of_def)
    then show ?thesis using t'(2) g'(2,3) val by simp
  qed
qed

end

end
