(* ===== verification/Strsub_Parse.thy ===== *)
theory Strsub_Parse
  imports Strsub_Spec
begin

text \<open>
  The parser computes \<open>expand\<close>.  One lemma says what a closed word sends, one what a character
  does in every state of the parser, and the loop follows by induction on the text.
\<close>

unbundle bit_operations_syntax

text \<open>What has been read of a word lies in the buffer, between its delimiters.\<close>

definition word_read :: "strsub_instance \<Rightarrow> u8 list \<Rightarrow> nat \<Rightarrow> strsub_token \<Rightarrow> nat \<Rightarrow> u8 list \<Rightarrow> bool" where
  "word_read i buffer p state word w \<longleftrightarrow>
     state \<noteq> StrsubLast \<and>
     (is_word state \<longrightarrow>
        0 < word \<and> word \<le> p \<and> w = take (p - word) (drop word buffer) \<and> 0 \<notin> set w \<and>
        ss_tokens i ! nat (token_no state) =
          Some (buffer ! (word - 1), closer i (nat (token_no state))))"

lemma is_word_no: "is_word state \<Longrightarrow> nat (token_no state) < 3"
  by (erule is_word_cases) simp_all

lemma not_is_word: "\<not> is_word state \<Longrightarrow> state \<noteq> StrsubLast \<Longrightarrow> state = StrsubDull \<or> state = StrsubEsc"
  by (cases state) (auto simp: is_word_def)

lemma take_Suc_drop: "word \<le> p \<Longrightarrow> p < length buffer \<Longrightarrow>
    take (Suc p - word) (drop word buffer) = take (p - word) (drop word buffer) @ [buffer ! p]"
  by (simp add: Suc_diff_le take_Suc_conv_app_nth)

lemma raw_word:
  assumes "0 < word" "word \<le> p" "p < length buffer"
  shows "drop (word - 1) buffer =
    (buffer ! (word - 1) # take (p - word) (drop word buffer) @ [buffer ! p]) @ drop (Suc p) buffer"
proof -
  have "drop (word - 1) buffer = buffer ! (word - 1) # drop word buffer"
    using assms Cons_nth_drop_Suc [of "word - 1" buffer] by simp
  moreover have "drop word buffer = take (p - word) (drop word buffer) @ drop p buffer"
    using assms by (metis append_take_drop_id drop_drop le_add_diff_inverse2)
  moreover have "drop p buffer = buffer ! p # drop (Suc p) buffer"
    using assms by (simp add: Cons_nth_drop_Suc)
  ultimately show ?thesis by simp
qed

text \<open>The text that is parsed: up to \<open>len\<close> bytes, up to a terminator.\<close>

definition src_text :: "u8 list \<Rightarrow> nat \<Rightarrow> u8 list" where
  "src_text buffer len = takeWhile (\<lambda>c. c \<noteq> 0) (take len buffer)"

lemma src_text_nth:
  assumes "p < length (src_text buffer len)"
  shows "src_text buffer len ! p = buffer ! p" "buffer ! p \<noteq> 0" "p < len" "p < length buffer"
proof -
  let ?t = "take len buffer"
  have p: "p < length ?t"
    using assms length_takeWhile_le [of "\<lambda>c. c \<noteq> 0" ?t] by (simp add: src_text_def)
  then show "p < len" "p < length buffer" by simp_all
  have n: "src_text buffer len ! p = ?t ! p"
    using assms by (simp add: src_text_def takeWhile_nth)
  then show "src_text buffer len ! p = buffer ! p" using p by simp
  have "src_text buffer len ! p \<noteq> 0"
    using nth_mem [OF assms] by (auto simp: src_text_def dest: set_takeWhileD)
  then show "buffer ! p \<noteq> 0" using n p by simp
qed

lemma src_text_end:
  assumes "length (src_text buffer len) < length buffer"
  shows "\<not> (buffer ! length (src_text buffer len) \<noteq> 0 \<and> length (src_text buffer len) < len)"
proof (rule notI, elim conjE)
  let ?t = "take len buffer" and ?n = "length (src_text buffer len)"
  assume n: "buffer ! ?n \<noteq> 0" "?n < len"
  then have "?n < length ?t" using assms by simp
  from nth_length_takeWhile [of "\<lambda>c. c \<noteq> 0" ?t] this n show False
    by (simp add: src_text_def)
qed

declare parse_loop.simps [simp del]

context substitution
begin

abbreviation rendered :: "'c strsub \<Rightarrow> nat list list \<Rightarrow> 'g \<Rightarrow> piece list \<Rightarrow> u8 list" where
  "rendered i ls g ps \<equiv> concat (map (render (ss_inst i) (lookup_in i ls g)) ps)"

definition parses_to ::
  "u8 list option \<Rightarrow> nat \<Rightarrow> 'g \<Rightarrow> u8 list \<Rightarrow> int \<times> int \<times> strsub_to \<times> 'g \<Rightarrow> bool" where
  "parses_to D n g out r \<longleftrightarrow>
     (case r of (offset, res, t, g') \<Rightarrow>
        offset = int (min (length out) n) \<and> holds D n out t \<and> (0 \<le> res \<or> n \<le> length out) \<and>
        ok g' \<and> value_of g' = value_of g)"

lemma lookup_in_cong: "value_of g' = value_of g \<Longrightarrow> lookup_in i ls g' = lookup_in i ls g"
  by (simp add: lookup_in_def fun_eq_iff)

lemma close_token_ok:
  assumes l: "strsub_lists i ls" and k: "k < 3" and g: "ok g" and h: "holds D n out t"
    and w: "0 < word" "word \<le> p" "p < length buffer" "w = take (p - word) (drop word buffer)"
      "0 \<notin> set w" "ss_tokens (ss_inst i) ! k = Some (buffer ! (word - 1), closer (ss_inst i) k)"
      "buffer ! p = closer (ss_inst i) k"
    and fit: "\<forall>a \<in> set (ls ! k). fits (handler_of i a) w (closer (ss_inst i) k)"
    and X: "X = render (ss_inst i) (lookup_in i ls g) (Sub k w)"
    and b: "min n (length out + length X) < 2 ^ 31" "p < 2 ^ 30"
  shows "\<exists>r. close_token run i strsub_cb buffer k word p (int (min (length out) n)) (t, g) = Some r \<and>
    parses_to D n g (out @ X) r"
proof -
  let ?str = "drop word buffer" and ?m = "p - word"
  let ?loop = "handler_loop run i strsub_cb ?str ?m (int (min (length out) n))
    (ss_handlers (ss_inst i) ! k)"
  have ch: "chain (nexts i) (ss_handlers (ss_inst i) ! k) (ls ! k)"
    using l k by (simp add: strsub_lists_def)
  have s: "?m < length ?str" "0 \<notin> set (take ?m ?str)"
    "\<forall>a \<in> set (ls ! k). fits (handler_of i a) (take ?m ?str) (?str ! ?m)"
    using w fit by simp_all
  have raw: "\<exists>r. close_token run i strsub_cb buffer k word p (int (min (length out) n)) (t, g) = Some r \<and>
      parses_to D n g (out @ X) r"
    if loop: "?loop (t, g) = Some (None, (t, g'))" "ok g'" "value_of g' = value_of g"
      and e: "n \<le> length out \<or> lookup_in i ls g k w = None" for g'
  proof -
    let ?v = "buffer ! (word - 1) # w @ [buffer ! p]"
    have lv: "length ?v = p - word + 2" using w(1-4) by simp
    show ?thesis
    proof (cases "n \<le> length out")
      case True
      have "strsub_cb (drop (word - 1) buffer) (of_nat (p - word + 2)) (of_nat (min (length out) n))
          (t, g') = Some (- 1, (t, g'))"
        by (rule strsub_cb_full [OF h True refl])
      then show ?thesis
        using loop True h
        by (simp add: close_token_def emit_def parses_to_def holds_full)
    next
      case False
      then have X': "X = ?v" using e w by (simp add: X render_def)
      from raw_word [OF w(1-3)] w(4)
      have d: "drop (word - 1) buffer = ?v @ drop (Suc p) buffer" by simp
      have "length ?v < 2 ^ 31" using lv b(2) by simp
      from emit_ok [OF h this b(1) [unfolded X'], of "drop (Suc p) buffer" g']
      obtain res t' where "emit strsub_cb (drop (word - 1) buffer) (p - word + 2)
          (int (min (length out) n)) (t, g') = Some (int (min (length (out @ X)) n), res, (t', g'))"
        "holds D n (out @ X) t'" "0 \<le> res \<or> n \<le> length (out @ X)"
        unfolding d lv X' by blast
      then show ?thesis using loop by (simp add: close_token_def parses_to_def)
    qed
  qed
  show ?thesis
  proof (cases "n \<le> length out")
    case True
    from handler_loop_full [OF ch g h True s] raw True show ?thesis by blast
  next
    case False
    then have lt: "length out < n" by simp
    let ?val = "lookup_in i ls g k w"
    have val: "first_some (\<lambda>a. value_of g (handler_of i a) (take ?m ?str)) (ls ! k) = ?val"
      using w(4) by (simp add: lookup_in_def)
    have "\<forall>v. ?val = Some v \<longrightarrow> X = v" by (simp add: X render_def)
    then have bd: "\<forall>v. ?val = Some v \<longrightarrow> min n (length out + length v) < 2 ^ 31" using b(1) by auto
    have lo: "length out < 2 ^ 31" using b(1) lt by (auto simp: min_def split: if_splits)
    from handler_loop_room [OF ch g h lt s val bd lo] lt
    obtain t' g' where loop: "?loop (t, g) =
        Some (map_option (\<lambda>v. int (min (length v) (n - length out))) ?val, (t', g'))"
      "holds D n (out @ (case ?val of None \<Rightarrow> [] | Some v \<Rightarrow> v)) t'" "?val = None \<longrightarrow> t' = t"
      "ok g'" "value_of g' = value_of g" by (auto simp: min_def)
    show ?thesis
    proof (cases ?val)
      case None
      then show ?thesis using raw loop by simp
    next
      case (Some v)
      then have "X = v" by (simp add: X render_def)
      then show ?thesis
        using loop Some lt b(1)
        by (auto simp: close_token_def add_offset_def parses_to_def)
    qed
  qed
qed

lemma emit_literal:
  assumes "p < length buffer" "ok g" "holds D n out t" "min n (Suc (length out)) < 2 ^ 31"
  shows "\<exists>offset res t'. emit strsub_cb (drop p buffer) 1 (int (min (length out) n)) (t, g) =
      Some (offset, res, (t', g)) \<and> parses_to D n g (out @ [buffer ! p]) (offset, res, t', g)"
proof -
  have "drop p buffer = [buffer ! p] @ drop (Suc p) buffer"
    using assms(1) by (simp add: Cons_nth_drop_Suc)
  with emit_ok [OF assms(3), of "[buffer ! p]" "drop (Suc p) buffer" g] assms(2,4) show ?thesis
    by (auto simp: parses_to_def)
qed

lemma words_fit_append: "words_fit i ls (ps @ qs) \<longleftrightarrow> words_fit i ls ps \<and> words_fit i ls qs"
  by (auto simp: words_fit_def)

text \<open>One character: it sends the translation of the pieces that it completes.\<close>

definition char_sends ::
  "'c strsub \<Rightarrow> nat list list \<Rightarrow> u8 list option \<Rightarrow> nat \<Rightarrow> u8 list \<Rightarrow> nat \<Rightarrow> strsub_token \<Rightarrow> nat \<Rightarrow>
   u8 list \<Rightarrow> u8 list \<Rightarrow> int \<Rightarrow> strsub_to \<Rightarrow> 'g \<Rightarrow> bool" where
  "char_sends i ls D n buffer p state word w out res t g \<longleftrightarrow>
     (\<exists>qs state' word' w' offset' res' t' g'.
        parse_char run i strsub_cb buffer p (state, word, int (min (length out) n), res, (t, g)) =
          Some (state', word', offset', res', (t', g')) \<and>
        parses_to D n g (out @ rendered i ls g qs) (offset', res', t', g') \<and>
        word_read (ss_inst i) buffer (Suc p) state' word' w' \<and>
        (\<forall>cs. pending (ss_inst i) state w (buffer ! p # cs) = qs @ pending (ss_inst i) state' w' cs))"

lemma parse_char_dull:
  assumes "p < length buffer" "ok g" "holds D n out t" "0 \<le> res"
    "min n (length out + length (rendered i ls g (pieces (ss_inst i) (buffer ! p # cs)))) < 2 ^ 31"
  shows "char_sends i ls D n buffer p StrsubDull word w out res t g"
proof -
  let ?c = "buffer ! p" and ?i = "ss_inst i"
  have keep: "parses_to D n g (out @ rendered i ls g []) (int (min (length out) n), res, t, g)"
    using assms by (simp add: parses_to_def)
  show ?thesis
  proof (cases "ss_escape ?i \<noteq> 0 \<and> ?c = ss_escape ?i")
    case True
    then show ?thesis
      unfolding char_sends_def using keep
      by (intro exI [of _ "[]"] exI [of _ StrsubEsc] exI [of _ word])
         (simp add: parse_char_def Let_def word_read_def pending_Dull pieces_Cons)
  next
    case nesc: False
    show ?thesis
    proof (cases "open_token ?i ?c")
      case (Some st)
      have "word_read ?i buffer (Suc p) st (Suc p) []"
        using open_token_word [OF Some] open_token_Some [OF Some]
        by (auto simp: word_read_def)
      then show ?thesis
        unfolding char_sends_def using keep nesc Some
        by (intro exI [of _ "[]"] exI [of _ st] exI [of _ "Suc p"] exI [of _ "[]"])
           (auto simp: parse_char_def Let_def pending_Dull pieces_Cons)
    next
      case None
      have "pieces ?i (?c # cs) = Lit ?c # pieces ?i cs" using nesc None by (auto simp: pieces_Cons)
      then have "min n (Suc (length out)) < 2 ^ 31"
        using assms(5) by (simp add: render_def min_def split: if_splits)
      from emit_literal [OF assms(1-3) this] obtain offset res' t' where
        e: "emit strsub_cb (drop p buffer) 1 (int (min (length out) n)) (t, g) =
            Some (offset, res', (t', g))"
          "parses_to D n g (out @ [?c]) (offset, res', t', g)" by blast
      then show ?thesis
        unfolding char_sends_def using nesc None
        by (intro exI [of _ "[Lit ?c]"] exI [of _ StrsubDull] exI [of _ word])
           (auto simp: parse_char_def Let_def word_read_def pending_Dull pieces_Cons render_def)
    qed
  qed
qed

lemma parse_char_esc:
  assumes "p < length buffer" "ok g" "holds D n out t"
    "min n (length out + length (rendered i ls g (pending (ss_inst i) StrsubEsc w (buffer ! p # cs)))) < 2 ^ 31"
  shows "char_sends i ls D n buffer p StrsubEsc word w out res t g"
proof -
  let ?c = "buffer ! p"
  have "min n (Suc (length out)) < 2 ^ 31"
    using assms(4) by (simp add: render_def min_def split: if_splits)
  from emit_literal [OF assms(1-3) this] obtain offset res' t' where
    e: "emit strsub_cb (drop p buffer) 1 (int (min (length out) n)) (t, g) =
        Some (offset, res', (t', g))"
      "parses_to D n g (out @ [?c]) (offset, res', t', g)" by blast
  then show ?thesis
    unfolding char_sends_def
    by (intro exI [of _ "[Lit ?c]"] exI [of _ StrsubDull] exI [of _ word])
       (auto simp: parse_char_def Let_def word_read_def pending_Dull render_def)
qed

lemma parse_char_word:
  assumes l: "strsub_lists i ls" and s: "is_word state" and p: "p < length buffer" "p < 2 ^ 30"
    and c: "buffer ! p \<noteq> 0" and g: "ok g" and h: "holds D n out t" and res: "0 \<le> res"
    and wr: "word_read (ss_inst i) buffer p state word w"
    and fit: "words_fit i ls (pending (ss_inst i) state w (buffer ! p # cs))"
    and b: "min n (length out + length (rendered i ls g (pending (ss_inst i) state w (buffer ! p # cs)))) < 2 ^ 31"
  shows "char_sends i ls D n buffer p state word w out res t g"
proof -
  let ?c = "buffer ! p" and ?i = "ss_inst i" and ?k = "nat (token_no state)"
  have w: "0 < word" "word \<le> p" "w = take (p - word) (drop word buffer)" "0 \<notin> set w"
    "ss_tokens ?i ! ?k = Some (buffer ! (word - 1), closer ?i ?k)"
    using wr s unfolding word_read_def by blast+
  have ns: "state \<noteq> StrsubDull" "state \<noteq> StrsubEsc" "state \<noteq> StrsubLast" using s by auto
  have pend: "pending ?i state w (?c # cs) =
     (if ?c = closer ?i ?k then Sub ?k w # pieces ?i cs else pending ?i state (w @ [?c]) cs)" for cs
    using s by (simp add: pending_is_word pending_word_Cons)
  show ?thesis
  proof (cases "?c = closer ?i ?k")
    case False
    have "word_read ?i buffer (Suc p) state word (w @ [?c])"
      using w c ns p(1) by (simp add: word_read_def take_Suc_drop)
    moreover have "parses_to D n g (out @ rendered i ls g []) (int (min (length out) n), res, t, g)"
      using g h res by (simp add: parses_to_def)
    ultimately show ?thesis
      unfolding char_sends_def using False w(5) ns
      by (intro exI [of _ "[]"] exI [of _ state] exI [of _ word] exI [of _ "w @ [?c]"])
         (simp add: parse_char_def Let_def pend)
  next
    case True
    let ?X = "render ?i (lookup_in i ls g) (Sub ?k w)"
    have "min n (length out + length ?X) < 2 ^ 31"
      using b unfolding pend by (simp add: True min_def split: if_splits)
    moreover have "\<forall>a \<in> set (ls ! ?k). fits (handler_of i a) w (closer ?i ?k)"
      using fit unfolding pend by (simp add: True words_fit_def)
    ultimately obtain r where
      r: "close_token run i strsub_cb buffer ?k word p (int (min (length out) n)) (t, g) = Some r"
      "parses_to D n g (out @ ?X) r"
      using close_token_ok [OF l is_word_no [OF s] g h w(1,2) p(1) w(3-5) True _ refl _ p(2)] by blast
    obtain offset res' t' g' where rr: "r = (offset, res', t', g')" by (cases r) auto
    have pend': "pending ?i state w (closer ?i ?k # cs) = Sub ?k w # pieces ?i cs" for cs
      using pend True by simp
    show ?thesis
      unfolding char_sends_def using True w(5) ns r
      by (intro exI [of _ "[Sub ?k w]"] exI [of _ StrsubDull] exI [of _ word])
         (simp add: rr parse_char_def Let_def word_read_def pend' pending_Dull)
  qed
qed

section \<open>The loop\<close>

lemma parse_loop_ok:
  assumes l: "strsub_lists i ls" and T: "T = src_text buffer len" "length T < length buffer"
    "length T < 2 ^ 30"
    and "drop p T = cs" "p \<le> length T" "ok g" "holds D n out t" "0 \<le> res \<or> n \<le> length out"
    "word_read (ss_inst i) buffer p state word w"
    "words_fit i ls (pending (ss_inst i) state w cs)"
    "min n (length out + length (rendered i ls g (pending (ss_inst i) state w cs))) < 2 ^ 31"
  shows "\<exists>state' word' r. parse_loop run i strsub_cb buffer len p (length buffer - p)
        (state, word, int (min (length out) n), res, (t, g)) =
      Some (case r of (offset', res', t', g') \<Rightarrow> (state', word', offset', res', (t', g'))) \<and>
    parses_to D n g (out @ rendered i ls g (pending (ss_inst i) state w cs)) r"
  using assms(5-)
proof (induction cs arbitrary: p state word w out res t g)
  case Nil
  then have p: "p = length T" by simp
  have "\<not> (buffer ! p \<noteq> 0 \<and> p < len)" using T(2) src_text_end [of buffer len] by (simp add: T(1) p)
  moreover have "p mod 2 ^ 32 = p" using T(3) p by simp
  moreover obtain m where "length buffer - p = Suc m" using T(2) p by (metis Suc_diff_Suc)
  ultimately show ?case
    using Nil by (intro exI [of _ state] exI [of _ word] exI [of _ "(int (min (length out) n), res, t, g)"])
      (auto simp: parses_to_def parse_loop.simps)
next
  case (Cons c cs)
  let ?i = "ss_inst i" and ?st = "(state, word, int (min (length out) n), res, (t, g))"
  have pT: "p < length T" using Cons.prems(1) by (metis drop_all leI list.distinct(1))
  then have c: "buffer ! p = c" "c \<noteq> 0" "p < len" "p < length buffer"
    using src_text_nth [of p buffer len] Cons.prems(1) T(1)
    by (auto simp: T(1) nth_via_drop)
  show ?case
  proof (cases "res < 0")
    case True
    then have full: "n \<le> length out" using Cons.prems(5) by simp
    have "parse_loop run i strsub_cb buffer len p (length buffer - p) ?st = Some ?st"
      using True by (simp add: parse_loop.simps)
    then show ?thesis
      using Cons.prems full True
      by (intro exI [of _ state] exI [of _ word] exI [of _ "(int (min (length out) n), res, t, g)"])
         (simp add: parses_to_def holds_full)
  next
    case False
    have small: "p < 2 ^ 30" "p mod 2 ^ 32 = p" using pT T(3) by simp_all
    have "char_sends i ls D n buffer p state word w out res t g"
    proof (cases "is_word state")
      case True
      then show ?thesis
        using parse_char_word [OF l True c(4) small(1) _ Cons.prems(3,4) _ Cons.prems(6)] False
          Cons.prems(7,8) c(1,2) by simp
    next
      case nw: False
      then consider "state = StrsubDull" | "state = StrsubEsc"
        using not_is_word [OF nw] Cons.prems(6) by (auto simp: word_read_def)
      then show ?thesis
      proof cases
        case 1
        then show ?thesis
          using parse_char_dull [OF c(4) Cons.prems(3,4), of res i ls cs] False Cons.prems(8) c(1)
          by (simp add: pending_Dull)
      next
        case 2
        then show ?thesis
          using parse_char_esc [OF c(4) Cons.prems(3,4), of i ls w cs] Cons.prems(8) c(1) by simp
      qed
    qed
    then obtain qs state1 word1 w1 offset1 res1 t1 g1 where
      step: "parse_char run i strsub_cb buffer p ?st = Some (state1, word1, offset1, res1, (t1, g1))"
        "parses_to D n g (out @ rendered i ls g qs) (offset1, res1, t1, g1)"
        "word_read ?i buffer (Suc p) state1 word1 w1"
      and pend: "\<And>cs. pending ?i state w (c # cs) = qs @ pending ?i state1 w1 cs"
      unfolding char_sends_def c(1) by blast
    let ?out = "out @ rendered i ls g qs"
    have p1: "offset1 = int (min (length ?out) n)" "holds D n ?out t1" "0 \<le> res1 \<or> n \<le> length ?out"
      "ok g1" "value_of g1 = value_of g"
      using step(2) by (simp_all add: parses_to_def)
    have lk: "lookup_in i ls g1 = lookup_in i ls g" by (rule lookup_in_cong [OF p1(5)])
    obtain m where m: "length buffer - p = Suc m" "length buffer - Suc p = m"
      using c(4) by (metis Suc_diff_Suc)
    have "parse_loop run i strsub_cb buffer len p (length buffer - p) ?st =
        parse_loop run i strsub_cb buffer len (Suc p) (length buffer - Suc p)
          (state1, word1, int (min (length ?out) n), res1, (t1, g1))"
      using False c(1-3) small(2) step(1) unfolding m p1(1) [symmetric]
      by (simp add: parse_loop.simps [of _ _ _ _ _ p])
    moreover have "drop (Suc p) T = cs" using Cons.prems(1) by (metis drop_Suc list.sel(3) tl_drop)
    moreover have "words_fit i ls (pending ?i state1 w1 cs)"
      using Cons.prems(7) unfolding pend by (simp add: words_fit_append)
    moreover have "min n (length ?out + length (rendered i ls g1 (pending ?i state1 w1 cs))) < 2 ^ 31"
      using Cons.prems(8) unfolding pend by (simp add: lk add.assoc)
    ultimately obtain state' word' r where
      "parse_loop run i strsub_cb buffer len p (length buffer - p) ?st =
        Some (case r of (offset', res', t', g') \<Rightarrow> (state', word', offset', res', (t', g')))"
      "parses_to D n g1 (?out @ rendered i ls g1 (pending ?i state1 w1 cs)) r"
      using Cons.IH [OF _ _ p1(4,2,3) step(3)] pT by (metis Suc_leI)
    then show ?thesis
      unfolding pend using p1(5) by (auto simp: lk parses_to_def)
  qed
qed

section \<open>Whole texts\<close>

lemma parse_ok:
  assumes l: "strsub_lists i ls" and T: "T = src_text buffer len" "length T < length buffer"
      "length T < 2 ^ 30"
    and g: "ok g" and h: "holds D n [] t" and fit: "words_fit i ls (pieces (ss_inst i) T)"
    and X: "X = expand (ss_inst i) (lookup_in i ls g) T" and b: "min n (Suc (length X)) < 2 ^ 31"
  shows "\<exists>t' g'. strsub_parse run i strsub_cb buffer len (t, g) =
      Some (of_nat (min (length X) n), (t', g')) \<and>
    holds D n (X @ [0]) t' \<and> ok g' \<and> value_of g' = value_of g"
proof -
  have X': "X = rendered i ls g (pending (ss_inst i) StrsubDull [] T)"
    by (simp add: X expand_def pending_Dull)
  have "min n (length [] + length (rendered i ls g (pending (ss_inst i) StrsubDull [] T))) < 2 ^ 31"
    using b unfolding X' [symmetric] by (auto simp: min_def split: if_splits)
  from parse_loop_ok [OF l T _ _ g h, of 0 T 0 StrsubDull 0 "[]"] fit this
  obtain state word offset res t' g' where loop:
    "parse_loop run i strsub_cb buffer len 0 (length buffer) (StrsubDull, 0, 0, 0, (t, g)) =
      Some (state, word, offset, res, (t', g'))" "parses_to D n g X (offset, res, t', g')"
    by (auto simp: word_read_def pending_Dull X')
  then have p: "offset = int (min (length X) n)" "holds D n X t'" "0 \<le> res \<or> n \<le> length X" "ok g'"
    "value_of g' = value_of g" by (simp_all add: parses_to_def)
  show ?thesis
  proof (cases "n \<le> length X")
    case True
    then show ?thesis
      using loop(1) p strsub_cb_full [OF p(2) True refl, of "[0]" 1 g']
      by (simp add: strsub_parse_def holds_full)
  next
    case False
    then have lt: "length X < n" "length X < 2 ^ 31"
      using b by (auto simp: min_def split: if_splits)
    have "min n (length X + length [0 :: u8]) < 2 ^ 31" using b by simp
    from strsub_cb_stores [OF p(2) lt(1) _ refl refl lt(2) this, of "[]" g']
    obtain t'' where t'': "strsub_cb [0] 1 (of_nat (length X)) (t', g') =
        Some (int (min 1 (n - length X)), (t'', g'))"
      "holds D n (X @ [0]) t''" by auto
    then show ?thesis
      using loop(1) p(1,3-5) False by (simp add: strsub_parse_def)
  qed
qed

lemma parse_string_to_ok:
  assumes l: "strsub_lists i ls" and len: "src_len str len = Some m"
    and T: "T = src_text str (unat m)" "length T < length str" "length T < 2 ^ 30"
    and g: "ok g" and fit: "words_fit i ls (pieces (ss_inst i) T)"
    and X: "X = expand (ss_inst i) (lookup_in i ls g) T"
    and dst: "unat dst_len = Suc n" "Suc n \<le> length dst" "n < 2 ^ 31"
  shows "\<exists>g'. strsub_parse_string_to run i (Some str) len (Some dst) dst_len g =
      Some (of_nat (min (length X) n), emitted (0 # tl dst) n (X @ [0]), g') \<and>
    ok g' \<and> value_of g' = value_of g"
proof -
  have w: "buf_write dst 0 [0] = Some (0 # tl dst)"
    using dst(2) by (cases dst) (simp_all add: buf_write_def)
  have "holds (Some (0 # tl dst)) n [] \<lparr>to_buffer = Some (0 # tl dst), to_len = dst_len\<rparr>"
    using dst by (simp add: holds_def)
  moreover have "min n (Suc (length X)) < 2 ^ 31" using dst(3) by simp
  ultimately obtain t' g' where
    "strsub_parse run i strsub_cb str (unat m) (\<lparr>to_buffer = Some (0 # tl dst), to_len = dst_len\<rparr>, g) =
      Some (of_nat (min (length X) n), (t', g'))"
    "holds (Some (0 # tl dst)) n (X @ [0]) t'" "ok g'" "value_of g' = value_of g"
    using parse_ok [OF l T g _ fit X] by blast
  then show ?thesis using w len by (simp add: strsub_parse_string_to_def holds_def)
qed

lemma get_dst_length_ok:
  assumes l: "strsub_lists i ls" and len: "src_len str len = Some m"
    and T: "T = src_text str (unat m)" "length T < length str" "length T < 2 ^ 30"
    and g: "ok g" and fit: "words_fit i ls (pieces (ss_inst i) T)"
    and X: "X = expand (ss_inst i) (lookup_in i ls g) T" and b: "Suc (length X) < 2 ^ 31"
  shows "\<exists>g'. strsub_parse_get_dst_length run i (Some str) len g = Some (of_nat (Suc (length X)), g') \<and>
    ok g' \<and> value_of g' = value_of g"
proof -
  have "holds None (2 ^ 32 - 2) [] \<lparr>to_buffer = None, to_len = - 1\<rparr>"
    by (simp add: holds_def unsigned_minus_1_eq_mask mask_eq_exp_minus_1)
  moreover have "min (2 ^ 32 - 2) (Suc (length X)) < 2 ^ 31" using b by simp
  ultimately obtain t' g' where
    "strsub_parse run i strsub_cb str (unat m) (\<lparr>to_buffer = None, to_len = - 1\<rparr>, g) =
      Some (of_nat (min (length X) (2 ^ 32 - 2)), (t', g'))" "ok g'" "value_of g' = value_of g"
    using parse_ok [OF l T g _ fit X] by blast
  moreover have "min (length X) (2 ^ 32 - 2) = length X" using b by simp
  moreover have "sint (of_nat (length X) :: u32) = int (length X)" using b by (intro sint_of_nat_u32) simp
  ultimately show ?thesis using len by (simp add: strsub_parse_get_dst_length_def)
qed

end

end
