(* ===== verification/Strsub_Lists.thy ===== *)
theory Strsub_Lists
  imports Strsub_Spec
begin

text \<open>
  Installing and removing handlers: the linked lists implement lists.  A new handler comes first
  in the list of its token, a removed one disappears, and the lists of the other tokens stay.  A
  handler that is installed a second time links the list to itself.
\<close>

lemma set_node_simps [simp]:
  "ss_inst (set_node a x i) = ss_inst i" "ss_nodes (set_node a x i) = (ss_nodes i)(a := x)"
  by (simp_all add: set_node_def)

lemma set_head_simps [simp]:
  "ss_nodes (set_head k h i) = ss_nodes i"
  "ss_handlers (ss_inst (set_head k h i)) = (ss_handlers (ss_inst i))[k := h]"
  "ss_tokens (ss_inst (set_head k h i)) = ss_tokens (ss_inst i)"
  "ss_escape (ss_inst (set_head k h i)) = ss_escape (ss_inst i)"
  by (simp_all add: set_head_def)

lemma nexts_simps [simp]:
  "nexts (set_node a x i) = (nexts i)(a := hd_next x)" "nexts (set_head k h i) = nexts i"
  by (simp_all add: nexts_def fun_eq_iff)

lemma handler_of_simps [simp]:
  "handler_of (set_node a x i) = (handler_of i)(a := hd_cb x)"
  "handler_of (set_head k h i) = handler_of i"
  by (simp_all add: handler_of_def fun_eq_iff)

lemma word_token:
  assumes "is_word token"
  shows "0 \<le> token_no token" "token_no token < 3" "nat (token_no token) < 3"
  using assms by (auto elim: is_word_cases)

lemma strsub_lists_D:
  assumes "strsub_lists i ls"
  shows "length ls = 3" "length (ss_handlers (ss_inst i)) = 3"
    "\<And>j k x. j < 3 \<Longrightarrow> k < 3 \<Longrightarrow> j \<noteq> k \<Longrightarrow> x \<in> set (ls ! j) \<Longrightarrow> x \<notin> set (ls ! k)"
    "\<And>k. k < 3 \<Longrightarrow> chain (nexts i) (ss_handlers (ss_inst i) ! k) (ls ! k)"
  using assms by (auto simp: strsub_lists_def)

text \<open>Exchanging the list of one token.\<close>

lemma strsub_lists_upd:
  assumes l: "strsub_lists i ls" and k: "k < 3"
    and new: "chain (nexts i') (ss_handlers (ss_inst i') ! k) xs"
    and old: "\<And>j. j < 3 \<Longrightarrow> j \<noteq> k \<Longrightarrow> ss_handlers (ss_inst i') ! j = ss_handlers (ss_inst i) ! j"
      "\<And>j a. j < 3 \<Longrightarrow> j \<noteq> k \<Longrightarrow> a \<in> set (ls ! j) \<Longrightarrow> nexts i' a = nexts i a"
    and disj: "\<And>j a. j < 3 \<Longrightarrow> j \<noteq> k \<Longrightarrow> a \<in> set xs \<Longrightarrow> a \<notin> set (ls ! j)"
    and n: "length (ss_handlers (ss_inst i')) = 3"
  shows "strsub_lists i' (ls[k := xs])"
proof -
  note L = strsub_lists_D [OF l]
  have "chain (nexts i') (ss_handlers (ss_inst i') ! j) (ls[k := xs] ! j)" if "j < 3" for j
  proof (cases "j = k")
    case True
    then show ?thesis using new L(1) k by simp
  next
    case False
    then have "chain (nexts i') h (ls ! j) = chain (nexts i) h (ls ! j)" for h
      using old(2) [OF that] by (intro seg_cong) blast
    then show ?thesis using L(4) [OF that] old(1) [OF that False] False by simp
  qed
  moreover have "set (ls[k := xs] ! a) \<inter> set (ls[k := xs] ! b) = {}" if "a < 3" "b < 3" "a \<noteq> b" for a b
  proof -
    consider "a = k" "b \<noteq> k" | "b = k" "a \<noteq> k" | "a \<noteq> k" "b \<noteq> k"
      using \<open>a \<noteq> b\<close> by blast
    then show ?thesis
    proof cases
      case 1
      then show ?thesis using disj [OF that(2)] L(1) k by auto
    next
      case 2
      then show ?thesis using disj [OF that(1)] L(1) k by auto
    next
      case 3
      then show ?thesis using L(3) [OF that] by auto
    qed
  qed
  ultimately show ?thesis using L(1) n by (simp add: strsub_lists_def)
qed

lemma install_lists:
  assumes l: "strsub_lists i ls" and t: "is_word token" and h: "\<And>k. k < 3 \<Longrightarrow> h \<notin> set (ls ! k)"
  shows "\<exists>i'. strsub_install_handler token h cb i = (True, i') \<and>
    strsub_lists i' (ls[nat (token_no token) := h # ls ! nat (token_no token)]) \<and>
    handler_of i' = (handler_of i)(h := cb) \<and>
    ss_tokens (ss_inst i') = ss_tokens (ss_inst i) \<and> ss_escape (ss_inst i') = ss_escape (ss_inst i)"
proof -
  let ?k = "nat (token_no token)"
  note L = strsub_lists_D [OF l] and T = word_token [OF t]
  let ?i = "set_head ?k (Some h)
    (set_node h \<lparr>hd_next = ss_handlers (ss_inst i) ! ?k, hd_cb = cb\<rparr> i)"
  have "strsub_lists ?i (ls[?k := h # ls ! ?k])"
    using L(2,4) T(3) h L(3) [OF _ T(3)]
    by (intro strsub_lists_upd [OF l T(3)]) auto
  then show ?thesis
    using T(1,2) by (simp add: strsub_install_handler_def Let_def)
qed

lemma uninstall_lists:
  assumes l: "strsub_lists i ls" and t: "is_word token"
  shows "\<exists>i'. strsub_uninstall_handler token h i = Some i' \<and>
    strsub_lists i' (ls[nat (token_no token) := remove1 h (ls ! nat (token_no token))]) \<and>
    handler_of i' = handler_of i \<and>
    ss_tokens (ss_inst i') = ss_tokens (ss_inst i) \<and> ss_escape (ss_inst i') = ss_escape (ss_inst i)"
proof -
  let ?k = "nat (token_no token)"
  let ?hd = "ss_handlers (ss_inst i) ! ?k"
  note L = strsub_lists_D [OF l] and T = word_token [OF t]
  have ch: "chain (nexts i) ?hd (ls ! ?k)" by (rule L(4) [OF T(3)])
  have dom: "\<not> (token_no token < 0 \<or> token_no StrsubLast \<le> token_no token)" using T by simp
  show ?thesis
  proof (cases "h \<in> set (ls ! ?k)")
    case False
    then obtain prev where "find_node (nexts i) h ?hd None = Some (None, prev)"
      using find_node_absent [OF ch] by blast
    then have "strsub_uninstall_handler token h i = Some i"
      using dom by (simp add: strsub_uninstall_handler_def Let_def)
    then show ?thesis using l False L(1) T(3) by (simp add: remove1_idem)
  next
    case True
    then obtain xs ys where ls: "ls ! ?k = xs @ h # ys" "h \<notin> set xs" by (metis split_list_first)
    then have r: "remove1 h (ls ! ?k) = xs @ ys" by (simp add: remove1_append)
    have "seg (nexts i) ?hd xs (Some h)" "chain (nexts i) (nexts i h) ys"
      using ch ls(1) by (auto simp: seg_append)
    then have f: "find_node (nexts i) h ?hd None =
        Some (Some h, if xs = [] then None else Some (last xs))"
      using find_node_present ls(2) by blast
    have sub: "a \<in> set (ls ! ?k)" if "a \<in> set (xs @ ys)" for a using that ls(1) by auto
    show ?thesis
    proof (cases "xs = []")
      case True
      let ?i = "set_head ?k (nexts i h) i"
      have "strsub_lists ?i (ls[?k := xs @ ys])"
        using ch L(2) T(3) ls(1) True L(3) [OF T(3)]
        by (intro strsub_lists_upd [OF l T(3)]) (auto simp: nth_list_update)
      then show ?thesis
        using f dom True r by (simp add: strsub_uninstall_handler_def Let_def)
    next
      case False
      let ?i = "set_node (last xs) ((ss_nodes i (last xs))\<lparr>hd_next := nexts i h\<rparr>) i"
      have mem: "last xs \<in> set (ls ! ?k)" using False ls(1) by simp
      have "strsub_lists ?i (ls[?k := xs @ ys])"
        using seg_unlink [OF ch [unfolded ls(1)] False] L(2) T(3) L(3) [OF T(3) _ _ mem]
          L(3) [OF T(3) _ _ sub]
        by (intro strsub_lists_upd [OF l T(3)]) auto
      moreover have "handler_of ?i = handler_of i" by (simp add: handler_of_def fun_eq_iff)
      ultimately show ?thesis
        using f dom False r by (simp add: strsub_uninstall_handler_def Let_def)
    qed
  qed
qed

text \<open>
  Installing the head of a list again makes its successor itself, and the search for a handler
  never ends on a word that it does not know.
\<close>

lemma handler_loop_self:
  assumes "nexts i a = Some a"
    and run: "\<And>s. \<exists>res s'. run (handler_of i a) cb str m (word_of_int offset) s = Some (res, s') \<and> res < 0"
  shows "handler_loop run i cb str m offset (Some a) s = None"
proof -
  have step: "rn = run \<longrightarrow> j = i \<longrightarrow> cb' = cb \<longrightarrow> st = str \<longrightarrow> k = m \<longrightarrow> off = offset \<longrightarrow> h \<noteq> Some a"
    if "handler_loop rn j cb' st k off h s = Some r" for rn j cb' st k off h s r
    using that
  proof (rule handler_loop.raw_induct [rotated])
    fix f rn j cb' st k off h s r
    assume IH: "\<And>rn j cb' st k off h s r. f rn j cb' st k off h s = Some r \<Longrightarrow>
        rn = run \<longrightarrow> j = i \<longrightarrow> cb' = cb \<longrightarrow> st = str \<longrightarrow> k = m \<longrightarrow> off = offset \<longrightarrow> h \<noteq> Some a"
      and eq: "(case h of None \<Rightarrow> Some (None, s)
         | Some a \<Rightarrow> rn (hd_cb (ss_nodes j a)) cb' st k (word_of_int off) s \<bind>
             (\<lambda>(res, s). if res \<ge> 0 then Some (Some res, s) else f rn j cb' st k off (nexts j a) s)) = Some r"
    show "rn = run \<longrightarrow> j = i \<longrightarrow> cb' = cb \<longrightarrow> st = str \<longrightarrow> k = m \<longrightarrow> off = offset \<longrightarrow> h \<noteq> Some a"
    proof (intro impI notI)
      assume e: "rn = run" "j = i" "cb' = cb" "st = str" "k = m" "off = offset" "h = Some a"
      obtain res s' where "run (handler_of i a) cb str m (word_of_int offset) s = Some (res, s')" "res < 0"
        using run by blast
      then have "f run i cb str m offset (Some a) s' = Some r"
        using eq e assms(1) by (simp add: handler_of_def)
      with IH show False by blast
    qed
  qed
  show ?thesis
    using step [of run i cb str m offset "Some a" s]
    by (cases "handler_loop run i cb str m offset (Some a) s") simp_all
qed

lemma reinstall_self:
  assumes "is_word token" "length (ss_handlers (ss_inst i)) = 3"
    "ss_handlers (ss_inst i) ! nat (token_no token) = Some h"
  shows "nexts (snd (strsub_install_handler token h cb i)) h = Some h"
  using word_token [OF assms(1)] assms(2,3)
  by (simp add: strsub_install_handler_def Let_def)

end
