(* ===== verification/Corshell.thy ===== *)
theory Corshell
  imports Linked_List
begin

text \<open>
  The command lists of the shell, \<^verbatim>\<open>src/shell/corshell.c\<close>.  A module owns a list of commands and
  links it behind the static list, which is node 0.  Installing appends a list, uninstalling
  unlinks it.
\<close>

text \<open>The functions of the commands: those of the program, a null pointer, and those of a client.\<close>

datatype shell_fp =
    Corshell_help | Corshell_help2 | Corshell_rem | Corshell_nop
  | Corshell_reg | Corshell_regadd | Corshell_regdel | Corshell_regstats | Corshell_regerase
  | Corshell_regtest
  | Corshell_strtab | Corshell_strtabchk | Corshell_strtaberase | Corshell_strtabstats
  | No_fp | Client_cmd nat

record corshell_cmd =
  cc_cmd :: "u8 list option"
  cc_fp :: shell_fp
  cc_usage :: "u8 list option"

record corshell_cmd_list =
  cl_next :: "nat option"
  cl_cmds :: "corshell_cmd list"
  cl_cnt :: u32

type_synonym corshell = "nat \<Rightarrow> corshell_cmd_list"

definition corshell_static_list :: nat where "corshell_static_list = 0"

definition CORSHELL_CMD_E_OK :: status where [simp]: "CORSHELL_CMD_E_OK = 0"

text \<open>The commands that the linker collects become those of the static list.\<close>

definition corshell_init :: "corshell_cmd list \<Rightarrow> corshell \<Rightarrow> status \<times> corshell" where
  "corshell_init section sh =
     (CORSHELL_CMD_E_OK,
      if section \<noteq> []
      then sh(corshell_static_list :=
             (sh corshell_static_list)\<lparr>cl_cmds := section, cl_cnt := of_nat (length section)\<rparr>)
      else sh)"

definition cl_nexts :: "corshell \<Rightarrow> nat \<Rightarrow> nat option" where
  "cl_nexts sh a = cl_next (sh a)"

definition cl_link :: "nat \<Rightarrow> nat option \<Rightarrow> corshell \<Rightarrow> corshell" where
  "cl_link a n sh = sh(a := (sh a)\<lparr>cl_next := n\<rparr>)"

partial_function (option) last_list :: "(nat \<Rightarrow> nat option) \<Rightarrow> nat \<Rightarrow> nat option" where
  "last_list nxt l = (case nxt l of None \<Rightarrow> Some l | Some a \<Rightarrow> last_list nxt a)"

definition corshell_install :: "nat \<Rightarrow> corshell \<Rightarrow> corshell option" where
  "corshell_install lst sh =
     do { l \<leftarrow> last_list (cl_nexts sh) corshell_static_list;
          Some (cl_link l (Some lst) (cl_link lst None sh)) }"

definition corshell_uninstall :: "nat \<Rightarrow> corshell \<Rightarrow> corshell option" where
  "corshell_uninstall lst sh =
     do { (l, prev) \<leftarrow> find_node (cl_nexts sh) lst (Some corshell_static_list) None;
          Some (case (l, prev) of
                  (Some a, Some p) \<Rightarrow> cl_link p (cl_nexts sh a) sh
                | _ \<Rightarrow> sh) }"

section \<open>The installed lists\<close>

definition installed :: "corshell \<Rightarrow> nat list \<Rightarrow> bool" where
  "installed sh xs \<longleftrightarrow> chain (cl_nexts sh) (Some corshell_static_list) (corshell_static_list # xs)"

lemma cl_nexts_link [simp]: "cl_nexts (cl_link a n sh) = (cl_nexts sh)(a := n)"
  by (simp add: cl_nexts_def cl_link_def fun_eq_iff)

lemma cl_link_cmds [simp]: "cl_cmds (cl_link a n sh b) = cl_cmds (sh b)"
  by (simp add: cl_link_def)

lemma last_list_chain:
  assumes "chain nxt (Some a) (a # xs)"
  shows "last_list nxt a = Some (last (a # xs))"
  using assms
proof (induction xs arbitrary: a)
  case Nil
  then show ?case by (simp add: last_list.simps)
next
  case (Cons b xs)
  then have "nxt a = Some b" "chain nxt (Some b) (b # xs)" by simp_all
  with Cons.IH show ?case by (subst last_list.simps) simp
qed

lemma chain_snoc:
  assumes "chain nxt h xs" "xs \<noteq> []" "b \<notin> set xs" "nxt b = None"
  shows "chain (nxt(last xs := Some b)) h (xs @ [b])"
proof -
  obtain ys a where xs: "xs = ys @ [a]" using assms(2) by (metis rev_exhaust)
  have "a \<notin> set ys" using chain_distinct [OF assms(1)] xs by simp
  moreover have "b \<noteq> a" using assms(3) xs by simp
  ultimately show ?thesis using assms(1,4) by (auto simp: xs seg_append)
qed

lemma install_ok:
  assumes "installed sh xs" "lst \<notin> set (corshell_static_list # xs)"
  shows "\<exists>sh'. corshell_install lst sh = Some sh' \<and> installed sh' (xs @ [lst])"
proof -
  let ?ys = "corshell_static_list # xs"
  have c: "chain (cl_nexts sh) (Some corshell_static_list) ?ys" using assms(1) by (simp only: installed_def)
  then have "last_list (cl_nexts sh) corshell_static_list = Some (last ?ys)" by (rule last_list_chain)
  moreover have "chain (((cl_nexts sh)(lst := None))(last ?ys := Some lst)) (Some corshell_static_list) (?ys @ [lst])"
    using c assms(2) by (intro chain_snoc) (simp_all only: seg_upd, simp_all)
  ultimately show ?thesis by (simp add: corshell_install_def installed_def)
qed

lemma uninstall_ok:
  assumes "installed sh xs" "lst \<noteq> corshell_static_list"
  shows "\<exists>sh'. corshell_uninstall lst sh = Some sh' \<and> installed sh' (remove1 lst xs)"
proof -
  let ?nx = "cl_nexts sh" and ?h = "Some corshell_static_list"
  have c: "chain ?nx ?h (corshell_static_list # xs)" using assms(1) by (simp only: installed_def)
  show ?thesis
  proof (cases "lst \<in> set xs")
    case False
    then obtain prev where "find_node ?nx lst ?h None = Some (None, prev)"
      using find_node_absent [OF c, of lst None] assms(2) by auto
    then show ?thesis using assms(1) False by (simp add: corshell_uninstall_def remove1_idem)
  next
    case True
    then obtain us vs where xs: "xs = us @ lst # vs" "lst \<notin> set us" by (metis split_list_first)
    let ?us = "corshell_static_list # us"
    have c': "chain ?nx ?h (?us @ lst # vs)" using c xs by simp
    then obtain m where "seg ?nx ?h ?us m" "chain ?nx m (lst # vs)" by (simp only: seg_append) blast
    then have s: "seg ?nx ?h ?us (Some lst)" by simp
    have "find_node ?nx lst ?h None = Some (Some lst, Some (last ?us))"
      using find_node_present [OF s, of None] xs(2) assms(2) by simp
    moreover have "chain (?nx(last ?us := ?nx lst)) ?h (?us @ vs)"
      by (rule seg_unlink [OF c']) simp
    ultimately show ?thesis
      using xs by (simp add: corshell_uninstall_def installed_def remove1_append)
  qed
qed

text \<open>Linking and unlinking lists, and the static list, do not depend on each other.\<close>

definition same_cmds :: "corshell \<Rightarrow> corshell \<Rightarrow> bool" where
  "same_cmds sh sh' \<longleftrightarrow> (\<forall>a. cl_cmds (sh' a) = cl_cmds (sh a) \<and> cl_cnt (sh' a) = cl_cnt (sh a))"

lemma same_cmds_refl [simp]: "same_cmds sh sh"
  by (simp add: same_cmds_def)

lemma install_same: "corshell_install lst sh = Some sh' \<Longrightarrow> same_cmds sh sh'"
  by (auto simp: same_cmds_def corshell_install_def cl_link_def bind_eq_Some_conv)

lemma init_nexts [simp]: "cl_nexts (snd (corshell_init section sh)) = cl_nexts sh"
  by (simp add: corshell_init_def cl_nexts_def fun_eq_iff)

lemma init_installed [simp]: "installed (snd (corshell_init section sh)) xs = installed sh xs"
  by (simp add: installed_def)

lemma init_link: "cl_link a n (snd (corshell_init section sh)) = snd (corshell_init section (cl_link a n sh))"
  by (simp add: corshell_init_def cl_link_def fun_eq_iff)

lemma install_init:
  "corshell_install lst (snd (corshell_init section sh)) =
   map_option (\<lambda>sh. snd (corshell_init section sh)) (corshell_install lst sh)"
  by (cases "last_list (cl_nexts sh) corshell_static_list") (simp_all add: corshell_install_def init_link)

end
