(* ===== verification/C_Text.thy ===== *)
theory C_Text
  imports Nvol_Prelude
begin

unbundle bit_operations_syntax

text \<open>
  What the program uses of \<^verbatim>\<open>ctype.h\<close>, \<^verbatim>\<open>sscanf\<close>, \<^verbatim>\<open>strcmp\<close> and \<^verbatim>\<open>strstr\<close>, on the lists of bytes
  readable through a pointer.  The locale is that of C.
\<close>

section \<open>Character classes\<close>

definition isspace :: "u8 \<Rightarrow> bool" where
  "isspace c \<longleftrightarrow> c = 32 \<or> 9 \<le> c \<and> c \<le> 13"

definition isdigit :: "u8 \<Rightarrow> bool" where
  "isdigit c \<longleftrightarrow> 48 \<le> c \<and> c \<le> 57"

definition decimal :: "u8 list \<Rightarrow> nat" where
  "decimal ds = foldl (\<lambda>n c. 10 * n + (unat c - 48)) 0 ds"

section \<open>Numbers\<close>

text \<open>
  \<^verbatim>\<open>sscanf (str, "%u", &n)\<close>: the number of conversions, or -1 at the end of the string, and
  the converted number.  White space is skipped and a sign accepted; a number out of range has no
  defined result.
\<close>

definition scan_digits :: "bool \<Rightarrow> u8 list \<Rightarrow> (int \<times> u32 option) option" where
  "scan_digits neg s =
     (let ds = takeWhile isdigit s in
      if length ds = length s then None
      else if ds = [] then Some (0, None)
      else if decimal ds \<ge> 2 ^ 32 then None
      else Some (1, Some (if neg then - of_nat (decimal ds) else of_nat (decimal ds))))"

definition scan_uint :: "u8 list \<Rightarrow> (int \<times> u32 option) option" where
  "scan_uint str =
     (case dropWhile isspace str of
        [] \<Rightarrow> None
      | c # r \<Rightarrow>
          if c = 0 then Some (- 1, None)
          else scan_digits (c = 45) (if c = 43 \<or> c = 45 then r else c # r))"

section \<open>Text\<close>

definition ascii :: "string \<Rightarrow> u8 list" where
  "ascii s = map of_char s"

fun digits :: "nat \<Rightarrow> u8 list" where
  "digits n = (if n < 10 then [48 + of_nat n] else digits (n div 10) @ [48 + of_nat (n mod 10)])"

declare digits.simps [simp del]

text \<open>\<^verbatim>\<open>%d\<close>, and \<^verbatim>\<open>%.<k>d\<close> for a number that is not negative.\<close>

definition show_int :: "int \<Rightarrow> u8 list" where
  "show_int n = (if n < 0 then 45 # digits (nat (- n)) else digits (nat n))"

definition show_padded :: "nat \<Rightarrow> nat \<Rightarrow> u8 list" where
  "show_padded k n = replicate (k - length (digits n)) 48 @ digits n"

text \<open>Whether \<^verbatim>\<open>strstr\<close> finds a string in another one; both without their terminators.\<close>

fun strstr :: "u8 list \<Rightarrow> u8 list \<Rightarrow> bool" where
  "strstr hay needle =
     (take (length needle) hay = needle \<or> (case hay of [] \<Rightarrow> False | _ # t \<Rightarrow> strstr t needle))"

declare strstr.simps [simp del]

section \<open>More conversions\<close>

definition isxdigit :: "u8 \<Rightarrow> bool" where
  "isxdigit c \<longleftrightarrow> isdigit c \<or> 65 \<le> c \<and> c \<le> 70 \<or> 97 \<le> c \<and> c \<le> 102"

definition isodigit :: "u8 \<Rightarrow> bool" where
  "isodigit c \<longleftrightarrow> 48 \<le> c \<and> c \<le> 55"

definition digit_value :: "u8 \<Rightarrow> nat" where
  "digit_value c = (if isdigit c then unat c - 48 else if c \<le> 70 then unat c - 55 else unat c - 87)"

definition radix :: "nat \<Rightarrow> u8 list \<Rightarrow> nat" where
  "radix b ds = foldl (\<lambda>n c. b * n + digit_value c) 0 ds"

text \<open>The sign of a number and what follows it; the string is given without its terminator.\<close>

definition signed_part :: "u8 list \<Rightarrow> bool \<times> u8 list" where
  "signed_part s =
     (case dropWhile isspace s of
        [] \<Rightarrow> (False, [])
      | c # r \<Rightarrow> (c = 45, if c = 43 \<or> c = 45 then r else c # r))"

text \<open>
  \<^verbatim>\<open>sscanf\<close> with \<^verbatim>\<open>%d\<close>, \<^verbatim>\<open>%i\<close> and \<^verbatim>\<open>%x\<close>: the outer option is for a number out of range, which has no
  defined result, the inner one for a string without a number.  A prefix \<^verbatim>\<open>0x\<close> is not read here:
  the program tests for it first.
\<close>

definition scan_signed :: "bool \<Rightarrow> nat \<Rightarrow> int option option" where
  "scan_signed neg n =
     (let k = (if neg then - int n else int n) in
      if - (2 ^ 31) \<le> k \<and> k < 2 ^ 31 then Some (Some k) else None)"

definition scan_d :: "u8 list \<Rightarrow> int option option" where
  "scan_d s =
     (case signed_part s of (neg, r) \<Rightarrow>
      let ds = takeWhile isdigit r in
      if ds = [] then Some None else scan_signed neg (radix 10 ds))"

definition scan_i :: "u8 list \<Rightarrow> int option option" where
  "scan_i s =
     (case signed_part s of (neg, r) \<Rightarrow>
      if takeWhile isdigit r = [] then Some None
      else if hd r = 48 then scan_signed neg (radix 8 (takeWhile isodigit r))
      else scan_signed neg (radix 10 (takeWhile isdigit r)))"

definition scan_x :: "u8 list \<Rightarrow> u32 option option" where
  "scan_x s =
     (case signed_part s of (neg, r) \<Rightarrow>
      let ds = takeWhile isxdigit r; n = radix 16 ds in
      if ds = [] then Some None
      else if n < 2 ^ 32 then Some (Some (if neg then - of_nat n else of_nat n)) else None)"

end
