(* ===== verification/Shell_Table.thy ===== *)
theory Shell_Table
  imports Corshell C_Text
begin

text \<open>
  The commands of the two modules, from \<^verbatim>\<open>src/registry/registrycmd.c\<close> and
  \<^verbatim>\<open>src/registry/strtabcmd.c\<close>, and the lists they are in before the program starts: a list ends
  with an entry without a name, and none is linked.
\<close>

definition registry_cmds :: nat where "registry_cmds = 1"
definition strtab_cmds :: nat where "strtab_cmds = 2"

definition last_cmd :: corshell_cmd where
  "last_cmd = \<lparr>cc_cmd = None, cc_fp = No_fp, cc_usage = None\<rparr>"

definition registry_cmd_list :: "corshell_cmd list" where
  "registry_cmd_list =
     [\<lparr>cc_cmd = Some (ascii ''reg''), cc_fp = Corshell_reg, cc_usage = Some (ascii ''[key] [value]'')\<rparr>,
      \<lparr>cc_cmd = Some (ascii ''regadd''), cc_fp = Corshell_regadd, cc_usage = Some (ascii ''<key> <value>'')\<rparr>,
      \<lparr>cc_cmd = Some (ascii ''regdel''), cc_fp = Corshell_regdel, cc_usage = Some (ascii ''<key>'')\<rparr>,
      \<lparr>cc_cmd = Some (ascii ''regstats''), cc_fp = Corshell_regstats, cc_usage = Some []\<rparr>,
      \<lparr>cc_cmd = Some (ascii ''regerase''), cc_fp = Corshell_regerase, cc_usage = Some []\<rparr>,
      \<lparr>cc_cmd = Some (ascii ''regtest''), cc_fp = Corshell_regtest, cc_usage = Some (ascii ''[repeat]'')\<rparr>,
      last_cmd]"

definition strtab_cmd_list :: "corshell_cmd list" where
  "strtab_cmd_list =
     [\<lparr>cc_cmd = Some (ascii ''strtab''), cc_fp = Corshell_strtab, cc_usage = Some (ascii ''[idx] [value]'')\<rparr>,
      \<lparr>cc_cmd = Some (ascii ''strtabchk''), cc_fp = Corshell_strtabchk, cc_usage = Some (ascii ''<idx> <value>'')\<rparr>,
      \<lparr>cc_cmd = Some (ascii ''strtaberase''), cc_fp = Corshell_strtaberase, cc_usage = Some []\<rparr>,
      \<lparr>cc_cmd = Some (ascii ''strtabstats''), cc_fp = Corshell_strtabstats, cc_usage = Some []\<rparr>,
      last_cmd]"

definition shell_lists :: corshell where
  "shell_lists = (\<lambda>a.
     \<lparr>cl_next = None,
      cl_cmds = (if a = registry_cmds then registry_cmd_list
                 else if a = strtab_cmds then strtab_cmd_list else []),
      cl_cnt = 0\<rparr>)"

end
