(* ===== verification/System_State.thy ===== *)
theory System_State
  imports Nvol_Frame Nvol_Walk Nvol_Sorted Strsub_Parse Strsub_Lists Shell_Table
begin

text \<open>
  The state the modules of the program share: one FLASH device and one heap, the string
  substitution instance, the command lists of the shell, and the static variables of the registry
  (\<^verbatim>\<open>src/registry/registry.c\<close>) and of the string table (\<^verbatim>\<open>src/registry/strtab.c\<close>).  Each of the
  two modules owns a volume; \<open>reg_vol\<close> and \<open>str_vol\<close> are the states of type \<open>nvol\<close> that their
  calls of \<^verbatim>\<open>nvol3.c\<close> work on.
\<close>

unbundle bit_operations_syntax

section \<open>Constants and configurations\<close>

definition REGISTRY_KEY_LENGTH :: nat where "REGISTRY_KEY_LENGTH = 24"
definition REGISTRY_VALUE_LENGT_MAX :: nat where "REGISTRY_VALUE_LENGT_MAX = 224"
definition STRTAB_LENGT_MAX :: nat where "STRTAB_LENGT_MAX = 500"

definition registry_config :: "ramdrv nvol_config" where
  "registry_config =
     \<lparr>c_flash = ramdrv_ops,
      c_sector1_addr = NVOL3_REGISTRY_START,
      c_sector2_addr = NVOL3_REGISTRY_START + NVOL3_REGISTRY_SECTOR_SIZE,
      c_sector_size = NVOL3_REGISTRY_SECTOR_SIZE,
      c_record_size = of_nat (8 + REGISTRY_KEY_LENGTH + REGISTRY_VALUE_LENGT_MAX),
      c_local_size = 0,
      c_key_size = of_nat REGISTRY_KEY_LENGTH,
      c_hashsize = 53,
      c_keyspec = DICTIONARY_KEYSPEC_BINARY 6,
      c_version = NVOL3_SECTOR_VERSION,
      c_write_cb = Some nvol3_callback_tallie,
      c_ctx = 0\<rparr>"

definition strtab_config :: "ramdrv nvol_config" where
  "strtab_config =
     \<lparr>c_flash = ramdrv_ops,
      c_sector1_addr = NVOL3_STRTAB_START,
      c_sector2_addr = NVOL3_STRTAB_START + NVOL3_STRTAB_SECTOR_SIZE,
      c_sector_size = NVOL3_STRTAB_SECTOR_SIZE,
      c_record_size = of_nat (8 + 4 + STRTAB_LENGT_MAX),
      c_local_size = 0,
      c_key_size = 4,
      c_hashsize = 17,
      c_keyspec = DICTIONARY_KEYSPEC_UINT,
      c_version = NVOL3_SECTOR_VERSION,
      c_write_cb = Some nvol3_callback_tallie,
      c_ctx = 0\<rparr>"

section \<open>The state\<close>

text \<open>The two lookup functions that the program installs as handlers.\<close>

datatype lookup_fn = Registry_strsub_cb | Strtab_strsub_cb

record system =
  sys_dev :: ramdrv
  sys_heap :: heap
  sys_strsub :: "lookup_fn strsub"
  sys_shell :: corshell
  reg_inst :: nvol_inst
  registry_value :: nvol_record
  registry_it :: dict_it
  registry_key :: "u8 list"
  str_inst :: nvol_inst
  strtab_buffer :: nvol_record
  strtab_it :: dict_it

definition reg_vol :: "system \<Rightarrow> ramdrv nvol" where
  "reg_vol sys = \<lparr>dev = sys_dev sys, hp = sys_heap sys, inst = reg_inst sys\<rparr>"

definition set_reg_vol :: "ramdrv nvol \<Rightarrow> system \<Rightarrow> system" where
  "set_reg_vol s sys = sys\<lparr>sys_dev := dev s, sys_heap := hp s, reg_inst := inst s\<rparr>"

definition str_vol :: "system \<Rightarrow> ramdrv nvol" where
  "str_vol sys = \<lparr>dev = sys_dev sys, hp = sys_heap sys, inst = str_inst sys\<rparr>"

definition set_str_vol :: "ramdrv nvol \<Rightarrow> system \<Rightarrow> system" where
  "set_str_vol s sys = sys\<lparr>sys_dev := dev s, sys_heap := hp s, str_inst := inst s\<rparr>"

text \<open>The static nodes that the modules link into the lists of handlers.\<close>

definition registry_handler :: nat where "registry_handler = 0"
definition strtab_handler :: nat where "strtab_handler = 1"

section \<open>C strings\<close>

text \<open>
  The bytes \<^verbatim>\<open>strncpy (dst, src, n)\<close> stores: the string up to its terminator, padded with zeros.
  A source without terminator must have \<open>n\<close> bytes.
\<close>

definition strncpy :: "u8 list \<Rightarrow> nat \<Rightarrow> u8 list option" where
  "strncpy src n =
     (let s = takeWhile (\<lambda>c. c \<noteq> 0) (take n src) in
      if length s < n \<and> length s = length src then None
      else Some (s @ replicate (n - length s) 0))"

text \<open>The sign of \<^verbatim>\<open>strcmp\<close>; no result when a string ends without terminator.\<close>

fun strcmp :: "u8 list \<Rightarrow> u8 list \<Rightarrow> int option" where
  "strcmp (a # xs) (b # ys) =
     (if a \<noteq> b then Some (if a < b then - 1 else 1)
      else if a = 0 then Some 0
      else strcmp xs ys)"
| "strcmp _ _ = None"

lemma length_strncpy: "strncpy src n = Some bs \<Longrightarrow> length bs = n"
proof -
  have "length (takeWhile (\<lambda>c. c \<noteq> 0) (take n src)) \<le> n"
    by (rule order.trans [OF length_takeWhile_le]) simp
  then show "strncpy src n = Some bs \<Longrightarrow> length bs = n"
    by (auto simp: strncpy_def Let_def split: if_splits)
qed

lemma takeWhile_no_NUL: "0 \<notin> set s \<Longrightarrow> takeWhile (\<lambda>c. c \<noteq> 0) s = (s :: u8 list)"
  by (auto simp: takeWhile_eq_all_conv)

lemma takeWhile_take_NUL:
  "0 \<notin> set s \<Longrightarrow> takeWhile (\<lambda>c. c \<noteq> 0) (take n (s @ 0 # r)) = take n (s :: u8 list)"
proof (induction s arbitrary: n)
  case Nil
  then show ?case by (cases n) auto
next
  case (Cons a s)
  then show ?case by (cases n) auto
qed

lemma strncpy_string:
  "0 \<notin> set s \<Longrightarrow> strncpy (s @ 0 # r) n = Some (take n s @ replicate (n - length s) 0)"
  unfolding strncpy_def Let_def by (subst takeWhile_take_NUL, assumption)+ (simp add: min_def)

lemma strncpy_bytes: "0 \<notin> set s \<Longrightarrow> strncpy (s @ r) (length s) = Some s"
  by (simp add: strncpy_def Let_def takeWhile_no_NUL)

section \<open>The volumes fit the device and are apart\<close>

lemma reg_sizes [simp]: "rsz registry_config = 256" "ksz registry_config = 24" "mxr registry_config = 127"
  by (simp_all add: registry_config_def rsz_def ksz_def mxr_def storage_defs REGISTRY_KEY_LENGTH_def
      REGISTRY_VALUE_LENGT_MAX_def)

lemma str_sizes [simp]: "rsz strtab_config = 512" "ksz strtab_config = 4" "mxr strtab_config = 63"
  by (simp_all add: strtab_config_def rsz_def ksz_def mxr_def storage_defs STRTAB_LENGT_MAX_def)

lemma reg_cfg_ok: "cfg_ok ramdrv_ops 131072 registry_config"
proof -
  have "fixed_key registry_config"
    by (simp add: fixed_key_def)
       (simp add: registry_config_def dict_keytype_def keyspec_defs DICTIONARY_KEY_SIZE_def)
  then show ?thesis
    unfolding cfg_ok_def sector_fits_def reg_sizes by (simp add: registry_config_def storage_defs)
qed

lemma str_cfg_ok: "cfg_ok ramdrv_ops 131072 strtab_config"
proof -
  have "fixed_key strtab_config"
    by (simp add: fixed_key_def)
       (simp add: strtab_config_def dict_keytype_def keyspec_defs DICTIONARY_KEY_SIZE_def)
  then show ?thesis
    unfolding cfg_ok_def sector_fits_def str_sizes by (simp add: strtab_config_def storage_defs)
qed

interpretation reg: volume ramdrv_ops ram_mem ram_and ram_blank 131072 registry_config
  by (intro volume.intro volume_axioms.intro ram.flash_driver_axioms reg_cfg_ok)

interpretation str: volume ramdrv_ops ram_mem ram_and ram_blank 131072 strtab_config
  by (intro volume.intro volume_axioms.intro ram.flash_driver_axioms str_cfg_ok)

lemma reg_cb: "cb_accepts registry_config"
  by (simp add: cb_accepts_def registry_config_def nvol3_callback_tallie_def)

lemma str_cb: "cb_accepts strtab_config"
  by (simp add: cb_accepts_def strtab_config_def nvol3_callback_tallie_def)

lemma vol_simps [simp]:
  "dev (reg_vol sys) = sys_dev sys" "hp (reg_vol sys) = sys_heap sys" "inst (reg_vol sys) = reg_inst sys"
  "dev (str_vol sys) = sys_dev sys" "hp (str_vol sys) = sys_heap sys" "inst (str_vol sys) = str_inst sys"
  "reg_vol (set_reg_vol s sys) = s" "str_vol (set_str_vol s sys) = s"
  by (simp_all add: reg_vol_def str_vol_def set_reg_vol_def set_str_vol_def)

lemma set_vol_simps [simp]:
  "sys_dev (set_reg_vol s sys) = dev s" "sys_heap (set_reg_vol s sys) = hp s"
  "reg_inst (set_reg_vol s sys) = inst s" "str_inst (set_reg_vol s sys) = str_inst sys"
  "sys_dev (set_str_vol s sys) = dev s" "sys_heap (set_str_vol s sys) = hp s"
  "str_inst (set_str_vol s sys) = inst s" "reg_inst (set_str_vol s sys) = reg_inst sys"
  by (simp_all add: set_reg_vol_def set_str_vol_def)

lemma set_vol_other [simp]:
  "registry_value (set_reg_vol s sys) = registry_value sys" "registry_it (set_reg_vol s sys) = registry_it sys"
  "registry_key (set_reg_vol s sys) = registry_key sys" "strtab_buffer (set_reg_vol s sys) = strtab_buffer sys"
  "strtab_it (set_reg_vol s sys) = strtab_it sys" "sys_strsub (set_reg_vol s sys) = sys_strsub sys"
  "sys_shell (set_reg_vol s sys) = sys_shell sys"
  "registry_value (set_str_vol s sys) = registry_value sys" "registry_it (set_str_vol s sys) = registry_it sys"
  "registry_key (set_str_vol s sys) = registry_key sys" "strtab_buffer (set_str_vol s sys) = strtab_buffer sys"
  "strtab_it (set_str_vol s sys) = strtab_it sys" "sys_strsub (set_str_vol s sys) = sys_strsub sys"
  "sys_shell (set_str_vol s sys) = sys_shell sys"
  by (simp_all add: set_reg_vol_def set_str_vol_def)

end
