(* ===== verification/Registry.thy ===== *)
theory Registry
  imports System_State
begin

text \<open>
  The registry, \<^verbatim>\<open>src/registry/registry.c\<close>: string keys of up to 24 characters with values of up
  to 224 bytes in the volume \<open>registry_config\<close>.  A key or a value parameter is \<open>None\<close> for a null
  pointer, else the bytes readable through the pointer; an output buffer is returned.  The static
  buffer \<^verbatim>\<open>_registry_value\<close> keeps what the last call left in it.
\<close>

unbundle bit_operations_syntax

section \<open>Operations\<close>

definition REGISTRY_KEY_TYPE_LEN :: int where "REGISTRY_KEY_TYPE_LEN = int REGISTRY_KEY_LENGTH"

definition setkey :: "nvol_record \<Rightarrow> u8 list \<Rightarrow> nvol_record option" where
  "setkey entry key =
     do { bs \<leftarrow> strncpy key REGISTRY_KEY_LENGTH;
          kd \<leftarrow> buf_write (key_and_data entry) 0 bs;
          Some (entry\<lparr>key_and_data := kd\<rparr>) }"

text \<open>The field \<^verbatim>\<open>value\<close> of the record.\<close>

definition value_field :: "nvol_record \<Rightarrow> u8 list" where
  "value_field entry = drop REGISTRY_KEY_LENGTH (key_and_data entry)"

definition registry_init :: status where "registry_init = EOK"

definition registry_start :: "system \<Rightarrow> (status \<times> system) option" where
  "registry_start sys =
     do { valid \<leftarrow> nvol3_validate registry_config (reg_vol sys);
          (status, v) \<leftarrow> (if valid \<noteq> EOK then nvol3_reset registry_config (reg_vol sys)
                          else nvol3_load registry_config (reg_vol sys));
          let sys = set_reg_vol v sys;
          let (_, ss) = strsub_install_handler StrsubToken1 registry_handler Registry_strsub_cb
                          (sys_strsub sys);
          sh \<leftarrow> corshell_install registry_cmds (sys_shell sys);
          Some (status, sys\<lparr>sys_strsub := ss, sys_shell := sh\<rparr>) }"

definition registry_stop :: "system \<Rightarrow> (status \<times> system) option" where
  "registry_stop sys =
     do { ss \<leftarrow> strsub_uninstall_handler StrsubToken1 registry_handler (sys_strsub sys);
          sh \<leftarrow> corshell_uninstall registry_cmds (sys_shell sys);
          Some (0, set_reg_vol (nvol3_unload (reg_vol sys))
                     (sys\<lparr>sys_strsub := ss, sys_shell := sh\<rparr>)) }"

definition registry_erase :: "system \<Rightarrow> (status \<times> system) option" where
  "registry_erase sys =
     do { (status, v) \<leftarrow> nvol3_reset registry_config (reg_vol sys);
          Some (status, set_reg_vol v sys) }"

definition registry_value_delete :: "u8 list option \<Rightarrow> system \<Rightarrow> (status \<times> system) option" where
  "registry_value_delete ident sys =
     (case ident of
        None \<Rightarrow> Some (E_PARM, sys)
      | Some ident \<Rightarrow>
          do { rec \<leftarrow> setkey (registry_value sys) ident;
               (res, rec, v) \<leftarrow> nvol3_record_delete registry_config rec (reg_vol sys);
               Some (res, set_reg_vol v (sys\<lparr>registry_value := rec\<rparr>)) })"

text \<open>A null key makes the function return \<^verbatim>\<open>E_PARM\<close>, which converts to true.\<close>

definition registry_value_valid :: "u8 list option \<Rightarrow> system \<Rightarrow> (bool \<times> system) option" where
  "registry_value_valid ident sys =
     (case ident of
        None \<Rightarrow> Some (E_PARM \<noteq> 0, sys)
      | Some ident \<Rightarrow>
          do { rec \<leftarrow> setkey (registry_value sys) ident;
               (res, rec) \<leftarrow> nvol3_record_get registry_config rec (reg_vol sys);
               Some (res > REGISTRY_KEY_TYPE_LEN, sys\<lparr>registry_value := rec\<rparr>) })"

definition registry_value_length :: "u8 list option \<Rightarrow> system \<Rightarrow> (status \<times> system) option" where
  "registry_value_length ident sys =
     (case ident of
        None \<Rightarrow> Some (E_PARM, sys)
      | Some ident \<Rightarrow>
          do { rec \<leftarrow> setkey (registry_value sys) ident;
               res \<leftarrow> nvol3_record_key_and_data_length registry_config (key_and_data rec) (reg_vol sys);
               Some (if res > REGISTRY_KEY_TYPE_LEN then res - REGISTRY_KEY_TYPE_LEN
                     else if res > 0 then 0 else res,
                     sys\<lparr>registry_value := rec\<rparr>) })"

text \<open>The output buffer is cleared and filled; \<open>length\<close> is cast to a signed number.\<close>

definition registry_value_get ::
  "u8 list option \<Rightarrow> u8 list option \<Rightarrow> u32 \<Rightarrow> system \<Rightarrow> (status \<times> u8 list option \<times> system) option" where
  "registry_value_get ident val len sys =
     (case ident of
        None \<Rightarrow> Some (E_PARM, val, sys)
      | Some ident \<Rightarrow>
          do { rec \<leftarrow> setkey (registry_value sys) ident;
               val \<leftarrow> (case val of
                         None \<Rightarrow> if len = 0 then Some None else None
                       | Some b \<Rightarrow> map_option Some (buf_write b 0 (replicate (unat len) 0)));
               (res, rec) \<leftarrow> nvol3_record_get registry_config rec (reg_vol sys);
               let sys = sys\<lparr>registry_value := rec\<rparr>;
               if res > REGISTRY_KEY_TYPE_LEN
               then (let res = res - REGISTRY_KEY_TYPE_LEN in
                     case val of
                       None \<Rightarrow> Some (res, None, sys)
                     | Some b \<Rightarrow>
                         if len > 0
                         then (let res = (if sint len \<le> res then sint len else res) in
                               if res < 0 then None
                               else do { bs \<leftarrow> buf_read (value_field rec) 0 (nat res);
                                         b \<leftarrow> buf_write b 0 bs;
                                         Some (res, Some b, sys) })
                         else Some (res, Some b, sys))
               else Some (if res \<ge> 0 then E_INVAL else res, val, sys) })"

definition registry_value_set ::
  "u8 list option \<Rightarrow> u8 list option \<Rightarrow> u32 \<Rightarrow> system \<Rightarrow> (status \<times> system) option" where
  "registry_value_set ident val len sys =
     (case (val, ident) of
        (Some val, Some ident) \<Rightarrow>
          if len > of_nat REGISTRY_VALUE_LENGT_MAX then Some (E_PARM, sys)
          else do {
            rec \<leftarrow> setkey (registry_value sys) ident;
            bs \<leftarrow> buf_read val 0 (unat len);
            kd \<leftarrow> buf_write (key_and_data rec) REGISTRY_KEY_LENGTH bs;
            (res, rec, v) \<leftarrow> nvol3_record_set registry_config (rec\<lparr>key_and_data := kd\<rparr>)
                               (len + of_nat REGISTRY_KEY_LENGTH) (reg_vol sys);
            Some (res, set_reg_vol v (sys\<lparr>registry_value := rec\<rparr>)) }
      | _ \<Rightarrow> Some (E_PARM, sys))"

section \<open>Iteration\<close>

definition reg_cmp :: "u8 list \<Rightarrow> u8 list \<Rightarrow> int option" where
  "reg_cmp first second = strcmp first second"

text \<open>What \<^verbatim>\<open>registry_first\<close> and \<^verbatim>\<open>registry_next\<close> do with the record the iterator yields.\<close>

definition registry_yield ::
  "int \<Rightarrow> u8 list \<Rightarrow> int \<Rightarrow> system \<Rightarrow> (status \<times> u8 list option \<times> u8 list \<times> system) option" where
  "registry_yield res val len sys =
     (if res > REGISTRY_KEY_TYPE_LEN
      then (let res = res - REGISTRY_KEY_TYPE_LEN; len = (if res < len then res else len) in
            if len < 0 then None
            else do {
              bs \<leftarrow> buf_read (value_field (registry_value sys)) 0 (nat len);
              val \<leftarrow> buf_write val 0 bs;
              key \<leftarrow> strncpy (take REGISTRY_KEY_LENGTH (key_and_data (registry_value sys)))
                       REGISTRY_KEY_LENGTH;
              let sys = sys\<lparr>registry_key := key @ [0]\<rparr>;
              Some (res, Some (registry_key sys), val, sys) })
      else Some (if res \<ge> 0 then E_INVAL else res, None, val, sys))"

definition registry_first ::
  "bool \<Rightarrow> u8 list option \<Rightarrow> int \<Rightarrow> system \<Rightarrow>
   (status \<times> u8 list option \<times> u8 list option \<times> system) option" where
  "registry_first key val len sys =
     (case val of
        None \<Rightarrow> Some (E_PARM, None, None, sys)
      | Some val \<Rightarrow>
          if \<not> key then Some (E_PARM, None, Some val, sys)
          else do {
            (res, rec, it) \<leftarrow> nvol3_record_first registry_config (registry_value sys) (Some reg_cmp)
                                (reg_vol sys);
            (res, k, val, sys) \<leftarrow> registry_yield res val len
                                   (sys\<lparr>registry_value := rec, registry_it := it\<rparr>);
            Some (res, k, Some val, sys) })"

definition registry_next ::
  "bool \<Rightarrow> u8 list option \<Rightarrow> int \<Rightarrow> system \<Rightarrow>
   (status \<times> u8 list option \<times> u8 list option \<times> system) option" where
  "registry_next key val len sys =
     (case val of
        None \<Rightarrow> Some (E_PARM, None, None, sys)
      | Some val \<Rightarrow>
          if \<not> key then Some (E_PARM, None, Some val, sys)
          else do {
            (res, rec, it) \<leftarrow> nvol3_record_next registry_config (registry_value sys) (registry_it sys)
                                (reg_vol sys);
            (res, k, val, sys) \<leftarrow> registry_yield res val len
                                   (sys\<lparr>registry_value := rec, registry_it := it\<rparr>);
            Some (res, k, Some val, sys) })"

definition registry_log_status :: "system \<Rightarrow> (u32 \<times> hash_stats) option option" where
  "registry_log_status sys = nvol3_entry_log_status registry_config 1 (reg_vol sys)"

section \<open>The handler for string substitution\<close>

text \<open>
  Copying more than 24 characters into the key field writes past the field: no result.
\<close>

definition registry_strsub_cb :: "('t \<times> system) lookup_cb" where
  "registry_strsub_cb cb str len offset s =
     (case s of (arg, sys) \<Rightarrow>
      do { key \<leftarrow> (if len \<le> REGISTRY_KEY_LENGTH then strncpy str len else None);
           let rec = \<lparr>head = zero_head,
                      key_and_data = key @ replicate (REGISTRY_KEY_LENGTH + REGISTRY_VALUE_LENGT_MAX - len) 0\<rparr>;
           (res, rec) \<leftarrow> nvol3_record_get registry_config rec (reg_vol sys);
           let sys = sys\<lparr>registry_value := rec\<rparr>;
           if res > REGISTRY_KEY_TYPE_LEN
           then cb (value_field rec) (word_of_int (res - REGISTRY_KEY_TYPE_LEN)) offset (arg, sys)
           else Some (if res \<ge> 0 then E_INVAL else res, (arg, sys)) })"

end
