(* ===== verification/Registry_Spec.thy ===== *)
theory Registry_Spec
  imports Registry
begin

text \<open>
  The registry as a map from strings to values, on every branch of its operations, and its
  independence of the string table: the two volumes share the device and the heap, but an
  operation on one leaves the invariant and the map of the other alone.
\<close>

unbundle bit_operations_syntax

section \<open>Keys, map and invariant\<close>

text \<open>Of a key the first 24 characters count.\<close>

definition key24 :: "u8 list \<Rightarrow> u8 list" where
  "key24 s = take 24 s @ replicate (24 - length s) 0"

definition registry_map :: "system \<Rightarrow> u8 list \<Rightarrow> u8 list option" where
  "registry_map sys s = vol_map ram_mem registry_config (reg_vol sys) (key24 s)"

definition registry_count :: "system \<Rightarrow> nat" where
  "registry_count sys = card (dom (vol_map ram_mem registry_config (reg_vol sys)))"

definition registry_inv :: "system \<Rightarrow> bool" where
  "registry_inv sys \<longleftrightarrow>
     nvol_inv ram_mem registry_config (reg_vol sys) \<and> plenty (sys_heap sys) \<and>
     rec_buf registry_config (registry_value sys)"

definition strtab_vol_inv :: "system \<Rightarrow> bool" where
  "strtab_vol_inv sys \<longleftrightarrow> nvol_inv ram_mem strtab_config (str_vol sys)"

definition strtab_vol_map :: "system \<Rightarrow> u8 list \<Rightarrow> u8 list option" where
  "strtab_vol_map sys = vol_map ram_mem strtab_config (str_vol sys)"

lemma length_key24 [simp]: "length (key24 s) = 24"
  by (simp add: key24_def)

text \<open>A C string: the bytes before the first terminator.\<close>

lemma setkey_ok:
  assumes "rec_buf registry_config rec" "0 \<notin> set s"
  shows "\<exists>rec'. setkey rec (s @ 0 # r) = Some rec' \<and> rec_buf registry_config rec' \<and>
    key_and_data rec' = key24 s @ drop 24 (key_and_data rec)"
proof -
  have l: "length (key_and_data rec) = 248" using assms(1) by (simp add: rec_buf_def)
  then have "buf_write (key_and_data rec) 0 (key24 s) = Some (key24 s @ drop 24 (key_and_data rec))"
    by (simp add: buf_write_def)
  then show ?thesis
    using l by (simp add: setkey_def strncpy_string [OF assms(2)] REGISTRY_KEY_LENGTH_def
        rec_buf_def flip: key24_def)
qed

lemmas registry_consts = REGISTRY_KEY_TYPE_LEN_def REGISTRY_KEY_LENGTH_def REGISTRY_VALUE_LENGT_MAX_def

lemma registry_value_length_le:
  assumes "nvol_inv ram_mem registry_config s" "vol_map ram_mem registry_config s k = Some v"
  shows "length v \<le> 224"
proof -
  obtain i where ix: "vol_index ram_mem registry_config s k = Some (i, v)"
    using assms(2) by (auto simp: vol_map_Some)
  have "length k = 24" using reg.index_key_length [OF assms(1) ix] by simp
  moreover have "length k + length v + 8 \<le> 256"
    using reg.slot_length_u16 [OF vol_index_Some(3) [OF assms(1) ix]] by (simp add: vol_slots_def)
  ultimately show ?thesis by simp
qed

section \<open>Getting\<close>

lemma registry_lookup:
  assumes inv: "registry_inv sys" and s: "0 \<notin> set s"
  shows "\<exists>rec rec'. setkey (registry_value sys) (s @ 0 # r) = Some rec \<and>
    take 24 (key_and_data rec) = key24 s \<and> rec_buf registry_config rec \<and>
    nvol3_record_get registry_config rec (reg_vol sys) =
      Some (case registry_map sys s of None \<Rightarrow> E_NOTFOUND | Some v \<Rightarrow> int (24 + length v), rec') \<and>
    rec_buf registry_config rec' \<and>
    (\<forall>v. registry_map sys s = Some v \<longrightarrow> take (length v) (value_field rec') = v)"
proof -
  have rb: "rec_buf registry_config (registry_value sys)"
    and ni: "nvol_inv ram_mem registry_config (reg_vol sys)" using inv by (simp_all add: registry_inv_def)
  obtain rec where rec: "setkey (registry_value sys) (s @ 0 # r) = Some rec" "rec_buf registry_config rec"
    "key_and_data rec = key24 s @ drop 24 (key_and_data (registry_value sys))"
    using setkey_ok [OF rb s] by blast
  then have k: "take 24 (key_and_data rec) = key24 s" by simp
  show ?thesis
  proof (cases "registry_map sys s")
    case None
    then have "vol_map ram_mem registry_config (reg_vol sys) (take (ksz registry_config) (key_and_data rec)) = None"
      using k by (simp add: registry_map_def)
    from reg.get_absent [OF ni rec(2) this] rec k None show ?thesis
      by (simp add: rec_buf_def)
  next
    case (Some v)
    then have "vol_map ram_mem registry_config (reg_vol sys) (key24 s) = Some v"
      by (simp add: registry_map_def)
    from reg.get_present [OF ni rec(2) _ this] k
    obtain rec' where g: "nvol3_record_get registry_config rec (reg_vol sys) = Some (int (24 + length v), rec')"
      "rec_buf registry_config rec'" "take (24 + length v) (key_and_data rec') = key24 s @ v"
      by auto
    have "take (length v) (value_field rec') = drop 24 (take (24 + length v) (key_and_data rec'))"
      by (simp add: value_field_def REGISTRY_KEY_LENGTH_def drop_take)
    then have "take (length v) (value_field rec') = v" by (simp add: g(3))
    with g rec k Some show ?thesis by simp
  qed
qed

lemma registry_map_buffer [simp]:
  "registry_map (sys\<lparr>registry_value := rec\<rparr>) = registry_map sys"
  "reg_vol (sys\<lparr>registry_value := rec\<rparr>) = reg_vol sys" "str_vol (sys\<lparr>registry_value := rec\<rparr>) = str_vol sys"
  "registry_inv (sys\<lparr>registry_value := rec\<rparr>) \<longleftrightarrow>
     nvol_inv ram_mem registry_config (reg_vol sys) \<and> plenty (sys_heap sys) \<and> rec_buf registry_config rec"
  by (simp_all add: registry_map_def reg_vol_def str_vol_def registry_inv_def fun_eq_iff)

text \<open>What the output buffer of a get holds.\<close>

definition got :: "u8 list \<Rightarrow> nat \<Rightarrow> u8 list \<Rightarrow> u8 list" where
  "got b n v = take n v @ replicate (n - length v) 0 @ drop n b"

lemma registry_get_ok:
  assumes inv: "registry_inv sys" and s: "0 \<notin> set s"
    and b: "unat len \<le> length b" "unat len < 2 ^ 31"
  shows "\<exists>rec. registry_value_get (Some (s @ 0 # r)) (Some b) len sys =
      Some (case registry_map sys s of
              None \<Rightarrow> (E_NOTFOUND, Some (got b (unat len) []), sys\<lparr>registry_value := rec\<rparr>)
            | Some v \<Rightarrow>
                (if v = [] then E_INVAL
                 else if len = 0 then int (length v) else int (min (unat len) (length v)),
                 Some (got b (unat len) v), sys\<lparr>registry_value := rec\<rparr>)) \<and>
    rec_buf registry_config rec"
proof -
  let ?n = "unat len"
  obtain rec rec' where g: "setkey (registry_value sys) (s @ 0 # r) = Some rec"
    "nvol3_record_get registry_config rec (reg_vol sys) =
      Some (case registry_map sys s of None \<Rightarrow> E_NOTFOUND | Some v \<Rightarrow> int (24 + length v), rec')"
    "rec_buf registry_config rec'"
    "\<forall>v. registry_map sys s = Some v \<longrightarrow> take (length v) (value_field rec') = v"
    using registry_lookup [OF inv s] by blast
  let ?b = "replicate ?n 0 @ drop ?n b"
  have w: "buf_write b 0 (replicate ?n 0) = Some ?b" using b(1) by (simp add: buf_write_def)
  have sl: "sint len = int ?n" using sint_of_nat_u32 [OF b(2)] by simp
  show ?thesis
  proof (cases "registry_map sys s")
    case None
    then show ?thesis
      using g w
      by (intro exI [of _ rec']) (simp add: registry_value_get_def registry_consts got_def)
  next
    case (Some v)
    then have tv: "take (length v) (value_field rec') = v" using g(4) by simp
    have lv: "length v \<le> length (value_field rec')" using tv by (metis length_take min.cobounded2 min.commute nat_le_linear take_all)
    show ?thesis
    proof (cases "v = [] \<or> len = 0")
      case True
      then show ?thesis
        using g w Some
        by (intro exI [of _ rec']) (auto simp: registry_value_get_def registry_consts got_def Let_def)
    next
      case False
      let ?m = "min ?n (length v)"
      have m: "sint len \<le> int (length v) \<longleftrightarrow> ?n \<le> length v" "nat (sint len) = ?n" "\<not> sint len < 0"
        unfolding sl by (rule of_nat_le_iff, rule nat_int, simp)
      have "take ?m (value_field rec') = take ?m v"
        using tv by (metis min.cobounded2 min.absorb1 take_take)
      then have r: "buf_read (value_field rec') 0 ?m = Some (take ?n v)"
        using lv by (simp add: buf_read_def min_def)
      have "buf_write ?b 0 (take ?n v) = Some (got b ?n v)"
        using b(1) by (simp add: buf_write_def got_def min_def)
      then show ?thesis
        using g w Some False m r sl
        by (intro exI [of _ rec'], cases "?n \<le> length v")
           (simp_all add: registry_value_get_def registry_consts Let_def word_less_nat_alt unat_eq_zero)
    qed
  qed
qed

section \<open>Setting and deleting\<close>

text \<open>An operation that keeps to the sectors of the registry leaves the string table alone.\<close>

lemma sectors_reg: "sectors registry_config = {0, 32768}"
  by (simp add: sectors_def registry_config_def storage_defs)

lemma sectors_str: "sectors strtab_config = {65536, 98304}"
  by (simp add: sectors_def strtab_config_def storage_defs)

lemma sector_size_reg [simp]: "unat (c_sector_size registry_config) = 32768"
  by (simp add: registry_config_def storage_defs)

lemma sector_size_str [simp]: "unat (c_sector_size strtab_config) = 32768"
  by (simp add: strtab_config_def storage_defs)

lemma strtab_frame:
  assumes "reg.framed (reg_vol sys) v" "str_vol sys' = \<lparr>dev = dev v, hp = hp v, inst = str_inst sys\<rparr>"
  shows "strtab_vol_inv sys \<Longrightarrow> strtab_vol_inv sys'" "strtab_vol_inv sys \<Longrightarrow> strtab_vol_map sys' = strtab_vol_map sys"
proof -
  assume "strtab_vol_inv sys"
  then have inv: "nvol_inv ram_mem strtab_config (str_vol sys)" by (simp add: strtab_vol_inv_def)
  have "ram_mem (dev v) x = ram_mem (sys_dev sys) x" if "65536 \<le> x" "x < 131071" for x
    using assms(1) that by (simp add: reg.framed_def reg.outside_def sectors_reg)
  then have m: "ram_mem (dev (str_vol sys')) x = ram_mem (dev (str_vol sys)) x"
    if "sec \<in> sectors strtab_config" "unat sec \<le> x" "x < unat sec + (32 + rsz strtab_config * mxr strtab_config)"
    for sec x
    using that by (auto simp: sectors_str assms(2))
  have h: "heap_le (hp (str_vol sys)) (hp (str_vol sys'))" using assms by (simp add: reg.framed_def)
  have i: "inst (str_vol sys') = inst (str_vol sys)" by (simp add: assms(2))
  show "strtab_vol_inv sys'"
    unfolding strtab_vol_inv_def by (rule nvol_inv_frame(1) [OF inv i h]) (rule m)
  show "strtab_vol_map sys' = strtab_vol_map sys"
    unfolding strtab_vol_map_def by (rule nvol_inv_frame(2) [OF inv i h]) (rule m)
qed

lemma key24_update:
  "vol_map ram_mem registry_config v = (vol_map ram_mem registry_config (reg_vol sys))(key24 s := x) \<Longrightarrow>
   registry_map (set_reg_vol v sys') = (\<lambda>t. if key24 t = key24 s then x else registry_map sys t)"
  by (auto simp: registry_map_def fun_eq_iff)

lemma registry_set_ok:
  assumes inv: "registry_inv sys" and s: "0 \<notin> set s"
    and v: "unat len \<le> length val" "unat len \<le> 224"
  shows "\<exists>res sys'. registry_value_set (Some (s @ 0 # r)) (Some val) len sys = Some (res, sys') \<and>
    registry_inv sys' \<and>
    (if 123 \<le> registry_count sys then res = EFAIL \<and> registry_map sys' = registry_map sys
     else res = EOK \<and>
       registry_map sys' = (\<lambda>t. if key24 t = key24 s then Some (take (unat len) val) else registry_map sys t)) \<and>
    (strtab_vol_inv sys \<longrightarrow> strtab_vol_inv sys' \<and> strtab_vol_map sys' = strtab_vol_map sys)"
proof -
  let ?n = "unat len" and ?v = "take (unat len) val"
  have ni: "nvol_inv ram_mem registry_config (reg_vol sys)" and pl: "plenty (hp (reg_vol sys))"
    and rb: "rec_buf registry_config (registry_value sys)" using inv by (simp_all add: registry_inv_def)
  obtain rec where rec: "setkey (registry_value sys) (s @ 0 # r) = Some rec" "rec_buf registry_config rec"
    "key_and_data rec = key24 s @ drop 24 (key_and_data (registry_value sys))"
    using setkey_ok [OF rb s] by blast
  have kl: "length (key_and_data rec) = 248" using rec(2) by (simp add: rec_buf_def)
  let ?kd = "key24 s @ ?v @ drop (24 + ?n) (key_and_data rec)"
  let ?rec = "rec\<lparr>key_and_data := ?kd\<rparr>"
  have rd: "buf_read val 0 ?n = Some ?v" using v by (simp add: buf_read_def)
  have wr: "buf_write (key_and_data rec) 24 ?v = Some ?kd"
    using v kl rec(3) by (simp add: buf_write_def min_def)
  have rb': "rec_buf registry_config ?rec" using v kl by (simp add: rec_buf_def)
  have un: "unat (len + 24) = ?n + 24" using v(2) by (subst unat_add_lt) simp_all
  have kv: "key24 s @ ?v = take (unat (len + 24)) (key_and_data ?rec)"
    using v by (simp add: un min_def)
  have le: "\<not> of_nat REGISTRY_VALUE_LENGT_MAX < len"
    using v(2) by (simp add: word_less_nat_alt registry_consts)
  obtain res rec' s' where st: "nvol3_record_set registry_config ?rec (len + 24) (reg_vol sys) = Some (res, rec', s')"
    "nvol_inv ram_mem registry_config s'" "plenty (hp s')" "key_and_data rec' = ?kd"
    "if 127 \<le> card (dom (vol_map ram_mem registry_config (reg_vol sys))) + 4
     then res = EFAIL \<and> vol_map ram_mem registry_config s' = vol_map ram_mem registry_config (reg_vol sys)
     else res = EOK \<and> vol_map ram_mem registry_config s' =
       (vol_map ram_mem registry_config (reg_vol sys))(key24 s \<mapsto> ?v)"
    using reg.volume_set_ok [OF ni pl rb' _ _ reg_cb kv] un v(2) by auto
  let ?sys = "set_reg_vol s' (sys\<lparr>registry_value := rec'\<rparr>)"
  have run: "registry_value_set (Some (s @ 0 # r)) (Some val) len sys = Some (res, ?sys)"
    using rec(1) rd wr st(1) le by (simp add: registry_value_set_def REGISTRY_KEY_LENGTH_def)
  have "registry_inv ?sys"
    using st rb' by (simp add: registry_inv_def rec_buf_def)
  moreover have "reg.framed (reg_vol sys) s'"
    by (rule reg.kept_framed [OF reg.nvol3_record_set_kept [OF st(1) nvol_inv_D(1) [OF ni]]])
  then have "strtab_vol_inv sys \<longrightarrow> strtab_vol_inv ?sys \<and> strtab_vol_map ?sys = strtab_vol_map sys"
    using strtab_frame [of sys s' ?sys] by (simp add: str_vol_def set_reg_vol_def)
  moreover have "if 123 \<le> registry_count sys then res = EFAIL \<and> registry_map ?sys = registry_map sys
     else res = EOK \<and>
       registry_map ?sys = (\<lambda>t. if key24 t = key24 s then Some ?v else registry_map sys t)"
    using st(5) key24_update [of s' sys s "Some ?v"]
    by (auto simp: registry_count_def registry_map_def split: if_splits)
  ultimately show ?thesis using run by blast
qed

lemma registry_delete_ok:
  assumes inv: "registry_inv sys" and s: "0 \<notin> set s"
  shows "\<exists>sys'. registry_value_delete (Some (s @ 0 # r)) sys =
      Some (if registry_map sys s = None then E_NOTFOUND else EOK, sys') \<and> registry_inv sys' \<and>
    registry_map sys' = (\<lambda>t. if key24 t = key24 s then None else registry_map sys t) \<and>
    (strtab_vol_inv sys \<longrightarrow> strtab_vol_inv sys' \<and> strtab_vol_map sys' = strtab_vol_map sys)"
proof -
  have ni: "nvol_inv ram_mem registry_config (reg_vol sys)" and pl: "plenty (hp (reg_vol sys))"
    and rb: "rec_buf registry_config (registry_value sys)" using inv by (simp_all add: registry_inv_def)
  obtain rec where rec: "setkey (registry_value sys) (s @ 0 # r) = Some rec" "rec_buf registry_config rec"
    "key_and_data rec = key24 s @ drop 24 (key_and_data (registry_value sys))"
    using setkey_ok [OF rb s] by blast
  then have k: "key24 s = take (ksz registry_config) (key_and_data rec)" by simp
  obtain s' where st: "nvol3_record_delete registry_config rec (reg_vol sys) =
      Some (if registry_map sys s = None then E_NOTFOUND else EOK, rec\<lparr>head := zero_head\<rparr>, s')"
    "nvol_inv ram_mem registry_config s'" "hp s' = sys_heap sys"
    "vol_map ram_mem registry_config s' = (vol_map ram_mem registry_config (reg_vol sys))(key24 s := None)"
    using reg.delete_ok [OF ni rec(2) k] by (auto simp: registry_map_def)
  let ?sys = "set_reg_vol s' (sys\<lparr>registry_value := rec\<lparr>head := zero_head\<rparr>\<rparr>)"
  have run: "registry_value_delete (Some (s @ 0 # r)) sys =
      Some (if registry_map sys s = None then E_NOTFOUND else EOK, ?sys)"
    using rec(1) st(1) by (simp add: registry_value_delete_def)
  have "registry_inv ?sys"
    using st rec(2) pl by (simp add: registry_inv_def rec_buf_def)
  moreover have "reg.framed (reg_vol sys) s'"
    by (rule reg.kept_framed [OF reg.nvol3_record_delete_kept [OF st(1) nvol_inv_D(1) [OF ni]]])
  then have "strtab_vol_inv sys \<longrightarrow> strtab_vol_inv ?sys \<and> strtab_vol_map ?sys = strtab_vol_map sys"
    using strtab_frame [of sys s' ?sys] by (simp add: str_vol_def set_reg_vol_def)
  ultimately show ?thesis using run key24_update [OF st(4)] by blast
qed

section \<open>Valid and length\<close>

lemma registry_valid_ok:
  assumes "registry_inv sys" "0 \<notin> set s"
  shows "\<exists>rec. registry_value_valid (Some (s @ 0 # r)) sys =
      Some (registry_map sys s \<notin> {None, Some []}, sys\<lparr>registry_value := rec\<rparr>) \<and>
    rec_buf registry_config rec"
  using registry_lookup [OF assms, of r]
  by (auto simp: registry_value_valid_def registry_consts split: option.splits)

lemma registry_length_ok:
  assumes inv: "registry_inv sys" and s: "0 \<notin> set s"
  shows "\<exists>rec. registry_value_length (Some (s @ 0 # r)) sys =
      Some (case registry_map sys s of None \<Rightarrow> EFAIL | Some v \<Rightarrow> int (length v),
            sys\<lparr>registry_value := rec\<rparr>) \<and> rec_buf registry_config rec"
proof -
  have ni: "nvol_inv ram_mem registry_config (reg_vol sys)"
    and rb: "rec_buf registry_config (registry_value sys)" using inv by (simp_all add: registry_inv_def)
  obtain rec where rec: "setkey (registry_value sys) (s @ 0 # r) = Some rec" "rec_buf registry_config rec"
    "key_and_data rec = key24 s @ drop 24 (key_and_data (registry_value sys))"
    using setkey_ok [OF rb s] by blast
  have "ksz registry_config \<le> length (key_and_data rec)" using rec(2) by (simp add: rec_buf_def)
  from reg.length_ok [OF ni this] rec show ?thesis
    by (auto simp: registry_value_length_def registry_consts registry_map_def split: option.splits)
qed

section \<open>Starting and stopping\<close>

text \<open>The lists that the modules link their nodes into.\<close>

definition linked :: "system \<Rightarrow> nat list list \<Rightarrow> nat list \<Rightarrow> bool" where
  "linked sys hs cs \<longleftrightarrow> strsub_lists (sys_strsub sys) hs \<and> installed (sys_shell sys) cs"

lemma word_tokens [simp]: "is_word StrsubToken1" "is_word StrsubToken2" "is_word StrsubToken3"
  by (simp_all add: is_word_def)

lemma registry_install:
  assumes "linked sys hs cs" "\<And>k. k < 3 \<Longrightarrow> registry_handler \<notin> set (hs ! k)" "registry_cmds \<notin> set cs"
  shows "\<exists>ss sh. strsub_install_handler StrsubToken1 registry_handler Registry_strsub_cb (sys_strsub sys) = (True, ss) \<and>
    corshell_install registry_cmds (sys_shell sys) = Some sh \<and>
    strsub_lists ss (hs[0 := registry_handler # hs ! 0]) \<and> installed sh (cs @ [registry_cmds]) \<and>
    handler_of ss = (handler_of (sys_strsub sys))(registry_handler := Registry_strsub_cb)"
  using install_lists [of "sys_strsub sys" hs StrsubToken1 registry_handler Registry_strsub_cb]
    install_ok [of "sys_shell sys" cs registry_cmds] assms
  by (auto simp: linked_def registry_cmds_def corshell_static_list_def)

lemma registry_start_with:
  assumes lk: "linked sys hs cs" "\<And>k. k < 3 \<Longrightarrow> registry_handler \<notin> set (hs ! k)" "registry_cmds \<notin> set cs"
    and v: "(do { valid \<leftarrow> nvol3_validate registry_config (reg_vol sys);
              if valid \<noteq> EOK then nvol3_reset registry_config (reg_vol sys)
              else nvol3_load registry_config (reg_vol sys) }) = Some (res, v)"
    and inv: "nvol_inv ram_mem registry_config v" "plenty (hp v)" "rec_buf registry_config (registry_value sys)"
  shows "\<exists>sys'. registry_start sys = Some (res, sys') \<and> registry_inv sys' \<and> reg_vol sys' = v \<and>
    linked sys' (hs[0 := registry_handler # hs ! 0]) (cs @ [registry_cmds]) \<and>
    handler_of (sys_strsub sys') = (handler_of (sys_strsub sys))(registry_handler := Registry_strsub_cb) \<and>
    (strtab_vol_inv sys \<longrightarrow> strtab_vol_inv sys' \<and> strtab_vol_map sys' = strtab_vol_map sys)"
proof -
  obtain ss sh where i: "strsub_install_handler StrsubToken1 registry_handler Registry_strsub_cb (sys_strsub sys) = (True, ss)"
    "corshell_install registry_cmds (sys_shell sys) = Some sh"
    "strsub_lists ss (hs[0 := registry_handler # hs ! 0])" "installed sh (cs @ [registry_cmds])"
    "handler_of ss = (handler_of (sys_strsub sys))(registry_handler := Registry_strsub_cb)"
    using registry_install [OF lk] by blast
  let ?sys = "(set_reg_vol v sys)\<lparr>sys_strsub := ss, sys_shell := sh\<rparr>"
  obtain valid where va: "nvol3_validate registry_config (reg_vol sys) = Some valid"
    "(if valid \<noteq> EOK then nvol3_reset registry_config (reg_vol sys)
      else nvol3_load registry_config (reg_vol sys)) = Some (res, v)"
    using v by (cases "nvol3_validate registry_config (reg_vol sys)") simp_all
  have run: "registry_start sys = Some (res, ?sys)"
    unfolding registry_start_def va(1) bind.bind_lunit va(2) by (simp add: i(1,2))
  have rv: "reg_vol ?sys = v" by (simp add: reg_vol_def set_reg_vol_def)
  have "registry_inv ?sys"
    using inv by (simp add: registry_inv_def rv)
  moreover have "reg.framed (reg_vol sys) v"
    using va(2) reg.reset_framed reg.load_framed by (cases "valid = EOK") simp_all
  then have "strtab_vol_inv sys \<longrightarrow> strtab_vol_inv ?sys \<and> strtab_vol_map ?sys = strtab_vol_map sys"
    using strtab_frame [of sys v ?sys] by (simp add: str_vol_def)
  ultimately show ?thesis using run rv i(3-5) by (auto simp: linked_def)
qed

text \<open>A valid device is loaded: what the registry held before is there again.\<close>

lemma registry_restart:
  assumes lk: "linked sys hs cs" "\<And>k. k < 3 \<Longrightarrow> registry_handler \<notin> set (hs ! k)" "registry_cmds \<notin> set cs"
    and old: "registry_inv old" "sys_dev sys = sys_dev old"
    and new: "plenty (sys_heap sys)" "rec_buf registry_config (registry_value sys)"
  shows "\<exists>sys'. registry_start sys = Some (EOK, sys') \<and> registry_inv sys' \<and>
    registry_map sys' = registry_map old \<and>
    linked sys' (hs[0 := registry_handler # hs ! 0]) (cs @ [registry_cmds]) \<and>
    handler_of (sys_strsub sys') = (handler_of (sys_strsub sys))(registry_handler := Registry_strsub_cb) \<and>
    (strtab_vol_inv sys \<longrightarrow> strtab_vol_inv sys' \<and> strtab_vol_map sys' = strtab_vol_map sys)"
proof -
  have inv: "nvol_inv ram_mem registry_config (reg_vol old)" using old(1) by (simp add: registry_inv_def)
  have d: "dev (reg_vol sys) = dev (reg_vol old)" "plenty (hp (reg_vol sys))" using old(2) new by simp_all
  obtain v where v: "nvol3_load registry_config (reg_vol sys) = Some (EOK, v)"
    "nvol_inv ram_mem registry_config v" "plenty (hp v)"
    "vol_map ram_mem registry_config v = vol_map ram_mem registry_config (reg_vol old)"
    using reg.reload_ok [OF inv d] by blast
  have "(do { valid \<leftarrow> nvol3_validate registry_config (reg_vol sys);
              if valid \<noteq> EOK then nvol3_reset registry_config (reg_vol sys)
              else nvol3_load registry_config (reg_vol sys) }) = Some (EOK, v)"
    using reg.validate_ok [OF inv d(1)] v(1) by simp
  from registry_start_with [OF lk this v(2,3) new(2)] v(4) show ?thesis
    by (auto simp: registry_map_def fun_eq_iff)
qed

text \<open>A device without a valid registry is formatted.\<close>

lemma registry_format:
  assumes lk: "linked sys hs cs" "\<And>k. k < 3 \<Longrightarrow> registry_handler \<notin> set (hs ! k)" "registry_cmds \<notin> set cs"
    and bad: "nvol3_validate registry_config (reg_vol sys) \<noteq> Some EOK"
    and new: "plenty (sys_heap sys)" "rec_buf registry_config (registry_value sys)"
  shows "\<exists>sys'. registry_start sys = Some (EOK, sys') \<and> registry_inv sys' \<and>
    registry_map sys' = (\<lambda>s. None) \<and>
    linked sys' (hs[0 := registry_handler # hs ! 0]) (cs @ [registry_cmds]) \<and>
    handler_of (sys_strsub sys') = (handler_of (sys_strsub sys))(registry_handler := Registry_strsub_cb) \<and>
    (strtab_vol_inv sys \<longrightarrow> strtab_vol_inv sys' \<and> strtab_vol_map sys' = strtab_vol_map sys)"
proof -
  obtain v where v: "nvol3_reset registry_config (reg_vol sys) = Some (EOK, v)"
    "nvol_inv ram_mem registry_config v" "plenty (hp v)" "vol_map ram_mem registry_config v = Map.empty"
    using reg.reset_ok [of "reg_vol sys"] new(1) by auto
  have "(do { valid \<leftarrow> nvol3_validate registry_config (reg_vol sys);
              if valid \<noteq> EOK then nvol3_reset registry_config (reg_vol sys)
              else nvol3_load registry_config (reg_vol sys) }) = Some (EOK, v)"
    using bad v(1) by (simp add: reg.validate_result Let_def split: if_splits)
  from registry_start_with [OF lk this v(2,3) new(2)] v(4) show ?thesis
    by (auto simp: registry_map_def fun_eq_iff)
qed

lemma registry_stop_ok:
  assumes "linked sys hs cs"
  shows "\<exists>sys'. registry_stop sys = Some (EOK, sys') \<and>
    linked sys' (hs[0 := remove1 registry_handler (hs ! 0)]) (remove1 registry_cmds cs) \<and>
    handler_of (sys_strsub sys') = handler_of (sys_strsub sys) \<and>
    i_dict (reg_inst sys') = None \<and> sys_dev sys' = sys_dev sys \<and> sys_heap sys' = sys_heap sys"
  using uninstall_lists [of "sys_strsub sys" hs StrsubToken1 registry_handler]
    uninstall_ok [of "sys_shell sys" cs registry_cmds] assms
  by (auto simp: linked_def registry_stop_def registry_cmds_def corshell_static_list_def
      nvol3_unload_def drop_dict_def)

end
