(* ===== verification/Strtab.thy ===== *)
theory Strtab
  imports System_State
begin

text \<open>
  The string table, \<^verbatim>\<open>src/registry/strtab.c\<close>: strings of up to 500 bytes under 16-bit numbers, in
  the volume \<open>strtab_config\<close>.  A string parameter is \<open>None\<close> for a null pointer, else the bytes
  readable through the pointer; an output buffer is returned.  The static buffer
  \<^verbatim>\<open>_strtab_buffer\<close> keeps what the last call left in it.
\<close>

unbundle bit_operations_syntax

section \<open>Operations\<close>

definition STRTAB_KEY_LEN :: int where "STRTAB_KEY_LEN = 4"

definition STRTAB_IS_LOADED :: "system \<Rightarrow> bool" where
  "STRTAB_IS_LOADED sys \<longleftrightarrow> i_dict (str_inst sys) \<noteq> None"

text \<open>\<^verbatim>\<open>_strtab_buffer.key = key\<close>, and the field \<^verbatim>\<open>value\<close>.\<close>

definition strtab_setkey :: "nvol_record \<Rightarrow> u32 \<Rightarrow> nvol_record option" where
  "strtab_setkey entry key =
     do { kd \<leftarrow> buf_write (key_and_data entry) 0 (le32 key);
          Some (entry\<lparr>key_and_data := kd\<rparr>) }"

definition strtab_value_field :: "nvol_record \<Rightarrow> u8 list" where
  "strtab_value_field entry = drop 4 (key_and_data entry)"

definition strtab_init :: "system \<Rightarrow> status \<times> system" where
  "strtab_init sys =
     (let (_, ss) = strsub_install_handler StrsubToken3 strtab_handler Strtab_strsub_cb (sys_strsub sys)
      in (EOK, sys\<lparr>sys_strsub := ss\<rparr>))"

definition strtab_start :: "system \<Rightarrow> (status \<times> system) option" where
  "strtab_start sys =
     do { valid \<leftarrow> nvol3_validate strtab_config (str_vol sys);
          v \<leftarrow> (if valid \<noteq> EOK
                then map_option snd (nvol3_reset strtab_config (str_vol sys))
                else Some (str_vol sys));
          (status, v) \<leftarrow> nvol3_load strtab_config v;
          let sys = set_str_vol v sys;
          sh \<leftarrow> corshell_install strtab_cmds (sys_shell sys);
          Some (status, sys\<lparr>sys_shell := sh\<rparr>) }"

text \<open>\<^verbatim>\<open>DBG_CHECKV_T\<close> returns only when the code is compiled with \<^verbatim>\<open>NDEBUG\<close>.\<close>

definition strtab_stop :: "bool \<Rightarrow> system \<Rightarrow> system option" where
  "strtab_stop ndebug sys =
     (if \<not> STRTAB_IS_LOADED sys \<and> ndebug then Some sys
      else do { sh \<leftarrow> corshell_uninstall strtab_cmds (sys_shell sys);
                Some (set_str_vol (nvol3_unload (str_vol sys)) (sys\<lparr>sys_shell := sh\<rparr>)) })"

definition strtab_erase :: "system \<Rightarrow> (status \<times> system) option" where
  "strtab_erase sys =
     (if \<not> STRTAB_IS_LOADED sys then Some (E_UNEXP, sys)
      else do { (status, v) \<leftarrow> nvol3_reset strtab_config (str_vol sys);
                Some (status, set_str_vol v sys) })"

text \<open>The next two functions pass the address of the 16-bit parameter as the key.\<close>

definition strtab_valid :: "u16 \<Rightarrow> system \<Rightarrow> status option" where
  "strtab_valid key sys =
     (if \<not> STRTAB_IS_LOADED sys then Some E_UNEXP
      else nvol3_record_status (le16 key) (str_vol sys))"

definition strtab_length :: "u16 \<Rightarrow> system \<Rightarrow> status option" where
  "strtab_length key sys =
     (if \<not> STRTAB_IS_LOADED sys then Some E_UNEXP
      else do {
        res \<leftarrow> nvol3_record_key_and_data_length strtab_config (le16 key) (str_vol sys);
        Some (if res > STRTAB_KEY_LEN then res - STRTAB_KEY_LEN
              else if res > 0 then 0 else res) })"

text \<open>\<^verbatim>\<open>strncpy (value, _strtab_buffer.value, length)\<close>; a negative length becomes a huge one.\<close>

definition strtab_copy :: "u8 list option \<Rightarrow> nvol_record \<Rightarrow> int \<Rightarrow> u8 list option" where
  "strtab_copy val rec len =
     do { b \<leftarrow> val;
          if len < 0 then None
          else do { bs \<leftarrow> strncpy (strtab_value_field rec) (nat len); buf_write b 0 bs } }"

definition strtab_get ::
  "u16 \<Rightarrow> u8 list option \<Rightarrow> int \<Rightarrow> system \<Rightarrow> (status \<times> u8 list option \<times> system) option" where
  "strtab_get key val len sys =
     (if \<not> STRTAB_IS_LOADED sys then Some (E_UNEXP, val, sys)
      else if val = None then Some (E_PARM, val, sys)
      else do {
        rec \<leftarrow> strtab_setkey (strtab_buffer sys) (ucast key);
        (res, rec) \<leftarrow> nvol3_record_get strtab_config rec (str_vol sys);
        let sys = sys\<lparr>strtab_buffer := rec\<rparr>;
        if res > STRTAB_KEY_LEN
        then (let res = res - STRTAB_KEY_LEN; len = (if res < len then res else len) in
              do { b \<leftarrow> strtab_copy val rec len; Some (res, Some b, sys) })
        else Some (if res \<ge> 0 then E_INVAL else res, val, sys) })"

definition strtab_set :: "u16 \<Rightarrow> u8 list option \<Rightarrow> int \<Rightarrow> system \<Rightarrow> (status \<times> system) option" where
  "strtab_set key val len sys =
     (if \<not> STRTAB_IS_LOADED sys then Some (E_UNEXP, sys)
      else if len > int STRTAB_LENGT_MAX then Some (E_PARM, sys)
      else do {
        rec \<leftarrow> strtab_setkey (strtab_buffer sys) (ucast key);
        val \<leftarrow> val;
        bs \<leftarrow> (if len < 0 then None else strncpy val (nat len));
        kd \<leftarrow> buf_write (key_and_data rec) 4 bs;
        (res, rec, v) \<leftarrow> nvol3_record_set strtab_config (rec\<lparr>key_and_data := kd\<rparr>)
                           (word_of_int (len + STRTAB_KEY_LEN)) (str_vol sys);
        Some (res, set_str_vol v (sys\<lparr>strtab_buffer := rec\<rparr>)) })"

section \<open>Iteration\<close>

definition strtab_cmp :: "u8 list \<Rightarrow> u8 list \<Rightarrow> int option" where
  "strtab_cmp first second =
     (if length first < 2 \<or> length second < 2 then None
      else Some (int (unat (rd16 first)) - int (unat (rd16 second))))"

text \<open>What \<^verbatim>\<open>strtab_first\<close> and \<^verbatim>\<open>strtab_next\<close> do with the record the iterator yields.\<close>

definition strtab_yield ::
  "int \<Rightarrow> u8 list option \<Rightarrow> int \<Rightarrow> system \<Rightarrow> (status \<times> u16 option \<times> u8 list option \<times> system) option" where
  "strtab_yield res val len sys =
     (if res > STRTAB_KEY_LEN
      then (let res = res - STRTAB_KEY_LEN; len = (if res < len then res else len) in
            do { b \<leftarrow> strtab_copy val (strtab_buffer sys) len;
                 d \<leftarrow> loaded_dict (str_vol sys);
                 np \<leftarrow> it_node (strtab_it sys) (str_vol sys);
                 k \<leftarrow> buf_read (dictionary_get_key d np) 0 2;
                 Some (res, Some (rd16 k), Some b, sys) })
      else Some (res, None, val, sys))"

definition strtab_first ::
  "u8 list option \<Rightarrow> int \<Rightarrow> system \<Rightarrow> (status \<times> u16 option \<times> u8 list option \<times> system) option" where
  "strtab_first val len sys =
     (if \<not> STRTAB_IS_LOADED sys then Some (E_UNEXP, None, val, sys)
      else do {
        (res, rec, it) \<leftarrow> nvol3_record_first strtab_config (strtab_buffer sys) (Some strtab_cmp)
                            (str_vol sys);
        strtab_yield res val len (sys\<lparr>strtab_buffer := rec, strtab_it := it\<rparr>) })"

definition strtab_next ::
  "u8 list option \<Rightarrow> int \<Rightarrow> system \<Rightarrow> (status \<times> u16 option \<times> u8 list option \<times> system) option" where
  "strtab_next val len sys =
     (if \<not> STRTAB_IS_LOADED sys then Some (E_UNEXP, None, val, sys)
      else do {
        (res, rec, it) \<leftarrow> nvol3_record_next strtab_config (strtab_buffer sys) (strtab_it sys)
                            (str_vol sys);
        strtab_yield res val len (sys\<lparr>strtab_buffer := rec, strtab_it := it\<rparr>) })"

definition strtab_log_status :: "system \<Rightarrow> (u32 \<times> hash_stats) option option" where
  "strtab_log_status sys =
     (if STRTAB_IS_LOADED sys then nvol3_entry_log_status strtab_config 1 (str_vol sys) else Some None)"

section \<open>The handler for string substitution\<close>

definition strtab_strsub_cb :: "('t \<times> system) lookup_cb" where
  "strtab_strsub_cb cb str len offset s =
     (case s of (arg, sys) \<Rightarrow>
      do { (n, key) \<leftarrow> scan_uint str;
           rec \<leftarrow> (case key of None \<Rightarrow> Some (strtab_buffer sys)
                             | Some k \<Rightarrow> strtab_setkey (strtab_buffer sys) k);
           if n = 0 then Some (E_INVAL, (arg, sys))
           else do {
             (res, rec) \<leftarrow> nvol3_record_get strtab_config rec (str_vol sys);
             let sys = sys\<lparr>strtab_buffer := rec\<rparr>;
             if res > STRTAB_KEY_LEN
             then cb (strtab_value_field rec) (word_of_int (res - STRTAB_KEY_LEN)) offset (arg, sys)
             else Some (if res \<ge> 0 then E_INVAL else res, (arg, sys)) } })"

end
