(* ===== verification/Strtab_Spec.thy ===== *)
theory Strtab_Spec
  imports Registry_Spec Strtab
begin

text \<open>
  The string table as a map from numbers to byte strings, on every branch of its operations, and
  the converse of the independence shown for the registry: operations of the string table leave
  the registry alone.
\<close>

unbundle bit_operations_syntax

section \<open>Map and invariant\<close>

definition strtab_map :: "system \<Rightarrow> u32 \<Rightarrow> u8 list option" where
  "strtab_map sys n = strtab_vol_map sys (le32 n)"

definition strtab_count :: "system \<Rightarrow> nat" where
  "strtab_count sys = card (dom (strtab_vol_map sys))"

definition strtab_inv :: "system \<Rightarrow> bool" where
  "strtab_inv sys \<longleftrightarrow>
     strtab_vol_inv sys \<and> plenty (sys_heap sys) \<and> rec_buf strtab_config (strtab_buffer sys)"

definition registry_vol_inv :: "system \<Rightarrow> bool" where
  "registry_vol_inv sys \<longleftrightarrow> nvol_inv ram_mem registry_config (reg_vol sys)"

text \<open>What a copy of \<open>n\<close> bytes of a string delivers: nothing after a terminator.\<close>

definition upto_nul :: "nat \<Rightarrow> u8 list \<Rightarrow> u8 list" where
  "upto_nul n v =
     (let s = takeWhile (\<lambda>c. c \<noteq> 0) (take n v) in s @ replicate (n - length s) 0)"

lemma upto_nul_text: "0 \<notin> set v \<Longrightarrow> n \<le> length v \<Longrightarrow> upto_nul n v = take n v"
proof -
  assume "0 \<notin> set v" "n \<le> length v"
  then have "0 \<notin> set (take n v)" by (meson in_set_takeD)
  then show ?thesis using \<open>n \<le> length v\<close> by (simp add: upto_nul_def takeWhile_no_NUL)
qed

lemma upto_nul_take: "upto_nul n (take n v) = upto_nul n v"
  by (simp add: upto_nul_def)

lemma strncpy_upto_nul: "n \<le> length src \<Longrightarrow> strncpy src n = Some (upto_nul n src)"
  by (auto simp: strncpy_def upto_nul_def Let_def)

lemma length_upto_nul [simp]: "length (upto_nul n v) = n"
proof -
  have "length (takeWhile (\<lambda>c. c \<noteq> 0) (take n v)) \<le> n"
    by (rule order.trans [OF length_takeWhile_le]) simp
  then show ?thesis by (simp add: upto_nul_def Let_def)
qed

lemma le32_inject [simp]: "le32 a = le32 b \<longleftrightarrow> a = b"
  by (metis rd32_le32_Nil)

lemma STRTAB_KEY_LEN_4 [simp]: "STRTAB_KEY_LEN = 4"
  by (simp add: STRTAB_KEY_LEN_def)

lemma strtab_setkey_ok:
  assumes "rec_buf strtab_config rec"
  shows "\<exists>rec'. strtab_setkey rec key = Some rec' \<and> rec_buf strtab_config rec' \<and>
    key_and_data rec' = le32 key @ drop 4 (key_and_data rec)"
  using assms by (simp add: strtab_setkey_def buf_write_def rec_buf_def)

lemma strtab_loaded: "strtab_vol_inv sys \<Longrightarrow> STRTAB_IS_LOADED sys"
  unfolding strtab_vol_inv_def
  by (drule nvol_inv_D(3), erule table_is_loaded) (simp add: STRTAB_IS_LOADED_def)

lemma strtab_map_buffer [simp]:
  "strtab_map (sys\<lparr>strtab_buffer := rec\<rparr>) = strtab_map sys"
  "str_vol (sys\<lparr>strtab_buffer := rec\<rparr>) = str_vol sys" "reg_vol (sys\<lparr>strtab_buffer := rec\<rparr>) = reg_vol sys"
  "strtab_vol_inv (sys\<lparr>strtab_buffer := rec\<rparr>) = strtab_vol_inv sys"
  by (simp_all add: strtab_map_def strtab_vol_map_def str_vol_def reg_vol_def strtab_vol_inv_def fun_eq_iff)

section \<open>Getting\<close>

lemma strtab_lookup:
  assumes inv: "strtab_vol_inv sys" and rb: "rec_buf strtab_config (strtab_buffer sys)"
  shows "\<exists>rec rec'. strtab_setkey (strtab_buffer sys) n = Some rec \<and>
    nvol3_record_get strtab_config rec (str_vol sys) =
      Some (case strtab_map sys n of None \<Rightarrow> E_NOTFOUND | Some v \<Rightarrow> int (4 + length v), rec') \<and>
    rec_buf strtab_config rec' \<and>
    (\<forall>v. strtab_map sys n = Some v \<longrightarrow> take (length v) (strtab_value_field rec') = v)"
proof -
  have ni: "nvol_inv ram_mem strtab_config (str_vol sys)" using inv by (simp add: strtab_vol_inv_def)
  obtain rec where rec: "strtab_setkey (strtab_buffer sys) n = Some rec" "rec_buf strtab_config rec"
    "key_and_data rec = le32 n @ drop 4 (key_and_data (strtab_buffer sys))"
    using strtab_setkey_ok [OF rb] by blast
  then have k: "take (ksz strtab_config) (key_and_data rec) = le32 n" by simp
  show ?thesis
  proof (cases "strtab_map sys n")
    case None
    then have "vol_map ram_mem strtab_config (str_vol sys) (take (ksz strtab_config) (key_and_data rec)) = None"
      unfolding k by (simp add: strtab_map_def strtab_vol_map_def)
    from str.get_absent [OF ni rec(2) this] rec None show ?thesis by (simp add: rec_buf_def)
  next
    case (Some v)
    then have "vol_map ram_mem strtab_config (str_vol sys) (le32 n) = Some v"
      by (simp add: strtab_map_def strtab_vol_map_def)
    from str.get_present [OF ni rec(2) k [symmetric] this]
    obtain rec' where g: "nvol3_record_get strtab_config rec (str_vol sys) = Some (int (4 + length v), rec')"
      "rec_buf strtab_config rec'" "take (4 + length v) (key_and_data rec') = le32 n @ v"
      by auto
    have "take (length v) (strtab_value_field rec') = drop 4 (take (4 + length v) (key_and_data rec'))"
      by (simp add: strtab_value_field_def drop_take)
    then have "take (length v) (strtab_value_field rec') = v" by (simp add: g(3))
    with g rec Some show ?thesis by simp
  qed
qed

text \<open>
  A get of a stored string: the length of the string is returned even when fewer bytes were asked
  for; the copy stops at a terminator inside the string.
\<close>

lemma strtab_get_ok:
  assumes inv: "strtab_inv sys" and b: "0 \<le> len" "min (nat len) 500 \<le> length b"
  shows "\<exists>rec. strtab_get key (Some b) len sys =
      Some (case strtab_map sys (ucast key) of
              None \<Rightarrow> (E_NOTFOUND, Some b, sys\<lparr>strtab_buffer := rec\<rparr>)
            | Some v \<Rightarrow>
                if v = [] then (E_INVAL, Some b, sys\<lparr>strtab_buffer := rec\<rparr>)
                else (int (length v),
                      Some (upto_nul (min (nat len) (length v)) v @ drop (min (nat len) (length v)) b),
                      sys\<lparr>strtab_buffer := rec\<rparr>)) \<and>
    rec_buf strtab_config rec"
proof -
  have vi: "strtab_vol_inv sys" and rb: "rec_buf strtab_config (strtab_buffer sys)"
    using inv by (simp_all add: strtab_inv_def)
  obtain rec rec' where g: "strtab_setkey (strtab_buffer sys) (ucast key) = Some rec"
    "nvol3_record_get strtab_config rec (str_vol sys) =
      Some (case strtab_map sys (ucast key) of None \<Rightarrow> E_NOTFOUND | Some v \<Rightarrow> int (4 + length v), rec')"
    "rec_buf strtab_config rec'"
    "\<forall>v. strtab_map sys (ucast key) = Some v \<longrightarrow> take (length v) (strtab_value_field rec') = v"
    using strtab_lookup [OF vi rb] by blast
  show ?thesis
  proof (cases "strtab_map sys (ucast key)")
    case None
    then show ?thesis using g strtab_loaded [OF vi] by (intro exI [of _ rec']) (simp add: strtab_get_def)
  next
    case (Some v)
    show ?thesis
    proof (cases "v = []")
      case True
      then show ?thesis
        using g Some strtab_loaded [OF vi] by (intro exI [of _ rec']) (simp add: strtab_get_def)
    next
      case False
      let ?m = "min (nat len) (length v)"
      have tv: "take (length v) (strtab_value_field rec') = v" using g(4) Some by simp
      have fl: "length (strtab_value_field rec') = 500"
        using g(3) by (simp add: strtab_value_field_def rec_buf_def)
      then have lv: "length v \<le> 500" using tv by (metis length_take min.cobounded1)
      have m: "nat (if int (length v) < len then int (length v) else len) = ?m"
        "\<not> (if int (length v) < len then int (length v) else len) < 0"
        using b(1) by auto
      have "take ?m (strtab_value_field rec') = take ?m v"
        using tv by (metis min.cobounded2 min.absorb1 take_take)
      then have "upto_nul ?m (strtab_value_field rec') = upto_nul ?m v"
        by (simp add: upto_nul_def)
      then have "strncpy (strtab_value_field rec') ?m = Some (upto_nul ?m v)"
        using fl lv by (simp add: strncpy_upto_nul)
      moreover have "buf_write b 0 (upto_nul ?m v) = Some (upto_nul ?m v @ drop ?m b)"
        using b lv by (simp add: buf_write_def min_def split: if_splits)
      ultimately have "strtab_copy (Some b) rec' (if int (length v) < len then int (length v) else len) =
          Some (upto_nul ?m v @ drop ?m b)"
        using m by (simp only: strtab_copy_def) simp
      then show ?thesis
        using g Some False strtab_loaded [OF vi]
        by (intro exI [of _ rec']) (simp add: strtab_get_def Let_def)
    qed
  qed
qed

section \<open>Setting\<close>

lemma registry_frame:
  assumes "str.framed (str_vol sys) v" "reg_vol sys' = \<lparr>dev = dev v, hp = hp v, inst = reg_inst sys\<rparr>"
    "registry_vol_inv sys"
  shows "registry_vol_inv sys'" "registry_map sys' = registry_map sys"
proof -
  have inv: "nvol_inv ram_mem registry_config (reg_vol sys)" using assms(3) by (simp add: registry_vol_inv_def)
  have "ram_mem (dev v) x = ram_mem (sys_dev sys) x" if "x < 65536" for x
    using assms(1) that by (simp add: str.framed_def str.outside_def sectors_str)
  then have m: "ram_mem (dev (reg_vol sys')) x = ram_mem (dev (reg_vol sys)) x"
    if "sec \<in> sectors registry_config" "unat sec \<le> x" "x < unat sec + (32 + rsz registry_config * mxr registry_config)"
    for sec x
    using that by (auto simp: sectors_reg assms(2))
  have h: "heap_le (hp (reg_vol sys)) (hp (reg_vol sys'))" using assms by (simp add: str.framed_def)
  have i: "inst (reg_vol sys') = inst (reg_vol sys)" by (simp add: assms(2))
  show "registry_vol_inv sys'"
    unfolding registry_vol_inv_def by (rule nvol_inv_frame(1) [OF inv i h]) (rule m)
  have "vol_map ram_mem registry_config (reg_vol sys') = vol_map ram_mem registry_config (reg_vol sys)"
    by (rule nvol_inv_frame(2) [OF inv i h]) (rule m)
  then show "registry_map sys' = registry_map sys" by (simp add: registry_map_def fun_eq_iff)
qed

lemma strtab_set_ok:
  assumes inv: "strtab_inv sys" and len: "0 \<le> len" "len \<le> 500" and v: "strncpy val (nat len) = Some v"
  shows "\<exists>res sys'. strtab_set key (Some val) len sys = Some (res, sys') \<and> strtab_inv sys' \<and>
    (if 59 \<le> strtab_count sys then res = EFAIL \<and> strtab_map sys' = strtab_map sys
     else res = EOK \<and> strtab_map sys' = (strtab_map sys)(ucast key \<mapsto> v)) \<and>
    (registry_vol_inv sys \<longrightarrow> registry_vol_inv sys' \<and> registry_map sys' = registry_map sys)"
proof -
  let ?n = "nat len" and ?k = "le32 (ucast key)"
  have vi: "strtab_vol_inv sys" and rb: "rec_buf strtab_config (strtab_buffer sys)"
    and pl: "plenty (hp (str_vol sys))"
    and ni: "nvol_inv ram_mem strtab_config (str_vol sys)"
    using inv by (simp_all add: strtab_inv_def strtab_vol_inv_def)
  obtain rec where rec: "strtab_setkey (strtab_buffer sys) (ucast key) = Some rec" "rec_buf strtab_config rec"
    "key_and_data rec = ?k @ drop 4 (key_and_data (strtab_buffer sys))"
    using strtab_setkey_ok [OF rb] by blast
  have kl: "length (key_and_data rec) = 504" using rec(2) by (simp add: rec_buf_def)
  have lv: "length v = ?n" by (rule length_strncpy [OF v])
  have n: "?n \<le> 500" using len by simp
  let ?kd = "?k @ v @ drop (4 + ?n) (key_and_data rec)"
  let ?rec = "rec\<lparr>key_and_data := ?kd\<rparr>"
  let ?l = "word_of_int (len + 4) :: u32"
  have wr: "buf_write (key_and_data rec) 4 v = Some ?kd"
    using n kl lv rec(3) by (simp add: buf_write_def)
  have rb': "rec_buf strtab_config ?rec" using n kl lv by (simp add: rec_buf_def)
  have "len + 4 = int (?n + 4)" using len by simp
  then have "?l = of_nat (?n + 4)" by (simp only: of_int_of_nat_eq)
  moreover have "unat (of_nat (?n + 4) :: u32) = ?n + 4" using n by (intro unat_of_nat_u32) simp
  ultimately have un: "unat ?l = ?n + 4" by simp
  have kv: "?k @ v = take (unat ?l) (key_and_data ?rec)"
    unfolding un using lv by simp
  obtain res rec' s' where st: "nvol3_record_set strtab_config ?rec ?l (str_vol sys) = Some (res, rec', s')"
    "nvol_inv ram_mem strtab_config s'" "plenty (hp s')" "key_and_data rec' = ?kd"
    "if 63 \<le> card (dom (vol_map ram_mem strtab_config (str_vol sys))) + 4
     then res = EFAIL \<and> vol_map ram_mem strtab_config s' = vol_map ram_mem strtab_config (str_vol sys)
     else res = EOK \<and> vol_map ram_mem strtab_config s' =
       (vol_map ram_mem strtab_config (str_vol sys))(?k \<mapsto> v)"
    using str.volume_set_ok [OF ni pl rb' _ _ str_cb kv] un n by auto
  let ?sys = "set_str_vol s' (sys\<lparr>strtab_buffer := rec'\<rparr>)"
  have run: "strtab_set key (Some val) len sys = Some (res, ?sys)"
    using rec(1) v wr st(1) len strtab_loaded [OF vi] by (simp add: strtab_set_def STRTAB_LENGT_MAX_def)
  have "strtab_inv ?sys"
    using st rb' by (simp add: strtab_inv_def strtab_vol_inv_def rec_buf_def)
  moreover have "str.framed (str_vol sys) s'"
    by (rule str.kept_framed [OF str.nvol3_record_set_kept [OF st(1) nvol_inv_D(1) [OF ni]]])
  then have "registry_vol_inv sys \<longrightarrow> registry_vol_inv ?sys \<and> registry_map ?sys = registry_map sys"
    using registry_frame [of sys s' ?sys] by (simp add: reg_vol_def set_str_vol_def)
  moreover have "if 59 \<le> strtab_count sys then res = EFAIL \<and> strtab_map ?sys = strtab_map sys
     else res = EOK \<and> strtab_map ?sys = (strtab_map sys)(ucast key \<mapsto> v)"
    using st(5) by (auto simp: strtab_count_def strtab_map_def strtab_vol_map_def fun_eq_iff split: if_splits)
  ultimately show ?thesis using run by blast
qed


section \<open>Starting and stopping\<close>

lemma set_str_vol_inv:
  "nvol_inv ram_mem strtab_config v \<Longrightarrow> plenty (hp v) \<Longrightarrow> rec_buf strtab_config (strtab_buffer sys) \<Longrightarrow>
   strtab_inv ((set_str_vol v sys)\<lparr>sys_shell := sh\<rparr>)"
  by (cases v) (simp add: strtab_inv_def strtab_vol_inv_def str_vol_def set_str_vol_def)

text \<open>
  Whether the device holds a valid string table or is formatted first, the table is loaded; a
  valid one keeps its strings.
\<close>

lemma strtab_start_with:
  assumes sh: "installed (sys_shell sys) cs" "strtab_cmds \<notin> set cs"
    and start: "nvol3_validate strtab_config (str_vol sys) = Some valid"
      "(if valid \<noteq> EOK then map_option snd (nvol3_reset strtab_config (str_vol sys))
        else Some (str_vol sys)) = Some v1"
      "str.framed (str_vol sys) v1" "nvol3_load strtab_config v1 = Some (res, v)"
    and inv: "nvol_inv ram_mem strtab_config v" "plenty (hp v)" "rec_buf strtab_config (strtab_buffer sys)"
  shows "\<exists>sys'. strtab_start sys = Some (res, sys') \<and> strtab_inv sys' \<and> str_vol sys' = v \<and>
    installed (sys_shell sys') (cs @ [strtab_cmds]) \<and> sys_strsub sys' = sys_strsub sys \<and>
    (registry_vol_inv sys \<longrightarrow> registry_vol_inv sys' \<and> registry_map sys' = registry_map sys)"
proof -
  obtain sh where i: "corshell_install strtab_cmds (sys_shell sys) = Some sh" "installed sh (cs @ [strtab_cmds])"
    using install_ok [of "sys_shell sys" cs strtab_cmds] sh
    by (auto simp: strtab_cmds_def corshell_static_list_def)
  let ?sys = "(set_str_vol v sys)\<lparr>sys_shell := sh\<rparr>"
  have "strtab_start sys = Some (res, ?sys)"
    unfolding strtab_start_def start(1) bind.bind_lunit start(2) start(4) by (simp add: i(1))
  moreover have "str_vol ?sys = v" by (simp add: str_vol_def set_str_vol_def)
  moreover have "str.framed (str_vol sys) v"
    by (rule str.framed_trans [OF start(3) str.load_framed [OF start(4)]])
  then have "registry_vol_inv sys \<longrightarrow> registry_vol_inv ?sys \<and> registry_map ?sys = registry_map sys"
    using registry_frame [of sys v ?sys] by (simp add: reg_vol_def set_str_vol_def)
  ultimately show ?thesis using i(2) set_str_vol_inv [OF inv, of sh] by auto
qed

lemma strtab_restart:
  assumes sh: "installed (sys_shell sys) cs" "strtab_cmds \<notin> set cs"
    and old: "strtab_inv old" "sys_dev sys = sys_dev old"
    and new: "plenty (sys_heap sys)" "rec_buf strtab_config (strtab_buffer sys)"
  shows "\<exists>sys'. strtab_start sys = Some (EOK, sys') \<and> strtab_inv sys' \<and>
    strtab_map sys' = strtab_map old \<and> installed (sys_shell sys') (cs @ [strtab_cmds]) \<and>
    sys_strsub sys' = sys_strsub sys \<and>
    (registry_vol_inv sys \<longrightarrow> registry_vol_inv sys' \<and> registry_map sys' = registry_map sys)"
proof -
  have inv: "nvol_inv ram_mem strtab_config (str_vol old)"
    using old(1) by (simp add: strtab_inv_def strtab_vol_inv_def)
  have d: "dev (str_vol sys) = dev (str_vol old)" "plenty (hp (str_vol sys))" using old(2) new by simp_all
  obtain v where v: "nvol3_load strtab_config (str_vol sys) = Some (EOK, v)"
    "nvol_inv ram_mem strtab_config v" "plenty (hp v)"
    "vol_map ram_mem strtab_config v = vol_map ram_mem strtab_config (str_vol old)"
    using str.reload_ok [OF inv d] by blast
  have "str.framed (str_vol sys) (str_vol sys)" by (simp add: str.framed_def)
  from strtab_start_with [OF sh str.validate_ok [OF inv d(1)] _ this v(1-3) new(2)] v(4)
  show ?thesis by (auto simp: strtab_map_def strtab_vol_map_def fun_eq_iff)
qed

lemma strtab_format:
  assumes sh: "installed (sys_shell sys) cs" "strtab_cmds \<notin> set cs"
    and bad: "nvol3_validate strtab_config (str_vol sys) = Some valid" "valid \<noteq> EOK"
    and new: "plenty (sys_heap sys)" "rec_buf strtab_config (strtab_buffer sys)"
  shows "\<exists>sys'. strtab_start sys = Some (EOK, sys') \<and> strtab_inv sys' \<and>
    strtab_map sys' = (\<lambda>n. None) \<and> installed (sys_shell sys') (cs @ [strtab_cmds]) \<and>
    sys_strsub sys' = sys_strsub sys \<and>
    (registry_vol_inv sys \<longrightarrow> registry_vol_inv sys' \<and> registry_map sys' = registry_map sys)"
proof -
  obtain v1 where v1: "nvol3_reset strtab_config (str_vol sys) = Some (EOK, v1)"
    "nvol_inv ram_mem strtab_config v1" "plenty (hp v1)" "vol_map ram_mem strtab_config v1 = Map.empty"
    using str.reset_ok [of "str_vol sys"] new(1) by auto
  obtain v where v: "nvol3_load strtab_config v1 = Some (EOK, v)"
    "nvol_inv ram_mem strtab_config v" "plenty (hp v)"
    "vol_map ram_mem strtab_config v = vol_map ram_mem strtab_config v1"
    using str.reload_ok [OF v1(2) refl v1(3)] by blast
  have "(if valid \<noteq> EOK then map_option snd (nvol3_reset strtab_config (str_vol sys))
        else Some (str_vol sys)) = Some v1" using bad v1(1) by simp
  from strtab_start_with [OF sh bad(1) this str.reset_framed [OF v1(1)] v(1-3) new(2)] v(4) v1(4)
  show ?thesis by (auto simp: strtab_map_def strtab_vol_map_def fun_eq_iff)
qed

section \<open>Defects\<close>

text \<open>
  The status and the length are asked with a pointer to a 16-bit parameter where the dictionary
  reads a 32-bit key: both read past the parameter.
\<close>

lemma short_key_read:
  assumes "strtab_vol_inv sys"
  shows "strtab_valid key sys = None" "strtab_length key sys = None"
proof -
  have ni: "nvol_inv ram_mem strtab_config (str_vol sys)" using assms by (simp add: strtab_vol_inv_def)
  obtain d where d: "loaded_dict (str_vol sys) = Some d" "d_keyspec d = c_keyspec strtab_config"
    by (rule table_is_loaded [OF nvol_inv_D(3) [OF ni]])
  have "lookup_key (le16 key) (str_vol sys) = None"
    using d by (simp add: lookup_key_def dict_key_at_def strtab_config_def keyspec_defs dict_keytype_def
        DICTIONARY_KEY_SIZE_def le16_def buf_read_def)
  then show "strtab_valid key sys = None" "strtab_length key sys = None"
    using strtab_loaded [OF assms]
    by (simp_all add: strtab_valid_def strtab_length_def nvol3_record_status_def
        nvol3_record_key_and_data_length_def)
qed

end
