(* ===== verification/System.thy ===== *)
theory System
  imports Strtab_Spec
begin

text \<open>
  The two lookup functions as handlers of string substitution: for a word that it knows, a handler
  sends the stored value to the callback; for another one it sends nothing and answers with a
  negative status.
\<close>

unbundle bit_operations_syntax

section \<open>The handlers\<close>

definition run_lookup :: "lookup_fn \<Rightarrow> (strsub_to \<times> system) lookup_cb" where
  "run_lookup c =
     (case c of Registry_strsub_cb \<Rightarrow> registry_strsub_cb | Strtab_strsub_cb \<Rightarrow> strtab_strsub_cb)"

text \<open>An empty value counts as no value.\<close>

definition nonempty :: "u8 list option \<Rightarrow> u8 list option" where
  "nonempty v = (if v = Some [] then None else v)"

text \<open>The value of a word: a name in the registry, a number in the string table.\<close>

definition word_value :: "system \<Rightarrow> lookup_fn \<Rightarrow> u8 list \<Rightarrow> u8 list option" where
  "word_value sys c w =
     (case c of
        Registry_strsub_cb \<Rightarrow> nonempty (registry_map sys w)
      | Strtab_strsub_cb \<Rightarrow>
          (case scan_uint (w @ [62]) of
             Some (_, Some n) \<Rightarrow> nonempty (strtab_map sys n)
           | _ \<Rightarrow> None))"

text \<open>
  What a handler can be given: a name of at most 24 characters, and a word of which a number of
  32 bits, or none, can be read.
\<close>

definition word_fits :: "lookup_fn \<Rightarrow> u8 list \<Rightarrow> u8 \<Rightarrow> bool" where
  "word_fits c w d \<longleftrightarrow>
     (case c of
        Registry_strsub_cb \<Rightarrow> length w \<le> 24
      | Strtab_strsub_cb \<Rightarrow> d = 62 \<and> scan_uint (w @ [62]) \<noteq> None)"

subsection \<open>The registry\<close>

lemma takeWhile_append_stop:
  "\<not> P d \<Longrightarrow> takeWhile P (xs @ d # r) = takeWhile P xs"
  by (induction xs) auto

lemma dropWhile_append_stop:
  "\<not> P d \<Longrightarrow> dropWhile P (xs @ d # r) = dropWhile P xs @ d # r"
  by (induction xs) auto

lemma registry_strsub_lookup:
  assumes inv: "registry_vol_inv sys"
    and m: "m < length str" "0 \<notin> set (take m str)" "m \<le> 24"
  shows "\<exists>rec. rec_buf registry_config rec \<and> (\<forall>v. nonempty (registry_map sys (take m str)) = Some v \<longrightarrow>
      length v \<le> 224 \<and>
      (\<exists>r. registry_strsub_cb cb str m off (t, sys) =
        cb (v @ r) (of_nat (length v)) off (t, sys\<lparr>registry_value := rec\<rparr>))) \<and>
    (nonempty (registry_map sys (take m str)) = None \<longrightarrow>
      (\<exists>res. registry_strsub_cb cb str m off (t, sys) = Some (res, t, sys\<lparr>registry_value := rec\<rparr>) \<and> res < 0))"
proof -
  let ?w = "take m str"
  let ?rec = "\<lparr>head = zero_head, key_and_data = ?w @ replicate (248 - m) 0\<rparr>"
  have ni: "nvol_inv ram_mem registry_config (reg_vol sys)" using inv by (simp add: registry_vol_inv_def)
  have lw: "length ?w = m" using m(1) by simp
  have cp: "strncpy str m = Some ?w"
    using strncpy_bytes [OF m(2), of "drop m str"] m(1) by simp
  have rb: "rec_buf registry_config ?rec" using lw m(3) by (simp add: rec_buf_def zero_head_def)
  have k: "take (ksz registry_config) (key_and_data ?rec) = key24 ?w"
    using lw m(3) by (simp add: key24_def min_def)
  show ?thesis
  proof (cases "registry_map sys ?w")
    case None
    then have "vol_map ram_mem registry_config (reg_vol sys) (take (ksz registry_config) (key_and_data ?rec)) = None"
      unfolding k by (simp add: registry_map_def)
    from reg.get_absent [OF ni rb this] None cp m(3) rb show ?thesis
      by (intro exI [of _ "?rec\<lparr>head := zero_head\<rparr>"])
         (simp add: registry_strsub_cb_def registry_consts Let_def nonempty_def)
  next
    case (Some v)
    then have v: "vol_map ram_mem registry_config (reg_vol sys) (key24 ?w) = Some v"
      by (simp add: registry_map_def)
    from reg.get_present [OF ni rb k [symmetric] v]
    obtain rec' where g: "nvol3_record_get registry_config ?rec (reg_vol sys) = Some (int (24 + length v), rec')"
      "take (24 + length v) (key_and_data rec') = key24 ?w @ v" "rec_buf registry_config rec'" by auto
    have lv: "length v \<le> 224" by (rule registry_value_length_le [OF ni v])
    have run: "registry_strsub_cb cb str m off (t, sys) =
        (if v = [] then Some (E_INVAL, t, sys\<lparr>registry_value := rec'\<rparr>)
         else cb (value_field rec') (word_of_int (int (length v))) off (t, sys\<lparr>registry_value := rec'\<rparr>))"
      using cp g(1) m(3) by (simp add: registry_strsub_cb_def registry_consts Let_def)
    have "take (length v) (value_field rec') = drop 24 (take (24 + length v) (key_and_data rec'))"
      by (simp add: value_field_def REGISTRY_KEY_LENGTH_def drop_take)
    then have "take (length v) (value_field rec') = v" by (simp add: g(2))
    then have f: "value_field rec' = v @ drop (length v) (value_field rec')"
      by (metis append_take_drop_id)
    show ?thesis
    proof (cases "v = []")
      case True
      then show ?thesis using run Some g(3) by (auto simp: nonempty_def)
    next
      case False
      have "registry_strsub_cb cb str m off (t, sys) =
          cb (v @ drop (length v) (value_field rec')) (of_nat (length v)) off (t, sys\<lparr>registry_value := rec'\<rparr>)"
        using run False by (simp only: f [symmetric]) simp
      with lv Some False g(3) show ?thesis by (auto simp: nonempty_def)
    qed
  qed
qed

subsection \<open>The string table\<close>

lemma delimiter_62: "\<not> isspace 62" "\<not> isdigit 62" "(62 :: u8) \<noteq> 0"
  by (simp_all add: isspace_def isdigit_def)

lemma scan_digits_append: "scan_digits neg (s @ 62 # r) = scan_digits neg (s @ [62])"
proof -
  have t: "takeWhile isdigit (s @ 62 # r') = takeWhile isdigit s" for r'
    by (rule takeWhile_append_stop) (rule delimiter_62)
  have "length (takeWhile isdigit s) \<noteq> Suc (length s + n)" for n
    using length_takeWhile_le [of isdigit s] by simp
  from this [of "length r"] this [of 0] show ?thesis by (simp add: scan_digits_def t)
qed

lemma dropWhile_space: "dropWhile isspace (w @ 62 # r) = dropWhile isspace w @ 62 # r"
  by (rule dropWhile_append_stop) (rule delimiter_62)

lemma scan_uint_append: "scan_uint (w @ 62 # r) = scan_uint (w @ [62])"
proof (cases "dropWhile isspace w")
  case Nil
  then show ?thesis
    using scan_digits_append [of False "[]" r] by (simp only: scan_uint_def dropWhile_space) simp
next
  case (Cons c s)
  then show ?thesis
    using scan_digits_append [of "c = 45" s r] scan_digits_append [of False "c # s" r]
    by (simp only: scan_uint_def dropWhile_space) simp
qed

text \<open>A word that ends in a delimiter is never at the end of the string.\<close>

lemma scan_uint_word:
  assumes "0 \<notin> set w" "scan_uint (w @ [62]) = Some (n, key)"
  shows "n = (if key = None then 0 else 1)"
proof -
  obtain c s where cs: "dropWhile isspace (w @ [62]) = c # s"
    by (cases "dropWhile isspace w") (simp_all add: dropWhile_space [of w "[]"])
  have "set (dropWhile isspace (w @ [62])) \<subseteq> set (w @ [62])" by (meson set_dropWhileD subsetI)
  then have "c \<noteq> 0" using assms(1) delimiter_62(3) cs by auto
  then show ?thesis
    using assms(2) cs by (auto simp: scan_uint_def scan_digits_def Let_def split: if_splits)
qed

lemma strtab_strsub_lookup:
  assumes inv: "strtab_vol_inv sys" "rec_buf strtab_config (strtab_buffer sys)"
    and m: "m < length str" "0 \<notin> set (take m str)" "word_fits Strtab_strsub_cb (take m str) (str ! m)"
  shows "\<exists>rec. rec_buf strtab_config rec \<and> (\<forall>v. word_value sys Strtab_strsub_cb (take m str) = Some v \<longrightarrow>
      length v \<le> 500 \<and>
      (\<exists>r. strtab_strsub_cb cb str m off (t, sys) =
        cb (v @ r) (of_nat (length v)) off (t, sys\<lparr>strtab_buffer := rec\<rparr>))) \<and>
    (word_value sys Strtab_strsub_cb (take m str) = None \<longrightarrow>
      (\<exists>res. strtab_strsub_cb cb str m off (t, sys) = Some (res, t, sys\<lparr>strtab_buffer := rec\<rparr>) \<and> res < 0))"
proof -
  let ?w = "take m str"
  have f: "str ! m = 62" "scan_uint (?w @ [62]) \<noteq> None" using m(3) by (simp_all add: word_fits_def)
  then obtain n key where sc: "scan_uint (?w @ [62]) = Some (n, key)" by auto
  have "str = ?w @ 62 # drop (Suc m) str" using m(1) f(1) by (metis id_take_nth_drop)
  then have scs: "scan_uint str = Some (n, key)"
    using scan_uint_append [of ?w "drop (Suc m) str"] sc by simp
  have n: "n = (if key = None then 0 else 1)" by (rule scan_uint_word [OF m(2) sc])
  show ?thesis
  proof (cases key)
    case None
    then have "strtab_strsub_cb cb str m off (t, sys) = Some (E_INVAL, t, sys)"
      using scs n by (simp add: strtab_strsub_cb_def)
    moreover have "word_value sys Strtab_strsub_cb ?w = None" using sc None by (simp add: word_value_def)
    moreover have "sys = sys\<lparr>strtab_buffer := strtab_buffer sys\<rparr>" by simp
    ultimately show ?thesis using inv(2) by (intro exI [of _ "strtab_buffer sys"]) auto
  next
    case (Some k)
    then have n1: "n = 1" using n by simp
    have wv: "word_value sys Strtab_strsub_cb ?w = nonempty (strtab_map sys k)"
      using sc Some by (simp add: word_value_def)
    obtain rec rec' where g: "strtab_setkey (strtab_buffer sys) k = Some rec"
      "nvol3_record_get strtab_config rec (str_vol sys) =
        Some (case strtab_map sys k of None \<Rightarrow> E_NOTFOUND | Some v \<Rightarrow> int (4 + length v), rec')"
      "rec_buf strtab_config rec'"
      "\<forall>v. strtab_map sys k = Some v \<longrightarrow> take (length v) (strtab_value_field rec') = v"
      using strtab_lookup [OF inv] by blast
    show ?thesis
    proof (cases "strtab_map sys k")
      case None
      then show ?thesis
        using g scs Some n1 wv by (intro exI [of _ rec']) (simp add: strtab_strsub_cb_def nonempty_def)
    next
      case (Some v)
      then have tv: "take (length v) (strtab_value_field rec') = v" using g(4) by simp
      have "length (strtab_value_field rec') = 500"
        using g(3) by (simp add: strtab_value_field_def rec_buf_def)
      then have lv: "length v \<le> 500" using tv by (metis length_take min.cobounded1)
      have f: "strtab_value_field rec' = v @ drop (length v) (strtab_value_field rec')"
        using tv by (metis append_take_drop_id)
      have run: "strtab_strsub_cb cb str m off (t, sys) =
          (if v = [] then Some (E_INVAL, t, sys\<lparr>strtab_buffer := rec'\<rparr>)
           else cb (strtab_value_field rec') (word_of_int (int (length v))) off (t, sys\<lparr>strtab_buffer := rec'\<rparr>))"
        using g scs \<open>key = Some k\<close> n1 Some by (simp add: strtab_strsub_cb_def Let_def)
      show ?thesis
      proof (cases "v = []")
        case True
        then show ?thesis using run Some g(3) wv by (auto simp: nonempty_def)
      next
        case False
        have "strtab_strsub_cb cb str m off (t, sys) =
            cb (v @ drop (length v) (strtab_value_field rec')) (of_nat (length v)) off
              (t, sys\<lparr>strtab_buffer := rec'\<rparr>)"
          using run False by (simp only: f [symmetric]) simp
        with lv Some False g(3) wv show ?thesis by (auto simp: nonempty_def)
      qed
    qed
  qed
qed

end
