(* ===== verification/System_Spec.thy ===== *)
theory System_Spec
  imports System
begin

text \<open>
  The program as two finite maps.  \<open>system_ready\<close> is the invariant of the running program,
  \<open>system_boot\<close> its start, \<open>sys_step\<close> a call of one of its functions by a client, and
  \<open>store_step\<close> the specification: what a call answers and what it leaves in the two maps.
\<close>

unbundle bit_operations_syntax

section \<open>The start of the program\<close>

text \<open>The static variables before \<^verbatim>\<open>main\<close>; \<open>m\<close> is what the device holds.\<close>

definition zero_inst :: nvol_inst where
  "zero_inst = \<lparr>i_version = 0, i_next_idx = 0, i_sector = 0, i_dict = None, i_inuse = 0,
                i_invalid = 0, i_error = 0\<rparr>"

definition power_on :: "ramdrv \<Rightarrow> heap \<Rightarrow> system" where
  "power_on m h =
     \<lparr>sys_dev = m, sys_heap = h,
      sys_strsub = \<lparr>ss_inst = strsub_default,
                    ss_nodes = (\<lambda>a. \<lparr>hd_next = None, hd_cb = Registry_strsub_cb\<rparr>)\<rparr>,
      sys_shell = shell_lists,
      reg_inst = zero_inst,
      registry_value = \<lparr>head = zero_head, key_and_data = replicate 248 0\<rparr>,
      registry_it = \<lparr>it_np = None, it_prev = None, it_idx = Some 0, it_cmp = None\<rparr>,
      registry_key = replicate 25 0,
      str_inst = zero_inst,
      strtab_buffer = \<lparr>head = zero_head, key_and_data = replicate 504 0\<rparr>,
      strtab_it = \<lparr>it_np = None, it_prev = None, it_idx = Some 0, it_cmp = None\<rparr>\<rparr>"

definition system_boot :: "system \<Rightarrow> system option" where
  "system_boot sys =
     do { (_, sys) \<leftarrow> registry_start sys;
          let (_, sys) = strtab_init sys;
          (_, sys) \<leftarrow> strtab_start sys;
          Some sys }"

definition main_start :: "corshell_cmd list \<Rightarrow> system \<Rightarrow> system option" where
  "main_start section sys =
     do { sys \<leftarrow> system_boot (sys\<lparr>sys_shell := snd (corshell_init section (sys_shell sys))\<rparr>);
          (_, sys) \<leftarrow> registry_value_set (Some [116, 101, 115, 116, 0]) (Some [49, 50, 51, 0]) 4 sys;
          (_, sys) \<leftarrow> strtab_set 999 (Some [116, 101, 115, 116, 0]) 5 sys;
          Some sys }"

section \<open>The running program\<close>

definition running_inst :: strsub_instance where
  "running_inst = \<lparr>ss_escape = STRSUB_ESCAPE_TOKEN, ss_tokens = STRSUB_HANDLERS_TOKENS,
                   ss_handlers = [Some registry_handler, None, Some strtab_handler]\<rparr>"

definition system_ready :: "system \<Rightarrow> bool" where
  "system_ready sys \<longleftrightarrow>
     registry_inv sys \<and> strtab_inv sys \<and>
     ss_inst (sys_strsub sys) = running_inst \<and>
     ss_nodes (sys_strsub sys) registry_handler = \<lparr>hd_next = None, hd_cb = Registry_strsub_cb\<rparr> \<and>
     ss_nodes (sys_strsub sys) strtab_handler = \<lparr>hd_next = None, hd_cb = Strtab_strsub_cb\<rparr> \<and>
     installed (sys_shell sys) [registry_cmds, strtab_cmds]"

lemma running_open: "open_token running_inst c =
  (if c = 91 then Some StrsubToken1 else if c = 60 then Some StrsubToken3 else None)"
  by (simp add: open_token_def running_inst_def STRSUB_HANDLERS_TOKENS_def)

lemma running_closer: "closer running_inst 0 = 93" "closer running_inst 2 = 62"
  by (simp_all add: closer_def running_inst_def STRSUB_HANDLERS_TOKENS_def)

lemma running_escape: "ss_escape running_inst = 92"
  by (simp add: running_inst_def STRSUB_ESCAPE_TOKEN_def)

text \<open>Splitting a concrete text into pieces.\<close>

lemmas running_pieces = pieces_Cons running_open running_closer running_escape pending_is_word
  pending_word_Cons is_word_def

definition running_lists :: "nat list list" where
  "running_lists = [[registry_handler], [], [strtab_handler]]"

lemma ready_lists:
  assumes "system_ready sys"
  shows "strsub_lists (sys_strsub sys) running_lists"
    "handler_of (sys_strsub sys) registry_handler = Registry_strsub_cb"
    "handler_of (sys_strsub sys) strtab_handler = Strtab_strsub_cb"
  using assms
  by (auto simp: system_ready_def strsub_lists_def running_lists_def running_inst_def nexts_def
      handler_of_def registry_handler_def strtab_handler_def less_Suc_eq numeral_3_eq_3)

lemma power_on_installed: "installed (sys_shell (power_on m h)) []"
  by (simp add: power_on_def shell_lists_def installed_def cl_nexts_def)

section \<open>Calls and their specification\<close>

datatype sys_op =
    RegSet "u8 list" "u8 list" | RegGet "u8 list" nat | RegDelete "u8 list"
  | RegValid "u8 list" | RegLength "u8 list"
  | StrSet u16 "u8 list" | StrGet u16 nat
  | Substitute "u8 list" nat | Restart

type_synonym sys_reply = "int \<times> u8 list"

fun sys_step :: "sys_op \<Rightarrow> system \<Rightarrow> (sys_reply \<times> system) option" where
  "sys_step (RegSet s v) sys =
     do { (res, sys) \<leftarrow> registry_value_set (Some (s @ [0])) (Some v) (of_nat (length v)) sys;
          Some ((res, []), sys) }"
| "sys_step (RegGet s n) sys =
     do { (res, b, sys) \<leftarrow> registry_value_get (Some (s @ [0])) (Some (replicate n 0)) (of_nat n) sys;
          b \<leftarrow> b; Some ((res, b), sys) }"
| "sys_step (RegDelete s) sys =
     do { (res, sys) \<leftarrow> registry_value_delete (Some (s @ [0])) sys; Some ((res, []), sys) }"
| "sys_step (RegValid s) sys =
     do { (b, sys) \<leftarrow> registry_value_valid (Some (s @ [0])) sys; Some ((of_bool b, []), sys) }"
| "sys_step (RegLength s) sys =
     do { (res, sys) \<leftarrow> registry_value_length (Some (s @ [0])) sys; Some ((res, []), sys) }"
| "sys_step (StrSet k v) sys =
     do { (res, sys) \<leftarrow> strtab_set k (Some v) (int (length v)) sys; Some ((res, []), sys) }"
| "sys_step (StrGet k n) sys =
     do { (res, b, sys) \<leftarrow> strtab_get k (Some (replicate n 0)) (int n) sys;
          b \<leftarrow> b; Some ((res, b), sys) }"
| "sys_step (Substitute t n) sys =
     do { (len, b, sys) \<leftarrow> strsub_parse_string_to run_lookup (sys_strsub sys) (Some (t @ [0])) 0
                            (Some (replicate n 0)) (of_nat n) sys;
          Some ((int (unat len), b), sys) }"
| "sys_step Restart sys =
     do { sys \<leftarrow> system_boot (power_on (sys_dev sys) (sys_heap sys)); Some ((EOK, []), sys) }"

type_synonym store = "(u8 list \<rightharpoonup> u8 list) \<times> (u8 list \<rightharpoonup> u8 list)"

text \<open>The values that a delimited word stands for.\<close>

definition store_value :: "store \<Rightarrow> nat \<Rightarrow> u8 list \<Rightarrow> u8 list option" where
  "store_value st k w =
     (if k = 0 then nonempty (fst st (key24 w))
      else if k = 2 then
        (case scan_uint (w @ [62]) of
           Some (_, Some n) \<Rightarrow> nonempty (snd st (le32 n))
         | _ \<Rightarrow> None)
      else None)"

fun store_step :: "sys_op \<Rightarrow> store \<Rightarrow> sys_reply \<times> store" where
  "store_step (RegSet s v) (r, t) =
     (if length v > 224 then ((E_PARM, []), (r, t))
      else if 123 \<le> card (dom r) then ((EFAIL, []), (r, t))
      else ((EOK, []), (r(key24 s \<mapsto> v), t)))"
| "store_step (RegGet s n) (r, t) =
     (case r (key24 s) of
        None \<Rightarrow> ((E_NOTFOUND, replicate n 0), (r, t))
      | Some v \<Rightarrow>
          ((if v = [] then E_INVAL else if n = 0 then int (length v) else int (min n (length v)),
            take n v @ replicate (n - length v) 0), (r, t)))"
| "store_step (RegDelete s) (r, t) =
     ((if r (key24 s) = None then E_NOTFOUND else EOK, []), (r(key24 s := None), t))"
| "store_step (RegValid s) (r, t) = ((of_bool (nonempty (r (key24 s)) \<noteq> None), []), (r, t))"
| "store_step (RegLength s) (r, t) =
     ((case r (key24 s) of None \<Rightarrow> EFAIL | Some v \<Rightarrow> int (length v), []), (r, t))"
| "store_step (StrSet k v) (r, t) =
     (if length v > 500 then ((E_PARM, []), (r, t))
      else if 59 \<le> card (dom t) then ((EFAIL, []), (r, t))
      else ((EOK, []), (r, t(le32 (ucast k) \<mapsto> upto_nul (length v) v))))"
| "store_step (StrGet k n) (r, t) =
     (case t (le32 (ucast k)) of
        None \<Rightarrow> ((E_NOTFOUND, replicate n 0), (r, t))
      | Some v \<Rightarrow>
          if v = [] then ((E_INVAL, replicate n 0), (r, t))
          else ((int (length v), upto_nul (min n (length v)) v @ replicate (n - length v) 0), (r, t)))"
| "store_step (Substitute s n) (r, t) =
     (let x = expand running_inst (store_value (r, t)) s in
      ((int (min (length x) (n - 1)), emitted (replicate n 0) (n - 1) (x @ [0])), (r, t)))"
| "store_step Restart (r, t) = ((EOK, []), (r, t))"

text \<open>The calls a client may make; a text may only use words that the handlers can take.\<close>

fun sop_ok :: "sys_op \<Rightarrow> bool" where
  "sop_ok (RegSet s v) \<longleftrightarrow> 0 \<notin> set s \<and> length v < 2 ^ 32"
| "sop_ok (RegGet s n) \<longleftrightarrow> 0 \<notin> set s \<and> n < 2 ^ 31"
| "sop_ok (RegDelete s) \<longleftrightarrow> 0 \<notin> set s"
| "sop_ok (RegValid s) \<longleftrightarrow> 0 \<notin> set s"
| "sop_ok (RegLength s) \<longleftrightarrow> 0 \<notin> set s"
| "sop_ok (StrSet k v) \<longleftrightarrow> True"
| "sop_ok (StrGet k n) \<longleftrightarrow> True"
| "sop_ok (Substitute s n) \<longleftrightarrow>
     0 \<notin> set s \<and> length s < 2 ^ 30 \<and> 0 < n \<and> n \<le> 2 ^ 31 \<and>
     (\<forall>p \<in> set (pieces running_inst s). \<forall>k w. p = Sub k w \<longrightarrow>
        (k = 0 \<longrightarrow> length w \<le> 24) \<and> (k = 2 \<longrightarrow> scan_uint (w @ [62]) \<noteq> None))"
| "sop_ok Restart \<longleftrightarrow> True"

definition store_of :: "system \<Rightarrow> store" where
  "store_of sys = (vol_map ram_mem registry_config (reg_vol sys), strtab_vol_map sys)"

fun sys_run :: "sys_op list \<Rightarrow> system \<Rightarrow> (sys_reply list \<times> system) option" where
  "sys_run [] sys = Some ([], sys)"
| "sys_run (op # ops) sys =
     do { (r, sys) \<leftarrow> sys_step op sys; (rs, sys) \<leftarrow> sys_run ops sys; Some (r # rs, sys) }"

fun store_run :: "sys_op list \<Rightarrow> store \<Rightarrow> sys_reply list \<times> store" where
  "store_run [] st = ([], st)"
| "store_run (op # ops) st =
     (case store_step op st of (r, st) \<Rightarrow> case store_run ops st of (rs, st) \<Rightarrow> (r # rs, st))"

end
