(* ===== verification/System_Refine.thy ===== *)
theory System_Refine
  imports System_Spec
begin

text \<open>
  Every call of a client answers and acts as the specification of \<open>System_Spec\<close> says, and keeps
  the invariant of the running program; so does every sequence of calls.
\<close>

unbundle bit_operations_syntax

section \<open>What an operation leaves alone\<close>

definition others_kept :: "system \<Rightarrow> system \<Rightarrow> bool" where
  "others_kept sys sys' \<longleftrightarrow> sys_strsub sys' = sys_strsub sys \<and> sys_shell sys' = sys_shell sys"

lemma registry_set_others:
  "registry_value_set i v n sys = Some (res, sys') \<Longrightarrow>
   others_kept sys sys' \<and> strtab_buffer sys' = strtab_buffer sys"
  by (auto simp: registry_value_set_def others_kept_def bind_eq_Some_conv split: option.splits if_splits)

lemma registry_delete_others:
  "registry_value_delete i sys = Some (res, sys') \<Longrightarrow>
   others_kept sys sys' \<and> strtab_buffer sys' = strtab_buffer sys"
  by (auto simp: registry_value_delete_def others_kept_def bind_eq_Some_conv split: option.splits)

lemma strtab_set_others:
  "strtab_set k v n sys = Some (res, sys') \<Longrightarrow>
   others_kept sys sys' \<and> registry_value sys' = registry_value sys"
  by (auto simp: strtab_set_def others_kept_def bind_eq_Some_conv split: option.splits if_splits)

lemma ready_D:
  assumes "system_ready sys"
  shows "registry_inv sys" "strtab_inv sys" "registry_vol_inv sys" "strtab_vol_inv sys"
    "plenty (sys_heap sys)" "rec_buf registry_config (registry_value sys)"
    "rec_buf strtab_config (strtab_buffer sys)"
  using assms by (auto simp: system_ready_def registry_inv_def strtab_inv_def registry_vol_inv_def)

lemma ready_kept:
  assumes "system_ready sys" "others_kept sys sys'" "registry_vol_inv sys'" "strtab_vol_inv sys'"
    "plenty (sys_heap sys')" "rec_buf registry_config (registry_value sys')"
    "rec_buf strtab_config (strtab_buffer sys')"
  shows "system_ready sys'"
  using assms
  by (simp add: system_ready_def registry_inv_def strtab_inv_def registry_vol_inv_def others_kept_def)

text \<open>A query leaves another record in one of the two static buffers, and nothing else.\<close>

lemma store_of_buffers [simp]:
  "store_of (sys\<lparr>registry_value := rec\<rparr>) = store_of sys"
  "store_of (sys\<lparr>strtab_buffer := rec\<rparr>) = store_of sys"
  by (simp_all add: store_of_def strtab_vol_map_def)

lemma ready_buffers:
  "system_ready sys \<Longrightarrow> rec_buf registry_config rec \<Longrightarrow> system_ready (sys\<lparr>registry_value := rec\<rparr>)"
  "system_ready sys \<Longrightarrow> rec_buf strtab_config rec' \<Longrightarrow> system_ready (sys\<lparr>strtab_buffer := rec'\<rparr>)"
  by (simp_all add: system_ready_def registry_inv_def strtab_inv_def strtab_vol_inv_def str_vol_def reg_vol_def)

lemma store_maps:
  assumes "store_of sys = (r, t)"
  shows "r (key24 s) = registry_map sys s" "t (le32 n) = strtab_map sys n"
    "card (dom r) = registry_count sys" "card (dom t) = strtab_count sys"
  using assms
  by (auto simp: store_of_def registry_map_def strtab_map_def registry_count_def strtab_count_def)

text \<open>The two maps behind the maps of strings and of numbers.\<close>

lemma key24_idem: "length k = 24 \<Longrightarrow> key24 k = k"
  by (simp add: key24_def)

lemma le32_rd32: "length k = 4 \<Longrightarrow> le32 (rd32 k) = k"
  by (auto simp: numeral_eq_Suc length_Suc_conv le32_rd32_4 simp del: rd32.simps)

lemma reg_store: "registry_vol_inv sys \<Longrightarrow>
  fst (store_of sys) k = (if length k = 24 then registry_map sys k else None)"
  using reg.index_key_length [of "reg_vol sys" k]
  by (cases "vol_index ram_mem registry_config (reg_vol sys) k")
     (auto simp: store_of_def registry_map_def key24_idem registry_vol_inv_def vol_map_def)

lemma str_store: "strtab_vol_inv sys \<Longrightarrow>
  snd (store_of sys) k = (if length k = 4 then strtab_map sys (rd32 k) else None)"
  using str.index_key_length [of "str_vol sys" k]
  by (cases "vol_index ram_mem strtab_config (str_vol sys) k")
     (auto simp: store_of_def strtab_map_def strtab_vol_map_def le32_rd32 strtab_vol_inv_def vol_map_def)

lemma reg_store_upd:
  assumes "registry_vol_inv sys" "registry_vol_inv sys'"
    "registry_map sys' = (\<lambda>t. if key24 t = key24 s then x else registry_map sys t)"
  shows "fst (store_of sys') = (fst (store_of sys))(key24 s := x)"
  by (rule ext) (simp add: reg_store [OF assms(1)] reg_store [OF assms(2)] assms(3) key24_idem)

lemma reg_store_same:
  assumes "registry_vol_inv sys" "registry_vol_inv sys'" "registry_map sys' = registry_map sys"
  shows "fst (store_of sys') = fst (store_of sys)"
  by (rule ext) (simp add: reg_store [OF assms(1)] reg_store [OF assms(2)] assms(3))

lemma str_store_upd:
  assumes "strtab_vol_inv sys" "strtab_vol_inv sys'" "strtab_map sys' = (strtab_map sys)(n := x)"
  shows "snd (store_of sys') = (snd (store_of sys))(le32 n := x)"
proof
  fix k
  have "length k = 4 \<Longrightarrow> rd32 k = n \<longleftrightarrow> k = le32 n" using le32_rd32 [of k] by auto
  then show "snd (store_of sys') k = ((snd (store_of sys))(le32 n := x)) k"
    by (auto simp: str_store [OF assms(1)] str_store [OF assms(2)] assms(3))
qed

lemma str_store_same:
  assumes "strtab_vol_inv sys" "strtab_vol_inv sys'" "strtab_map sys' = strtab_map sys"
  shows "snd (store_of sys') = snd (store_of sys)"
  by (rule ext) (simp add: str_store [OF assms(1)] str_store [OF assms(2)] assms(3))

section \<open>One call\<close>

text \<open>What is to be shown of a call.\<close>

definition refines :: "sys_op \<Rightarrow> system \<Rightarrow> bool" where
  "refines op sys \<longleftrightarrow>
     (\<exists>r sys'. sys_step op sys = Some (r, sys') \<and> system_ready sys' \<and>
        store_step op (store_of sys) = (r, store_of sys'))"

lemma refinesI:
  assumes "sys_step op sys = Some (rep, sys')" "system_ready sys'"
    "\<And>r t. store_of sys = (r, t) \<Longrightarrow> store_step op (r, t) = (rep, store_of sys')"
  shows "refines op sys"
  using assms by (cases "store_of sys") (auto simp: refines_def)

lemma query_refines:
  assumes "sys_step op sys = Some (rep, sys')" "system_ready sys'" "store_of sys' = store_of sys"
    "\<And>r t. store_of sys = (r, t) \<Longrightarrow> store_step op (r, t) = (rep, (r, t))"
  shows "refines op sys"
  using refinesI [OF assms(1,2)] assms(3,4) by simp

lemma reg_set_refines:
  assumes rdy: "system_ready sys" and ok: "sop_ok (RegSet s v)"
  shows "refines (RegSet s v) sys"
proof (cases "length v \<le> 224")
  case False
  then have "unat (of_nat (length v) :: u32) = length v" using ok by (simp add: unat_of_nat_u32)
  then have "of_nat REGISTRY_VALUE_LENGT_MAX < (of_nat (length v) :: u32)"
    using False by (simp add: word_less_nat_alt registry_consts)
  then have "sys_step (RegSet s v) sys = Some ((E_PARM, []), sys)"
    by (simp add: registry_value_set_def)
  from query_refines [OF this rdy] False show ?thesis by simp
next
  case True
  let ?n = "of_nat (length v) :: u32"
  have n: "unat ?n = length v" using True by (intro unat_of_nat_u32) simp
  have z: "0 \<notin> set s" using ok by simp
  note D = ready_D [OF rdy]
  obtain res sys' where st: "registry_value_set (Some (s @ 0 # [])) (Some v) ?n sys = Some (res, sys')"
    "registry_inv sys'"
    "if 123 \<le> registry_count sys then res = EFAIL \<and> registry_map sys' = registry_map sys
     else res = EOK \<and>
       registry_map sys' = (\<lambda>t. if key24 t = key24 s then Some v else registry_map sys t)"
    "strtab_vol_inv sys'" "strtab_vol_map sys' = strtab_vol_map sys"
    using registry_set_ok [OF D(1) z, of ?n v "[]"] True D(4)
    unfolding n take_all [OF order_refl] by auto
  note oth = registry_set_others [OF st(1)]
  have vi: "registry_vol_inv sys'" using st(2) by (simp add: registry_inv_def registry_vol_inv_def)
  have rdy': "system_ready sys'"
    using ready_kept [OF rdy, of sys'] oth st(2,4) D(7) vi by (simp add: registry_inv_def)
  have "snd (store_of sys') = snd (store_of sys)" using st(5) by (simp add: store_of_def)
  moreover have "if 123 \<le> registry_count sys then res = EFAIL \<and> fst (store_of sys') = fst (store_of sys)
     else res = EOK \<and> fst (store_of sys') = (fst (store_of sys))(key24 s \<mapsto> v)"
    using st(3) reg_store_upd [OF D(3) vi] reg_store_same [OF D(3) vi] by simp
  ultimately show ?thesis
    using st(1) True
    by (intro refinesI [OF _ rdy', of _ _ "(res, [])"]) (auto simp: store_maps prod_eq_iff split: if_splits)
qed

lemma reg_get_refines:
  assumes rdy: "system_ready sys" and ok: "sop_ok (RegGet s n)"
  shows "refines (RegGet s n) sys"
proof -
  have n: "unat (of_nat n :: u32) = n" using ok by (intro unat_of_nat_u32) simp
  have z: "0 \<notin> set s" and n0: "(of_nat n :: u32) = 0 \<longleftrightarrow> n = 0"
    using ok n by (auto simp flip: unat_eq_zero)
  obtain rec where g: "registry_value_get (Some (s @ [0])) (Some (replicate n 0)) (of_nat n) sys =
      Some (case registry_map sys s of
              None \<Rightarrow> (E_NOTFOUND, Some (got (replicate n 0) n []), sys\<lparr>registry_value := rec\<rparr>)
            | Some v \<Rightarrow>
                (if v = [] then E_INVAL
                 else if n = 0 then int (length v) else int (min n (length v)),
                 Some (got (replicate n 0) n v), sys\<lparr>registry_value := rec\<rparr>))"
    "rec_buf registry_config rec"
    using registry_get_ok [OF ready_D(1) [OF rdy] z, of "of_nat n" "replicate n 0" "[]"] ok
    unfolding n n0 by auto
  show ?thesis
    using g ready_buffers(1) [OF rdy g(2)]
    by (cases "registry_map sys s")
       (auto intro!: query_refines simp: store_maps got_def)
qed

lemma reg_delete_refines:
  assumes rdy: "system_ready sys" and ok: "sop_ok (RegDelete s)"
  shows "refines (RegDelete s) sys"
proof -
  have z: "0 \<notin> set s" using ok by simp
  note D = ready_D [OF rdy]
  obtain sys' where st: "registry_value_delete (Some (s @ 0 # [])) sys =
      Some (if registry_map sys s = None then E_NOTFOUND else EOK, sys')" "registry_inv sys'"
    "registry_map sys' = (\<lambda>t. if key24 t = key24 s then None else registry_map sys t)"
    "strtab_vol_inv sys'" "strtab_vol_map sys' = strtab_vol_map sys"
    using registry_delete_ok [OF D(1) z, of "[]"] D(4) by auto
  note oth = registry_delete_others [OF st(1)]
  have vi: "registry_vol_inv sys'" using st(2) by (simp add: registry_inv_def registry_vol_inv_def)
  have rdy': "system_ready sys'"
    using ready_kept [OF rdy, of sys'] oth st(2,4) D(7) vi by (simp add: registry_inv_def)
  have "snd (store_of sys') = snd (store_of sys)" using st(5) by (simp add: store_of_def)
  then show ?thesis
    using st(1) reg_store_upd [OF D(3) vi st(3)]
    by (intro refinesI [OF _ rdy', of _ _ "(if registry_map sys s = None then E_NOTFOUND else EOK, [])"])
       (auto simp: store_maps prod_eq_iff)
qed

lemma reg_valid_refines:
  assumes rdy: "system_ready sys" and ok: "sop_ok (RegValid s)"
  shows "refines (RegValid s) sys"
proof -
  have z: "0 \<notin> set s" using ok by simp
  obtain rec where g: "registry_value_valid (Some (s @ [0])) sys =
      Some (registry_map sys s \<notin> {None, Some []}, sys\<lparr>registry_value := rec\<rparr>)" "rec_buf registry_config rec"
    using registry_valid_ok [OF ready_D(1) [OF rdy] z] by blast
  show ?thesis
    using g ready_buffers(1) [OF rdy g(2)]
    by (intro query_refines [of _ _ "(of_bool (registry_map sys s \<notin> {None, Some []}), [])" "sys\<lparr>registry_value := rec\<rparr>"])
       (auto simp: store_maps nonempty_def)
qed

lemma reg_length_refines:
  assumes rdy: "system_ready sys" and ok: "sop_ok (RegLength s)"
  shows "refines (RegLength s) sys"
proof -
  have z: "0 \<notin> set s" using ok by simp
  obtain rec where g: "registry_value_length (Some (s @ [0])) sys =
      Some (case registry_map sys s of None \<Rightarrow> EFAIL | Some v \<Rightarrow> int (length v),
            sys\<lparr>registry_value := rec\<rparr>)" "rec_buf registry_config rec"
    using registry_length_ok [OF ready_D(1) [OF rdy] z] by blast
  show ?thesis
    using g ready_buffers(1) [OF rdy g(2)]
    by (auto intro!: query_refines simp: store_maps)
qed

lemma str_set_refines:
  assumes rdy: "system_ready sys"
  shows "refines (StrSet k v) sys"
proof (cases "length v \<le> 500")
  case False
  then have "sys_step (StrSet k v) sys = Some ((E_PARM, []), sys)"
    using strtab_loaded [OF ready_D(4) [OF rdy]] by (simp add: strtab_set_def STRTAB_LENGT_MAX_def)
  from query_refines [OF this rdy] False show ?thesis by simp
next
  case True
  note D = ready_D [OF rdy]
  have cp: "strncpy v (nat (int (length v))) = Some (upto_nul (length v) v)"
    by (simp add: strncpy_upto_nul)
  obtain res sys' where st: "strtab_set k (Some v) (int (length v)) sys = Some (res, sys')" "strtab_inv sys'"
    "if 59 \<le> strtab_count sys then res = EFAIL \<and> strtab_map sys' = strtab_map sys
     else res = EOK \<and> strtab_map sys' = (strtab_map sys)(ucast k \<mapsto> upto_nul (length v) v)"
    "registry_vol_inv sys'" "registry_map sys' = registry_map sys"
    using strtab_set_ok [OF D(2) _ _ cp, of k] True D(3) by auto
  note oth = strtab_set_others [OF st(1)]
  have vi: "strtab_vol_inv sys'" using st(2) by (simp add: strtab_inv_def)
  have rdy': "system_ready sys'"
    using ready_kept [OF rdy, of sys'] oth st(2,4) D(6) vi by (simp add: strtab_inv_def)
  have "fst (store_of sys') = fst (store_of sys)" by (rule reg_store_same [OF D(3) st(4,5)])
  moreover have "if 59 \<le> strtab_count sys then res = EFAIL \<and> snd (store_of sys') = snd (store_of sys)
     else res = EOK \<and> snd (store_of sys') = (snd (store_of sys))(le32 (ucast k) \<mapsto> upto_nul (length v) v)"
    using st(3) str_store_upd [OF D(4) vi] str_store_same [OF D(4) vi] by simp
  ultimately show ?thesis
    using st(1) True
    by (intro refinesI [OF _ rdy', of _ _ "(res, [])"]) (auto simp: store_maps prod_eq_iff split: if_splits)
qed

lemma str_get_refines:
  assumes rdy: "system_ready sys"
  shows "refines (StrGet k n) sys"
proof -
  have "min (nat (int n)) 500 \<le> length (replicate n (0 :: u8))" by simp
  from strtab_get_ok [OF ready_D(2) [OF rdy] of_nat_0_le_iff this, of k]
  obtain rec where g: "strtab_get k (Some (replicate n 0)) (int n) sys =
      Some (case strtab_map sys (ucast k) of
              None \<Rightarrow> (E_NOTFOUND, Some (replicate n 0), sys\<lparr>strtab_buffer := rec\<rparr>)
            | Some v \<Rightarrow>
                if v = [] then (E_INVAL, Some (replicate n 0), sys\<lparr>strtab_buffer := rec\<rparr>)
                else (int (length v), Some (upto_nul (min n (length v)) v @ drop (min n (length v)) (replicate n 0)),
                      sys\<lparr>strtab_buffer := rec\<rparr>))" "rec_buf strtab_config rec"
    unfolding nat_int by blast
  note rdy' = ready_buffers(2) [OF rdy g(2)]
  show ?thesis
  proof (cases "strtab_map sys (ucast k)")
    case None
    then show ?thesis using g rdy' by (auto intro!: query_refines simp: store_maps)
  next
    case (Some v)
    have "n - min n (length v) = n - length v" by simp
    then show ?thesis
      using Some g rdy' by (cases "v = []") (auto intro!: query_refines simp: store_maps)
  qed
qed


section \<open>Substitution\<close>

text \<open>The handlers fulfil the contract of the parser, and leave the two maps alone.\<close>

lemma word_value_buffers:
  "word_value (sys\<lparr>registry_value := rec\<rparr>) = word_value sys"
  "word_value (sys\<lparr>strtab_buffer := rec\<rparr>) = word_value sys"
proof -
  have s: "strtab_map (sys\<lparr>registry_value := rec\<rparr>) = strtab_map sys"
    "strtab_map (sys\<lparr>strtab_buffer := rec\<rparr>) = strtab_map sys"
    "registry_map (sys\<lparr>strtab_buffer := rec\<rparr>) = registry_map sys"
    by (simp_all add: registry_map_def strtab_map_def strtab_vol_map_def fun_eq_iff)
  show "word_value (sys\<lparr>registry_value := rec\<rparr>) = word_value sys"
    "word_value (sys\<lparr>strtab_buffer := rec\<rparr>) = word_value sys"
    by (intro ext, simp only: word_value_def s registry_map_buffer)+
qed

definition still :: "system \<Rightarrow> system \<Rightarrow> bool" where
  "still st sys \<longleftrightarrow> system_ready sys \<and> store_of sys = store_of st \<and> others_kept st sys"

lemma still_buffers:
  "still st sys \<Longrightarrow> rec_buf registry_config rec \<Longrightarrow> still st (sys\<lparr>registry_value := rec\<rparr>)"
  "still st sys \<Longrightarrow> rec_buf strtab_config rec' \<Longrightarrow> still st (sys\<lparr>strtab_buffer := rec'\<rparr>)"
  by (simp_all add: still_def ready_buffers others_kept_def)

interpretation sub: substitution run_lookup word_value word_fits "still st" for st
proof unfold_locales
  fix g :: system and m str c v t cb off
  assume a: "still st g" "m < length str" "0 \<notin> set (take m str)" "word_fits c (take m str) (str ! m)"
    "word_value g c (take m str) = Some v"
  have rdy: "system_ready g" using a(1) by (simp add: still_def)
  show "length v < 2 ^ 31 \<and>
    (\<exists>g' r. run_lookup c cb str m off (t, g) = cb (v @ r) (of_nat (length v)) off (t, g') \<and>
       still st g' \<and> word_value g' = word_value g)"
  proof (cases c)
    case Registry_strsub_cb
    then have "m \<le> 24" "nonempty (registry_map g (take m str)) = Some v"
      using a(2,4,5) by (simp_all add: word_fits_def word_value_def)
    with registry_strsub_lookup [OF ready_D(3) [OF rdy] a(2,3), of cb off t]
    obtain rec r where "rec_buf registry_config rec" "length v \<le> 224"
      "registry_strsub_cb cb str m off (t, g) = cb (v @ r) (of_nat (length v)) off (t, g\<lparr>registry_value := rec\<rparr>)"
      by blast
    with still_buffers(1) [OF a(1)] show ?thesis
      unfolding Registry_strsub_cb run_lookup_def lookup_fn.case
      by (intro conjI exI [of _ "g\<lparr>registry_value := rec\<rparr>"] exI [of _ r])
         (simp_all add: word_value_buffers)
  next
    case Strtab_strsub_cb
    then have f: "word_fits Strtab_strsub_cb (take m str) (str ! m)"
      "word_value g Strtab_strsub_cb (take m str) = Some v" using a(4,5) by simp_all
    from strtab_strsub_lookup [OF ready_D(4,7) [OF rdy] a(2,3) f(1), of cb off t] f(2)
    obtain rec r where "rec_buf strtab_config rec" "length v \<le> 500"
      "strtab_strsub_cb cb str m off (t, g) = cb (v @ r) (of_nat (length v)) off (t, g\<lparr>strtab_buffer := rec\<rparr>)"
      by blast
    with still_buffers(2) [OF a(1)] show ?thesis
      unfolding Strtab_strsub_cb run_lookup_def lookup_fn.case
      by (intro conjI exI [of _ "g\<lparr>strtab_buffer := rec\<rparr>"] exI [of _ r])
         (simp_all add: word_value_buffers)
  qed
next
  fix g :: system and m str c t cb off
  assume a: "still st g" "m < length str" "0 \<notin> set (take m str)" "word_fits c (take m str) (str ! m)"
    "word_value g c (take m str) = None"
  have rdy: "system_ready g" using a(1) by (simp add: still_def)
  show "\<exists>g' res. run_lookup c cb str m off (t, g) = Some (res, (t, g')) \<and> res < 0 \<and>
     still st g' \<and> word_value g' = word_value g"
  proof (cases c)
    case Registry_strsub_cb
    then have "m \<le> 24" "nonempty (registry_map g (take m str)) = None"
      using a(2,4,5) by (simp_all add: word_fits_def word_value_def)
    with registry_strsub_lookup [OF ready_D(3) [OF rdy] a(2,3), of cb off t]
    obtain rec res where "rec_buf registry_config rec" "res < 0"
      "registry_strsub_cb cb str m off (t, g) = Some (res, t, g\<lparr>registry_value := rec\<rparr>)"
      by blast
    with still_buffers(1) [OF a(1)] show ?thesis
      unfolding Registry_strsub_cb run_lookup_def lookup_fn.case
      by (intro exI [of _ "g\<lparr>registry_value := rec\<rparr>"] exI [of _ res]) (simp add: word_value_buffers)
  next
    case Strtab_strsub_cb
    then have f: "word_fits Strtab_strsub_cb (take m str) (str ! m)"
      "word_value g Strtab_strsub_cb (take m str) = None" using a(4,5) by simp_all
    from strtab_strsub_lookup [OF ready_D(4,7) [OF rdy] a(2,3) f(1), of cb off t] f(2)
    obtain rec res where "rec_buf strtab_config rec" "res < 0"
      "strtab_strsub_cb cb str m off (t, g) = Some (res, t, g\<lparr>strtab_buffer := rec\<rparr>)"
      by blast
    with still_buffers(2) [OF a(1)] show ?thesis
      unfolding Strtab_strsub_cb run_lookup_def lookup_fn.case
      by (intro exI [of _ "g\<lparr>strtab_buffer := rec\<rparr>"] exI [of _ res]) (simp add: word_value_buffers)
  qed
qed

lemma ready_inst: "system_ready sys \<Longrightarrow> ss_inst (sys_strsub sys) = running_inst"
  by (simp add: system_ready_def)

text \<open>The words that the handlers of the running program know are those of the store.\<close>

lemma ready_lookup_in:
  assumes "system_ready sys" "k < 3"
  shows "sub.lookup_in (sys_strsub sys) running_lists sys k w = store_value (store_of sys) k w"
proof -
  obtain r t where st: "store_of sys = (r, t)" by fastforce
  have "nonempty (case r (key24 w) of None \<Rightarrow> None | Some v \<Rightarrow> Some v) = nonempty (r (key24 w))" for r :: "u8 list \<Rightarrow> u8 list option"
    by (cases "r (key24 w)") simp_all
  moreover have "first_some f [a] = f a" for f :: "nat \<Rightarrow> u8 list option" and a
    by (simp split: option.split)
  ultimately show ?thesis
    using assms(2) ready_lists(2,3) [OF assms(1)] store_maps(1,2) [OF st]
    by (auto simp: sub.lookup_in_def running_lists_def store_value_def st word_value_def less_Suc_eq
        numeral_3_eq_3 numeral_2_eq_2 simp del: first_some.simps(2) split: option.split)
qed

lemma pieces_token:
  "Sub k w \<in> set (pieces i s) \<Longrightarrow> k < 3"
proof (induction i s rule: pieces.induct)
  case (1 i)
  then show ?case by simp
next
  case (2 i c cs)
  have o: "opener i c = Some k' \<Longrightarrow> k' < 3" for k'
    by (auto simp: opener_def split: if_splits)
  show ?case
  proof (cases "ss_escape i \<noteq> 0 \<and> c = ss_escape i")
    case True
    then show ?thesis using "2.prems" "2.IH"(1) by (cases cs) (auto simp: pieces.simps(2))
  next
    case False
    show ?thesis
    proof (cases "opener i c")
      case None
      then show ?thesis using "2.prems" "2.IH"(2) False by (auto simp: pieces.simps(2))
    next
      case (Some k')
      then show ?thesis
        using "2.prems" "2.IH"(3) [OF False Some] False o [OF Some]
        by (cases "dropWhile (\<lambda>x. x \<noteq> closer i k') cs")
           (auto simp: pieces.simps(2) simp del: dropWhile_eq_Nil_conv)
    qed
  qed
qed

lemma render_store:
  assumes "system_ready sys"
  shows "expand running_inst (sub.lookup_in (sys_strsub sys) running_lists sys) s =
    expand running_inst (store_value (store_of sys)) s"
proof -
  have "render running_inst (sub.lookup_in (sys_strsub sys) running_lists sys) p =
      render running_inst (store_value (store_of sys)) p" if "p \<in> set (pieces running_inst s)" for p
  proof (cases p)
    case (Sub k w)
    then have "k < 3" using that pieces_token by blast
    from ready_lookup_in [OF assms this] show ?thesis by (simp add: render_def Sub)
  qed (simp add: render_def)
  then show ?thesis by (simp add: expand_def cong: map_cong)
qed

text \<open>The words of a text are such that every handler of their token can be given them.\<close>

definition text_ok :: "u8 list \<Rightarrow> bool" where
  "text_ok s \<longleftrightarrow>
     0 \<notin> set s \<and> length s < 2 ^ 30 \<and>
     (\<forall>p \<in> set (pieces running_inst s). \<forall>k w. p = Sub k w \<longrightarrow>
        (k = 0 \<longrightarrow> length w \<le> 24) \<and> (k = 2 \<longrightarrow> scan_uint (w @ [62]) \<noteq> None))"

lemma text_ok_facts:
  assumes rdy: "system_ready sys" and ok: "text_ok s"
  shows "src_len (s @ [0]) 0 = Some (of_nat (length s))"
    "s = src_text (s @ [0]) (unat (of_nat (length s) :: u32))"
    "length s < length (s @ [0])" "length s < 2 ^ 30"
    "sub.words_fit (sys_strsub sys) running_lists (pieces (ss_inst (sys_strsub sys)) s)"
    "expand running_inst (store_value (store_of sys)) s =
      expand (ss_inst (sys_strsub sys)) (sub.lookup_in (sys_strsub sys) running_lists sys) s"
    "still sys sys"
proof -
  have z: "0 \<notin> set s" "length s < 2 ^ 30" using ok by (simp_all add: text_ok_def)
  show "length s < length (s @ [0])" "length s < 2 ^ 30" using z by simp_all
  show "src_len (s @ [0]) 0 = Some (of_nat (length s))"
    using cstr_terminated [OF z(1), of "[]"] by (simp add: src_len_def)
  have m: "unat (of_nat (length s) :: u32) = length s" using z(2) by (intro unat_of_nat_u32) simp
  show "s = src_text (s @ [0]) (unat (of_nat (length s) :: u32))"
    unfolding m using z(1) by (simp add: src_text_def takeWhile_no_NUL)
  show "sub.words_fit (sys_strsub sys) running_lists (pieces (ss_inst (sys_strsub sys)) s)"
    using ok ready_lists(2,3) [OF rdy] pieces_token [of _ _ running_inst s]
    by (fastforce simp: text_ok_def sub.words_fit_def ready_inst [OF rdy] running_lists_def word_fits_def
        less_Suc_eq numeral_3_eq_3 numeral_2_eq_2 closer_def running_inst_def STRSUB_HANDLERS_TOKENS_def)
  show "expand running_inst (store_value (store_of sys)) s =
      expand (ss_inst (sys_strsub sys)) (sub.lookup_in (sys_strsub sys) running_lists sys) s"
    unfolding ready_inst [OF rdy] by (rule render_store [OF rdy, symmetric])
  show "still sys sys" using rdy by (simp add: still_def others_kept_def)
qed

text \<open>The length of the text may be given, or found by its terminator.\<close>

lemma substitute_len:
  assumes "system_ready sys" "text_ok s" and len: "len = 0 \<or> len = of_nat (length s)"
    and n: "0 < n" "n \<le> 2 ^ 31" "n \<le> length dst"
  defines "x \<equiv> expand running_inst (store_value (store_of sys)) s"
  shows "\<exists>sys'. strsub_parse_string_to run_lookup (sys_strsub sys) (Some (s @ [0])) len (Some dst) (of_nat n) sys =
      Some (of_nat (min (length x) (n - 1)), emitted (0 # tl dst) (n - 1) (x @ [0]), sys') \<and>
    system_ready sys' \<and> store_of sys' = store_of sys \<and> sys_shell sys' = sys_shell sys"
proof -
  note F = text_ok_facts [OF assms(1,2)]
  have l: "src_len (s @ [0]) len = Some (of_nat (length s))"
    using F(1) len by (auto simp: src_len_def)
  have u: "unat (of_nat n :: u32) = Suc (n - 1)" using n by (subst unat_of_nat_u32) simp_all
  have "n - 1 < 2 ^ 31" "Suc (n - 1) \<le> length dst" using n by simp_all
  from sub.parse_string_to_ok [OF ready_lists(1) [OF assms(1)] l F(2-4,7,5) F(6) u this(2,1)]
  show ?thesis by (auto simp: x_def still_def others_kept_def)
qed

lemmas substitute_to = substitute_len [OF _ _ disjI1 [OF refl]]

lemma substitute_length:
  assumes "system_ready sys" "text_ok s"
  defines "x \<equiv> expand running_inst (store_value (store_of sys)) s"
  assumes "Suc (length x) < 2 ^ 31"
  shows "\<exists>sys'. strsub_parse_get_dst_length run_lookup (sys_strsub sys) (Some (s @ [0])) 0 sys =
      Some (of_nat (Suc (length x)), sys') \<and> system_ready sys' \<and> store_of sys' = store_of sys"
proof -
  note F = text_ok_facts [OF assms(1,2)]
  from sub.get_dst_length_ok [OF ready_lists(1) [OF assms(1)] F(1-4,7,5) F(6)] assms(4)
  show ?thesis by (auto simp: x_def still_def)
qed

lemma substitute_refines:
  assumes rdy: "system_ready sys" and ok: "sop_ok (Substitute s n)"
  shows "refines (Substitute s n) sys"
proof -
  have z: "text_ok s" "0 < n" "n \<le> 2 ^ 31" "n \<le> length (replicate n (0 :: u8))"
    using ok by (simp_all add: text_ok_def)
  let ?x = "expand running_inst (store_value (store_of sys)) s"
  obtain sys' where st: "strsub_parse_string_to run_lookup (sys_strsub sys) (Some (s @ [0])) 0
      (Some (replicate n 0)) (of_nat n) sys =
      Some (of_nat (min (length ?x) (n - 1)), emitted (0 # tl (replicate n 0)) (n - 1) (?x @ [0]), sys')"
    "system_ready sys'" "store_of sys' = store_of sys"
    using substitute_to [OF rdy z] by blast
  have "unat (of_nat (min (length ?x) (n - 1)) :: u32) = min (length ?x) (n - 1)"
    using z(3) by (intro unat_of_nat_u32) simp
  then have "uint (of_nat (min (length ?x) (n - 1)) :: u32) = int (min (length ?x) (n - 1))"
    by (simp only: uint_nat)
  moreover have "0 # tl (replicate n 0) = replicate n (0 :: u8)" using z(2) by (cases n) simp_all
  ultimately have step: "sys_step (Substitute s n) sys =
      Some ((int (min (length ?x) (n - 1)), emitted (replicate n 0) (n - 1) (?x @ [0])), sys')"
    using st(1) by simp
  from query_refines [OF step st(2,3)] show ?thesis by (auto simp: Let_def)
qed

section \<open>The start, and any sequence of calls\<close>

text \<open>
  What the registry's start and the string table's initialisation leave in the instance of the
  substitution module.
\<close>

lemma registry_start_strsub:
  "registry_start sys = Some (res, sys') \<Longrightarrow>
   sys_strsub sys' = snd (strsub_install_handler StrsubToken1 registry_handler Registry_strsub_cb (sys_strsub sys)) \<and>
   strtab_buffer sys' = strtab_buffer sys \<and> registry_value sys' = registry_value sys"
  by (cases "strsub_install_handler StrsubToken1 registry_handler Registry_strsub_cb (sys_strsub sys)")
     (auto simp: registry_start_def bind_eq_Some_conv Let_def)

lemma strtab_start_value:
  "strtab_start sys = Some (res, sys') \<Longrightarrow> registry_value sys' = registry_value sys"
  by (auto simp: strtab_start_def bind_eq_Some_conv Let_def)

lemma power_on_linked: "linked (power_on m h) [[], [], []] []"
  using power_on_installed [of m h]
  by (simp add: linked_def strsub_lists_def power_on_def strsub_default_def less_Suc_eq numeral_3_eq_3)

lemma power_on_buffers:
  "rec_buf registry_config (registry_value (power_on m h))"
  "rec_buf strtab_config (strtab_buffer (power_on m h))"
  "sys_dev (power_on m h) = m" "sys_heap (power_on m h) = h"
  by (simp_all add: power_on_def rec_buf_def zero_head_def)

lemma boot_ready:
  assumes r: "registry_start (power_on m h) = Some (res, sys1)" "registry_inv sys1"
      "linked sys1 [[registry_handler], [], []] [registry_cmds]"
    and t: "strtab_start (snd (strtab_init sys1)) = Some (res', sys2)" "strtab_inv sys2"
      "registry_vol_inv sys2" "installed (sys_shell sys2) [registry_cmds, strtab_cmds]"
      "sys_strsub sys2 = sys_strsub (snd (strtab_init sys1))"
  shows "system_boot (power_on m h) = Some sys2" "system_ready sys2"
proof -
  obtain st si where i: "strtab_init sys1 = (st, si)" by fastforce
  show "system_boot (power_on m h) = Some sys2"
    using r(1) t(1) i by (simp add: system_boot_def Let_def)
  have ss: "sys_strsub sys2 = snd (strsub_install_handler StrsubToken3 strtab_handler Strtab_strsub_cb (sys_strsub sys1))"
    using t(5) by (simp add: strtab_init_def Let_def split: prod.split)
  have v: "registry_value sys2 = registry_value (power_on m h)"
    using strtab_start_value [OF t(1)] registry_start_strsub [OF r(1)]
    by (simp add: strtab_init_def Let_def split: prod.split)
  have "ss_inst (sys_strsub sys2) = running_inst \<and>
     ss_nodes (sys_strsub sys2) registry_handler = \<lparr>hd_next = None, hd_cb = Registry_strsub_cb\<rparr> \<and>
     ss_nodes (sys_strsub sys2) strtab_handler = \<lparr>hd_next = None, hd_cb = Strtab_strsub_cb\<rparr>"
    using registry_start_strsub [OF r(1)]
    by (simp add: ss strsub_install_handler_def power_on_def strsub_default_def Let_def set_head_def
        set_node_def running_inst_def registry_handler_def strtab_handler_def)
  then show "system_ready sys2"
    using t(2-4) power_on_buffers(1) [of m h]
    by (simp add: system_ready_def registry_inv_def registry_vol_inv_def strtab_inv_def v)
qed

lemma strtab_init_vols:
  "sys_dev (snd (strtab_init sys)) = sys_dev sys" "sys_heap (snd (strtab_init sys)) = sys_heap sys"
  "str_vol (snd (strtab_init sys)) = str_vol sys" "reg_vol (snd (strtab_init sys)) = reg_vol sys"
  "sys_shell (snd (strtab_init sys)) = sys_shell sys" "strtab_buffer (snd (strtab_init sys)) = strtab_buffer sys"
  "registry_map (snd (strtab_init sys)) = registry_map sys"
  by (simp_all add: strtab_init_def str_vol_def reg_vol_def registry_map_def Let_def fun_eq_iff split: prod.split)

lemma lists_after_start:
  "[[], [], []][0 := registry_handler # [[], [], []] ! 0] = [[registry_handler], [], []]" "[] @ [x] = [x]"
  by simp_all

text \<open>The start of the registry keeps to its part of the device.\<close>

lemma registry_start_dev:
  assumes "registry_start sys = Some (res, sys')" "65536 \<le> x" "x < 131071"
  shows "sys_dev sys' x = sys_dev sys x"
proof -
  obtain valid v where v: "nvol3_validate registry_config (reg_vol sys) = Some valid"
    "(if valid \<noteq> EOK then nvol3_reset registry_config (reg_vol sys)
      else nvol3_load registry_config (reg_vol sys)) = Some (res, v)" "sys_dev sys' = dev v"
    using assms(1)
    by (cases "strsub_install_handler StrsubToken1 registry_handler Registry_strsub_cb (sys_strsub sys)")
       (auto simp: registry_start_def bind_eq_Some_conv Let_def)
  then have "reg.framed (reg_vol sys) v"
    using reg.reset_framed reg.load_framed by (cases "valid = EOK") simp_all
  then show ?thesis
    using assms(2,3) v(3) by (simp add: reg.framed_def reg.outside_def sectors_reg ram_mem_def)
qed

lemma strtab_inv_dev:
  assumes "strtab_inv old" "\<And>x. 65536 \<le> x \<Longrightarrow> x < 131071 \<Longrightarrow> m x = sys_dev old x"
  shows "strtab_inv (old\<lparr>sys_dev := m\<rparr>)" "strtab_vol_map (old\<lparr>sys_dev := m\<rparr>) = strtab_vol_map old"
proof -
  let ?s = "str_vol old" and ?s' = "str_vol (old\<lparr>sys_dev := m\<rparr>)"
  have inv: "nvol_inv ram_mem strtab_config ?s" using assms(1) by (simp add: strtab_inv_def strtab_vol_inv_def)
  have m: "ram_mem (dev ?s') x = ram_mem (dev ?s) x"
    if "sec \<in> sectors strtab_config" "unat sec \<le> x" "x < unat sec + (32 + rsz strtab_config * mxr strtab_config)"
    for sec x
    using that assms(2) by (auto simp: sectors_str ram_mem_def)
  have e: "inst ?s' = inst ?s" "heap_le (hp ?s) (hp ?s')" by simp_all
  have "nvol_inv ram_mem strtab_config ?s'" by (rule nvol_inv_frame(1) [OF inv e]) (rule m)
  then show "strtab_inv (old\<lparr>sys_dev := m\<rparr>)"
    using assms(1) by (simp add: strtab_inv_def strtab_vol_inv_def)
  show "strtab_vol_map (old\<lparr>sys_dev := m\<rparr>) = strtab_vol_map old"
    unfolding strtab_vol_map_def by (rule nvol_inv_frame(2) [OF inv e]) (rule m)
qed

text \<open>After a restart both modules hold what they held before.\<close>

lemma restart_ready:
  assumes rdy: "system_ready old" and h: "plenty h"
  shows "\<exists>sys. system_boot (power_on (sys_dev old) h) = Some sys \<and> system_ready sys \<and>
    store_of sys = store_of old"
proof -
  note D = ready_D [OF rdy]
  let ?on = "power_on (sys_dev old) h"
  have p: "plenty (sys_heap ?on)" "sys_dev ?on = sys_dev old" using h by (simp_all add: power_on_buffers)
  have e: "registry_handler \<notin> set ([[], [], []] ! k)" if "k < 3" for k
    using that by (auto simp: less_Suc_eq numeral_3_eq_3)
  from registry_restart [OF power_on_linked _ _ D(1) p(2,1) power_on_buffers(1)] e
  obtain sys1 where r: "registry_start ?on = Some (EOK, sys1)" "registry_inv sys1"
    "registry_map sys1 = registry_map old" "linked sys1 [[registry_handler], [], []] [registry_cmds]"
    unfolding lists_after_start by auto
  let ?i = "snd (strtab_init sys1)" and ?old = "old\<lparr>sys_dev := sys_dev sys1\<rparr>"
  note iv = strtab_init_vols [of sys1]
  have dv: "sys_dev sys1 x = sys_dev old x" if "65536 \<le> x" "x < 131071" for x
    using registry_start_dev [OF r(1) that] p(2) by simp
  note o = strtab_inv_dev [OF D(2) dv]
  have sh: "installed (sys_shell ?i) [registry_cmds]" "strtab_cmds \<notin> set [registry_cmds]"
    using r(4) by (simp_all add: iv linked_def registry_cmds_def strtab_cmds_def)
  have n: "plenty (sys_heap ?i)" "rec_buf strtab_config (strtab_buffer ?i)"
    "sys_dev ?i = sys_dev ?old"
    using r(2) registry_start_strsub [OF r(1)] power_on_buffers(2) [of "sys_dev old" h]
    by (simp_all add: iv registry_inv_def)
  have vi: "registry_vol_inv ?i" using r(2) by (simp add: registry_inv_def registry_vol_inv_def iv)
  from strtab_restart [OF sh o(1) n(3,1,2)] vi
  obtain sys2 where t: "strtab_start ?i = Some (EOK, sys2)" "strtab_inv sys2"
    "strtab_map sys2 = strtab_map ?old" "installed (sys_shell sys2) [registry_cmds, strtab_cmds]"
    "sys_strsub sys2 = sys_strsub ?i" "registry_vol_inv sys2" "registry_map sys2 = registry_map sys1"
    by (auto simp: iv)
  note b = boot_ready [OF r(1,2,4) t(1,2,6,4,5)]
  have "strtab_map sys2 = strtab_map old"
    using t(3) o(2) by (simp add: strtab_map_def fun_eq_iff)
  then have "store_of sys2 = store_of old"
    using reg_store_same [OF D(3) t(6)] str_store_same [OF D(4), of sys2] t(2,7) r(3)
    by (simp add: prod_eq_iff strtab_inv_def)
  with b show ?thesis by blast
qed

lemma restart_refines: "system_ready sys \<Longrightarrow> refines Restart sys"
proof -
  assume rdy: "system_ready sys"
  obtain sys' where s: "system_boot (power_on (sys_dev sys) (sys_heap sys)) = Some sys'" "system_ready sys'"
    "store_of sys' = store_of sys"
    using restart_ready [OF rdy ready_D(5) [OF rdy]] by blast
  have "sys_step Restart sys = Some ((EOK, []), sys')" using s(1) by simp
  from query_refines [OF this s(2,3)] show ?thesis by simp
qed

lemma step_refines: "system_ready sys \<Longrightarrow> sop_ok op \<Longrightarrow> refines op sys"
  by (cases op)
     (blast intro: reg_set_refines reg_get_refines reg_delete_refines reg_valid_refines
       reg_length_refines str_set_refines str_get_refines substitute_refines restart_refines)+

lemma step_result:
  assumes "system_ready sys" "sop_ok op"
  obtains sys' where "sys_step op sys = Some (fst (store_step op (store_of sys)), sys')"
    "system_ready sys'" "store_of sys' = snd (store_step op (store_of sys))"
  using step_refines [OF assms] by (auto simp: refines_def)

lemma run_refines:
  assumes "system_ready sys" "list_all sop_ok ops"
  shows "\<exists>rs sys'. sys_run ops sys = Some (rs, sys') \<and> system_ready sys' \<and>
    store_run ops (store_of sys) = (rs, store_of sys')"
  using assms
proof (induction ops arbitrary: sys)
  case Nil
  then show ?case by simp
next
  case (Cons op ops)
  then obtain r sys1 where s: "sys_step op sys = Some (r, sys1)" "system_ready sys1"
    "store_step op (store_of sys) = (r, store_of sys1)"
    using step_refines [of sys op] by (auto simp: refines_def)
  from Cons.IH [OF s(2)] Cons.prems(2) s show ?case by auto
qed

section \<open>The first start\<close>

text \<open>A device without valid volumes is formatted.\<close>

lemma first_boot:
  assumes h: "plenty h"
    and bad: "nvol3_validate registry_config (reg_vol (power_on m h)) \<noteq> Some EOK"
      "\<And>sys. (\<And>x. 65536 \<le> x \<Longrightarrow> x < 131071 \<Longrightarrow> sys_dev sys x = m x) \<Longrightarrow> nvol3_validate strtab_config (str_vol sys) \<noteq> Some EOK"
  shows "\<exists>sys. system_boot (power_on m h) = Some sys \<and> system_ready sys \<and>
    store_of sys = (Map.empty, Map.empty)"
proof -
  let ?on = "power_on m h"
  have p: "plenty (sys_heap ?on)" using h by (simp add: power_on_buffers)
  have e: "registry_handler \<notin> set ([[], [], []] ! k)" if "k < 3" for k
    using that by (auto simp: less_Suc_eq numeral_3_eq_3)
  from registry_format [OF power_on_linked _ _ bad(1) p power_on_buffers(1)] e
  obtain sys1 where r: "registry_start ?on = Some (EOK, sys1)" "registry_inv sys1"
    "registry_map sys1 = (\<lambda>s. None)" "linked sys1 [[registry_handler], [], []] [registry_cmds]"
    unfolding lists_after_start by auto
  let ?i = "snd (strtab_init sys1)"
  note iv = strtab_init_vols [of sys1]
  have dv: "sys_dev sys1 x = m x" if "65536 \<le> x" "x < 131071" for x
    using registry_start_dev [OF r(1) that] by (simp add: power_on_buffers)
  have sh: "installed (sys_shell ?i) [registry_cmds]" "strtab_cmds \<notin> set [registry_cmds]"
    using r(4) by (simp_all add: iv linked_def registry_cmds_def strtab_cmds_def)
  have n: "plenty (sys_heap ?i)" "rec_buf strtab_config (strtab_buffer ?i)"
    using r(2) registry_start_strsub [OF r(1)] power_on_buffers(2) [of m h]
    by (simp_all add: iv registry_inv_def)
  have vi: "registry_vol_inv ?i" using r(2) by (simp add: registry_inv_def registry_vol_inv_def iv)
  have "nvol3_validate strtab_config (str_vol ?i) \<noteq> Some EOK" using bad(2) [of ?i] dv by (simp add: iv)
  then obtain valid where va: "nvol3_validate strtab_config (str_vol ?i) = Some valid" "valid \<noteq> EOK"
    by (simp add: str.validate_result Let_def split: if_splits)
  from strtab_format [OF sh va n] vi
  obtain sys2 where t: "strtab_start ?i = Some (EOK, sys2)" "strtab_inv sys2"
    "strtab_map sys2 = (\<lambda>n. None)" "installed (sys_shell sys2) [registry_cmds, strtab_cmds]"
    "sys_strsub sys2 = sys_strsub ?i" "registry_vol_inv sys2" "registry_map sys2 = registry_map sys1"
    by (auto simp: iv)
  note b = boot_ready [OF r(1,2,4) t(1,2,6,4,5)]
  have "fst (store_of sys2) = Map.empty" by (rule ext) (simp add: reg_store [OF t(6)] t(7) r(3))
  moreover have "snd (store_of sys2) = Map.empty"
    using t(2) by (intro ext) (simp add: str_store strtab_inv_def t(3))
  ultimately show ?thesis using b by (auto simp: prod_eq_iff)
qed

section \<open>The commands of the shell\<close>

text \<open>The start of the program links the lists of the commands and changes none of them.\<close>

definition init_static :: "corshell_cmd list \<Rightarrow> system \<Rightarrow> system" where
  "init_static section sys = sys\<lparr>sys_shell := snd (corshell_init section (sys_shell sys))\<rparr>"

lemma shell_vols [simp]:
  "reg_vol (sys\<lparr>sys_shell := sh\<rparr>) = reg_vol sys" "str_vol (sys\<lparr>sys_shell := sh\<rparr>) = str_vol sys"
  by (simp_all add: reg_vol_def str_vol_def)

lemma init_static_vols [simp]:
  "reg_vol (init_static section sys) = reg_vol sys" "str_vol (init_static section sys) = str_vol sys"
  "set_reg_vol v (init_static section sys) = init_static section (set_reg_vol v sys)"
  "set_str_vol v (init_static section sys) = init_static section (set_str_vol v sys)"
  "sys_strsub (init_static section sys) = sys_strsub sys"
  by (simp_all add: init_static_def reg_vol_def str_vol_def set_reg_vol_def set_str_vol_def)

lemma registry_start_init:
  "registry_start (init_static section sys) =
   map_option (\<lambda>(res, sys). (res, init_static section sys)) (registry_start sys)"
proof -
  have "corshell_install registry_cmds (sys_shell (set_reg_vol v (init_static section sys))) =
      map_option (\<lambda>sh. snd (corshell_init section sh))
        (corshell_install registry_cmds (sys_shell (set_reg_vol v sys)))" for v
    by (simp add: init_static_def set_reg_vol_def install_init)
  then show ?thesis
    by (cases "nvol3_validate registry_config (reg_vol sys)")
      (auto simp: registry_start_def init_static_def set_reg_vol_def Let_def map_option_bind
        bind_map_option o_def split: prod.splits intro!: Option.bind_cong [OF refl])
qed

lemma strtab_init_init:
  "strtab_init (init_static section sys) =
   (case strtab_init sys of (res, sys) \<Rightarrow> (res, init_static section sys))"
  by (simp add: strtab_init_def init_static_def Let_def split: prod.split)

lemma strtab_start_init:
  "strtab_start (init_static section sys) =
   map_option (\<lambda>(res, sys). (res, init_static section sys)) (strtab_start sys)"
proof -
  have "corshell_install strtab_cmds (sys_shell (set_str_vol v (init_static section sys))) =
      map_option (\<lambda>sh. snd (corshell_init section sh))
        (corshell_install strtab_cmds (sys_shell (set_str_vol v sys)))" for v
    by (simp add: init_static_def set_str_vol_def install_init)
  then show ?thesis
    by (cases "nvol3_validate strtab_config (str_vol sys)")
      (auto simp: strtab_start_def init_static_def set_str_vol_def Let_def map_option_bind
        bind_map_option o_def split: prod.splits intro!: Option.bind_cong [OF refl])
qed

lemma boot_init: "system_boot (init_static section sys) = map_option (init_static section) (system_boot sys)"
proof (cases "registry_start sys")
  case None
  then show ?thesis by (simp add: system_boot_def registry_start_init)
next
  case (Some a)
  obtain res sys1 where a: "a = (res, sys1)" by fastforce
  obtain st sys2 where i: "strtab_init sys1 = (st, sys2)" by fastforce
  show ?thesis
    by (cases "strtab_start sys2")
       (auto simp: system_boot_def registry_start_init strtab_init_init strtab_start_init Some a i Let_def)
qed

lemma boot_same:
  assumes "system_boot sys = Some sys'"
  shows "same_cmds (sys_shell sys) (sys_shell sys')"
proof -
  obtain res sys1 res' where r: "registry_start sys = Some (res, sys1)"
    "strtab_start (snd (strtab_init sys1)) = Some (res', sys')"
    using assms by (auto simp: system_boot_def bind_eq_Some_conv Let_def case_prod_beta)
  have "same_cmds (sys_shell sys) (sys_shell sys1)"
    by (cases "strsub_install_handler StrsubToken1 registry_handler Registry_strsub_cb (sys_strsub sys)")
       (use r(1) install_same [of registry_cmds] in
         \<open>auto simp: registry_start_def bind_eq_Some_conv Let_def set_reg_vol_def\<close>)
  moreover have "same_cmds (sys_shell (snd (strtab_init sys1))) (sys_shell sys')"
    using r(2) install_same [of strtab_cmds]
    by (auto simp: strtab_start_def bind_eq_Some_conv Let_def set_str_vol_def split: prod.splits)
  ultimately show ?thesis by (simp add: strtab_init_vols(5) same_cmds_def)
qed

lemma init_ready: "system_ready (init_static section sys) = system_ready sys"
  by (simp add: system_ready_def init_static_def registry_inv_def strtab_inv_def registry_vol_inv_def
      strtab_vol_inv_def)

lemma init_store: "store_of (init_static section sys) = store_of sys"
  by (simp add: store_of_def init_static_def strtab_vol_map_def)

end
