(* ===== verification/System_Props.thy ===== *)
theory System_Props
  imports System_Refine
begin

text \<open>
  The properties of the registry, the string table and string substitution in the running
  program.  The witnesses start the program on an erased device.
\<close>

unbundle bit_operations_syntax

section \<open>An erased device, and the program started on it\<close>

text \<open>No header of the four sectors is one that \<^verbatim>\<open>nvol3_validate\<close> takes for a volume.\<close>

definition unformatted :: "ramdrv \<Rightarrow> bool" where
  "unformatted m \<longleftrightarrow>
     list_all (\<lambda>sec. hdr_flags (header (ram_mem m) sec) \<notin>
        {NVOL3_SECTOR_INITIALIZING, NVOL3_SECTOR_VALID, NVOL3_SECTOR_INVALID}) [0, 32768, 65536, 98304]"

lemma sector_addrs [simp]:
  "c_sector1_addr registry_config = 0" "c_sector2_addr registry_config = 32768"
  "c_sector1_addr strtab_config = 65536" "c_sector2_addr strtab_config = 98304"
  by (simp_all add: registry_config_def strtab_config_def storage_defs)

lemma unformatted_boot:
  assumes "plenty h" "unformatted m"
  shows "\<exists>sys. system_boot (power_on m h) = Some sys \<and> system_ready sys \<and>
    store_of sys = (Map.empty, Map.empty)"
proof (rule first_boot [OF assms(1)])
  show "nvol3_validate registry_config (reg_vol (power_on m h)) \<noteq> Some EOK"
    using assms(2)
    by (auto simp: reg.validate_result Let_def unformatted_def power_on_buffers)
next
  fix sys :: system assume m: "\<And>x. 65536 \<le> x \<Longrightarrow> x < 131071 \<Longrightarrow> sys_dev sys x = m x"
  have "header (ram_mem (sys_dev sys)) 65536 = header (ram_mem m) 65536"
    "header (ram_mem (sys_dev sys)) 98304 = header (ram_mem m) 98304"
    using m by (simp_all add: header_def bytes_at_def ram_mem_def)
  then show "nvol3_validate strtab_config (str_vol sys) \<noteq> Some EOK"
    using assms(2) by (auto simp: str.validate_result Let_def unformatted_def)
qed

definition erased_dev :: ramdrv where "erased_dev = (\<lambda>x. - 1)"

definition good_heap :: heap where
  "good_heap = \<lparr>allocs = [], junk = (\<lambda>a i. of_nat (a + i)), next_addr = 0\<rparr>"

lemma good_heap_plenty: "plenty good_heap"
  by (simp add: good_heap_def plenty_def)

lemma erased_unformatted: "unformatted erased_dev"
proof -
  have "header (ram_mem erased_dev) sec = blank_header" for sec
    by (rule nth_equalityI) (simp_all add: header_def bytes_at_def ram_mem_def erased_dev_def blank_header_def)
  moreover have "hdr_flags blank_header = NVOL3_SECTOR_EMPTY"
    unfolding hdr_flags_def blank_header_def sector_flags_defs by code_simp
  ultimately show ?thesis by (simp add: unformatted_def sector_flags_defs)
qed

lemma started:
  obtains sys where "system_boot (power_on erased_dev good_heap) = Some sys" "system_ready sys"
    "store_of sys = (Map.empty, Map.empty)"
  using unformatted_boot [OF good_heap_plenty erased_unformatted] by blast

section \<open>The whole program\<close>

text \<open>
  C1: The running program implements two finite maps and a translation of texts.  Every sequence
  of calls of its functions (set, get, delete, valid and length of the registry, set and get of
  the string table, substitution into a buffer, and restarts, in which all RAM is lost and the
  program starts again on the device) runs without undefined behaviour and ends; every status and
  every output buffer is the one the specification \<open>store_step\<close> computes from the two maps.  So
  keys that agree in their first 24 characters are one key, the capacity is 123 values and 59
  strings, the modules do not disturb each other although they share one device and one heap, and
  a restart forgets nothing.
\<close>

theorem system_refines_store:
  assumes "system_ready sys" "list_all sop_ok ops"
  shows "\<exists>sys'. sys_run ops sys = Some (fst (store_run ops (store_of sys)), sys') \<and>
    system_ready sys' \<and> store_of sys' = snd (store_run ops (store_of sys))"
  using run_refines [OF assms] by auto

theorem system_refines_store_witness:
  "\<exists>sys sys'. system_boot (power_on erased_dev good_heap) = Some sys \<and>
    sys_run [RegSet [97] [120, 121], StrSet 7 [113], Restart, RegGet [97] 3,
        Substitute [91, 97, 93, 45, 60, 55, 62] 8, RegDelete [97], RegLength [97]] sys =
      Some ([(EOK, []), (EOK, []), (EOK, []), (2, [120, 121, 0]),
             (4, [120, 121, 45, 113, 0, 0, 0, 0]), (EOK, []), (EFAIL, [])], sys')"
proof -
  obtain sys where s: "system_boot (power_on erased_dev good_heap) = Some sys" "system_ready sys"
    "store_of sys = (Map.empty, Map.empty)" by (rule started)
  let ?ops = "[RegSet [97] [120, 121], StrSet 7 [113], Restart, RegGet [97] 3,
        Substitute [91, 97, 93, 45, 60, 55, 62] 8, RegDelete [97], RegLength [97]]"
  have p: "pieces running_inst [91, 97, 93, 45, 60, 55, 62] = [Sub 0 [97], Lit 45, Sub 2 [55]]"
    by (simp add: running_pieces)
  have c: "scan_uint [55, 62] = Some (1, Some 7)"
    by (simp add: scan_uint_def scan_digits_def isspace_def isdigit_def decimal_def)
  have e: "emitted (replicate 8 0) 7 [120, 121, 45, 113, 0] = [120, 121, 45, 113, 0, 0, 0, 0]"
    "upto_nul 1 [113] = [113]" by code_simp+
  have "list_all sop_ok ?ops" using p c by simp
  moreover have "fst (store_run ?ops (Map.empty, Map.empty)) =
      [(EOK, []), (EOK, []), (EOK, []), (2, [120, 121, 0]),
             (4, [120, 121, 45, 113, 0, 0, 0, 0]), (EOK, []), (EFAIL, [])]"
  proof -
    let ?r = "[key24 [97] \<mapsto> [120, 121 :: u8]]" and ?t = "[le32 7 \<mapsto> [113 :: u8]]"
    have "store_step (RegSet [97] [120, 121]) (Map.empty, Map.empty) = ((EOK, []), (?r, Map.empty))"
      by simp
    moreover have "store_step (StrSet 7 [113]) (?r, Map.empty) = ((EOK, []), (?r, ?t))"
      using e(2) by simp
    moreover have "store_step (RegGet [97] 3) (?r, ?t) = ((2, [120, 121, 0]), (?r, ?t))"
      by simp
    moreover have "expand running_inst (store_value (?r, ?t)) [91, 97, 93, 45, 60, 55, 62] = [120, 121, 45, 113]"
      using c by (simp add: p expand_def render_def store_value_def nonempty_def)
    then have "store_step (Substitute [91, 97, 93, 45, 60, 55, 62] 8) (?r, ?t) =
        ((4, [120, 121, 45, 113, 0, 0, 0, 0]), (?r, ?t))"
      using e(1) by simp
    moreover have "store_step (RegDelete [97]) (?r, ?t) = ((EOK, []), (Map.empty, ?t))" by simp
    moreover have "store_step (RegLength [97]) (Map.empty, ?t) = ((EFAIL, []), (Map.empty, ?t))" by simp
    moreover have "store_step Restart (?r, ?t) = ((EOK, []), (?r, ?t))" by simp
    ultimately show ?thesis by (simp del: store_step.simps)
  qed
  ultimately show ?thesis using system_refines_store [OF s(2), of ?ops] s by auto
qed


text \<open>The state after the first start and the two entries of \<^verbatim>\<open>main\<close>.\<close>

lemma main_start_ok:
  assumes "plenty h" "unformatted m"
  shows "\<exists>sys. main_start section (power_on m h) = Some sys \<and> system_ready sys \<and>
    store_of sys = ([key24 [116, 101, 115, 116] \<mapsto> [49, 50, 51, 0]],
                    [le32 999 \<mapsto> [116, 101, 115, 116, 0]]) \<and>
    same_cmds (snd (corshell_init section shell_lists)) (sys_shell sys)"
proof -
  let ?on = "init_static section (power_on m h)"
  obtain s00 where b: "system_boot (power_on m h) = Some s00" "system_ready s00"
    "store_of s00 = (Map.empty, Map.empty)" using unformatted_boot [OF assms] by blast
  define s0 where "s0 = init_static section s00"
  have s0: "system_boot ?on = Some s0" "system_ready s0" "store_of s0 = (Map.empty, Map.empty)"
    using b by (simp_all add: s0_def boot_init init_ready init_store)
  obtain s1 where s1: "registry_value_set (Some [116, 101, 115, 116, 0]) (Some [49, 50, 51, 0]) 4 s0 = Some (EOK, s1)"
    "system_ready s1" "store_of s1 = ([key24 [116, 101, 115, 116] \<mapsto> [49, 50, 51, 0]], Map.empty)"
    by (rule step_result [OF s0(2), of "RegSet [116, 101, 115, 116] [49, 50, 51, 0]"])
       (auto simp: s0(3) bind_eq_Some_conv)
  have u: "upto_nul (length [116, 101, 115, 116, 0]) [116, 101, 115, 116, 0] = [116, 101, 115, 116, 0]"
    by code_simp
  obtain s2 where s2: "strtab_set 999 (Some [116, 101, 115, 116, 0]) 5 s1 = Some (EOK, s2)"
    "system_ready s2" "store_of s2 = (fst (store_of s1), [le32 999 \<mapsto> [116, 101, 115, 116, 0]])"
    by (rule step_result [OF s1(2), of "StrSet 999 [116, 101, 115, 116, 0]"])
       (use u in \<open>auto simp: s1(3) bind_eq_Some_conv simp del: One_nat_def\<close>)
  have "same_cmds (sys_shell ?on) (sys_shell s2)"
    using boot_same [OF s0(1)] registry_set_others [OF s1(1)] strtab_set_others [OF s2(1)]
    by (simp add: others_kept_def)
  then show ?thesis using s0(1) s1 s2 by (simp add: main_start_def init_static_def power_on_def)
qed

text \<open>
  C10: The start of the program, \<^verbatim>\<open>main\<close> up to its first two entries, succeeds on a device that
  holds no volume: both volumes are formatted, every module is in its invariant, its handler and
  its commands are installed, and the maps hold exactly the two entries; the commands the linker
  collected and those of the modules are as they were.
\<close>

theorem first_start:
  assumes "plenty h" "unformatted m"
  shows "\<exists>sys. main_start section (power_on m h) = Some sys \<and> system_ready sys \<and>
    store_of sys = ([key24 [116, 101, 115, 116] \<mapsto> [49, 50, 51, 0]],
                    [le32 999 \<mapsto> [116, 101, 115, 116, 0]]) \<and>
    same_cmds (snd (corshell_init section shell_lists)) (sys_shell sys)"
  by (rule main_start_ok [OF assms])

theorem first_start_witness:
  "\<exists>sys. main_start [] (power_on erased_dev good_heap) = Some sys \<and> system_ready sys"
  using first_start [OF good_heap_plenty erased_unformatted] by blast

text \<open>
  C8: Durability.  When power is lost while no operation is in progress and the program starts
  again, with whatever heap, both maps are what they were.
\<close>

theorem restart_keeps_store:
  assumes "system_ready old" "plenty h"
  shows "\<exists>sys. system_boot (power_on (sys_dev old) h) = Some sys \<and> system_ready sys \<and>
    store_of sys = store_of old"
  by (rule restart_ready [OF assms])

theorem restart_keeps_store_witness:
  "\<exists>old sys. main_start [] (power_on erased_dev good_heap) = Some old \<and>
    system_boot (power_on (sys_dev old) good_heap) = Some sys \<and>
    fst (store_of sys) (key24 [116, 101, 115, 116]) = Some [49, 50, 51, 0]"
proof -
  obtain old where o: "main_start [] (power_on erased_dev good_heap) = Some old" "system_ready old"
    "fst (store_of old) (key24 [116, 101, 115, 116]) = Some [49, 50, 51, 0]"
    using main_start_ok [OF good_heap_plenty erased_unformatted, of "[]"] by auto
  from restart_keeps_store [OF o(2) good_heap_plenty] o show ?thesis by auto
qed

section \<open>The registry\<close>

text \<open>
  C9: A value that is stored is the value that is read back, byte for byte, under every name that
  agrees with the stored one in the first 24 characters: while the registry has room, a set of 1
  to 224 bytes succeeds, and a get into a buffer of \<open>n > 0\<close> bytes returns the number of bytes
  copied, stores the first \<open>n\<close> bytes of the value and clears the rest of the \<open>n\<close> bytes.
\<close>

theorem registry_roundtrip:
  assumes "system_ready sys" "registry_count sys < 123" "0 \<notin> set s" "0 \<notin> set s'" "key24 s' = key24 s"
    "v \<noteq> []" "length v \<le> 224" "0 < n" "n < 2 ^ 31" "n \<le> length b"
  shows "\<exists>sys1 sys2. registry_value_set (Some (s @ [0])) (Some v) (of_nat (length v)) sys = Some (EOK, sys1) \<and>
    registry_value_get (Some (s' @ [0])) (Some b) (of_nat n) sys1 =
      Some (int (min n (length v)), Some (take n v @ replicate (n - length v) 0 @ drop n b), sys2)"
proof -
  obtain r t where st: "store_of sys = (r, t)" by fastforce
  have ok: "sop_ok (RegSet s v)" using assms(3,7) by simp
  have "\<not> 123 \<le> card (dom r)" "\<not> 224 < length v" using assms(2,7) store_maps(3) [OF st] by simp_all
  then have step: "store_step (RegSet s v) (r, t) = ((EOK, []), (r(key24 s \<mapsto> v), t))" by simp
  obtain sys1 where "sys_step (RegSet s v) sys = Some ((EOK, []), sys1)"
    and rdy: "system_ready sys1" and s1: "store_of sys1 = (r(key24 s \<mapsto> v), t)"
    by (rule step_result [OF assms(1) ok, unfolded st step fst_conv snd_conv])
  then have run: "registry_value_set (Some (s @ [0])) (Some v) (of_nat (length v)) sys = Some (EOK, sys1)"
    by (auto simp: bind_eq_Some_conv)
  have "registry_map sys1 s' = Some v"
    using store_maps(1) [OF s1, of s'] assms(5) by simp
  moreover have "unat (of_nat n :: u32) = n" using assms(9) by (intro unat_of_nat_u32) simp
  moreover from this have "(of_nat n :: u32) \<noteq> 0" using assms(8) by (auto simp flip: unat_eq_zero)
  ultimately show ?thesis
    using registry_get_ok [OF ready_D(1) [OF rdy] assms(4), of "of_nat n" b "[]"] run assms(6,9,10)
    by (auto simp: got_def)
qed

theorem registry_roundtrip_witness:
  "\<exists>sys sys1 sys2. system_boot (power_on erased_dev good_heap) = Some sys \<and>
    registry_value_set (Some [97, 0]) (Some [1, 0, 3]) 3 sys = Some (EOK, sys1) \<and>
    registry_value_get (Some [97, 0]) (Some [9, 9, 9, 9, 9]) 4 sys1 = Some (3, Some [1, 0, 3, 0, 9], sys2)"
proof -
  obtain sys where s: "system_boot (power_on erased_dev good_heap) = Some sys" "system_ready sys"
    "store_of sys = (Map.empty, Map.empty)" by (rule started)
  have "registry_count sys < 123" using store_maps(3) [OF s(3)] by simp
  from registry_roundtrip [OF s(2) this, of "[97]" "[97]" "[1, 0, 3]" 4 "[9, 9, 9, 9, 9]"] s(1)
  show ?thesis by (auto simp: min_def)
qed

lemma registry_error_branches:
  assumes "system_ready sys" "0 \<notin> set s"
  shows "registry_value_set None v len sys = Some (E_PARM, sys)"
    "registry_value_set i None len sys = Some (E_PARM, sys)"
    "registry_value_get None v len sys = Some (E_PARM, v, sys)"
    "registry_value_delete None sys = Some (E_PARM, sys)"
    "registry_value_length None sys = Some (E_PARM, sys)"
    "224 < unat len \<Longrightarrow> registry_value_set (Some i') (Some v') len sys = Some (E_PARM, sys)"
    "123 \<le> registry_count sys \<Longrightarrow> unat len \<le> 224 \<Longrightarrow> unat len \<le> length v' \<Longrightarrow>
       \<exists>sys'. registry_value_set (Some (s @ [0])) (Some v') len sys = Some (EFAIL, sys') \<and>
         registry_map sys' = registry_map sys"
    "registry_map sys s = None \<Longrightarrow> n < 2 ^ 31 \<Longrightarrow>
       \<exists>sys'. registry_value_get (Some (s @ [0])) (Some (replicate n x)) (of_nat n) sys =
         Some (E_NOTFOUND, Some (replicate n 0), sys') \<and> store_of sys' = store_of sys"
    "registry_map sys s = Some [] \<Longrightarrow> n < 2 ^ 31 \<Longrightarrow>
       \<exists>sys'. registry_value_get (Some (s @ [0])) (Some (replicate n x)) (of_nat n) sys =
         Some (E_INVAL, Some (replicate n 0), sys') \<and> store_of sys' = store_of sys"
    "registry_map sys s = None \<Longrightarrow>
       \<exists>sys'. registry_value_delete (Some (s @ [0])) sys = Some (E_NOTFOUND, sys') \<and>
         registry_map sys' = registry_map sys"
    "registry_map sys s = None \<Longrightarrow>
       \<exists>sys'. registry_value_length (Some (s @ [0])) sys = Some (EFAIL, sys') \<and> store_of sys' = store_of sys"
proof -
  note D = ready_D [OF assms(1)]
  show "registry_value_set None v len sys = Some (E_PARM, sys)"
    "registry_value_set i None len sys = Some (E_PARM, sys)"
    "registry_value_get None v len sys = Some (E_PARM, v, sys)"
    "registry_value_delete None sys = Some (E_PARM, sys)"
    "registry_value_length None sys = Some (E_PARM, sys)"
    by (simp_all add: registry_value_set_def registry_value_get_def registry_value_delete_def
        registry_value_length_def split: option.split)
  show "224 < unat len \<Longrightarrow> registry_value_set (Some i') (Some v') len sys = Some (E_PARM, sys)"
    by (simp add: registry_value_set_def registry_consts word_less_nat_alt)
  show "123 \<le> registry_count sys \<Longrightarrow> unat len \<le> 224 \<Longrightarrow> unat len \<le> length v' \<Longrightarrow>
       \<exists>sys'. registry_value_set (Some (s @ [0])) (Some v') len sys = Some (EFAIL, sys') \<and>
         registry_map sys' = registry_map sys"
    using registry_set_ok [OF D(1) assms(2), of len v' "[]"] by auto
  have n: "unat (of_nat n :: u32) = n" if "n < 2 ^ 31" using that by (intro unat_of_nat_u32) simp
  show "registry_map sys s = None \<Longrightarrow> n < 2 ^ 31 \<Longrightarrow>
       \<exists>sys'. registry_value_get (Some (s @ [0])) (Some (replicate n x)) (of_nat n) sys =
         Some (E_NOTFOUND, Some (replicate n 0), sys') \<and> store_of sys' = store_of sys"
    using registry_get_ok [OF D(1) assms(2), of "of_nat n" "replicate n x" "[]"] n
    by (auto simp: got_def)
  show "registry_map sys s = Some [] \<Longrightarrow> n < 2 ^ 31 \<Longrightarrow>
       \<exists>sys'. registry_value_get (Some (s @ [0])) (Some (replicate n x)) (of_nat n) sys =
         Some (E_INVAL, Some (replicate n 0), sys') \<and> store_of sys' = store_of sys"
    using registry_get_ok [OF D(1) assms(2), of "of_nat n" "replicate n x" "[]"] n
    by (auto simp: got_def)
  show "registry_map sys s = None \<Longrightarrow>
       \<exists>sys'. registry_value_delete (Some (s @ [0])) sys = Some (E_NOTFOUND, sys') \<and>
         registry_map sys' = registry_map sys"
  proof -
    assume a: "registry_map sys s = None"
    then have "registry_map sys t = None" if "key24 t = key24 s" for t
      using that by (simp add: registry_map_def)
    then show ?thesis
      using registry_delete_ok [OF D(1) assms(2), of "[]"] a by (auto simp: fun_eq_iff)
  qed
  show "registry_map sys s = None \<Longrightarrow>
       \<exists>sys'. registry_value_length (Some (s @ [0])) sys = Some (EFAIL, sys') \<and> store_of sys' = store_of sys"
    using registry_length_ok [OF D(1) assms(2), of "[]"] by auto
qed

text \<open>
  C11: The registry on every error branch.  A null key or value is refused, so is a value longer
  than 224 bytes; a full registry refuses every set, also one that would only change a stored
  value; a get, a length and a delete of an absent name and a get of an empty value fail with the
  documented status, a get clearing the buffer.  None of these calls changes a map.
\<close>

theorem registry_errors:
  assumes "system_ready sys" "0 \<notin> set s"
  shows "registry_value_set None v len sys = Some (E_PARM, sys) \<and>
    registry_value_set i None len sys = Some (E_PARM, sys) \<and>
    registry_value_get None v len sys = Some (E_PARM, v, sys) \<and>
    registry_value_delete None sys = Some (E_PARM, sys) \<and>
    registry_value_length None sys = Some (E_PARM, sys) \<and>
    (224 < unat len \<longrightarrow> registry_value_set (Some i') (Some v') len sys = Some (E_PARM, sys)) \<and>
    (123 \<le> registry_count sys \<and> unat len \<le> 224 \<and> unat len \<le> length v' \<longrightarrow>
       (\<exists>sys'. registry_value_set (Some (s @ [0])) (Some v') len sys = Some (EFAIL, sys') \<and>
         registry_map sys' = registry_map sys)) \<and>
    (registry_map sys s = None \<and> n < 2 ^ 31 \<longrightarrow>
       (\<exists>sys'. registry_value_get (Some (s @ [0])) (Some (replicate n x)) (of_nat n) sys =
         Some (E_NOTFOUND, Some (replicate n 0), sys') \<and> store_of sys' = store_of sys)) \<and>
    (registry_map sys s = Some [] \<and> n < 2 ^ 31 \<longrightarrow>
       (\<exists>sys'. registry_value_get (Some (s @ [0])) (Some (replicate n x)) (of_nat n) sys =
         Some (E_INVAL, Some (replicate n 0), sys') \<and> store_of sys' = store_of sys)) \<and>
    (registry_map sys s = None \<longrightarrow>
       (\<exists>sys'. registry_value_delete (Some (s @ [0])) sys = Some (E_NOTFOUND, sys') \<and>
         registry_map sys' = registry_map sys)) \<and>
    (registry_map sys s = None \<longrightarrow>
       (\<exists>sys'. registry_value_length (Some (s @ [0])) sys = Some (EFAIL, sys') \<and> store_of sys' = store_of sys))"
  by (intro conjI impI registry_error_branches [OF assms]) simp_all

theorem registry_errors_witness:
  "\<exists>sys sys'. system_boot (power_on erased_dev good_heap) = Some sys \<and>
    registry_value_set None (Some [1]) 1 sys = Some (E_PARM, sys) \<and>
    registry_value_get (Some [97, 0]) (Some [9, 9]) 2 sys = Some (E_NOTFOUND, Some [0, 0], sys')"
proof -
  obtain sys where s: "system_boot (power_on erased_dev good_heap) = Some sys" "system_ready sys"
    "store_of sys = (Map.empty, Map.empty)" by (rule started)
  have a: "registry_map sys [97] = None" "(0 :: u8) \<notin> set [97]"
    using store_maps(1) [OF s(3), of "[97]"] by simp_all
  have "replicate 2 (9 :: u8) = [9, 9]" "replicate 2 (0 :: u8) = [0, 0]" by (simp_all add: numeral_2_eq_2)
  with registry_errors [OF s(2) a(2), of "Some [1]" 1 None "[]" "[]" 2 9] a(1) s(1)
  show ?thesis by auto
qed

end
