(* ===== verification/Module_Props.thy ===== *)
theory Module_Props
  imports System_Props Nvol_Sorted
begin

text \<open>
  Further properties of the modules in the running program: string substitution against its
  specification, the limits of the string table, what the modules leave alone on the shared
  device, and an invariant of every reachable state.
\<close>

unbundle bit_operations_syntax

section \<open>String substitution\<close>

text \<open>
  C12: The parser computes the specified translation.  For a text whose words the handlers can
  take, \<^verbatim>\<open>strsub_parse_string_to\<close> stores the characters of \<open>expand\<close>, which substitutes
  \<^verbatim>\<open>[name]\<close> by the value of the registry and \<^verbatim>\<open><number>\<close> by the string, keeps unknown words with their
  delimiters, and takes the character after a backslash literally; at most \<open>n - 1\<close> characters are
  stored in a buffer of \<open>n\<close> bytes, a terminator follows when there is room, the number of stored
  characters is returned, and neither map changes.
\<close>

theorem substitution_expands:
  assumes "system_ready sys" "text_ok s" "0 < n" "n \<le> 2 ^ 31" "n \<le> length dst"
    "x = expand running_inst (store_value (store_of sys)) s"
  shows "\<exists>sys'. strsub_parse_string_to run_lookup (sys_strsub sys) (Some (s @ [0])) 0 (Some dst) (of_nat n) sys =
      Some (of_nat (min (length x) (n - 1)), emitted (0 # tl dst) (n - 1) (x @ [0]), sys') \<and>
    system_ready sys' \<and> store_of sys' = store_of sys"
  using substitute_to [OF assms(1-5)] unfolding assms(6) by blast

theorem substitution_expands_witness:
  "\<exists>sys sys'. main_start [] (power_on erased_dev good_heap) = Some sys \<and>
    strsub_parse_string_to run_lookup (sys_strsub sys)
      (Some [60, 57, 57, 57, 62, 91, 120, 93, 92, 91, 0]) 0 (Some [7, 7, 7, 7, 7, 7, 7, 7, 7, 7, 7, 7, 7]) 13 sys =
      Some (9, [116, 101, 115, 116, 0, 91, 120, 93, 91, 0, 7, 7, 7], sys')"
proof -
  obtain sys where s: "main_start [] (power_on erased_dev good_heap) = Some sys" "system_ready sys"
    "store_of sys = ([key24 [116, 101, 115, 116] \<mapsto> [49, 50, 51, 0]],
                    [le32 999 \<mapsto> [116, 101, 115, 116, 0]])"
    using main_start_ok [OF good_heap_plenty erased_unformatted] by blast
  let ?t = "[60, 57, 57, 57, 62, 91, 120, 93, 92, 91] :: u8 list"
  have p: "pieces running_inst ?t = [Sub 2 [57, 57, 57], Sub 0 [120], Lit 91]"
    by (simp add: running_pieces)
  have c: "scan_uint [57, 57, 57, 62] = Some (1, Some 999)"
    by (simp add: scan_uint_def scan_digits_def isspace_def isdigit_def decimal_def)
  have k: "key24 [120] \<noteq> key24 [116, 101, 115, 116]" by (simp add: key24_def)
  have x: "[116, 101, 115, 116, 0, 91, 120, 93, 91] = expand running_inst (store_value (store_of sys)) ?t"
    using c k
    by (simp add: p s(3) expand_def render_def store_value_def nonempty_def running_closer)
       (simp add: running_inst_def STRSUB_HANDLERS_TOKENS_def)
  have "text_ok ?t" using c by (simp add: text_ok_def p)
  from substitution_expands [OF s(2) this _ _ _ x, of 13 "[7, 7, 7, 7, 7, 7, 7, 7, 7, 7, 7, 7, 7]"] s(1)
  show ?thesis by (auto simp: emitted_def)
qed


text \<open>
  C17: A buffer of the size that \<^verbatim>\<open>strsub_parse_get_dst_length\<close> reports is too small by the
  terminator: the parser fills it up to the last byte but one and stores no terminating zero, so
  that, unless the translation is empty, the last byte is what it was before.
\<close>

theorem substitution_unterminated:
  assumes "system_ready sys" "text_ok s" "x = expand running_inst (store_value (store_of sys)) s"
    "x \<noteq> []" "Suc (length x) < 2 ^ 31"
  shows "\<exists>sys' sys''. strsub_parse_get_dst_length run_lookup (sys_strsub sys) (Some (s @ [0])) 0 sys =
      Some (of_nat (Suc (length x)), sys') \<and>
    strsub_parse_string_to run_lookup (sys_strsub sys) (Some (s @ [0])) 0
      (Some (replicate (Suc (length x)) c)) (of_nat (Suc (length x))) sys =
      Some (of_nat (length x), x @ [c], sys'')"
proof -
  let ?n = "Suc (length x)"
  have e: "emitted (0 # tl (replicate ?n c)) (?n - 1) (x @ [0]) = x @ [c]"
  proof -
    have "drop k (c # replicate k c) = [c]" for k by (induction k) simp_all
    then show ?thesis using assms(4) by (cases "length x") (simp_all add: emitted_def)
  qed
  have "?n \<le> 2 ^ 31" using assms(5) by simp
  from substitute_to [OF assms(1,2) zero_less_Suc this, of "replicate ?n c"]
  obtain sys'' where "strsub_parse_string_to run_lookup (sys_strsub sys) (Some (s @ [0])) 0
      (Some (replicate ?n c)) (of_nat ?n) sys = Some (of_nat (length x), x @ [c], sys'')"
    unfolding assms(3) [symmetric] e by auto
  with substitute_length [OF assms(1,2)] assms(3,5) show ?thesis by auto
qed

theorem substitution_unterminated_witness:
  "\<exists>sys sys' sys''. system_boot (power_on erased_dev good_heap) = Some sys \<and>
    strsub_parse_get_dst_length run_lookup (sys_strsub sys) (Some [97, 98, 0]) 0 sys = Some (3, sys') \<and>
    strsub_parse_string_to run_lookup (sys_strsub sys) (Some [97, 98, 0]) 0 (Some [7, 7, 7]) 3 sys =
      Some (2, [97, 98, 7], sys'')"
proof -
  obtain sys where s: "system_boot (power_on erased_dev good_heap) = Some sys" "system_ready sys"
    "store_of sys = (Map.empty, Map.empty)" by (rule started)
  have p: "pieces running_inst [97, 98] = [Lit 97, Lit 98]" by (simp add: running_pieces)
  have x: "[97, 98] = expand running_inst (store_value (store_of sys)) [97, 98]"
    by (simp add: expand_def p render_def)
  have "text_ok [97, 98]" by (simp add: text_ok_def p)
  from substitution_unterminated [OF s(2) this x, of 7] s(1) show ?thesis by auto
qed

section \<open>The string table\<close>

lemma buffer_ready:
  assumes "system_ready sys" "rec_buf strtab_config rec"
  shows "system_ready (sys\<lparr>strtab_buffer := rec\<rparr>) \<and> store_of (sys\<lparr>strtab_buffer := rec\<rparr>) = store_of sys \<and>
    system_ready (sys\<lparr>strtab_buffer := rec, strtab_it := it\<rparr>) \<and>
    store_of (sys\<lparr>strtab_buffer := rec, strtab_it := it\<rparr>) = store_of sys"
  using assms
  by (simp add: system_ready_def registry_inv_def strtab_inv_def store_of_def strtab_vol_map_def
      registry_vol_inv_def strtab_vol_inv_def reg_vol_def str_vol_def)

text \<open>
  C16: What the functions of the string table refuse.  Before the table is loaded each of them
  answers E_UNEXP and changes nothing.  On a loaded table a get without a buffer answers E_PARM, a
  get of an absent string E_NOTFOUND, and a get of a stored string of length zero E_INVAL, the buffer
  left as it was; a set of more than 500 bytes answers E_PARM, and a set into a full table EFAIL.
  None of them changes what is stored.
\<close>

theorem strtab_errors:
  assumes "i_dict (str_inst sys0) = None" "system_ready sys"
  shows "strtab_get k b len sys0 = Some (E_UNEXP, b, sys0) \<and> strtab_set k b len sys0 = Some (E_UNEXP, sys0) \<and>
    strtab_valid k sys0 = Some E_UNEXP \<and> strtab_length k sys0 = Some E_UNEXP \<and>
    strtab_erase sys0 = Some (E_UNEXP, sys0) \<and>
    strtab_first b len sys0 = Some (E_UNEXP, None, b, sys0) \<and>
    strtab_next b len sys0 = Some (E_UNEXP, None, b, sys0) \<and>
    strtab_get k None len sys = Some (E_PARM, None, sys) \<and>
    (500 < len \<longrightarrow> strtab_set k b len sys = Some (E_PARM, sys)) \<and>
    (\<forall>e. strtab_map sys (ucast k) = None \<and> e = E_NOTFOUND \<or> strtab_map sys (ucast k) = Some [] \<and> e = E_INVAL \<longrightarrow>
       (\<exists>sys'. strtab_get k (Some (replicate n x)) (int n) sys = Some (e, Some (replicate n x), sys') \<and>
          system_ready sys' \<and> store_of sys' = store_of sys)) \<and>
    (59 \<le> strtab_count sys \<and> length v \<le> 500 \<longrightarrow>
       (\<exists>sys'. strtab_set k (Some v) (int (length v)) sys = Some (EFAIL, sys') \<and>
          strtab_map sys' = strtab_map sys))"
proof -
  note D = ready_D [OF assms(2)]
  have u: "\<not> STRTAB_IS_LOADED sys0" using assms(1) by (simp add: STRTAB_IS_LOADED_def)
  have l: "STRTAB_IS_LOADED sys" by (rule strtab_loaded [OF D(4)])
  have get: "\<exists>sys'. strtab_get k (Some (replicate n x)) (int n) sys = Some (e, Some (replicate n x), sys') \<and>
          system_ready sys' \<and> store_of sys' = store_of sys"
    if "strtab_map sys (ucast k) = None \<and> e = E_NOTFOUND \<or> strtab_map sys (ucast k) = Some [] \<and> e = E_INVAL" for e
  proof -
    have "min (nat (int n)) 500 \<le> length (replicate n x)" by simp
    from strtab_get_ok [OF D(2) of_nat_0_le_iff this, of k] that
    obtain rec where "strtab_get k (Some (replicate n x)) (int n) sys =
        Some (e, Some (replicate n x), sys\<lparr>strtab_buffer := rec\<rparr>)" "rec_buf strtab_config rec" by auto
    then show ?thesis using buffer_ready [OF assms(2)] by auto
  qed
  have cp: "strncpy v (nat (int (length v))) = Some (upto_nul (length v) v)"
    by (simp add: strncpy_upto_nul)
  have set: "59 \<le> strtab_count sys \<and> length v \<le> 500 \<longrightarrow>
       (\<exists>sys'. strtab_set k (Some v) (int (length v)) sys = Some (EFAIL, sys') \<and>
          strtab_map sys' = strtab_map sys)"
    using strtab_set_ok [OF D(2) _ _ cp, of k] by auto
  show ?thesis
    using get set u l
    by (simp add: strtab_get_def strtab_set_def strtab_valid_def strtab_length_def strtab_erase_def
        strtab_first_def strtab_next_def STRTAB_LENGT_MAX_def)
qed

theorem strtab_errors_witness:
  "\<exists>sys sys1 sys'. system_boot (power_on erased_dev good_heap) = Some sys \<and>
    strtab_get 5 (Some [1]) 1 (power_on erased_dev good_heap) =
      Some (E_UNEXP, Some [1], power_on erased_dev good_heap) \<and>
    sys_step (StrSet 5 []) sys = Some ((EOK, []), sys1) \<and>
    strtab_get 5 (Some [9, 9]) 2 sys1 = Some (E_INVAL, Some [9, 9], sys')"
proof -
  obtain sys where s: "system_boot (power_on erased_dev good_heap) = Some sys" "system_ready sys"
    "store_of sys = (Map.empty, Map.empty)" by (rule started)
  have a: "i_dict (str_inst (power_on erased_dev good_heap)) = None"
    by (simp add: power_on_def zero_inst_def)
  obtain sys1 where st: "sys_step (StrSet 5 []) sys = Some ((EOK, []), sys1)" "system_ready sys1"
    "store_of sys1 = (Map.empty, [le32 5 \<mapsto> []])"
    by (rule step_result [OF s(2), of "StrSet 5 []"]) (use s(3) in \<open>simp_all add: upto_nul_def\<close>)
  have b: "strtab_map sys1 (ucast (5 :: u16)) = Some []" using store_maps(2) [OF st(3), of 5] by simp
  have "replicate 2 (9 :: u8) = [9, 9]" by (simp add: numeral_2_eq_2)
  with strtab_errors [OF a st(2), of 5 "Some [1]" 1 2 9 "[]"] b s(1) st(1) show ?thesis by auto
qed

text \<open>The keys the table is given are numbers of 16 bits, and are compared as such.\<close>

definition short_keys :: "(u8 list \<rightharpoonup> u8 list) \<Rightarrow> bool" where
  "short_keys t \<longleftrightarrow> (\<forall>k \<in> dom t. \<exists>n :: u16. k = le32 (ucast n))"

lemma rd16_short: "rd16 (le32 (ucast (n :: u16)) @ r) = n"
  by (simp add: le32_def) (rule bit_word_eqI, auto simp: bit_simps)

lemma strtab_key_order:
  assumes "short_keys t"
  shows "key_order strtab_cmp rd16 (dom t)"
  unfolding key_order_def
proof (intro conjI ballI impI allI)
  show "inj_on rd16 (dom t)"
  proof (rule inj_onI)
    fix x y assume "x \<in> dom t" "y \<in> dom t" and e: "rd16 x = rd16 y"
    then obtain n n' :: u16 where "x = le32 (ucast n)" "y = le32 (ucast n')"
      using assms unfolding short_keys_def by meson
    with e show "x = y" using rd16_short [of _ "[]"] by simp
  qed
  fix k k' r r' assume k: "k \<in> dom t" "k' \<in> dom t" "k \<noteq> k'"
  then obtain n n' :: u16 where n: "k = le32 (ucast n)" "k' = le32 (ucast n')"
    using assms unfolding short_keys_def by meson
  show "\<exists>c. strtab_cmp (k @ r) (k' @ r') = Some c \<and> (c < 0 \<longleftrightarrow> rd16 k < rd16 k') \<and> (0 < c \<longleftrightarrow> rd16 k' < rd16 k)"
    using rd16_short [of _ "[]"] by (simp add: strtab_cmp_def n rd16_short word_less_alt)
qed

section \<open>Iterating over the string table\<close>

lemma ready_table:
  assumes "system_ready sys"
  shows "STRTAB_IS_LOADED sys" "nvol_inv ram_mem strtab_config (str_vol sys)"
    "rec_buf strtab_config (strtab_buffer sys)"
    "vol_map ram_mem strtab_config (str_vol sys) = snd (store_of sys)"
  using ready_D(2,4) [OF assms] strtab_loaded
  by (auto simp: strtab_inv_def strtab_vol_inv_def store_of_def strtab_vol_map_def)

text \<open>A step that yields no more than a key answers its length, and sets nothing.\<close>

lemma step_without_value:
  assumes rdy: "system_ready sys" and "res \<le> 4" "rec_buf strtab_config rec"
  shows "nvol3_record_first strtab_config (strtab_buffer sys) (Some strtab_cmp) (str_vol sys) = Some (res, rec, it) \<Longrightarrow>
      \<exists>sys'. strtab_first b len sys = Some (res, None, b, sys') \<and> system_ready sys' \<and> store_of sys' = store_of sys"
    "nvol3_record_next strtab_config (strtab_buffer sys) (strtab_it sys) (str_vol sys) = Some (res, rec, it) \<Longrightarrow>
      \<exists>sys'. strtab_next b len sys = Some (res, None, b, sys') \<and> system_ready sys' \<and> store_of sys' = store_of sys"
  using ready_table(1) [OF rdy] buffer_ready [OF rdy assms(3), of it] assms(2)
  by (simp_all add: strtab_first_def strtab_next_def strtab_yield_def)

lemma strtab_first_empty:
  assumes rdy: "system_ready sys" and e: "snd (store_of sys) = Map.empty"
  shows "\<exists>sys'. strtab_first b len sys = Some (E_EOF, None, b, sys') \<and> system_ready sys' \<and>
    store_of sys' = store_of sys"
proof -
  have "key_order strtab_cmp rd16 (dom (vol_map ram_mem strtab_config (str_vol sys)))"
    unfolding ready_table(4) [OF rdy] by (rule strtab_key_order) (simp add: e short_keys_def)
  from str.record_first_sorted [OF ready_table(2,3) [OF rdy] this] e obtain it where
    "nvol3_record_first strtab_config (strtab_buffer sys) (Some strtab_cmp) (str_vol sys) =
      Some (E_EOF, strtab_buffer sys, it)" by (auto simp: ready_table(4) [OF rdy])
  with step_without_value(1) [OF rdy _ ready_table(3) [OF rdy]] show ?thesis by simp
qed

lemma strtab_first_least:
  assumes rdy: "system_ready sys" and short: "short_keys (snd (store_of sys))"
    and v: "snd (store_of sys) (le32 (ucast k)) = Some []"
    and le: "\<forall>n :: u16. snd (store_of sys) (le32 (ucast n)) \<noteq> None \<longrightarrow> k \<le> n"
  shows "\<exists>sys'. strtab_first b len sys = Some (4, None, b, sys') \<and> system_ready sys' \<and>
    store_of sys' = store_of sys"
proof -
  note t = ready_table(4) [OF rdy]
  obtain ks where ks: "set ks = dom (snd (store_of sys))" "sorted_wrt (\<lambda>a b. rd16 a < rd16 b) ks" and
    f: "case ks of
       [] \<Rightarrow> \<exists>it. nvol3_record_first strtab_config (strtab_buffer sys) (Some strtab_cmp) (str_vol sys) =
         Some (E_EOF, strtab_buffer sys, it)
     | k # ks' \<Rightarrow> \<exists>v rec' it. nvol3_record_first strtab_config (strtab_buffer sys) (Some strtab_cmp) (str_vol sys) =
           Some (int (ksz strtab_config + length v), rec', it) \<and>
         snd (store_of sys) k = Some v \<and> rec_buf strtab_config rec' \<and>
         take (ksz strtab_config + length v) (key_and_data rec') = k @ v \<and> key_at (str_vol sys) it k \<and>
         key_visits (str_vol sys) it ks'"
    using str.record_first_sorted [OF ready_table(2,3) [OF rdy], unfolded t, OF strtab_key_order [OF short]] by blast
  have mem: "le32 (ucast k) \<in> set ks" using v ks(1) by auto
  then obtain k0 ks' where c: "ks = k0 # ks'" by (cases ks) auto
  then have "k0 \<in> dom (snd (store_of sys))" using ks(1) by auto
  moreover from this obtain n0 :: u16 where "k0 = le32 (ucast n0)"
    using short unfolding short_keys_def by blast
  ultimately have n0: "k0 = le32 (ucast n0)" "k \<le> n0" using le by auto
  have "k0 = le32 (ucast k)"
  proof (rule ccontr)
    assume "k0 \<noteq> le32 (ucast k)"
    then have "rd16 k0 < rd16 (le32 (ucast k))" using mem ks(2) c by auto
    then have "n0 < k" using rd16_short [of _ "[]"] n0(1) by simp
    with n0(2) show False by simp
  qed
  then obtain rec it where
    "nvol3_record_first strtab_config (strtab_buffer sys) (Some strtab_cmp) (str_vol sys) = Some (4, rec, it)"
    "rec_buf strtab_config rec" using f v c by auto
  with step_without_value(1) [OF rdy, of 4 rec it] show ?thesis by simp
qed

lemma strtab_next_end:
  assumes rdy: "system_ready sys" and vis: "key_visits (str_vol sys) (strtab_it sys) []"
  shows "\<exists>sys'. strtab_next b len sys = Some (E_EOF, None, b, sys') \<and> system_ready sys' \<and>
    store_of sys' = store_of sys"
proof -
  obtain it where "nvol3_record_next strtab_config (strtab_buffer sys) (strtab_it sys) (str_vol sys) =
      Some (E_EOF, strtab_buffer sys, it)" using str.record_next_end [OF vis] by blast
  with step_without_value(2) [OF rdy _ ready_table(3) [OF rdy]] show ?thesis by simp
qed

lemma strtab_next_empty:
  assumes rdy: "system_ready sys" and vis: "key_visits (str_vol sys) (strtab_it sys) (k # ks)"
    and v: "snd (store_of sys) k = Some []"
  shows "\<exists>sys'. strtab_next b len sys = Some (4, None, b, sys') \<and> system_ready sys' \<and>
    store_of sys' = store_of sys"
proof -
  obtain rec it where "nvol3_record_next strtab_config (strtab_buffer sys) (strtab_it sys) (str_vol sys) =
      Some (4, rec, it)" "rec_buf strtab_config rec"
    using str.record_next_visit [OF ready_table(2,3) [OF rdy] vis] v ready_table(4) [OF rdy] by auto
  with step_without_value(2) [OF rdy, of 4 rec it] show ?thesis by simp
qed

text \<open>
  C14: The iteration of the string table.  The first entry is the one with the least key; on an empty
  table, or behind the last entry, the answer is E_EOF.  An entry whose string has length zero is
  answered with 4, the length of the key, which is no error, but neither the key nor the buffer is
  set.  The table is left as it was.
\<close>

theorem strtab_iteration:
  assumes "system_ready sys"
  shows "(snd (store_of sys) = Map.empty \<longrightarrow>
       (\<exists>sys'. strtab_first b len sys = Some (E_EOF, None, b, sys') \<and> system_ready sys' \<and>
          store_of sys' = store_of sys)) \<and>
    (\<forall>k. short_keys (snd (store_of sys)) \<and> snd (store_of sys) (le32 (ucast k)) = Some [] \<and>
         (\<forall>n :: u16. snd (store_of sys) (le32 (ucast n)) \<noteq> None \<longrightarrow> k \<le> n) \<longrightarrow>
       (\<exists>sys'. strtab_first b len sys = Some (4, None, b, sys') \<and> system_ready sys' \<and>
          store_of sys' = store_of sys)) \<and>
    (key_visits (str_vol sys) (strtab_it sys) [] \<longrightarrow>
       (\<exists>sys'. strtab_next b len sys = Some (E_EOF, None, b, sys') \<and> system_ready sys' \<and>
          store_of sys' = store_of sys)) \<and>
    (\<forall>k ks. key_visits (str_vol sys) (strtab_it sys) (k # ks) \<and> snd (store_of sys) k = Some [] \<longrightarrow>
       (\<exists>sys'. strtab_next b len sys = Some (4, None, b, sys') \<and> system_ready sys' \<and>
          store_of sys' = store_of sys))"
  using strtab_first_empty [OF assms] strtab_first_least [OF assms] strtab_next_end [OF assms]
    strtab_next_empty [OF assms] by blast

theorem strtab_iteration_witness:
  "\<exists>sys sys1 sys0 sys'. system_boot (power_on erased_dev good_heap) = Some sys \<and>
    strtab_first (Some [9]) 1 sys = Some (E_EOF, None, Some [9], sys0) \<and>
    sys_step (StrSet 5 []) sys = Some ((EOK, []), sys1) \<and>
    strtab_first (Some [9]) 1 sys1 = Some (4, None, Some [9], sys')"
proof -
  obtain sys where s: "system_boot (power_on erased_dev good_heap) = Some sys" "system_ready sys"
    "store_of sys = (Map.empty, Map.empty)" by (rule started)
  obtain sys1 where st: "sys_step (StrSet 5 []) sys = Some ((EOK, []), sys1)" "system_ready sys1"
    "store_of sys1 = (Map.empty, [le32 5 \<mapsto> []])"
    by (rule step_result [OF s(2), of "StrSet 5 []"]) (use s(3) in \<open>simp_all add: upto_nul_def\<close>)
  have "short_keys (snd (store_of sys1))"
    unfolding short_keys_def st(3) by (auto intro: exI [of _ "5 :: u16"])
  moreover have "snd (store_of sys1) (le32 (ucast (5 :: u16))) = Some []" by (simp add: st(3))
  moreover have "\<forall>n :: u16. snd (store_of sys1) (le32 (ucast n)) \<noteq> None \<longrightarrow> 5 \<le> n"
  proof (intro allI impI)
    fix n :: u16 assume "snd (store_of sys1) (le32 (ucast n)) \<noteq> None"
    then have "rd16 (le32 (ucast n)) = rd16 (le32 (ucast (5 :: u16)))" by (simp add: st(3) split: if_splits)
    then have "n = 5" using rd16_short [of _ "[]"] by (metis append_Nil2)
    then show "5 \<le> n" by simp
  qed
  ultimately have "\<exists>sys'. strtab_first (Some [9]) 1 sys1 = Some (4, None, Some [9], sys')"
    using strtab_iteration [OF st(2), of "Some [9]" 1] by blast
  moreover have "\<exists>sys0. strtab_first (Some [9]) 1 sys = Some (E_EOF, None, Some [9], sys0)"
    using strtab_iteration [OF s(2), of "Some [9]" 1] s(3) by auto
  ultimately show ?thesis using s(1) st(1) by blast
qed

text \<open>
  C18: \<^verbatim>\<open>strtab_valid\<close> and \<^verbatim>\<open>strtab_length\<close> of a loaded table read outside their parameter: they
  pass the address of the 16-bit key where the dictionary reads a key of 32 bits.
\<close>

theorem strtab_key_overread:
  assumes "system_ready sys"
  shows "strtab_valid key sys = None \<and> strtab_length key sys = None"
  using short_key_read [OF ready_D(4) [OF assms]] by blast

theorem strtab_key_overread_witness:
  "\<exists>sys. system_boot (power_on erased_dev good_heap) = Some sys \<and> strtab_valid 999 sys = None"
proof -
  obtain sys where s: "system_boot (power_on erased_dev good_heap) = Some sys" "system_ready sys"
    by (rule started)
  from strtab_key_overread [OF s(2)] s(1) show ?thesis by blast
qed

text \<open>
  C19: The lookup function of the string table has no guard like the other functions: from its
  installation in \<^verbatim>\<open>strtab_init\<close> until the table is loaded, and again after \<^verbatim>\<open>strtab_stop\<close>, a
  text with a number between the delimiters makes it use a null dictionary.
\<close>

theorem strtab_lookup_unloaded:
  assumes "i_dict (str_inst sys) = None" "scan_uint str = Some (1, Some k)"
    "rec_buf strtab_config (strtab_buffer sys)"
  shows "strtab_strsub_cb cb str len off (t, sys) = None"
proof -
  have "nvol3_record_get strtab_config rec (str_vol sys) = None" for rec
    using assms(1) by (simp add: nvol3_record_get_def retrieve_lookup_table_def loaded_dict_def)
  then show ?thesis
    using strtab_setkey_ok [OF assms(3), of k] assms(2) by (auto simp: strtab_strsub_cb_def)
qed

theorem strtab_lookup_unloaded_witness:
  "strtab_strsub_cb strsub_cb [53, 62, 0] 1 0
     (\<lparr>to_buffer = None, to_len = 9\<rparr>, snd (strtab_init (power_on erased_dev good_heap))) = None"
proof (rule strtab_lookup_unloaded)
  show "i_dict (str_inst (snd (strtab_init (power_on erased_dev good_heap)))) = None"
    by (simp add: strtab_init_def power_on_def zero_inst_def Let_def split: prod.split)
  show "scan_uint [53, 62, 0] = Some (1, Some 5)"
    by (simp add: scan_uint_def scan_digits_def isspace_def isdigit_def decimal_def)
  show "rec_buf strtab_config (strtab_buffer (snd (strtab_init (power_on erased_dev good_heap))))"
    by (simp add: strtab_init_vols power_on_buffers)
qed

section \<open>What a module leaves alone\<close>

lemma registry_set_dev:
  assumes "registry_value_set i v n sys = Some (res, sys')" "i_sector (reg_inst sys) \<in> sectors registry_config"
    "65536 \<le> x" "x < 131071"
  shows "sys_dev sys' x = sys_dev sys x"
proof -
  have "dev s x = sys_dev sys x"
    if "nvol3_record_set registry_config rec m (reg_vol sys) = Some (r, rec', s)" for rec m r rec' s
    using reg.kept_framed [OF reg.nvol3_record_set_kept [OF that]] assms(2-4)
    by (simp add: reg.framed_def reg.outside_def sectors_reg ram_mem_def)
  then show ?thesis
    using assms(1) by (auto simp: registry_value_set_def bind_eq_Some_conv split: option.splits if_splits)
qed

lemma registry_delete_dev:
  assumes "registry_value_delete i sys = Some (res, sys')" "i_sector (reg_inst sys) \<in> sectors registry_config"
    "65536 \<le> x" "x < 131071"
  shows "sys_dev sys' x = sys_dev sys x"
proof -
  have "dev s x = sys_dev sys x"
    if "nvol3_record_delete registry_config rec (reg_vol sys) = Some (r, rec', s)" for rec r rec' s
    using reg.kept_framed [OF reg.nvol3_record_delete_kept [OF that]] assms(2-4)
    by (simp add: reg.framed_def reg.outside_def sectors_reg ram_mem_def)
  then show ?thesis
    using assms(1) by (auto simp: registry_value_delete_def bind_eq_Some_conv split: option.splits)
qed

lemma strtab_set_dev:
  assumes "strtab_set k v n sys = Some (res, sys')" "i_sector (str_inst sys) \<in> sectors strtab_config" "x < 65536"
  shows "sys_dev sys' x = sys_dev sys x"
proof -
  have "dev s x = sys_dev sys x"
    if "nvol3_record_set strtab_config rec m (str_vol sys) = Some (r, rec', s)" for rec m r rec' s
    using str.kept_framed [OF str.nvol3_record_set_kept [OF that]] assms(2,3)
    by (simp add: str.framed_def str.outside_def sectors_str ram_mem_def)
  then show ?thesis
    using assms(1) by (auto simp: strtab_set_def bind_eq_Some_conv split: if_splits)
qed

lemma query_dev:
  assumes rdy: "system_ready sys" and ok: "sop_ok op" and st: "sys_step op sys = Some (r, sys')"
    and q: "case op of RegGet s n \<Rightarrow> True | RegValid s \<Rightarrow> True | RegLength s \<Rightarrow> True | StrGet k n \<Rightarrow> True | _ \<Rightarrow> False"
  shows "sys_dev sys' = sys_dev sys"
proof (cases op)
  case (RegGet s n)
  then have z: "0 \<notin> set s" "n < 2 ^ 31" and n: "unat (of_nat n :: u32) = n"
    using ok by (simp_all add: unat_of_nat_u32)
  show ?thesis
    using registry_get_ok [OF ready_D(1) [OF rdy] z(1), of "of_nat n" "replicate n 0" "[]"] z(2) n st
    by (auto simp: RegGet split: option.splits)
next
  case (RegValid s)
  then have "0 \<notin> set s" using ok by simp
  from registry_valid_ok [OF ready_D(1) [OF rdy] this, of "[]"] st show ?thesis by (auto simp: RegValid)
next
  case (RegLength s)
  then have "0 \<notin> set s" using ok by simp
  from registry_length_ok [OF ready_D(1) [OF rdy] this, of "[]"] st show ?thesis by (auto simp: RegLength)
next
  case (StrGet k n)
  have "min (nat (int n)) 500 \<le> length (replicate n (0 :: u8))" by simp
  note g = strtab_get_ok [OF ready_D(2) [OF rdy] of_nat_0_le_iff this, of k]
  show ?thesis
  proof (cases "strtab_map sys (ucast k)")
    case None
    with g st show ?thesis by (auto simp: StrGet)
  next
    case (Some v)
    with g st show ?thesis by (cases "v = []") (auto simp: StrGet)
  qed
qed (use q in simp_all)

text \<open>
  C15: The modules keep to their sectors.  On the shared device a set or delete of the registry
  changes no byte of the string table's sectors, a set of the string table no byte of the
  registry's, and a query no byte at all.
\<close>

theorem modules_apart:
  assumes "system_ready sys" "sys_step op sys = Some (r, sys')" "x < 131071" "sop_ok op"
    "case op of RegSet s v \<Rightarrow> 65536 \<le> x | RegDelete s \<Rightarrow> 65536 \<le> x | StrSet k v \<Rightarrow> x < 65536
       | Substitute s n \<Rightarrow> False | Restart \<Rightarrow> False | _ \<Rightarrow> True"
  shows "sys_dev sys' x = sys_dev sys x"
proof -
  have sec: "i_sector (reg_inst sys) \<in> sectors registry_config" "i_sector (str_inst sys) \<in> sectors strtab_config"
    using ready_D(3,4) [OF assms(1)] nvol_inv_D(1) by (fastforce simp: registry_vol_inv_def strtab_vol_inv_def)+
  show ?thesis
  proof (cases op)
    case (RegSet s v)
    then show ?thesis
      using assms(2,3,5) registry_set_dev [OF _ sec(1), of "Some (s @ [0])" "Some v" "of_nat (length v)"]
      by (auto simp: bind_eq_Some_conv)
  next
    case (RegDelete s)
    then show ?thesis
      using assms(2,3,5) registry_delete_dev [OF _ sec(1), of "Some (s @ [0])"] by (auto simp: bind_eq_Some_conv)
  next
    case (StrSet k v)
    then show ?thesis
      using assms(2,3,5) strtab_set_dev [OF _ sec(2), of k "Some v" "int (length v)"] by (auto simp: bind_eq_Some_conv)
  qed (use query_dev [OF assms(1,4,2)] assms(5) in simp_all)
qed

theorem modules_apart_witness:
  "\<exists>sys sys'. system_boot (power_on erased_dev good_heap) = Some sys \<and>
    sys_step (RegSet [97] [1]) sys = Some ((EOK, []), sys') \<and> sys_dev sys' 65536 = sys_dev sys 65536"
proof -
  obtain sys where s: "system_boot (power_on erased_dev good_heap) = Some sys" "system_ready sys"
    "store_of sys = (Map.empty, Map.empty)" by (rule started)
  obtain sys' where st: "sys_step (RegSet [97] [1]) sys = Some ((EOK, []), sys')"
    by (rule step_result [OF s(2), of "RegSet [97] [1]"]) (use s(3) in simp_all)
  from modules_apart [OF s(2) st, of 65536] s(1) st show ?thesis by auto
qed

section \<open>Every reachable state\<close>

text \<open>The states the program reaches from a first start by calls of its clients.\<close>

inductive reachable :: "system \<Rightarrow> bool" where
  reach_start: "unformatted m \<Longrightarrow> plenty h \<Longrightarrow> system_boot (power_on m h) = Some sys \<Longrightarrow> reachable sys"
| reach_step: "reachable sys \<Longrightarrow> sop_ok op \<Longrightarrow> sys_step op sys = Some (r, sys') \<Longrightarrow> reachable sys'"

definition store_bounded :: "store \<Rightarrow> bool" where
  "store_bounded st \<longleftrightarrow>
     (case st of (r, t) \<Rightarrow>
        finite (dom r) \<and> card (dom r) \<le> 123 \<and> finite (dom t) \<and> card (dom t) \<le> 59 \<and>
        (\<forall>k v. r k = Some v \<longrightarrow> length k = 24 \<and> length v \<le> 224) \<and>
        (\<forall>k v. t k = Some v \<longrightarrow> length k = 4 \<and> length v \<le> 500))"

lemma card_upd_le: "finite (dom m) \<Longrightarrow> \<not> n \<le> card (dom m) \<Longrightarrow> card (dom (m(k \<mapsto> v))) \<le> n"
  by (simp add: card_insert_if)

lemma card_del_le: "finite (dom m) \<Longrightarrow> card (dom m) \<le> n \<Longrightarrow> card (dom (m(k := None))) \<le> n"
  by (rule order.trans [OF card_mono]) auto

lemma store_step_bounded:
  assumes "store_bounded st"
  shows "store_bounded (snd (store_step op st))"
  using assms card_upd_le [of _ 123] card_upd_le [of _ 59] card_del_le [of _ 123]
  by (cases st; cases op) (auto simp: store_bounded_def Let_def split: option.splits if_splits)

lemma reachable_inv:
  "reachable sys \<Longrightarrow> system_ready sys \<and> store_bounded (store_of sys)"
proof (induction rule: reachable.induct)
  case (reach_start m h sys)
  then obtain sys0 where "system_boot (power_on m h) = Some sys0" "system_ready sys0"
    "store_of sys0 = (Map.empty, Map.empty)" using unformatted_boot by blast
  with reach_start(3) show ?case by (simp add: store_bounded_def)
next
  case (reach_step sys op r sys')
  then obtain sys1 where "sys_step op sys = Some (fst (store_step op (store_of sys)), sys1)"
    "system_ready sys1" "store_of sys1 = snd (store_step op (store_of sys))"
    using step_result by metis
  with reach_step store_step_bounded [of "store_of sys" op] show ?case by simp
qed

text \<open>
  C13: The invariant of the program: in every state that calls and restarts can reach from a first
  start, both volumes, both static buffers and the lists of handlers and commands are well
  formed, the registry holds at most 123 values of at most 224 bytes under 24-byte keys, and the
  table at most 59 strings of at most 500 bytes under 4-byte keys.
\<close>

theorem reachable_invariant:
  assumes "reachable sys"
  shows "system_ready sys \<and> store_bounded (store_of sys)"
  by (rule reachable_inv [OF assms])

theorem reachable_invariant_witness:
  "\<exists>sys. system_boot (power_on erased_dev good_heap) = Some sys \<and> store_bounded (store_of sys)"
proof -
  obtain sys where s: "system_boot (power_on erased_dev good_heap) = Some sys" by (rule started)
  from reachable_invariant [OF reach_start [OF erased_unformatted good_heap_plenty s]] s
  show ?thesis by blast
qed

end
