(* ===== verification/Spiflash.thy ===== *)
theory Spiflash
  imports Nvol_Prelude
begin

text \<open>
  The driver of a serial FLASH chip, \<^verbatim>\<open>src/drivers/spiflash.c\<close>.  The SPI bus, the operating
  system and the chip are not part of the repository.  What the driver does to them is a list of
  events, the oldest first: selecting and releasing the chip, bytes sent, bytes received, sleeps.
  The chip is a function \<open>pf_chip\<close> that gives each byte of a transfer, from the events before the
  transfer and the position of the byte in it; so every behaviour of a chip is covered.
  \<open>pf_ext_vars\<close> and
  \<open>pf_ext_buf\<close> say whether \<^verbatim>\<open>is_external_mem\<close> holds for the variables of the driver and for its
  transfer buffer; for a client's buffer it is a parameter of the operation.
\<close>

unbundle bit_operations_syntax

section \<open>Commands and registers\<close>

definition SPIFLASH_ADDRESS_BYTES :: nat where "SPIFLASH_ADDRESS_BYTES = 3"

definition SPIFLASH_WRITE_REGISTERS :: u8 where "SPIFLASH_WRITE_REGISTERS = 0x01"
definition SPIFLASH_READ_STATUS_REGISTER :: u8 where "SPIFLASH_READ_STATUS_REGISTER = 0x05"
definition SPIFLASH_READ_STATUS2_REGISTER :: u8 where "SPIFLASH_READ_STATUS2_REGISTER = 0x07"
definition SPIFLASH_READ_JEDEC_ID :: u8 where "SPIFLASH_READ_JEDEC_ID = 0x9F"
definition SPIFLASH_CMD_WRITE_ENABLE :: u8 where "SPIFLASH_CMD_WRITE_ENABLE = 0x06"
definition SPIFLASH_CMD_WRITE_ENABLE_VOLATILE :: u8 where "SPIFLASH_CMD_WRITE_ENABLE_VOLATILE = 0x50"
definition SPIFLASH_CMD_WRITE_DISABLE :: u8 where "SPIFLASH_CMD_WRITE_DISABLE = 0x04"
definition SPIFLASH_CMD_CHIP_ERASE :: u8 where "SPIFLASH_CMD_CHIP_ERASE = 0xC7"
definition SPIFLASH_CMD_SECTOR_4K_ERASE :: u8 where "SPIFLASH_CMD_SECTOR_4K_ERASE = 0x20"
definition SPIFLASH_CMD_SECTOR_64K_ERASE :: u8 where "SPIFLASH_CMD_SECTOR_64K_ERASE = 0xD8"
definition SPIFLASH_CMD_PAGE_PROGRAM :: u8 where "SPIFLASH_CMD_PAGE_PROGRAM = 0x02"
definition SPIFLASH_CMD_READ :: u8 where "SPIFLASH_CMD_READ = 0x03"
definition SPIFLASH_CMD_READ_SFDP :: u8 where "SPIFLASH_CMD_READ_SFDP = 0x5A"
definition SPIFLASH_CMD_CLSR :: u8 where "SPIFLASH_CMD_CLSR = 0x30"
definition SPIFLASH_RESET_ENABLE :: u8 where "SPIFLASH_RESET_ENABLE = 0x66"
definition SPIFLASH_RESET :: u8 where "SPIFLASH_RESET = 0x99"

definition SPIFLASH_STATUS_WIP :: u8 where "SPIFLASH_STATUS_WIP = 0x01"
definition SPIFLASH_STATUS_WEL :: u8 where "SPIFLASH_STATUS_WEL = 0x02"
definition SPIFLASH_STATUS_E_ERR :: u8 where "SPIFLASH_STATUS_E_ERR = 0x20"
definition SPIFLASH_STATUS_P_ERR :: u8 where "SPIFLASH_STATUS_P_ERR = 0x40"

definition SPIFLASH_SECTOR_SIZE_4K :: u32 where "SPIFLASH_SECTOR_SIZE_4K = 0x1000"
definition SPIFLASH_WRITE_ENABLE_RETRY :: nat where "SPIFLASH_WRITE_ENABLE_RETRY = 200"
definition SPIFLASH_WAIT_WIP_RETRY :: nat where "SPIFLASH_WAIT_WIP_RETRY = 400"
definition SPIFLASH_WAIT_CHIP_ERASE_RETRY :: nat where "SPIFLASH_WAIT_CHIP_ERASE_RETRY = 500"
definition SPIFLASH_LOCAL_BUFFER_SIZE :: nat where "SPIFLASH_LOCAL_BUFFER_SIZE = 0x400"

section \<open>Bus, chip and the state of the driver\<close>

datatype spi_event =
    Acquire | Release | Select | Unselect | Send "u8 list" | Receive nat | Sleep nat

type_synonym spi_chip = "spi_event list \<Rightarrow> nat \<Rightarrow> u8"

record platform =
  pf_chip :: spi_chip
  pf_ext_vars :: bool
  pf_ext_buf :: bool

text \<open>
  The static variables: \<open>sf_config\<close> says whether the configuration pointer is not null, and
  \<open>sf_wel_status\<close> is the variable inside \<^verbatim>\<open>spiflash_write_enable\<close>.
\<close>

record spiflash =
  sf_log :: "spi_event list"
  sf_buffer :: "u8 list"
  sf_erasing :: u32
  sf_config :: bool
  sf_wel_status :: u32

definition spiflash_statics :: spiflash where
  "spiflash_statics =
     \<lparr>sf_log = [], sf_buffer = replicate SPIFLASH_LOCAL_BUFFER_SIZE 0, sf_erasing = 0,
      sf_config = False, sf_wel_status = 0\<rparr>"

definition event :: "spi_event \<Rightarrow> spiflash \<Rightarrow> spiflash" where
  "event e s = s\<lparr>sf_log := sf_log s @ [e]\<rparr>"

definition spi_receive :: "platform \<Rightarrow> nat \<Rightarrow> spiflash \<Rightarrow> u8 list \<times> spiflash" where
  "spi_receive pf n s = (map (pf_chip pf (sf_log s)) [0..<n], event (Receive n) s)"

text \<open>A store of bytes at the start of the transfer buffer, or behind its first \<open>off\<close> bytes.\<close>

definition buffer_put :: "nat \<Rightarrow> u8 list \<Rightarrow> spiflash \<Rightarrow> spiflash" where
  "buffer_put off bs s =
     s\<lparr>sf_buffer := take off (sf_buffer s) @ bs @ drop (off + length bs) (sf_buffer s)\<rparr>"

section \<open>Transfers\<close>

text \<open>External memory is filled through the transfer buffer, in parts of its size.\<close>

function read_external :: "platform \<Rightarrow> nat \<Rightarrow> spiflash \<Rightarrow> u8 list \<times> spiflash" where
  "read_external pf len s =
     (if len > SPIFLASH_LOCAL_BUFFER_SIZE
      then (case spi_receive pf SPIFLASH_LOCAL_BUFFER_SIZE s of (bs, s) \<Rightarrow>
            case read_external pf (len - SPIFLASH_LOCAL_BUFFER_SIZE) (buffer_put 0 bs s) of (r, s) \<Rightarrow>
            (bs @ r, s))
      else (case spi_receive pf len s of (bs, s) \<Rightarrow> (bs, buffer_put 0 bs s)))"
  by pat_completeness auto
termination
  by (relation "measure (\<lambda>(pf, len, s). len)") (auto simp: SPIFLASH_LOCAL_BUFFER_SIZE_def)

definition read_buffer :: "platform \<Rightarrow> bool \<Rightarrow> nat \<Rightarrow> spiflash \<Rightarrow> u8 list \<times> spiflash" where
  "read_buffer pf ext len s = (if ext then read_external pf len s else spi_receive pf len s)"

function write_external :: "u8 list \<Rightarrow> spiflash \<Rightarrow> spiflash" where
  "write_external data s =
     (if length data > SPIFLASH_LOCAL_BUFFER_SIZE
      then (let part = take SPIFLASH_LOCAL_BUFFER_SIZE data in
            write_external (drop SPIFLASH_LOCAL_BUFFER_SIZE data) (event (Send part) (buffer_put 0 part s)))
      else event (Send data) (buffer_put 0 data s))"
  by pat_completeness auto
termination
  by (relation "measure (\<lambda>(data, s). length data)") (auto simp: SPIFLASH_LOCAL_BUFFER_SIZE_def)

definition write_buffer :: "bool \<Rightarrow> u8 list \<Rightarrow> spiflash \<Rightarrow> spiflash" where
  "write_buffer ext data s = (if ext then write_external data s else event (Send data) s)"

text \<open>A null result or length 0 is modelled by length 0.\<close>

definition read_result :: "platform \<Rightarrow> bool \<Rightarrow> nat \<Rightarrow> spiflash \<Rightarrow> u8 list \<times> spiflash" where
  "read_result pf ext len s = (if len \<noteq> 0 then read_buffer pf ext len s else ([], s))"

definition spiflash_cmd :: "platform \<Rightarrow> u8 \<Rightarrow> bool \<Rightarrow> nat \<Rightarrow> spiflash \<Rightarrow> u8 list \<times> spiflash" where
  "spiflash_cmd pf opcode ext len s =
     (let s = event Select (buffer_put 0 [opcode] s);
          s = event (Send (take 1 (sf_buffer s))) s
      in case read_result pf ext len s of (bs, s) \<Rightarrow> (bs, event Unselect s))"

text \<open>The length sent is that of the data, without the opcode before it.\<close>

definition spiflash_cmd_write :: "u8 \<Rightarrow> u8 list \<Rightarrow> spiflash \<Rightarrow> spiflash" where
  "spiflash_cmd_write opcode cmd s =
     (let s = event Select (buffer_put 1 cmd (buffer_put 0 [opcode] s))
      in event Unselect (event (Send (take (length cmd) (sf_buffer s))) s))"

definition address_bytes :: "u32 \<Rightarrow> u8 list" where
  "address_bytes address = [le32 address ! 2, le32 address ! 1, le32 address ! 0]"

definition spiflash_cmd_addr ::
  "platform \<Rightarrow> u8 \<Rightarrow> u32 \<Rightarrow> bool \<Rightarrow> nat \<Rightarrow> spiflash \<Rightarrow> u8 list \<times> spiflash" where
  "spiflash_cmd_addr pf opcode address ext len s =
     (let s = event Select (buffer_put 0 (opcode # address_bytes address) s);
          s = event (Send (take (SPIFLASH_ADDRESS_BYTES + 1) (sf_buffer s))) s
      in case read_result pf ext len s of (bs, s) \<Rightarrow> (bs, event Unselect s))"

definition spiflash_cmd_addr_write :: "u8 \<Rightarrow> u32 \<Rightarrow> bool \<Rightarrow> u8 list \<Rightarrow> spiflash \<Rightarrow> spiflash" where
  "spiflash_cmd_addr_write opcode address ext data s =
     (let s = event Select (buffer_put 0 (opcode # address_bytes address) s);
          s = event (Send (take (SPIFLASH_ADDRESS_BYTES + 1) (sf_buffer s))) s;
          s = (if data \<noteq> [] then write_buffer ext data s else s)
      in event Unselect s)"

definition cmd_only :: "platform \<Rightarrow> u8 \<Rightarrow> spiflash \<Rightarrow> spiflash" where
  "cmd_only pf opcode s = snd (spiflash_cmd pf opcode False 0 s)"

text \<open>One byte read into a variable.\<close>

definition read_byte :: "platform \<Rightarrow> u8 \<Rightarrow> spiflash \<Rightarrow> u8 \<times> spiflash" where
  "read_byte pf opcode s =
     (case spiflash_cmd pf opcode (pf_ext_vars pf) 1 s of (bs, s) \<Rightarrow> (hd bs, s))"

section \<open>Waiting for the chip\<close>

definition set_low_byte :: "u8 \<Rightarrow> u32 \<Rightarrow> u32" where
  "set_low_byte b w = push_bit 8 (drop_bit 8 w) OR ucast b"

definition read_wel :: "platform \<Rightarrow> spiflash \<Rightarrow> spiflash" where
  "read_wel pf s =
     (case read_byte pf SPIFLASH_READ_STATUS_REGISTER s of (b, s) \<Rightarrow>
      s\<lparr>sf_wel_status := set_low_byte b (sf_wel_status s)\<rparr>)"

fun wel_loop :: "platform \<Rightarrow> nat \<Rightarrow> nat \<Rightarrow> spiflash \<Rightarrow> nat \<times> spiflash" where
  "wel_loop pf 0 i s = (0, s)"
| "wel_loop pf (Suc count) i s =
     (if sf_wel_status s AND ucast SPIFLASH_STATUS_WEL \<noteq> 0 then (Suc count, s)
      else if count = 0 then (0, s)
      else wel_loop pf count (i + 1)
             (read_wel pf (event (Sleep (if i + 1 < SPIFLASH_WRITE_ENABLE_RETRY div 2 then 0 else 10)) s)))"

definition spiflash_write_enable :: "platform \<Rightarrow> spiflash \<Rightarrow> status \<times> spiflash" where
  "spiflash_write_enable pf s =
     (case wel_loop pf SPIFLASH_WRITE_ENABLE_RETRY 0
             (read_wel pf (cmd_only pf SPIFLASH_CMD_WRITE_ENABLE s)) of
        (count, s) \<Rightarrow> (if count \<noteq> 0 then EOK else E_TIMEOUT, s))"

fun wip_loop :: "platform \<Rightarrow> nat \<Rightarrow> nat \<Rightarrow> u8 \<Rightarrow> spiflash \<Rightarrow> nat \<times> u8 \<times> spiflash" where
  "wip_loop pf 0 i status s = (0, status, s)"
| "wip_loop pf (Suc count) i status s =
     (if status AND SPIFLASH_STATUS_WIP = 0 then (Suc count, status, s)
      else if count = 0 then (0, status, s)
      else (case read_byte pf SPIFLASH_READ_STATUS_REGISTER
                   (event (Sleep (if i + 1 < SPIFLASH_WAIT_WIP_RETRY div 2 then 0 else 4)) s) of
              (status, s) \<Rightarrow> wip_loop pf count (i + 1) status s))"

definition has_error :: "u8 \<Rightarrow> bool" where
  "has_error status \<longleftrightarrow> status AND (SPIFLASH_STATUS_E_ERR OR SPIFLASH_STATUS_P_ERR) \<noteq> 0"

definition spiflash_wait_wip :: "platform \<Rightarrow> spiflash \<Rightarrow> status \<times> spiflash" where
  "spiflash_wait_wip pf s =
     (case read_byte pf SPIFLASH_READ_STATUS_REGISTER s of (status, s) \<Rightarrow>
      case wip_loop pf SPIFLASH_WAIT_WIP_RETRY 0 status s of (count, status, s) \<Rightarrow>
      if has_error status
      then (EFAIL, cmd_only pf SPIFLASH_CMD_CLSR (cmd_only pf SPIFLASH_CMD_WRITE_DISABLE s))
      else (if count \<noteq> 0 then EOK else E_TIMEOUT, s))"

definition spiflash_aquire :: "platform \<Rightarrow> spiflash \<Rightarrow> status \<times> spiflash" where
  "spiflash_aquire pf s = spiflash_wait_wip pf s"

definition spiflash_release :: "spiflash \<Rightarrow> status \<times> spiflash" where
  "spiflash_release s = (EOK, s)"

section \<open>Initialisation\<close>

definition read_id :: "platform \<Rightarrow> spiflash \<Rightarrow> u32 \<times> spiflash" where
  "read_id pf s =
     (case spiflash_cmd pf SPIFLASH_READ_JEDEC_ID (pf_ext_vars pf) 3 s of (bs, s) \<Rightarrow>
      (rd32 (bs @ [0]), s))"

text \<open>The result is the second status register, as an unsigned byte.\<close>

definition spiflash_init :: "platform \<Rightarrow> bool \<Rightarrow> spiflash \<Rightarrow> status \<times> spiflash" where
  "spiflash_init pf config s =
     (let s = event Acquire (s\<lparr>sf_config := config\<rparr>);
          s = cmd_only pf SPIFLASH_RESET (cmd_only pf SPIFLASH_RESET_ENABLE s);
          s = cmd_only pf SPIFLASH_CMD_WRITE_DISABLE (event (Sleep 1) s)
      in case read_id pf s of (ident, s) \<Rightarrow>
         case (if ident \<notin> {0x4226bf, 0x5318b9, 0x16609d, 0x18609d, 0x176001}
               then read_id pf (cmd_only pf SPIFLASH_CMD_WRITE_DISABLE s) else (ident, s)) of
           (ident, s) \<Rightarrow>
         (let s = (if ident = 0x4226bf
                   then snd (spiflash_wait_wip pf (cmd_only pf 0x98 (snd (spiflash_write_enable pf s))))
                   else s);
              s = (if ident = 0x176001
                   then cmd_only pf SPIFLASH_CMD_WRITE_DISABLE
                          (spiflash_cmd_write SPIFLASH_WRITE_REGISTERS [0, 0, 0]
                            (cmd_only pf SPIFLASH_CMD_WRITE_ENABLE_VOLATILE s))
                   else s)
          in case read_byte pf SPIFLASH_READ_STATUS_REGISTER s of (status, s) \<Rightarrow>
             case read_byte pf SPIFLASH_READ_STATUS2_REGISTER
                    (if has_error status then cmd_only pf SPIFLASH_CMD_CLSR s else s) of (status, s) \<Rightarrow>
             (int (unat status), event Release s)))"

definition spiflash_write_disable :: "platform \<Rightarrow> spiflash \<Rightarrow> status \<times> spiflash" where
  "spiflash_write_disable pf s =
     (EOK, event Release (cmd_only pf SPIFLASH_CMD_WRITE_DISABLE (event Acquire s)))"

section \<open>Erasing\<close>

definition spiflash_sector_size :: "u32 \<Rightarrow> u32" where
  "spiflash_sector_size addr = SPIFLASH_SECTOR_SIZE_4K"

fun erase_wait :: "platform \<Rightarrow> nat \<Rightarrow> spiflash \<Rightarrow> spiflash" where
  "erase_wait pf 0 s = s"
| "erase_wait pf (Suc j) s =
     (case spiflash_wait_wip pf s of (status, s) \<Rightarrow>
      if status \<noteq> EOK then erase_wait pf j (event (Sleep 1) s) else s)"

definition addr_only :: "platform \<Rightarrow> u8 \<Rightarrow> u32 \<Rightarrow> spiflash \<Rightarrow> spiflash" where
  "addr_only pf opcode address s = snd (spiflash_cmd_addr pf opcode address False 0 s)"

definition spiflash_sector_erase_start ::
  "platform \<Rightarrow> u32 \<Rightarrow> spiflash \<Rightarrow> (status \<times> spiflash) option" where
  "spiflash_sector_erase_start pf address s =
     (if sf_erasing s \<noteq> 0 then None
      else case spiflash_wait_wip pf (event Acquire s) of (status, s) \<Rightarrow>
        if status \<noteq> EOK then Some (status, event Release s)
        else case spiflash_write_enable pf s of (status, s) \<Rightarrow>
        if status \<noteq> EOK then Some (status, event Release s)
        else (let s = addr_only pf (if spiflash_sector_size address = SPIFLASH_SECTOR_SIZE_4K
                                    then SPIFLASH_CMD_SECTOR_4K_ERASE
                                    else SPIFLASH_CMD_SECTOR_64K_ERASE) address s;
                  s = addr_only pf SPIFLASH_CMD_SECTOR_4K_ERASE address s
              in Some (status, event Release (erase_wait pf 10 s))))"

text \<open>
  The scan reads parts behind the first four bytes of the transfer buffer.  Were that buffer
  external memory, \<^verbatim>\<open>memcpy\<close> would copy it onto itself: no result.
\<close>

definition READ_BUFFER_SIZE :: nat where "READ_BUFFER_SIZE = SPIFLASH_LOCAL_BUFFER_SIZE - 4"

function dirty_loop :: "platform \<Rightarrow> u32 \<Rightarrow> u32 \<Rightarrow> spiflash \<Rightarrow> bool \<times> spiflash" where
  "dirty_loop pf addr_start addr_end s =
     (if addr_end > addr_start
      then (let n = unat (addr_end - addr_start);
                len = (if n \<ge> READ_BUFFER_SIZE then READ_BUFFER_SIZE else n);
                s = (if n \<ge> READ_BUFFER_SIZE then s
                     else buffer_put 4 (replicate READ_BUFFER_SIZE 0xFF) s)
            in case spiflash_cmd_addr pf SPIFLASH_CMD_READ addr_start False len s of (bs, s) \<Rightarrow>
               (let s = buffer_put 4 bs s in
                if \<exists>b \<in> set (take (4 * (len div 4)) bs). b \<noteq> 0xFF then (True, s)
                else dirty_loop pf (addr_start + of_nat len) addr_end s))
      else (False, s))"
  by pat_completeness auto
termination
proof (relation "measure (\<lambda>(pf, a, e, s). unat (e - a))")
  fix pf :: platform and a e :: u32 and s :: spiflash and n len s' and bs :: "u8 list" and s2
  assume *: "a < e" "n = unat (e - a)" "len = (if READ_BUFFER_SIZE \<le> n then READ_BUFFER_SIZE else n)"
  then have n: "0 < n" by (simp add: unat_gt_0)
  have len: "0 < len" "len \<le> n"
    using n *(3) by (auto simp: READ_BUFFER_SIZE_def SPIFLASH_LOCAL_BUFFER_SIZE_def)
  have "unat (of_nat len :: u32) = len"
    using len(2) *(2) order.strict_trans1 [OF _ unat_u32_lt [of "e - a"]]
    by (intro unat_of_nat_u32) simp
  moreover from this have "(of_nat len :: u32) \<le> e - a" using len *(2) by (simp add: word_le_nat_alt)
  ultimately have "unat (e - a - of_nat len) = n - len" using *(2) by (simp only: unat_sub)
  then show "((pf, a + of_nat len, e, s2), (pf, a, e, s)) \<in> measure (\<lambda>(pf, a, e, s). unat (e - a))"
    using len * by (simp add: algebra_simps)
qed auto

definition spiflash_is_dirty ::
  "platform \<Rightarrow> u32 \<Rightarrow> u32 \<Rightarrow> spiflash \<Rightarrow> (bool \<times> spiflash) option" where
  "spiflash_is_dirty pf addr_start addr_end s =
     (if pf_ext_buf pf then None
      else case spiflash_aquire pf (event Acquire s) of (res, s) \<Rightarrow>
        case (if res = EOK
              then (case dirty_loop pf addr_start addr_end s of (d, s) \<Rightarrow> (d, snd (spiflash_release s)))
              else (True, s)) of (d, s) \<Rightarrow>
        Some (d, event Release s))"

text \<open>The loop over the sectors; it may not end, because the address wraps around.\<close>

partial_function (option) erase_loop ::
  "platform \<Rightarrow> u32 \<Rightarrow> u32 \<Rightarrow> spiflash \<Rightarrow> (u32 \<times> spiflash) option" where
  "erase_loop pf addr_start addr_end s =
     (if addr_start < addr_end
      then do {
        let sectorsize = spiflash_sector_size addr_start;
        (d, s) \<leftarrow> spiflash_is_dirty pf addr_start (addr_start + sectorsize) s;
        if d then do {
          (status, s) \<leftarrow> spiflash_sector_erase_start pf addr_start s;
          if status \<noteq> EOK then Some (addr_start, s)
          else erase_loop pf (addr_start + sectorsize) addr_end s }
        else erase_loop pf (addr_start + sectorsize) addr_end s }
      else Some (addr_start, s))"

definition spiflash_sector_erase ::
  "platform \<Rightarrow> u32 \<Rightarrow> u32 \<Rightarrow> spiflash \<Rightarrow> (status \<times> spiflash) option" where
  "spiflash_sector_erase pf addr_start addr_end s =
     do { (addr, s) \<leftarrow> erase_loop pf addr_start addr_end s;
          let s = event Release (snd (spiflash_wait_wip pf (event Acquire s)));
          Some (if addr \<ge> addr_end then EOK else EFAIL, s) }"

text \<open>\<^verbatim>\<open>status\<close> is a 32-bit variable of which the register overwrites the low byte.\<close>

fun chip_loop :: "platform \<Rightarrow> nat \<Rightarrow> u32 \<Rightarrow> spiflash \<Rightarrow> u32 \<times> spiflash" where
  "chip_loop pf 0 status s = (status, s)"
| "chip_loop pf (Suc count) status s =
     (if status AND ucast SPIFLASH_STATUS_WIP = 0 then (status, s)
      else if count = 0 then (status, s)
      else (let s = (if sf_config s
                     then event Acquire (event (Sleep 100) (event Release s))
                     else event (Sleep 100) s)
            in case read_byte pf SPIFLASH_READ_STATUS_REGISTER s of (b, s) \<Rightarrow>
               chip_loop pf count (set_low_byte b status) s))"

definition spiflash_chip_erase :: "platform \<Rightarrow> spiflash \<Rightarrow> (status \<times> spiflash) option" where
  "spiflash_chip_erase pf s =
     (if sf_erasing s \<noteq> 0 then None
      else case spiflash_wait_wip pf (event Acquire s) of (status, s) \<Rightarrow>
        if status \<noteq> EOK then Some (status, s)
        else case spiflash_write_enable pf s of (status, s) \<Rightarrow>
        if status \<noteq> EOK then Some (status, s)
        else case read_byte pf SPIFLASH_READ_STATUS_REGISTER (cmd_only pf SPIFLASH_CMD_CHIP_ERASE s) of (b, s) \<Rightarrow>
             case chip_loop pf SPIFLASH_WAIT_CHIP_ERASE_RETRY (set_low_byte b 0) s of (status, s) \<Rightarrow>
             Some (sint status, event Release s))"

section \<open>Writing and reading\<close>

text \<open>
  The data is the list of bytes readable at the client's pointer; programming past its end has no
  defined result.
\<close>

function write_loop ::
  "platform \<Rightarrow> bool \<Rightarrow> u32 \<Rightarrow> nat \<Rightarrow> nat \<Rightarrow> u8 list \<Rightarrow> status \<Rightarrow> spiflash \<Rightarrow> (status \<times> spiflash) option" where
  "write_loop pf ext address len bytes data res s =
     (if len \<noteq> 0 \<and> res = EOK \<and> bytes \<noteq> 0
      then (let bytes = (if len < bytes then len else bytes) in
            case spiflash_write_enable pf s of (res, s) \<Rightarrow>
            if res = EOK \<and> length data < bytes then None
            else
              (let s = (if res = EOK
                        then spiflash_cmd_addr_write SPIFLASH_CMD_PAGE_PROGRAM address ext (take bytes data) s
                        else s)
               in case spiflash_wait_wip pf s of (res, s) \<Rightarrow>
                  write_loop pf ext (address + of_nat bytes) (len - bytes) 0x100 (drop bytes data) res s))
      else Some (res, s))"
  by pat_completeness auto
termination
  by (relation "measure (\<lambda>(pf, ext, address, len, bytes, data, res, s). len)") auto

definition spiflash_write ::
  "platform \<Rightarrow> u32 \<Rightarrow> u32 \<Rightarrow> bool \<Rightarrow> u8 list \<Rightarrow> spiflash \<Rightarrow> (status \<times> spiflash) option" where
  "spiflash_write pf address len ext data s =
     (let bytes = 0x100 - unat (address AND 0xFF) in
      case spiflash_aquire pf (event Acquire s) of (res, s) \<Rightarrow>
      if res \<noteq> EOK then None
      else do {
        (res, s) \<leftarrow> write_loop pf ext address (unat len) bytes data res s;
        let (_, s) = spiflash_release s;
        Some (res, event Release s) })"

definition spiflash_read :: "platform \<Rightarrow> u32 \<Rightarrow> u32 \<Rightarrow> bool \<Rightarrow> spiflash \<Rightarrow> status \<times> u8 list \<times> spiflash" where
  "spiflash_read pf address len ext s =
     (case spiflash_cmd_addr pf SPIFLASH_CMD_READ address ext (unat len) (event Acquire s) of (bs, s) \<Rightarrow>
      (EOK, bs, event Release s))"

definition spiflash_read_sfdp ::
  "platform \<Rightarrow> u32 \<Rightarrow> u32 \<Rightarrow> bool \<Rightarrow> spiflash \<Rightarrow> status \<times> u8 list \<times> spiflash" where
  "spiflash_read_sfdp pf address len ext s =
     (case spiflash_aquire pf (event Acquire s) of (res, s) \<Rightarrow>
      if res \<noteq> EOK then (res, [], event Release s)
      else
        (let s = event Select (buffer_put 0 (SPIFLASH_CMD_READ_SFDP # address_bytes address @ [0]) s);
             s = event (Send (take 5 (sf_buffer s))) s
         in case read_result pf ext (unat len) s of (bs, s) \<Rightarrow>
            (res, bs, event Release (snd (spiflash_release (event Unselect s))))))"

end
