(* ===== verification/Spiflash_Spec.thy ===== *)
theory Spiflash_Spec
  imports Spiflash
begin

unbundle bit_operations_syntax

text \<open>
  What the driver of \<^verbatim>\<open>spiflash.c\<close> puts on the bus.  A command is a frame of events between
  selecting and releasing the chip; the lemmas give the frames each operation sends and what it
  returns, for every chip.  \<open>flash_chip\<close> states what a data sheet says of a serial FLASH chip, for
  the properties that need a chip that works.
\<close>

section \<open>Frames\<close>

definition cmd_frame :: "u8 \<Rightarrow> spi_event list" where
  "cmd_frame opcode = [Select, Send [opcode], Unselect]"

definition read_frame :: "u8 \<Rightarrow> nat \<Rightarrow> spi_event list" where
  "read_frame opcode n = [Select, Send [opcode], Receive n, Unselect]"

definition addr_frame :: "u8 \<Rightarrow> u32 \<Rightarrow> spi_event list" where
  "addr_frame opcode a = [Select, Send (opcode # address_bytes a), Unselect]"

definition program_frame :: "u32 \<Rightarrow> u8 list \<Rightarrow> spi_event list" where
  "program_frame a data =
     [Select, Send (SPIFLASH_CMD_PAGE_PROGRAM # address_bytes a), Send data, Unselect]"

abbreviation status_frame :: "spi_event list" where
  "status_frame \<equiv> read_frame SPIFLASH_READ_STATUS_REGISTER (Suc 0)"

text \<open>The status register as the chip gives it after a history of events.\<close>

definition status_at :: "platform \<Rightarrow> spi_event list \<Rightarrow> u8" where
  "status_at pf log = pf_chip pf (log @ [Select, Send [SPIFLASH_READ_STATUS_REGISTER]]) 0"

abbreviation busy :: "u8 \<Rightarrow> bool" where
  "busy b \<equiv> b AND SPIFLASH_STATUS_WIP \<noteq> 0"

abbreviation enabled :: "u8 \<Rightarrow> bool" where
  "enabled b \<equiv> b AND SPIFLASH_STATUS_WEL \<noteq> 0"

text \<open>All that an operation keeps of the variables: those that no transfer writes.\<close>

definition same_setup :: "spiflash \<Rightarrow> spiflash \<Rightarrow> bool" where
  "same_setup s s' \<longleftrightarrow> sf_erasing s' = sf_erasing s \<and> sf_config s' = sf_config s"

lemma sf_log_event [simp]: "sf_log (event e s) = sf_log s @ [e]"
  by (simp add: event_def)

lemma sf_log_buffer_put [simp]: "sf_log (buffer_put off bs s) = sf_log s"
  by (simp add: buffer_put_def)

lemma setup_simps [simp]:
  "sf_erasing (event e s) = sf_erasing s" "sf_config (event e s) = sf_config s"
  "sf_wel_status (event e s) = sf_wel_status s"
  "sf_erasing (buffer_put off bs s) = sf_erasing s" "sf_config (buffer_put off bs s) = sf_config s"
  "sf_wel_status (buffer_put off bs s) = sf_wel_status s"
  by (simp_all add: event_def buffer_put_def)

lemma sf_buffer_event [simp]: "sf_buffer (event e s) = sf_buffer s"
  by (simp add: event_def)

lemma sent_from_buffer [simp]:
  "take (length bs) (sf_buffer (buffer_put 0 bs s)) = bs"
  by (simp add: buffer_put_def)

lemma sent_opcode [simp]: "take (Suc 0) (sf_buffer (buffer_put 0 [b] s)) = [b]"
  using sent_from_buffer [of "[b]" s] by simp

lemma length_address_bytes [simp]: "length (address_bytes a) = 3"
  by (simp add: address_bytes_def)

lemma sent_address [simp]:
  "take (Suc SPIFLASH_ADDRESS_BYTES) (sf_buffer (buffer_put 0 (b # address_bytes a) s)) =
   b # address_bytes a"
  using sent_from_buffer [of "b # address_bytes a" s]
  by (simp add: SPIFLASH_ADDRESS_BYTES_def numeral_eq_Suc)

section \<open>Commands\<close>

text \<open>How many bytes each transfer of a read asks for.\<close>

function transfer_sizes :: "nat \<Rightarrow> nat list" where
  "transfer_sizes len =
     (if len > SPIFLASH_LOCAL_BUFFER_SIZE
      then SPIFLASH_LOCAL_BUFFER_SIZE # transfer_sizes (len - SPIFLASH_LOCAL_BUFFER_SIZE) else [len])"
  by pat_completeness auto
termination
  by (relation "measure id") (auto simp: SPIFLASH_LOCAL_BUFFER_SIZE_def)

definition sizes :: "bool \<Rightarrow> nat \<Rightarrow> nat list" where
  "sizes ext len = (if len = 0 then [] else if ext then transfer_sizes len else [len])"

text \<open>The bytes the chip gives in transfers of these sizes.\<close>

fun received :: "platform \<Rightarrow> spi_event list \<Rightarrow> nat list \<Rightarrow> u8 list" where
  "received pf log [] = []"
| "received pf log (n # ns) = map (pf_chip pf log) [0..<n] @ received pf (log @ [Receive n]) ns"

lemma received_append:
  "received pf log (ns @ ms) = received pf log ns @ received pf (log @ map Receive ns) ms"
  by (induction ns arbitrary: log) simp_all

declare read_external.simps [simp del] write_external.simps [simp del] transfer_sizes.simps [simp del]
  dirty_loop.simps [simp del] write_loop.simps [simp del] wel_loop.simps [simp del]
  wip_loop.simps [simp del]

lemma same_setup_refl [simp]: "same_setup s s"
  by (simp add: same_setup_def)

lemma same_setup_trans: "same_setup r s \<Longrightarrow> same_setup s t \<Longrightarrow> same_setup r t"
  by (simp add: same_setup_def)

lemma same_setup_step [simp]:
  "same_setup s (event e t) = same_setup s t" "same_setup s (buffer_put off bs t) = same_setup s t"
  "same_setup (event e t) s = same_setup t s" "same_setup (buffer_put off bs t) s = same_setup t s"
  "same_setup s (t\<lparr>sf_wel_status := w\<rparr>) = same_setup s t"
  "same_setup (t\<lparr>sf_wel_status := w\<rparr>) s = same_setup t s"
  by (simp_all add: same_setup_def)

lemma read_external_effect:
  "read_external pf len s = (bs, s') \<Longrightarrow>
   bs = received pf (sf_log s) (transfer_sizes len) \<and>
   sf_log s' = sf_log s @ map Receive (transfer_sizes len) \<and>
   sf_wel_status s' = sf_wel_status s \<and> same_setup s s'"
proof (induction pf len s arbitrary: bs s' rule: read_external.induct)
  case (1 pf len s)
  show ?case
  proof (cases "len > SPIFLASH_LOCAL_BUFFER_SIZE")
    case True
    obtain r t where r: "read_external pf (len - SPIFLASH_LOCAL_BUFFER_SIZE)
        (buffer_put 0 (map (pf_chip pf (sf_log s)) [0..<SPIFLASH_LOCAL_BUFFER_SIZE])
          (event (Receive SPIFLASH_LOCAL_BUFFER_SIZE) s)) = (r, t)"
      by fastforce
    from 1(1) [OF True spi_receive_def [symmetric] r] True r 1(2) show ?thesis
      by (subst (asm) read_external.simps)
         (auto simp: spi_receive_def transfer_sizes.simps [of len])
  next
    case False
    then show ?thesis
      using 1(2) by (auto simp: read_external.simps [of pf len] spi_receive_def
          transfer_sizes.simps [of len])
  qed
qed

lemma read_result_effect:
  assumes "read_result pf ext len s = (bs, s')"
  shows "bs = received pf (sf_log s) (sizes ext len) \<and>
    sf_log s' = sf_log s @ map Receive (sizes ext len) \<and>
    sf_wel_status s' = sf_wel_status s \<and> same_setup s s'"
  using assms read_external_effect [of pf len s]
  by (auto simp: read_result_def read_buffer_def sizes_def spi_receive_def split: if_splits)

lemma spiflash_cmd_effect:
  assumes "spiflash_cmd pf opcode ext len s = (bs, s')"
  shows "bs = received pf (sf_log s @ [Select, Send [opcode]]) (sizes ext len) \<and>
    sf_log s' = sf_log s @ [Select, Send [opcode]] @ map Receive (sizes ext len) @ [Unselect] \<and>
    sf_wel_status s' = sf_wel_status s \<and> same_setup s s'"
  using assms
  by (auto simp: spiflash_cmd_def dest!: read_result_effect split: prod.splits)

lemma spiflash_cmd_addr_effect:
  assumes "spiflash_cmd_addr pf opcode a ext len s = (bs, s')"
  shows "bs = received pf (sf_log s @ [Select, Send (opcode # address_bytes a)]) (sizes ext len) \<and>
    sf_log s' = sf_log s @ [Select, Send (opcode # address_bytes a)] @
      map Receive (sizes ext len) @ [Unselect] \<and>
    sf_wel_status s' = sf_wel_status s \<and> same_setup s s'"
  using assms
  by (auto simp: spiflash_cmd_addr_def dest!: read_result_effect split: prod.splits)

lemma transfer_sizes_small: "len \<le> SPIFLASH_LOCAL_BUFFER_SIZE \<Longrightarrow> transfer_sizes len = [len]"
  by (simp add: transfer_sizes.simps [of len])

lemma sizes_0 [simp]: "sizes ext 0 = []"
  by (simp add: sizes_def)

lemma sizes_small: "0 < len \<Longrightarrow> len \<le> SPIFLASH_LOCAL_BUFFER_SIZE \<Longrightarrow> sizes ext len = [len]"
  by (simp add: sizes_def transfer_sizes_small)

lemma sizes_1 [simp]: "sizes ext (Suc 0) = [Suc 0]"
  by (simp add: sizes_small SPIFLASH_LOCAL_BUFFER_SIZE_def)

lemma cmd_only_effect [simp]:
  "sf_log (cmd_only pf opcode s) = sf_log s @ cmd_frame opcode"
  "sf_wel_status (cmd_only pf opcode s) = sf_wel_status s"
  "same_setup r (cmd_only pf opcode s) = same_setup r s"
  "same_setup (cmd_only pf opcode s) r = same_setup s r"
proof -
  obtain bs t where c: "spiflash_cmd pf opcode False 0 s = (bs, t)" by fastforce
  from spiflash_cmd_effect [OF c]
  have "sf_log t = sf_log s @ cmd_frame opcode" "sf_wel_status t = sf_wel_status s" "same_setup s t"
    by (simp_all add: cmd_frame_def)
  then show "sf_log (cmd_only pf opcode s) = sf_log s @ cmd_frame opcode"
    "sf_wel_status (cmd_only pf opcode s) = sf_wel_status s"
    "same_setup r (cmd_only pf opcode s) = same_setup r s"
    "same_setup (cmd_only pf opcode s) r = same_setup s r"
    by (simp_all add: cmd_only_def c same_setup_def)
qed

lemma addr_only_effect [simp]:
  "sf_log (addr_only pf opcode a s) = sf_log s @ addr_frame opcode a"
  "same_setup r (addr_only pf opcode a s) = same_setup r s"
proof -
  obtain bs t where c: "spiflash_cmd_addr pf opcode a False 0 s = (bs, t)" by fastforce
  from spiflash_cmd_addr_effect [OF c]
  have "sf_log t = sf_log s @ addr_frame opcode a" "same_setup s t"
    by (simp_all add: addr_frame_def)
  then show "sf_log (addr_only pf opcode a s) = sf_log s @ addr_frame opcode a"
    "same_setup r (addr_only pf opcode a s) = same_setup r s"
    by (simp_all add: addr_only_def c same_setup_def)
qed

lemma read_byte_effect:
  assumes "read_byte pf opcode s = (b, s')"
  shows "b = pf_chip pf (sf_log s @ [Select, Send [opcode]]) 0 \<and>
    sf_log s' = sf_log s @ read_frame opcode 1 \<and> sf_wel_status s' = sf_wel_status s \<and>
    same_setup s s'"
  using assms
  by (auto simp: read_byte_def read_frame_def dest!: spiflash_cmd_effect split: prod.splits)

lemma read_status_effect:
  assumes "read_byte pf SPIFLASH_READ_STATUS_REGISTER s = (b, s')"
  shows "b = status_at pf (sf_log s) \<and> sf_log s' = sf_log s @ status_frame \<and>
    sf_wel_status s' = sf_wel_status s \<and> same_setup s s'"
  using read_byte_effect [OF assms] by (simp add: status_at_def)

lemma write_buffer_small:
  "length data \<le> SPIFLASH_LOCAL_BUFFER_SIZE \<Longrightarrow>
   sf_log (write_buffer ext data s) = sf_log s @ [Send data] \<and> same_setup s (write_buffer ext data s)"
  by (simp add: write_buffer_def write_external.simps [of data])

lemma program_effect:
  assumes "data \<noteq> []" "length data \<le> SPIFLASH_LOCAL_BUFFER_SIZE"
    and "s' = spiflash_cmd_addr_write SPIFLASH_CMD_PAGE_PROGRAM a ext data s"
  shows "sf_log s' = sf_log s @ program_frame a data \<and> same_setup s s'"
proof -
  have t: "sf_log (write_buffer ext data t) = sf_log t @ [Send data]"
    "same_setup t (write_buffer ext data t)" for t
    using write_buffer_small [OF assms(2)] by blast+
  show ?thesis
    using assms(1,3)
    by (auto simp: spiflash_cmd_addr_write_def program_frame_def t Let_def
        intro: same_setup_trans [OF _ t(2)])
qed

section \<open>Waiting\<close>

text \<open>
  The history before the read number \<open>k\<close> of the status register, \<open>k\<close> counted from 0, when the
  loop sleeps \<open>nap i\<close> before read number \<open>i\<close>.
\<close>

fun polled :: "(nat \<Rightarrow> nat) \<Rightarrow> spi_event list \<Rightarrow> nat \<Rightarrow> spi_event list" where
  "polled nap log 0 = log"
| "polled nap log (Suc k) = polled nap log k @ status_frame @ [Sleep (nap (Suc k))]"

definition wip_nap :: "nat \<Rightarrow> nat" where
  "wip_nap i = (if i < SPIFLASH_WAIT_WIP_RETRY div 2 then 0 else 4)"

definition wel_nap :: "nat \<Rightarrow> nat" where
  "wel_nap i = (if i < SPIFLASH_WRITE_ENABLE_RETRY div 2 then 0 else 10)"

text \<open>Which read ends a loop: the first with the awaited status, or the last one allowed.\<close>

fun last_read :: "(nat \<Rightarrow> bool) \<Rightarrow> nat \<Rightarrow> nat \<Rightarrow> nat" where
  "last_read fin k 0 = k"
| "last_read fin k (Suc n) = (if fin k then k else last_read fin (Suc k) n)"

lemma last_read_bounds: "k \<le> last_read fin k n \<and> last_read fin k n \<le> k + n"
  by (induction fin k n rule: last_read.induct) auto

lemma last_read_before: "k \<le> j \<Longrightarrow> j < last_read fin k n \<Longrightarrow> \<not> fin j"
  by (induction fin k n rule: last_read.induct) (auto split: if_splits dest: le_neq_implies_less)

lemma last_read_early: "last_read fin k n < k + n \<Longrightarrow> fin (last_read fin k n)"
  by (induction fin k n rule: last_read.induct) auto

definition wip_read :: "platform \<Rightarrow> spi_event list \<Rightarrow> nat \<Rightarrow> u8" where
  "wip_read pf log j = status_at pf (polled wip_nap log j)"

definition wip_end :: "platform \<Rightarrow> spi_event list \<Rightarrow> nat" where
  "wip_end pf log = last_read (\<lambda>j. \<not> busy (wip_read pf log j)) 0 (SPIFLASH_WAIT_WIP_RETRY - 1)"

lemma wip_loop_effect:
  assumes "wip_loop pf (Suc n) i status s = (c, status', s')"
    and "status = wip_read pf log i" "sf_log s = polled wip_nap log i @ status_frame"
  shows "let k = last_read (\<lambda>j. \<not> busy (wip_read pf log j)) i n in
    (c \<noteq> 0 \<longleftrightarrow> \<not> busy (wip_read pf log k)) \<and> status' = wip_read pf log k \<and>
    sf_log s' = polled wip_nap log k @ status_frame \<and>
    sf_wel_status s' = sf_wel_status s \<and> same_setup s s'"
  using assms
proof (induction n arbitrary: i status s)
  case 0
  then show ?case by (auto simp: wip_loop.simps split: if_splits)
next
  case (Suc n)
  show ?case
  proof (cases "busy status")
    case False
    with Suc.prems show ?thesis by (auto simp: wip_loop.simps)
  next
    case True
    define t where "t = event (Sleep (wip_nap (i + 1))) s"
    obtain st u where r: "read_byte pf SPIFLASH_READ_STATUS_REGISTER t = (st, u)" by fastforce
    have u: "st = wip_read pf log (Suc i)" "sf_log u = polled wip_nap log (Suc i) @ status_frame"
      "sf_wel_status u = sf_wel_status s" "same_setup s u"
      using read_status_effect [OF r] Suc.prems(3) by (simp_all add: t_def wip_read_def)
    have "wip_loop pf (Suc n) (Suc i) st u = (c, status', s')"
      using Suc.prems(1) True r
      unfolding wip_loop.simps(2) [of pf "Suc n"] by (simp add: t_def wip_nap_def)
    from Suc.IH [OF this u(1,2)] u True Suc.prems(2) show ?thesis
      by (auto simp: Let_def intro: same_setup_trans)
  qed
qed

lemma wait_wip_effect:
  assumes "spiflash_wait_wip pf s = (res, s')"
  shows "let log = sf_log s; k = wip_end pf log; st = wip_read pf log k in
    res = (if has_error st then EFAIL else if busy st then E_TIMEOUT else EOK) \<and>
    sf_log s' = polled wip_nap log k @ status_frame @
      (if has_error st then cmd_frame SPIFLASH_CMD_WRITE_DISABLE @ cmd_frame SPIFLASH_CMD_CLSR else []) \<and>
    sf_wel_status s' = sf_wel_status s \<and> same_setup s s'"
proof -
  obtain st t where r: "read_byte pf SPIFLASH_READ_STATUS_REGISTER s = (st, t)" by fastforce
  obtain c st' u where w: "wip_loop pf SPIFLASH_WAIT_WIP_RETRY 0 st t = (c, st', u)"
    by (metis prod_cases3)
  have retry: "SPIFLASH_WAIT_WIP_RETRY = Suc (SPIFLASH_WAIT_WIP_RETRY - 1)"
    by (simp add: SPIFLASH_WAIT_WIP_RETRY_def)
  from read_status_effect [OF r]
  have t: "st = wip_read pf (sf_log s) 0" "sf_log t = polled wip_nap (sf_log s) 0 @ status_frame"
    "sf_wel_status t = sf_wel_status s" "same_setup s t"
    by (simp_all add: wip_read_def)
  from w have w': "wip_loop pf (Suc (SPIFLASH_WAIT_WIP_RETRY - 1)) 0 st t = (c, st', u)"
    using retry by simp
  from assms have "(res, s') = (if has_error st'
      then (EFAIL, cmd_only pf SPIFLASH_CMD_CLSR (cmd_only pf SPIFLASH_CMD_WRITE_DISABLE u))
      else (if c \<noteq> 0 then EOK else E_TIMEOUT, u))"
    by (simp add: spiflash_wait_wip_def r w)
  with wip_loop_effect [OF w' t(1,2)] t(3,4) show ?thesis
    unfolding wip_end_def [symmetric]
    by (auto simp: Let_def intro: same_setup_trans split: if_splits)
qed

lemma set_low_byte_AND: "set_low_byte b w AND ucast m = ucast (b AND m)"
  by (rule bit_word_eqI)
     (auto simp: set_low_byte_def bit_or_iff bit_and_iff bit_push_bit_iff bit_ucast_iff
       dest: bit_imp_le_length)

lemma ucast_u8_u32_eq_0 [simp]: "ucast (b :: u8) = (0 :: u32) \<longleftrightarrow> b = 0"
proof -
  have "unat (ucast b :: u32) = unat b"
    by (simp add: unsigned_ucast_eq take_bit_nat_eq_self_iff order.strict_trans [OF unat_u8_lt])
  then show ?thesis by (metis unat_eq_zero unat_0)
qed

definition wel_read :: "platform \<Rightarrow> spi_event list \<Rightarrow> nat \<Rightarrow> u8" where
  "wel_read pf log j = status_at pf (polled wel_nap log j)"

definition wel_end :: "platform \<Rightarrow> spi_event list \<Rightarrow> nat" where
  "wel_end pf log = last_read (\<lambda>j. enabled (wel_read pf log j)) 0 (SPIFLASH_WRITE_ENABLE_RETRY - 1)"

lemma read_wel_effect:
  "read_wel pf s = t \<Longrightarrow>
   (sf_wel_status t AND ucast m = 0 \<longleftrightarrow> status_at pf (sf_log s) AND m = 0) \<and>
   sf_log t = sf_log s @ status_frame \<and> same_setup s t"
  by (auto simp: read_wel_def set_low_byte_AND dest!: read_status_effect split: prod.splits)

lemma wel_loop_effect:
  assumes "wel_loop pf (Suc n) i s = (c, s')"
    and "sf_wel_status s AND ucast SPIFLASH_STATUS_WEL = 0 \<longleftrightarrow> \<not> enabled (wel_read pf log i)"
      "sf_log s = polled wel_nap log i @ status_frame"
  shows "let k = last_read (\<lambda>j. enabled (wel_read pf log j)) i n in
    (c \<noteq> 0 \<longleftrightarrow> enabled (wel_read pf log k)) \<and>
    sf_log s' = polled wel_nap log k @ status_frame \<and> same_setup s s'"
  using assms
proof (induction n arbitrary: i s)
  case 0
  then show ?case by (auto simp: wel_loop.simps split: if_splits)
next
  case (Suc n)
  show ?case
  proof (cases "enabled (wel_read pf log i)")
    case True
    with Suc.prems show ?thesis by (auto simp: wel_loop.simps)
  next
    case False
    define u where "u = read_wel pf (event (Sleep (wel_nap (i + 1))) s)"
    have u: "sf_wel_status u AND ucast SPIFLASH_STATUS_WEL = 0 \<longleftrightarrow> \<not> enabled (wel_read pf log (Suc i))"
      "sf_log u = polled wel_nap log (Suc i) @ status_frame" "same_setup s u"
      using read_wel_effect [OF u_def [symmetric], of SPIFLASH_STATUS_WEL] Suc.prems(3)
      by (simp_all add: wel_read_def)
    have "wel_loop pf (Suc n) (Suc i) u = (c, s')"
      using Suc.prems(1,2) False
      unfolding wel_loop.simps(2) [of pf "Suc n"] by (simp add: u_def wel_nap_def)
    from Suc.IH [OF this u(1,2)] u False show ?thesis
      by (auto simp: Let_def intro: same_setup_trans)
  qed
qed

lemma write_enable_effect:
  assumes "spiflash_write_enable pf s = (res, s')"
  shows "let log = sf_log s @ cmd_frame SPIFLASH_CMD_WRITE_ENABLE; k = wel_end pf log in
    res = (if enabled (wel_read pf log k) then EOK else E_TIMEOUT) \<and>
    sf_log s' = polled wel_nap log k @ status_frame \<and> same_setup s s'"
proof -
  define log where "log = sf_log s @ cmd_frame SPIFLASH_CMD_WRITE_ENABLE"
  define t where "t = read_wel pf (cmd_only pf SPIFLASH_CMD_WRITE_ENABLE s)"
  have t: "sf_wel_status t AND ucast SPIFLASH_STATUS_WEL = 0 \<longleftrightarrow> \<not> enabled (wel_read pf log 0)"
    "sf_log t = polled wel_nap log 0 @ status_frame" "same_setup s t"
    using read_wel_effect [OF t_def [symmetric], of SPIFLASH_STATUS_WEL]
    by (simp_all add: wel_read_def log_def)
  obtain c u where w: "wel_loop pf SPIFLASH_WRITE_ENABLE_RETRY 0 t = (c, u)" by fastforce
  have "SPIFLASH_WRITE_ENABLE_RETRY = Suc (SPIFLASH_WRITE_ENABLE_RETRY - 1)"
    by (simp add: SPIFLASH_WRITE_ENABLE_RETRY_def)
  with w have w': "wel_loop pf (Suc (SPIFLASH_WRITE_ENABLE_RETRY - 1)) 0 t = (c, u)" by simp
  from assms have "(res, s') = (if c \<noteq> 0 then EOK else E_TIMEOUT, u)"
    by (simp add: spiflash_write_enable_def t_def [symmetric] w)
  with wel_loop_effect [OF w' t(1,2)] t(3) show ?thesis
    unfolding wel_end_def [symmetric] log_def [symmetric]
    by (auto simp: Let_def intro: same_setup_trans split: if_splits)
qed

end
