(* ===== verification/Spiflash_Chip.thy ===== *)
theory Spiflash_Chip
  imports Spiflash_Spec
begin

unbundle bit_operations_syntax

text \<open>
  The driver on a chip that behaves as the data sheets of serial FLASH chips say.  \<open>flash_chip\<close>
  collects those statements for two views of the chip, the content \<open>mem\<close> of its array and its write
  enable latch \<open>wel\<close>, both after a history of events.  On such a chip the operations of the driver
  program, read and erase exactly the bytes they are asked to.
\<close>

section \<open>The array\<close>

definition CHIP_SIZE :: nat where "CHIP_SIZE = 2 ^ 24"
definition PAGE :: nat where "PAGE = 256"
definition SECTOR :: nat where "SECTOR = 4096"

type_synonym flash_array = "nat \<Rightarrow> u8"

text \<open>Programming clears bits inside one page; the address wraps around in the page.\<close>

definition page_program :: "flash_array \<Rightarrow> nat \<Rightarrow> u8 list \<Rightarrow> flash_array" where
  "page_program m a d =
     (\<lambda>x. let i = (x + PAGE - a mod PAGE) mod PAGE
          in if x div PAGE = a div PAGE \<and> i < length d then m x AND d ! i else m x)"

definition sector_clear :: "flash_array \<Rightarrow> nat \<Rightarrow> flash_array" where
  "sector_clear m a = (\<lambda>x. if x div SECTOR = a div SECTOR then 0xFF else m x)"

text \<open>Programming a range of any length, and clearing one.\<close>

definition range_program :: "flash_array \<Rightarrow> nat \<Rightarrow> u8 list \<Rightarrow> flash_array" where
  "range_program m a d = (\<lambda>x. if a \<le> x \<and> x < a + length d then m x AND d ! (x - a) else m x)"

definition range_clear :: "flash_array \<Rightarrow> nat \<Rightarrow> nat \<Rightarrow> flash_array" where
  "range_clear m a b = (\<lambda>x. if a \<le> x \<and> x < b then 0xFF else m x)"

lemma page_program_range:
  assumes "a mod PAGE + length d \<le> PAGE"
  shows "page_program m a d = range_program m a d"
proof
  fix x
  define q r i where "q = a div PAGE" and "r = a mod PAGE" and "i = (x + PAGE - r) mod PAGE"
  have a: "a = q * PAGE + r" "r < PAGE" by (simp_all add: q_def r_def PAGE_def)
  have page: "x div PAGE = q" if "a \<le> x" "x < a + length d"
    using that assms a div_less_mono [of x a] unfolding r_def [symmetric] PAGE_def
    by (intro div_nat_eqI) auto
  have i: "i = (if r \<le> x mod PAGE then x mod PAGE - r else x mod PAGE + PAGE - r)"
  proof -
    have "x + PAGE - r = x mod PAGE + PAGE - r + x div PAGE * PAGE"
      using a(2) div_mult_mod_eq [of x PAGE] by simp
    then have "i = (x mod PAGE + PAGE - r) mod PAGE" by (simp add: i_def)
    then show ?thesis
      using a(2) mod_less_divisor [of PAGE x] by (auto simp: PAGE_def le_mod_geq)
  qed
  have x: "x = x div PAGE * PAGE + x mod PAGE" by simp
  have "x div PAGE = q \<longrightarrow> (a \<le> x \<longleftrightarrow> r \<le> x mod PAGE) \<and> x - a = x mod PAGE - r"
    using x a(1) by (metis diff_cancel2 add.commute nat_add_left_cancel_le)
  then have "x div PAGE = q \<and> i < length d \<longleftrightarrow> a \<le> x \<and> x < a + length d"
    and "x div PAGE = q \<and> i < length d \<longrightarrow> i = x - a"
    using page i assms unfolding r_def [symmetric] by (auto split: if_splits)
  then show "page_program m a d x = range_program m a d x"
    by (auto simp: page_program_def range_program_def Let_def q_def r_def i_def)
qed

lemma FF_AND: "0xFF AND b = (b :: u8)"
  unfolding u8_FF by (rule AND_all_ones)

lemma range_program_Nil [simp]: "range_program m a [] = m"
  by (rule ext) (auto simp: range_program_def)

lemma range_program_append:
  "range_program (range_program m a d) (a + length d) e = range_program m a (d @ e)"
  by (rule ext) (auto simp: range_program_def nth_append)

lemma sector_clear_range:
  assumes "SECTOR dvd a"
  shows "sector_clear m a = range_clear m a (a + SECTOR)"
proof
  fix x
  from assms obtain k where a: "a = SECTOR * k" ..
  then have "a div SECTOR = k" by (simp add: SECTOR_def)
  with a have "x div SECTOR = a div SECTOR \<longleftrightarrow> a \<le> x \<and> x < a + SECTOR"
    unfolding SECTOR_def by (auto simp: div_nat_eqI)
  then show "sector_clear m a x = range_clear m a (a + SECTOR) x"
    by (simp add: sector_clear_def range_clear_def)
qed

lemma range_clear_empty: "b \<le> a \<Longrightarrow> range_clear m a b = m"
  by (rule ext) (auto simp: range_clear_def)

lemma range_clear_append:
  "a \<le> b \<Longrightarrow> b \<le> c \<Longrightarrow> range_clear (range_clear m a b) b c = range_clear m a c"
  by (rule ext) (auto simp: range_clear_def)

lemma unat_and_FF: "unat (a AND 0xFF :: u32) = unat a mod PAGE"
proof -
  have "(0xFF :: u32) = mask 8" by (simp add: mask_eq_exp_minus_1)
  then show ?thesis
    by (simp only: take_bit_eq_mask [symmetric] unsigned_take_bit_eq)
       (simp add: take_bit_eq_mod PAGE_def)
qed

section \<open>The address on the bus\<close>

definition bus_address :: "u8 list \<Rightarrow> nat" where
  "bus_address bs = 65536 * unat (bs ! 0) + 256 * unat (bs ! 1) + unat (bs ! 2)"

lemma bus_address_bytes: "bus_address (address_bytes a) = unat a mod CHIP_SIZE"
proof -
  have b: "unat (ucast (drop_bit n a) :: u8) = unat a div 2 ^ n mod 256" for n
    by (simp add: unsigned_ucast_eq take_bit_eq_mod unsigned_drop_bit_eq flip: drop_bit_eq_div)
  have "unat (ucast a :: u8) = unat a mod 256" using b [of 0] by simp
  then have "bus_address (address_bytes a) =
      65536 * (unat a div 65536 mod 256) + 256 * (unat a div 256 mod 256) + unat a mod 256"
    unfolding bus_address_def address_bytes_def le32_def using b [of 8] b [of 16] by simp
  moreover have "n mod CHIP_SIZE = 65536 * (n div 65536 mod 256) + 256 * (n div 256 mod 256) + n mod 256"
    for n :: nat
    using mod_mult2_eq [of n 256 65536] mod_mult2_eq [of "n div 256" 256 256]
    by (simp add: CHIP_SIZE_def div_mult2_eq [of n 256 256, simplified])
  ultimately show ?thesis by simp
qed

section \<open>A chip as its data sheet has it\<close>

abbreviation ready :: "platform \<Rightarrow> spi_event list \<Rightarrow> bool" where
  "ready pf log \<equiv> \<not> busy (status_at pf log)"

text \<open>Events that change nothing in the chip but the work it has left.\<close>

definition quiet :: "spi_event list \<Rightarrow> bool" where
  "quiet es \<longleftrightarrow> es = status_frame \<or> es = [Acquire] \<or> es = [Release] \<or> (\<exists>n. es = [Sleep n])"

definition read_events :: "u32 \<Rightarrow> nat list \<Rightarrow> spi_event list" where
  "read_events a ns = [Select, Send (SPIFLASH_CMD_READ # address_bytes a)] @ map Receive ns"

text \<open>
  The chip finishes its work within the status reads of one wait and reports no error; enabling
  sets the latch, which the status register shows; a program or erase command works when the latch
  is set and the chip has no work left, and reading has no effect.
\<close>

definition flash_chip ::
  "platform \<Rightarrow> (spi_event list \<Rightarrow> flash_array) \<Rightarrow> (spi_event list \<Rightarrow> bool) \<Rightarrow> bool" where
  "flash_chip pf mem wel \<longleftrightarrow>
     (\<forall>log. \<exists>k < SPIFLASH_WAIT_WIP_RETRY. ready pf (polled wip_nap log k)) \<and>
     (\<forall>log. \<not> has_error (status_at pf log)) \<and>
     (\<forall>log es. quiet es \<longrightarrow> mem (log @ es) = mem log \<and> wel (log @ es) = wel log \<and>
        (ready pf log \<longrightarrow> ready pf (log @ es))) \<and>
     (\<forall>log. wel log \<longrightarrow> enabled (status_at pf log)) \<and>
     (\<forall>log. ready pf log \<longrightarrow>
        wel (log @ cmd_frame SPIFLASH_CMD_WRITE_ENABLE) \<and>
        ready pf (log @ cmd_frame SPIFLASH_CMD_WRITE_ENABLE) \<and>
        mem (log @ cmd_frame SPIFLASH_CMD_WRITE_ENABLE) = mem log) \<and>
     (\<forall>log a d. ready pf log \<longrightarrow> wel log \<longrightarrow> d \<noteq> [] \<longrightarrow> length d \<le> PAGE \<longrightarrow>
        mem (log @ program_frame a d) = page_program (mem log) (unat a mod CHIP_SIZE) d) \<and>
     (\<forall>log a. ready pf log \<longrightarrow> wel log \<longrightarrow>
        mem (log @ addr_frame SPIFLASH_CMD_SECTOR_4K_ERASE a @
             addr_frame SPIFLASH_CMD_SECTOR_4K_ERASE a) =
        sector_clear (mem log) (unat a mod CHIP_SIZE)) \<and>
     (\<forall>log a ns i. ready pf log \<longrightarrow>
        pf_chip pf (log @ read_events a ns) i = mem log ((unat a + sum_list ns + i) mod CHIP_SIZE)) \<and>
     (\<forall>log a ns. ready pf log \<longrightarrow>
        mem (log @ read_events a ns @ [Unselect]) = mem log \<and>
        ready pf (log @ read_events a ns @ [Unselect]))"

lemma flash_chipD:
  assumes "flash_chip pf mem wel"
  shows "\<exists>k < SPIFLASH_WAIT_WIP_RETRY. ready pf (polled wip_nap log k)"
    and "\<not> has_error (status_at pf log)"
    and "quiet es \<Longrightarrow> mem (log @ es) = mem log"
    and "quiet es \<Longrightarrow> wel (log @ es) = wel log"
    and "quiet es \<Longrightarrow> ready pf log \<Longrightarrow> ready pf (log @ es)"
    and "wel log \<Longrightarrow> enabled (status_at pf log)"
    and "ready pf log \<Longrightarrow> wel (log @ cmd_frame SPIFLASH_CMD_WRITE_ENABLE)"
    and "ready pf log \<Longrightarrow> ready pf (log @ cmd_frame SPIFLASH_CMD_WRITE_ENABLE)"
    and "ready pf log \<Longrightarrow> mem (log @ cmd_frame SPIFLASH_CMD_WRITE_ENABLE) = mem log"
    and "ready pf log \<Longrightarrow> wel log \<Longrightarrow> d \<noteq> [] \<Longrightarrow> length d \<le> PAGE \<Longrightarrow>
      mem (log @ program_frame a d) = page_program (mem log) (unat a mod CHIP_SIZE) d"
    and "ready pf log \<Longrightarrow> wel log \<Longrightarrow>
      mem (log @ addr_frame SPIFLASH_CMD_SECTOR_4K_ERASE a @
           addr_frame SPIFLASH_CMD_SECTOR_4K_ERASE a) =
      sector_clear (mem log) (unat a mod CHIP_SIZE)"
    and "ready pf log \<Longrightarrow>
      pf_chip pf (log @ read_events a ns) i = mem log ((unat a + sum_list ns + i) mod CHIP_SIZE)"
    and "ready pf log \<Longrightarrow> mem (log @ read_events a ns @ [Unselect]) = mem log"
    and "ready pf log \<Longrightarrow> ready pf (log @ read_events a ns @ [Unselect])"
  using assms unfolding flash_chip_def by (elim conjE; simp)+

lemma quiet_simps [simp]: "quiet status_frame" "quiet [Acquire]" "quiet [Release]" "quiet [Sleep n]"
  by (auto simp: quiet_def)

lemma chip_polled:
  assumes "flash_chip pf mem wel"
  shows "mem (polled nap log k) = mem log \<and> wel (polled nap log k) = wel log"
proof (induction k)
  case (Suc k)
  then show ?case
    using flash_chipD(3,4) [OF assms, of "[Sleep (nap (Suc k))]" "polled nap log k @ status_frame"]
      flash_chipD(3,4) [OF assms, of status_frame "polled nap log k"]
    by simp
qed simp

text \<open>Waiting succeeds, leaves the array as it is and the chip without work.\<close>

lemma chip_wait_wip:
  assumes chip: "flash_chip pf mem wel" and w: "spiflash_wait_wip pf s = (res, s')"
  shows "res = EOK \<and> ready pf (sf_log s') \<and> mem (sf_log s') = mem (sf_log s) \<and> same_setup s s'"
proof -
  define k where "k = wip_end pf (sf_log s)"
  obtain j where j: "j < SPIFLASH_WAIT_WIP_RETRY" "ready pf (polled wip_nap (sf_log s) j)"
    using flash_chipD(1) [OF chip] by blast
  have "ready pf (polled wip_nap (sf_log s) k)"
  proof (cases "k < SPIFLASH_WAIT_WIP_RETRY - 1")
    case True
    then show ?thesis
      using last_read_early [of "\<lambda>j. \<not> busy (wip_read pf (sf_log s) j)" 0 "SPIFLASH_WAIT_WIP_RETRY - 1"]
      by (simp add: k_def wip_end_def wip_read_def)
  next
    case False
    have "\<not> j < k"
      using last_read_before [of 0 j "\<lambda>j. \<not> busy (wip_read pf (sf_log s) j)"
          "SPIFLASH_WAIT_WIP_RETRY - 1"] j(2)
      by (auto simp: k_def wip_end_def wip_read_def)
    with False j(1) last_read_bounds [of 0 "\<lambda>j. \<not> busy (wip_read pf (sf_log s) j)"
        "SPIFLASH_WAIT_WIP_RETRY - 1"]
    have "j = k" by (simp add: k_def wip_end_def)
    with j(2) show ?thesis by simp
  qed
  moreover have "\<not> has_error (wip_read pf (sf_log s) k)"
    by (simp add: wip_read_def flash_chipD(2) [OF chip])
  ultimately show ?thesis
    using wait_wip_effect [OF w] flash_chipD(3,5) [OF chip, of status_frame] chip_polled [OF chip]
    by (simp add: k_def [symmetric] wip_read_def Let_def)
qed

lemma chip_write_enable:
  assumes chip: "flash_chip pf mem wel" and r: "ready pf (sf_log s)"
    and w: "spiflash_write_enable pf s = (res, s')"
  shows "res = EOK \<and> ready pf (sf_log s') \<and> wel (sf_log s') \<and>
    mem (sf_log s') = mem (sf_log s) \<and> same_setup s s'"
proof -
  define log where "log = sf_log s @ cmd_frame SPIFLASH_CMD_WRITE_ENABLE"
  have log: "wel log" "ready pf log" "mem log = mem (sf_log s)"
    using flash_chipD(7-9) [OF chip r] by (simp_all add: log_def)
  then have "enabled (wel_read pf log 0)"
    using flash_chipD(6) [OF chip] by (simp add: wel_read_def)
  then have "wel_end pf log = 0"
    by (cases "SPIFLASH_WRITE_ENABLE_RETRY - 1") (simp_all add: wel_end_def)
  then show ?thesis
    using write_enable_effect [OF w] \<open>enabled (wel_read pf log 0)\<close> log
      flash_chipD(3-5) [OF chip, of status_frame log]
    by (simp add: log_def [symmetric] Let_def)
qed

section \<open>Programming\<close>

lemma range_program_cong:
  "a + length d \<le> CHIP_SIZE \<Longrightarrow> d \<noteq> [] \<Longrightarrow> a mod CHIP_SIZE = a"
  by (cases d) simp_all

lemma chip_write_step:
  assumes chip: "flash_chip pf mem wel" and r: "ready pf (sf_log s)"
    and d: "d \<noteq> []" "unat a mod PAGE + length d \<le> PAGE" "unat a + length d \<le> CHIP_SIZE"
    and e: "spiflash_write_enable pf s = (e, s1)"
    and w: "spiflash_wait_wip pf
      (spiflash_cmd_addr_write SPIFLASH_CMD_PAGE_PROGRAM a ext d s1) = (res, s2)"
  shows "e = EOK \<and> res = EOK \<and> ready pf (sf_log s2) \<and> same_setup s s2 \<and>
    mem (sf_log s2) = range_program (mem (sf_log s)) (unat a) d"
proof -
  define t where "t = spiflash_cmd_addr_write SPIFLASH_CMD_PAGE_PROGRAM a ext d s1"
  have len: "length d \<le> PAGE" "unat a mod CHIP_SIZE = unat a"
    using d range_program_cong [OF d(3,1)] by simp_all
  note s1 = chip_write_enable [OF chip r e]
  have "length d \<le> SPIFLASH_LOCAL_BUFFER_SIZE"
    using len(1) by (simp add: PAGE_def SPIFLASH_LOCAL_BUFFER_SIZE_def)
  from program_effect [OF d(1) this t_def] have t: "sf_log t = sf_log s1 @ program_frame a d"
    "same_setup s1 t" by simp_all
  have "mem (sf_log t) = page_program (mem (sf_log s1)) (unat a) d"
    using flash_chipD(10) [OF chip, of "sf_log s1" d a] s1 d(1) len t(1) by simp
  then have "mem (sf_log t) = range_program (mem (sf_log s)) (unat a) d"
    using page_program_range [OF d(2)] s1 by simp
  then show ?thesis
    using chip_wait_wip [OF chip w] s1 t(2) same_setup_trans
    by (simp add: t_def [symmetric]) blast
qed

lemma chip_write_loop:
  assumes chip: "flash_chip pf mem wel"
  shows "ready pf (sf_log s) \<Longrightarrow> len \<le> length data \<Longrightarrow> unat a + len \<le> CHIP_SIZE \<Longrightarrow>
    len = 0 \<or> bytes + unat a mod PAGE = PAGE \<Longrightarrow> bytes \<noteq> 0 \<Longrightarrow>
    \<exists>s'. write_loop pf ext a len bytes data EOK s = Some (EOK, s') \<and> ready pf (sf_log s') \<and>
      same_setup s s' \<and>
      mem (sf_log s') = range_program (mem (sf_log s)) (unat a) (take len data)"
proof (induction len arbitrary: a bytes data s rule: less_induct)
  case (less len)
  show ?case
  proof (cases "len = 0")
    case True
    with less.prems(1) show ?thesis by (simp add: write_loop.simps)
  next
    case False
    define n where "n = (if len < bytes then len else bytes)"
    have n: "0 < n" "n \<le> len" "unat a mod PAGE + n \<le> PAGE"
      using False less.prems(4,5) by (auto simp: n_def)
    obtain e s1 where e: "spiflash_write_enable pf s = (e, s1)" by fastforce
    define t where "t = spiflash_cmd_addr_write SPIFLASH_CMD_PAGE_PROGRAM a ext (take n data) s1"
    obtain res s2 where w: "spiflash_wait_wip pf t = (res, s2)" by fastforce
    have d: "take n data \<noteq> []" "length (take n data) = n" using n less.prems(2) by auto
    have s2: "e = EOK" "res = EOK" "ready pf (sf_log s2)" "same_setup s s2"
      "mem (sf_log s2) = range_program (mem (sf_log s)) (unat a) (take n data)"
      using chip_write_step [OF chip less.prems(1) d(1) _ _ e w [unfolded t_def]] n less.prems(3) d(2)
      by auto
    have small: "unat a + n < 2 ^ 32" using n less.prems(3) by (simp add: CHIP_SIZE_def)
    then have "unat (of_nat n :: u32) = n" by (simp add: unat_of_nat_u32)
    with small have a: "unat (a + of_nat n) = unat a + n" by (simp add: unat_add_lt)
    have next_page: "len - n = 0 \<or> 0x100 + unat (a + of_nat n) mod PAGE = PAGE"
    proof (cases "len < bytes")
      case False
      with less.prems(4) \<open>len \<noteq> 0\<close> have "(unat a + n) mod PAGE = 0"
        by (simp add: n_def PAGE_def) (metis add.commute mod_add_left_eq mod_self)
      then show ?thesis using a by (simp add: PAGE_def)
    qed (simp add: n_def)
    have "write_loop pf ext a len bytes data EOK s =
        write_loop pf ext (a + of_nat n) (len - n) 0x100 (drop n data) EOK s2"
      using False less.prems(2,5) n(2) s2(1,2) e w
      by (subst write_loop.simps) (simp add: n_def [symmetric] t_def [symmetric] Let_def)
    moreover obtain s' where
      "write_loop pf ext (a + of_nat n) (len - n) 0x100 (drop n data) EOK s2 = Some (EOK, s')"
      "ready pf (sf_log s')" "same_setup s2 s'"
      "mem (sf_log s') = range_program (mem (sf_log s2)) (unat a + n) (take (len - n) (drop n data))"
      using less.IH [OF _ s2(3) _ _ next_page, of "drop n data"] n less.prems(2,3) a by fastforce
    ultimately show ?thesis
      using s2(4,5) n(2) d(2) range_program_append [of "mem (sf_log s)" "unat a" "take n data"]
      by (auto simp: take_add [symmetric] intro: same_setup_trans)
  qed
qed

lemma chip_write:
  assumes chip: "flash_chip pf mem wel"
    and len: "unat len \<le> length data" "unat a + unat len \<le> CHIP_SIZE"
  shows "\<exists>s'. spiflash_write pf a len ext data s = Some (EOK, s') \<and> ready pf (sf_log s') \<and>
    same_setup s s' \<and>
    mem (sf_log s') = range_program (mem (sf_log s)) (unat a) (take (unat len) data)"
proof -
  obtain res s1 where w: "spiflash_wait_wip pf (event Acquire s) = (res, s1)" by fastforce
  have s1: "res = EOK" "ready pf (sf_log s1)" "mem (sf_log s1) = mem (sf_log s)" "same_setup s s1"
    using chip_wait_wip [OF chip w] flash_chipD(3) [OF chip, of "[Acquire]"] by simp_all
  have "unat (a AND 0xFF) = unat a mod PAGE" by (rule unat_and_FF)
  moreover have "unat a mod PAGE < PAGE" by (simp add: PAGE_def)
  ultimately have b: "0x100 - unat (a AND 0xFF) + unat a mod PAGE = PAGE" "0x100 - unat (a AND 0xFF) \<noteq> 0"
    by (simp_all add: PAGE_def)
  obtain s2 where s2: "write_loop pf ext a (unat len) (0x100 - unat (a AND 0xFF)) data EOK s1 = Some (EOK, s2)"
    "ready pf (sf_log s2)" "same_setup s1 s2"
    "mem (sf_log s2) = range_program (mem (sf_log s1)) (unat a) (take (unat len) data)"
    using chip_write_loop [OF chip s1(2) len _ b(2)] b(1) by blast
  show ?thesis
    using s1 s2 w flash_chipD(3,5) [OF chip, of "[Release]"]
    by (auto simp: spiflash_write_def spiflash_aquire_def spiflash_release_def intro: same_setup_trans)
qed

section \<open>Reading\<close>

lemma sum_transfer_sizes [simp]: "sum_list (transfer_sizes len) = len"
  by (induction len rule: transfer_sizes.induct) (subst transfer_sizes.simps, auto)

lemma sum_sizes [simp]: "sum_list (sizes ext len) = len"
  by (simp add: sizes_def)

lemma chip_received:
  assumes "flash_chip pf mem wel" "ready pf log"
  shows "received pf (log @ read_events a ns) ms =
    map (\<lambda>i. mem log ((unat a + i) mod CHIP_SIZE)) [sum_list ns..<sum_list ns + sum_list ms]"
proof (induction ms arbitrary: ns)
  case (Cons m ms)
  have "map (pf_chip pf (log @ read_events a ns)) [0..<m] =
      map (\<lambda>i. mem log ((unat a + i) mod CHIP_SIZE)) [sum_list ns..<sum_list ns + m]"
    by (rule nth_equalityI) (simp_all add: flash_chipD(12) [OF assms] add.assoc)
  moreover have "(log @ read_events a ns) @ [Receive m] = log @ read_events a (ns @ [m])"
    by (simp add: read_events_def)
  ultimately show ?case
    using Cons [of "ns @ [m]"] upt_add_eq_append [of "sum_list ns" "sum_list ns + m" "sum_list ms"]
    by (simp add: add.assoc)
qed simp

lemma chip_read_cmd:
  assumes chip: "flash_chip pf mem wel" and r: "ready pf (sf_log s)"
    and c: "spiflash_cmd_addr pf SPIFLASH_CMD_READ a ext len s = (bs, s')"
    and "unat a + len \<le> CHIP_SIZE"
  shows "bs = map (mem (sf_log s)) [unat a..<unat a + len] \<and>
    ready pf (sf_log s') \<and> mem (sf_log s') = mem (sf_log s) \<and> same_setup s s'"
proof -
  have "map (\<lambda>i. mem (sf_log s) ((unat a + i) mod CHIP_SIZE)) [0..<len] =
      map (mem (sf_log s)) [unat a..<unat a + len]"
    using assms(4) by (intro nth_equalityI) simp_all
  then show ?thesis
    using spiflash_cmd_addr_effect [OF c] chip_received [OF chip r, of a "[]" "sizes ext len"]
      flash_chipD(13,14) [OF chip r, of a "sizes ext len"]
    by (simp add: read_events_def)
qed

lemma chip_read:
  assumes chip: "flash_chip pf mem wel" and r: "ready pf (sf_log s)"
    and len: "unat a + unat len \<le> CHIP_SIZE"
  shows "\<exists>s'. spiflash_read pf a len ext s =
      (EOK, map (mem (sf_log s)) [unat a..<unat a + unat len], s') \<and>
    ready pf (sf_log s') \<and> mem (sf_log s') = mem (sf_log s)"
proof -
  obtain bs t where c: "spiflash_cmd_addr pf SPIFLASH_CMD_READ a ext (unat len) (event Acquire s) = (bs, t)"
    by fastforce
  have "ready pf (sf_log (event Acquire s))" "mem (sf_log (event Acquire s)) = mem (sf_log s)"
    using flash_chipD(3,5) [OF chip, of "[Acquire]"] r by simp_all
  with chip_read_cmd [OF chip _ c len] show ?thesis
    using flash_chipD(3,5) [OF chip, of "[Release]"] by (simp add: spiflash_read_def c)
qed

section \<open>Erasing\<close>

lemma chip_dirty_loop:
  assumes chip: "flash_chip pf mem wel" and e: "unat e \<le> CHIP_SIZE"
  shows "ready pf (sf_log s) \<Longrightarrow> unat a \<le> unat e \<Longrightarrow> 4 dvd unat e - unat a \<Longrightarrow>
    \<exists>s'. dirty_loop pf a e s = ((\<exists>x. unat a \<le> x \<and> x < unat e \<and> mem (sf_log s) x \<noteq> 0xFF), s') \<and>
      ready pf (sf_log s') \<and> mem (sf_log s') = mem (sf_log s) \<and> same_setup s s'"
proof (induction "unat e - unat a" arbitrary: a s rule: less_induct)
  case less
  define m where "m = mem (sf_log s)"
  show ?case
  proof (cases "unat a < unat e")
    case False
    with less.prems(1,2) show ?thesis by (subst dirty_loop.simps) (simp add: word_less_nat_alt)
  next
    case True
    define n len t where "n = unat (e - a)"
      and "len = (if READ_BUFFER_SIZE \<le> n then READ_BUFFER_SIZE else n)"
      and "t = (if READ_BUFFER_SIZE \<le> n then s else buffer_put 4 (replicate READ_BUFFER_SIZE 0xFF) s)"
    have n: "n = unat e - unat a" using True by (simp add: n_def unat_sub word_le_nat_alt)
    have len: "0 < len" "len \<le> n" "4 dvd len"
      using True n less.prems(3)
      by (auto simp: len_def READ_BUFFER_SIZE_def SPIFLASH_LOCAL_BUFFER_SIZE_def)
    obtain bs u where c: "spiflash_cmd_addr pf SPIFLASH_CMD_READ a False len t = (bs, u)" by fastforce
    have t: "sf_log t = sf_log s" "same_setup s t" by (simp_all add: t_def)
    have u: "bs = map m [unat a..<unat a + len]" "ready pf (sf_log u)" "mem (sf_log u) = m" "same_setup s u"
      using chip_read_cmd [OF chip _ c] less.prems(1) t e len n
      by (auto simp: m_def intro: same_setup_trans)
    have "take (4 * (len div 4)) bs = bs" using len(3) u(1) by simp
    then have loop: "dirty_loop pf a e s =
        (if \<exists>b \<in> set bs. b \<noteq> 0xFF then (True, buffer_put 4 bs u)
         else dirty_loop pf (a + of_nat len) e (buffer_put 4 bs u))"
      using True c
      by (subst dirty_loop.simps)
         (simp add: word_less_nat_alt Let_def n_def [symmetric] len_def [symmetric] t_def [symmetric])
    have dirty: "(\<exists>b \<in> set bs. b \<noteq> 0xFF) \<longleftrightarrow> (\<exists>x. unat a \<le> x \<and> x < unat a + len \<and> m x \<noteq> 0xFF)"
      using u(1) by auto
    have small: "unat a + len \<le> unat e" using n len True by simp
    then have small': "unat a + len < 2 ^ 32"
      using order.strict_trans1 [OF _ unat_u32_lt [of e]] by simp
    then have "unat (of_nat len :: u32) = len" by (intro unat_of_nat_u32) linarith
    with small' have a: "unat (a + of_nat len) = unat a + len" by (simp add: unat_add_lt)
    show ?thesis
    proof (cases "\<exists>b \<in> set bs. b \<noteq> 0xFF")
      case True
      with loop dirty u small show ?thesis by (auto simp: m_def intro: order.strict_trans2)
    next
      case False
      have "4 dvd unat e - unat (a + of_nat len)"
        using less.prems(3) len(3) a by (simp add: dvd_diff_nat flip: diff_diff_left)
      moreover have "unat e - unat (a + of_nat len) < unat e - unat a" using a len small by simp
      ultimately obtain s' where s':
        "dirty_loop pf (a + of_nat len) e (buffer_put 4 bs u) =
           ((\<exists>x. unat a + len \<le> x \<and> x < unat e \<and> m x \<noteq> 0xFF), s')"
        "ready pf (sf_log s')" "mem (sf_log s') = m" "same_setup u s'"
        using less.hyps [of "a + of_nat len" "buffer_put 4 bs u"] u a small by auto
      have "(\<exists>x. unat a + len \<le> x \<and> x < unat e \<and> m x \<noteq> 0xFF) \<longleftrightarrow>
          (\<exists>x. unat a \<le> x \<and> x < unat e \<and> m x \<noteq> 0xFF)"
        using False dirty by (meson le_trans le_add1 not_le)
      with loop False s' u(4) show ?thesis by (auto simp: m_def intro: same_setup_trans)
    qed
  qed
qed

lemma chip_is_dirty:
  assumes chip: "flash_chip pf mem wel" and "\<not> pf_ext_buf pf"
    and "unat e \<le> CHIP_SIZE" "unat a \<le> unat e" "4 dvd unat e - unat a"
  shows "\<exists>s'. spiflash_is_dirty pf a e s =
      Some ((\<exists>x. unat a \<le> x \<and> x < unat e \<and> mem (sf_log s) x \<noteq> 0xFF), s') \<and>
    mem (sf_log s') = mem (sf_log s) \<and> same_setup s s'"
proof -
  obtain res t where w: "spiflash_wait_wip pf (event Acquire s) = (res, t)" by fastforce
  have t: "res = EOK" "ready pf (sf_log t)" "mem (sf_log t) = mem (sf_log s)" "same_setup s t"
    using chip_wait_wip [OF chip w] flash_chipD(3) [OF chip, of "[Acquire]"] by simp_all
  obtain u where "dirty_loop pf a e t =
      ((\<exists>x. unat a \<le> x \<and> x < unat e \<and> mem (sf_log t) x \<noteq> 0xFF), u)"
    "mem (sf_log u) = mem (sf_log t)" "same_setup t u"
    using chip_dirty_loop [OF chip assms(3) t(2) assms(4,5)] by blast
  with t w show ?thesis
    using assms(2) flash_chipD(3) [OF chip, of "[Release]"]
    by (auto simp: spiflash_is_dirty_def spiflash_aquire_def spiflash_release_def intro: same_setup_trans)
qed

lemma chip_sector_erase_start:
  assumes chip: "flash_chip pf mem wel" and "sf_erasing s = 0" "unat a < CHIP_SIZE" "SECTOR dvd unat a"
  shows "\<exists>s'. spiflash_sector_erase_start pf a s = Some (EOK, s') \<and> same_setup s s' \<and>
    mem (sf_log s') = range_clear (mem (sf_log s)) (unat a) (unat a + SECTOR)"
proof -
  obtain r1 s1 where w1: "spiflash_wait_wip pf (event Acquire s) = (r1, s1)" by fastforce
  have s1: "r1 = EOK" "ready pf (sf_log s1)" "mem (sf_log s1) = mem (sf_log s)" "same_setup s s1"
    using chip_wait_wip [OF chip w1] flash_chipD(3) [OF chip, of "[Acquire]"] by simp_all
  obtain r2 s2 where w2: "spiflash_write_enable pf s1 = (r2, s2)" by fastforce
  note s2 = chip_write_enable [OF chip s1(2) w2]
  define s3 where "s3 = addr_only pf SPIFLASH_CMD_SECTOR_4K_ERASE a (addr_only pf SPIFLASH_CMD_SECTOR_4K_ERASE a s2)"
  have s3: "mem (sf_log s3) = range_clear (mem (sf_log s)) (unat a) (unat a + SECTOR)" "same_setup s2 s3"
    using flash_chipD(11) [OF chip, of "sf_log s2" a] s1 s2 assms(3) sector_clear_range [OF assms(4)]
    by (simp_all add: s3_def)
  obtain r4 s4 where w4: "spiflash_wait_wip pf s3 = (r4, s4)" by fastforce
  note s4 = chip_wait_wip [OF chip w4]
  have "erase_wait pf 10 s3 = s4" using w4 s4 by (simp add: numeral_eq_Suc)
  then have "spiflash_sector_erase_start pf a s = Some (EOK, event Release s4)"
    using assms(2) w1 w2 s1(1) s2
    by (simp add: spiflash_sector_erase_start_def spiflash_sector_size_def s3_def)
  moreover have "same_setup s s4" using s1(4) s2 s3(2) s4 same_setup_trans by blast
  ultimately show ?thesis
    using s3(1) s4 flash_chipD(3) [OF chip, of "[Release]"] by simp
qed

definition sector_up :: "nat \<Rightarrow> nat" where
  "sector_up e = SECTOR * ((e + SECTOR - 1) div SECTOR)"

lemma sector_up:
  assumes "SECTOR dvd a"
  shows "a < e \<Longrightarrow> a + SECTOR \<le> sector_up e" "e \<le> a \<Longrightarrow> sector_up e \<le> a"
proof -
  from assms obtain k where a: "a = SECTOR * k" ..
  show "a + SECTOR \<le> sector_up e" if "a < e"
  proof -
    have "k + 1 \<le> (e + SECTOR - 1) div SECTOR"
      using that a by (simp add: SECTOR_def less_eq_div_iff_mult_less_eq)
    then show ?thesis unfolding sector_up_def a by (metis mult.commute mult_Suc_right Suc_eq_plus1 add.commute mult_le_mono2)
  qed
  show "sector_up e \<le> a" if "e \<le> a"
  proof -
    have "(e + SECTOR - 1) div SECTOR < k + 1"
      using that a by (simp add: SECTOR_def div_less_iff_less_mult)
    then show ?thesis unfolding sector_up_def a by simp
  qed
qed

lemma chip_erase_loop:
  assumes chip: "flash_chip pf mem wel" and buf: "\<not> pf_ext_buf pf" and e: "unat e \<le> CHIP_SIZE"
  shows "sf_erasing s = 0 \<Longrightarrow> SECTOR dvd unat a \<Longrightarrow>
    \<exists>a' s'. erase_loop pf a e s = Some (a', s') \<and> e \<le> a' \<and> same_setup s s' \<and>
      mem (sf_log s') = range_clear (mem (sf_log s)) (unat a) (sector_up (unat e))"
proof (induction "unat e - unat a" arbitrary: a s rule: less_induct)
  case less
  show ?case
  proof (cases "a < e")
    case False
    then have "range_clear (mem (sf_log s)) (unat a) (sector_up (unat e)) = mem (sf_log s)"
      using sector_up(2) [OF less.prems(2), of "unat e"]
      by (simp add: range_clear_empty word_less_nat_alt)
    with False show ?thesis by (subst erase_loop.simps) simp
  next
    case True
    then have lt: "unat a < unat e" by (simp add: word_less_nat_alt)
    note up = sector_up(1) [OF less.prems(2) lt]
    from less.prems(2) obtain k where k: "unat a = SECTOR * k" ..
    with lt e have le: "unat a + SECTOR \<le> CHIP_SIZE" by (simp add: SECTOR_def CHIP_SIZE_def)
    then have "unat (a + 0x1000) = unat a + unat (0x1000 :: u32)"
      by (intro unat_add_lt) (simp add: CHIP_SIZE_def SECTOR_def)
    then have a: "unat (a + 0x1000) = unat a + SECTOR" by (simp add: SECTOR_def)
    then have dvd: "SECTOR dvd unat (a + 0x1000)" "4 dvd unat (a + 0x1000) - unat a"
      using less.prems(2) by (simp_all add: SECTOR_def)
    define dirty where "dirty = (\<exists>x. unat a \<le> x \<and> x < unat a + SECTOR \<and> mem (sf_log s) x \<noteq> 0xFF)"
    obtain s1 where s1: "spiflash_is_dirty pf a (a + 0x1000) s = Some (dirty, s1)"
      "mem (sf_log s1) = mem (sf_log s)" "same_setup s s1"
      using chip_is_dirty [OF chip buf _ _ dvd(2), of s] le a by (auto simp: dirty_def)
    have busy: "sf_erasing s1 = 0" using s1(3) less.prems(1) by (simp add: same_setup_def)
    obtain s2 where s2: "(if dirty then spiflash_sector_erase_start pf a s1 else Some (EOK, s1)) = Some (EOK, s2)"
      "same_setup s1 s2" "mem (sf_log s2) = range_clear (mem (sf_log s)) (unat a) (unat a + SECTOR)"
    proof (cases dirty)
      case True
      then show ?thesis
        using chip_sector_erase_start [OF chip busy _ less.prems(2)] lt e s1(2) that by auto
    next
      case False
      then have "range_clear (mem (sf_log s)) (unat a) (unat a + SECTOR) = mem (sf_log s1)"
        using s1(2) by (intro ext) (auto simp: dirty_def range_clear_def)
      with False that show ?thesis by simp
    qed
    then have loop: "erase_loop pf a e s = erase_loop pf (a + 0x1000) e s2"
      using True s1(1)
      by (subst erase_loop.simps)
         (auto simp: spiflash_sector_size_def SPIFLASH_SECTOR_SIZE_4K_def split: if_splits)
    have "sf_erasing s2 = 0" "unat e - unat (a + 0x1000) < unat e - unat a"
      using s2(2) busy a lt by (simp_all add: same_setup_def SECTOR_def)
    then obtain a' s' where "erase_loop pf (a + 0x1000) e s2 = Some (a', s')" "e \<le> a'"
      "same_setup s2 s'"
      "mem (sf_log s') = range_clear (mem (sf_log s2)) (unat a + SECTOR) (sector_up (unat e))"
      using less.hyps [OF _ _ dvd(1)] a by metis
    with loop s1(3) s2(2,3) up show ?thesis
      by (auto simp: range_clear_append intro: same_setup_trans)
  qed
qed

lemma chip_sector_erase:
  assumes chip: "flash_chip pf mem wel" and "\<not> pf_ext_buf pf" "unat e \<le> CHIP_SIZE"
    and "sf_erasing s = 0" "SECTOR dvd unat a"
  shows "\<exists>s'. spiflash_sector_erase pf a e s = Some (EOK, s') \<and> ready pf (sf_log s') \<and>
    same_setup s s' \<and>
    mem (sf_log s') = range_clear (mem (sf_log s)) (unat a) (sector_up (unat e))"
proof -
  obtain a' t where t: "erase_loop pf a e s = Some (a', t)" "e \<le> a'" "same_setup s t"
    "mem (sf_log t) = range_clear (mem (sf_log s)) (unat a) (sector_up (unat e))"
    using chip_erase_loop [OF assms] by blast
  obtain res u where w: "spiflash_wait_wip pf (event Acquire t) = (res, u)" by fastforce
  note u = chip_wait_wip [OF chip w]
  have "same_setup s u" using t(3) u same_setup_trans by simp
  with t u w show ?thesis
    using flash_chipD(3,5) [OF chip, of "[Release]"] flash_chipD(3) [OF chip, of "[Acquire]"]
    by (simp add: spiflash_sector_erase_def)
qed

end
