(* ===== verification/Spiflash_Device.thy ===== *)
theory Spiflash_Device
  imports Spiflash_Chip
begin

unbundle bit_operations_syntax

text \<open>
  A chip that follows its data sheet: the contract \<open>flash_chip\<close> has a realisation.  The device
  stays busy for two reads of its status after a program or an erase command, ignores everything
  else while it is busy, and clears the latch with each such command.
\<close>

record device =
  dv_mem :: flash_array
  dv_wel :: bool
  dv_work :: nat
  dv_cmd :: "u8 list"
  dv_pos :: nat

definition device_start :: device where
  "device_start = \<lparr>dv_mem = (\<lambda>_. 0xFF), dv_wel = False, dv_work = 0, dv_cmd = [], dv_pos = 0\<rparr>"

definition device_address :: "device \<Rightarrow> nat" where
  "device_address c = bus_address (tl (dv_cmd c))"

definition device_execute :: "device \<Rightarrow> device" where
  "device_execute c =
     (if dv_cmd c = [] then c
      else if hd (dv_cmd c) = SPIFLASH_READ_STATUS_REGISTER then c\<lparr>dv_work := dv_work c - 1\<rparr>
      else if dv_work c \<noteq> 0 then c
      else if hd (dv_cmd c) = SPIFLASH_CMD_WRITE_ENABLE then c\<lparr>dv_wel := True\<rparr>
      else if hd (dv_cmd c) = SPIFLASH_CMD_PAGE_PROGRAM \<and> dv_wel c
      then c\<lparr>dv_mem := page_program (dv_mem c) (device_address c) (drop 4 (dv_cmd c)),
             dv_wel := False, dv_work := 2\<rparr>
      else if hd (dv_cmd c) = SPIFLASH_CMD_SECTOR_4K_ERASE \<and> dv_wel c
      then c\<lparr>dv_mem := sector_clear (dv_mem c) (device_address c), dv_wel := False, dv_work := 2\<rparr>
      else c)"

fun device_event :: "spi_event \<Rightarrow> device \<Rightarrow> device" where
  "device_event Select c = c\<lparr>dv_cmd := [], dv_pos := 0\<rparr>"
| "device_event (Send bs) c = c\<lparr>dv_cmd := dv_cmd c @ bs\<rparr>"
| "device_event (Receive n) c = c\<lparr>dv_pos := dv_pos c + n\<rparr>"
| "device_event Unselect c = device_execute c"
| "device_event _ c = c"

definition device_run :: "spi_event list \<Rightarrow> device" where
  "device_run log = fold device_event log device_start"

definition device_status :: "device \<Rightarrow> u8" where
  "device_status c =
     (if dv_work c \<noteq> 0 then SPIFLASH_STATUS_WIP else 0) OR (if dv_wel c then SPIFLASH_STATUS_WEL else 0)"

definition device_answer :: "device \<Rightarrow> nat \<Rightarrow> u8" where
  "device_answer c i =
     (if dv_cmd c = [SPIFLASH_READ_STATUS_REGISTER] then device_status c
      else if dv_cmd c \<noteq> [] \<and> hd (dv_cmd c) = SPIFLASH_CMD_READ
      then dv_mem c ((device_address c + dv_pos c + i) mod CHIP_SIZE)
      else 0)"

definition device_platform :: platform where
  "device_platform =
     \<lparr>pf_chip = (\<lambda>log. device_answer (device_run log)), pf_ext_vars = False, pf_ext_buf = False\<rparr>"

abbreviation device_mem :: "spi_event list \<Rightarrow> flash_array" where
  "device_mem log \<equiv> dv_mem (device_run log)"

abbreviation device_wel :: "spi_event list \<Rightarrow> bool" where
  "device_wel log \<equiv> dv_wel (device_run log)"

lemmas opcodes =
  SPIFLASH_READ_STATUS_REGISTER_def SPIFLASH_CMD_WRITE_ENABLE_def SPIFLASH_CMD_PAGE_PROGRAM_def
  SPIFLASH_CMD_SECTOR_4K_ERASE_def SPIFLASH_CMD_READ_def
  SPIFLASH_STATUS_WIP_def SPIFLASH_STATUS_WEL_def SPIFLASH_STATUS_E_ERR_def SPIFLASH_STATUS_P_ERR_def

lemma device_run_append [simp]: "device_run (log @ es) = fold device_event es (device_run log)"
  by (simp add: device_run_def)

lemma device_work_bound: "dv_work (device_run log) \<le> 2"
proof (induction log rule: rev_induct)
  case (snoc e log)
  then show ?case by (cases e) (auto simp: device_execute_def)
qed (simp add: device_run_def device_start_def)

lemma device_status_at: "status_at device_platform log = device_status (device_run log)"
  by (simp add: status_at_def device_platform_def device_answer_def device_status_def)

lemma device_status_bits [simp]:
  "device_status c AND SPIFLASH_STATUS_WIP = 0 \<longleftrightarrow> dv_work c = 0"
  "device_status c AND SPIFLASH_STATUS_WEL = 0 \<longleftrightarrow> \<not> dv_wel c"
  "\<not> has_error (device_status c)"
  by (simp_all add: device_status_def opcodes has_error_def)

lemma device_quiet:
  assumes "quiet es"
  shows "dv_mem (fold device_event es c) = dv_mem c \<and> dv_wel (fold device_event es c) = dv_wel c \<and>
    dv_work (fold device_event es c) = dv_work c - (if es = status_frame then 1 else 0)"
  using assms by (auto simp: quiet_def read_frame_def device_execute_def)

lemma device_polled: "dv_work (device_run (polled nap log k)) = dv_work (device_run log) - k"
  by (induction k) (simp_all add: device_quiet [OF quiet_simps(1)])

lemma device_address_bytes:
  "dv_cmd c = opcode # address_bytes a @ r \<Longrightarrow> device_address c = unat a mod CHIP_SIZE"
  using bus_address_bytes [of a]
  by (simp add: device_address_def bus_address_def address_bytes_def)

lemma device_receive:
  "fold device_event (map Receive ns) c = c\<lparr>dv_pos := dv_pos c + sum_list ns\<rparr>"
  by (induction ns arbitrary: c) (simp_all add: add.assoc)

theorem device_is_chip: "flash_chip device_platform device_mem device_wel"
proof -
  have "\<exists>k < SPIFLASH_WAIT_WIP_RETRY. ready device_platform (polled wip_nap log k)" for log
    using device_work_bound [of log]
    by (intro exI [of _ 2]) (simp add: device_status_at device_polled SPIFLASH_WAIT_WIP_RETRY_def)
  moreover have "device_mem (log @ program_frame a d) = page_program (device_mem log) (unat a mod CHIP_SIZE) d"
    if "dv_work (device_run log) = 0" "device_wel log" for log a d
    using that device_address_bytes [of _ SPIFLASH_CMD_PAGE_PROGRAM a d]
    by (simp add: program_frame_def device_execute_def opcodes address_bytes_def)
  moreover have "device_mem (log @ addr_frame SPIFLASH_CMD_SECTOR_4K_ERASE a @
      addr_frame SPIFLASH_CMD_SECTOR_4K_ERASE a) = sector_clear (device_mem log) (unat a mod CHIP_SIZE)"
    if "dv_work (device_run log) = 0" "device_wel log" for log a
    using that device_address_bytes [of _ SPIFLASH_CMD_SECTOR_4K_ERASE a "[]"]
    by (simp add: addr_frame_def device_execute_def opcodes)
  moreover have "pf_chip device_platform (log @ read_events a ns) i =
      device_mem log ((unat a + sum_list ns + i) mod CHIP_SIZE)" for log a ns i
    using device_address_bytes [of _ SPIFLASH_CMD_READ a "[]"]
    by (simp add: device_platform_def device_answer_def read_events_def device_receive opcodes
        add.assoc mod_add_left_eq)
  ultimately show ?thesis
    unfolding flash_chip_def
    by (simp add: device_status_at device_quiet)
       (simp add: cmd_frame_def read_events_def device_execute_def device_receive opcodes)
qed

end
