(* ===== verification/Spiflash_Bus.thy ===== *)
theory Spiflash_Bus
  imports Spiflash_Spec
begin

unbundle bit_operations_syntax

text \<open>
  What every operation of the FLASH driver keeps, whatever the chip does: the bus is released as
  often as it is acquired, and the variables no transfer writes are as before.
\<close>

definition bus_use :: "spi_event list \<Rightarrow> int" where
  "bus_use log = int (count_list log Acquire) - int (count_list log Release)"

definition neutral :: "spiflash \<Rightarrow> spiflash \<Rightarrow> bool" where
  "neutral s s' \<longleftrightarrow> bus_use (sf_log s') = bus_use (sf_log s) \<and> same_setup s s'"

lemma bus_use_append [simp]: "bus_use (log @ es) = bus_use log + bus_use es"
  by (simp add: bus_use_def)

lemma bus_use_Cons [simp]:
  "bus_use [] = 0" "bus_use (Acquire # es) = 1 + bus_use es" "bus_use (Release # es) = bus_use es - 1"
  "bus_use (Select # es) = bus_use es" "bus_use (Unselect # es) = bus_use es"
  "bus_use (Send bs # es) = bus_use es" "bus_use (Receive n # es) = bus_use es"
  "bus_use (Sleep n # es) = bus_use es"
  by (simp_all add: bus_use_def)

lemma bus_use_frames [simp]:
  "bus_use (cmd_frame opcode) = 0" "bus_use (read_frame opcode n) = 0"
  "bus_use (addr_frame opcode a) = 0" "bus_use (map Receive ns) = 0"
  "bus_use (polled nap log k) = bus_use log"
proof -
  show "bus_use (map Receive ns) = 0" by (induction ns) simp_all
  show "bus_use (polled nap log k) = bus_use log" by (induction k) (simp_all add: read_frame_def)
qed (simp_all add: cmd_frame_def read_frame_def addr_frame_def)

lemma neutral_refl [simp]: "neutral s s"
  by (simp add: neutral_def)

lemma neutral_trans: "neutral r s \<Longrightarrow> neutral s t \<Longrightarrow> neutral r t"
  unfolding neutral_def using same_setup_trans by auto

lemma neutral_steps [simp]:
  "neutral s (event Select t) = neutral s t" "neutral s (event Unselect t) = neutral s t"
  "neutral s (event (Send bs) t) = neutral s t" "neutral s (event (Receive n) t) = neutral s t"
  "neutral s (event (Sleep n) t) = neutral s t" "neutral s (buffer_put off bs t) = neutral s t"
  "neutral s (event Release (event Acquire t)) = neutral s t"
  "neutral s (t\<lparr>sf_wel_status := w\<rparr>) = neutral s t"
  "neutral (buffer_put off bs s) t = neutral s t" "neutral (event (Sleep n) s) t = neutral s t"
  by (simp_all add: neutral_def)

text \<open>Between acquiring and releasing.\<close>

lemma neutral_locked: "neutral (event Acquire s) t \<Longrightarrow> neutral s (event Release t)"
  by (simp add: neutral_def)

lemma neutral_cmd: "spiflash_cmd pf opcode ext len s = (bs, s') \<Longrightarrow> neutral s s'"
  by (drule spiflash_cmd_effect) (simp add: neutral_def)

lemma neutral_cmd_addr: "spiflash_cmd_addr pf opcode a ext len s = (bs, s') \<Longrightarrow> neutral s s'"
  by (drule spiflash_cmd_addr_effect) (simp add: neutral_def)

lemma neutral_cmd_only [simp]: "neutral s (cmd_only pf opcode s)"
  by (simp add: neutral_def)

lemma neutral_addr_only [simp]: "neutral s (addr_only pf opcode a s)"
  by (simp add: neutral_def)

lemma neutral_read_byte: "read_byte pf opcode s = (b, s') \<Longrightarrow> neutral s s'"
  by (drule read_byte_effect) (simp add: neutral_def)

lemma neutral_wait_wip: "spiflash_wait_wip pf s = (res, s') \<Longrightarrow> neutral s s'"
  by (drule wait_wip_effect) (simp add: neutral_def Let_def)

lemma neutral_write_enable: "spiflash_write_enable pf s = (res, s') \<Longrightarrow> neutral s s'"
  by (drule write_enable_effect) (simp add: neutral_def Let_def)

lemma neutral_read_result: "read_result pf ext len s = (bs, s') \<Longrightarrow> neutral s s'"
  by (drule read_result_effect) (simp add: neutral_def)

lemma neutral_cmd_write [simp]: "neutral s (spiflash_cmd_write opcode cmd s)"
  by (simp add: spiflash_cmd_write_def Let_def)

lemma neutral_write_external: "neutral s (write_external data s)"
proof (induction data s rule: write_external.induct)
  case (1 data s)
  then show ?case
    by (subst write_external.simps) (auto simp: Let_def intro: neutral_trans [rotated])
qed

lemma neutral_cmd_addr_write [simp]: "neutral s (spiflash_cmd_addr_write opcode a ext data s)"
proof -
  have "neutral s (write_buffer ext data t)" if "neutral s t" for t
    using that neutral_trans [OF that neutral_write_external]
    by (simp add: write_buffer_def)
  then show ?thesis by (simp add: spiflash_cmd_addr_write_def Let_def)
qed

lemmas neutral_intros =
  neutral_cmd neutral_cmd_addr neutral_read_byte neutral_wait_wip neutral_write_enable neutral_read_result

section \<open>The operations\<close>

lemma neutral_dirty_loop: "dirty_loop pf a e s = (d, s') \<Longrightarrow> neutral s s'"
proof (induction pf a e s arbitrary: d s' rule: dirty_loop.induct)
  case (1 pf a e s)
  show ?case
  proof (cases "a < e")
    case False
    with 1(2) show ?thesis by (simp add: dirty_loop.simps [of pf a])
  next
    case True
    define n len t where "n = unat (e - a)"
      and "len = (if READ_BUFFER_SIZE \<le> n then READ_BUFFER_SIZE else n)"
      and "t = (if READ_BUFFER_SIZE \<le> n then s else buffer_put 4 (replicate READ_BUFFER_SIZE 0xFF) s)"
    obtain bs u where c: "spiflash_cmd_addr pf SPIFLASH_CMD_READ a False len t = (bs, u)" by fastforce
    have u: "neutral s (buffer_put 4 bs u)"
      using neutral_cmd_addr [OF c] by (simp add: t_def neutral_def split: if_splits)
    have "dirty_loop pf a e s =
        (if \<exists>b \<in> set (take (4 * (len div 4)) bs). b \<noteq> 0xFF then (True, buffer_put 4 bs u)
         else dirty_loop pf (a + of_nat len) e (buffer_put 4 bs u))"
      using True c
      by (subst dirty_loop.simps)
         (simp add: Let_def n_def [symmetric] len_def [symmetric] t_def [symmetric])
    moreover have "neutral (buffer_put 4 bs u) s'"
      if "\<not> (\<exists>b \<in> set (take (4 * (len div 4)) bs). b \<noteq> 0xFF)"
        "dirty_loop pf (a + of_nat len) e (buffer_put 4 bs u) = (d, s')"
      using 1(1) [OF True n_def len_def t_def c [symmetric] refl that] .
    ultimately show ?thesis using 1(2) u by (auto intro: neutral_trans split: if_splits)
  qed
qed

lemma neutral_write_loop:
  "write_loop pf ext a len bytes data res s = Some (res', s') \<Longrightarrow> neutral s s'"
proof (induction len arbitrary: a bytes data res s rule: less_induct)
  case (less len)
  show ?case
  proof (cases "len \<noteq> 0 \<and> res = EOK \<and> bytes \<noteq> 0")
    case False
    with less.prems show ?thesis by (subst (asm) write_loop.simps) auto
  next
    case True
    define n where "n = (if len < bytes then len else bytes)"
    obtain r1 s1 where e: "spiflash_write_enable pf s = (r1, s1)" by fastforce
    define t where "t = (if r1 = EOK
      then spiflash_cmd_addr_write SPIFLASH_CMD_PAGE_PROGRAM a ext (take n data) s1 else s1)"
    obtain r2 s2 where w: "spiflash_wait_wip pf t = (r2, s2)" by fastforce
    have "neutral s1 t" by (simp add: t_def)
    then have "neutral s s2"
      using neutral_write_enable [OF e] neutral_wait_wip [OF w] neutral_trans by blast
    moreover have "write_loop pf ext (a + of_nat n) (len - n) 0x100 (drop n data) r2 s2 = Some (res', s')"
      using less.prems True e w
      by (subst (asm) write_loop.simps) (simp add: n_def [symmetric] t_def Let_def split: if_splits)
    moreover have "len - n < len" using True by (simp add: n_def)
    ultimately show ?thesis using less.IH neutral_trans by blast
  qed
qed

lemma neutral_is_dirty:
  assumes "spiflash_is_dirty pf a e s = Some (d, s')"
  shows "neutral s s'"
proof -
  obtain res t where w: "spiflash_wait_wip pf (event Acquire s) = (res, t)" by fastforce
  obtain d' u where l: "dirty_loop pf a e t = (d', u)" by fastforce
  have "s' = event Release (if res = EOK then u else t)"
    using assms
    by (auto simp: spiflash_is_dirty_def spiflash_aquire_def spiflash_release_def w l split: if_splits)
  then show ?thesis
    using neutral_wait_wip [OF w] neutral_trans [OF neutral_wait_wip [OF w] neutral_dirty_loop [OF l]]
    by (auto intro: neutral_locked)
qed

lemma neutral_erase_wait: "neutral s (erase_wait pf j s)"
proof (induction j arbitrary: s)
  case (Suc j)
  obtain r t where w: "spiflash_wait_wip pf s = (r, t)" by fastforce
  have "neutral t (erase_wait pf j (event (Sleep 1) t))"
    using Suc [of "event (Sleep 1) t"] by simp
  then show ?case
    using neutral_wait_wip [OF w] by (auto simp: w intro: neutral_trans)
qed simp

text \<open>
  The shape the erase operations share: after a wait and an enable that succeed, \<open>f\<close>; else the bus
  is left to \<open>g\<close>.
\<close>

lemma neutral_started:
  assumes "spiflash_wait_wip pf (event Acquire s) = (r1, s1)" "spiflash_write_enable pf s1 = (r2, s2)"
  shows "neutral (event Acquire s) s1" "neutral (event Acquire s) s2"
  using neutral_wait_wip [OF assms(1)] neutral_write_enable [OF assms(2)] neutral_trans by blast+

lemma neutral_sector_erase_start:
  assumes "spiflash_sector_erase_start pf a s = Some (res, s')"
  shows "neutral s s'"
proof -
  obtain r1 s1 where w: "spiflash_wait_wip pf (event Acquire s) = (r1, s1)" by fastforce
  obtain r2 s2 where e: "spiflash_write_enable pf s1 = (r2, s2)" by fastforce
  define s3 where "s3 = addr_only pf SPIFLASH_CMD_SECTOR_4K_ERASE a
    (addr_only pf (if spiflash_sector_size a = SPIFLASH_SECTOR_SIZE_4K
       then SPIFLASH_CMD_SECTOR_4K_ERASE else SPIFLASH_CMD_SECTOR_64K_ERASE) a s2)"
  have "s' = event Release (if r1 \<noteq> EOK then s1 else if r2 \<noteq> EOK then s2 else erase_wait pf 10 s3)"
    using assms
    by (auto simp: spiflash_sector_erase_start_def w e s3_def Let_def split: if_splits)
  moreover have "neutral s2 (erase_wait pf 10 s3)"
    using neutral_trans [OF _ neutral_erase_wait] neutral_trans [OF neutral_addr_only neutral_addr_only]
    by (simp add: s3_def)
  ultimately show ?thesis
    using neutral_started [OF w e] by (auto intro: neutral_locked neutral_trans)
qed

text \<open>
  Induction along the loop over the sectors: what holds of its end and is passed back by every
  sector, erased or clean, holds of each result.
\<close>

lemma erase_loop_induct:
  assumes "erase_loop pf a e s = Some r"
    and stop: "\<And>a s. \<not> a < e \<Longrightarrow> P a s (a, s)"
    and clean: "\<And>a s t r. a < e \<Longrightarrow>
      spiflash_is_dirty pf a (a + spiflash_sector_size a) s = Some (False, t) \<Longrightarrow>
      P (a + spiflash_sector_size a) t r \<Longrightarrow> P a s r"
    and erased: "\<And>a s t u r. a < e \<Longrightarrow>
      spiflash_is_dirty pf a (a + spiflash_sector_size a) s = Some (True, t) \<Longrightarrow>
      spiflash_sector_erase_start pf a t = Some (EOK, u) \<Longrightarrow>
      P (a + spiflash_sector_size a) u r \<Longrightarrow> P a s r"
    and failed: "\<And>a s t st u. a < e \<Longrightarrow>
      spiflash_is_dirty pf a (a + spiflash_sector_size a) s = Some (True, t) \<Longrightarrow>
      spiflash_sector_erase_start pf a t = Some (st, u) \<Longrightarrow> st \<noteq> EOK \<Longrightarrow> P a s (a, u)"
  shows "P a s r"
proof -
  have "pf' = pf \<longrightarrow> e' = e \<longrightarrow> P a s r" if "erase_loop pf' a e' s = Some r" for pf' a e' s r
    using that
  proof (rule erase_loop.raw_induct [rotated])
    fix f pf' a e' s r
    assume IH: "\<And>pf' a e' s r. f pf' a e' s = Some r \<Longrightarrow> pf' = pf \<longrightarrow> e' = e \<longrightarrow> P a s r"
      and eq: "(if a < e'
        then do {
          let sectorsize = spiflash_sector_size a;
          (d, s) \<leftarrow> spiflash_is_dirty pf' a (a + sectorsize) s;
          if d then do {
            (status, s) \<leftarrow> spiflash_sector_erase_start pf' a s;
            if status \<noteq> EOK then Some (a, s) else f pf' (a + sectorsize) e' s }
          else f pf' (a + sectorsize) e' s }
        else Some (a, s)) = Some r"
    show "pf' = pf \<longrightarrow> e' = e \<longrightarrow> P a s r"
    proof (intro impI)
      assume "pf' = pf" "e' = e"
      note eq = eq [unfolded this]
      show "P a s r"
      proof (cases "a < e")
        case False
        with eq stop show ?thesis by auto
      next
        case True
        with eq obtain d t where d: "spiflash_is_dirty pf a (a + spiflash_sector_size a) s = Some (d, t)"
          and rest: "(if d then do {
              (status, s) \<leftarrow> spiflash_sector_erase_start pf a t;
              if status \<noteq> EOK then Some (a, s) else f pf (a + spiflash_sector_size a) e s }
            else f pf (a + spiflash_sector_size a) e t) = Some r"
          by (auto simp: Let_def bind_eq_Some_conv)
        show ?thesis
        proof (cases d)
          case False
          with rest IH clean True d show ?thesis by auto
        next
          case d': True
          with rest obtain st u where "spiflash_sector_erase_start pf a t = Some (st, u)"
            and "(if st \<noteq> EOK then Some (a, u) else f pf (a + spiflash_sector_size a) e u) = Some r"
            by (auto simp: bind_eq_Some_conv)
          with IH erased failed True d d' show ?thesis by (auto split: if_splits)
        qed
      qed
    qed
  qed
  with assms(1) show ?thesis by blast
qed

lemma neutral_erase_loop: "erase_loop pf a e s = Some r \<Longrightarrow> neutral s (snd r)"
  by (rule erase_loop_induct [where P = "\<lambda>a s r. neutral s (snd r)"])
     (auto intro: neutral_trans dest!: neutral_is_dirty neutral_sector_erase_start)

lemma neutral_sector_erase:
  assumes "spiflash_sector_erase pf a e s = Some (res, s')"
  shows "neutral s s'"
proof -
  from assms obtain a' t where t: "erase_loop pf a e s = Some (a', t)"
    and s': "s' = event Release (snd (spiflash_wait_wip pf (event Acquire t)))"
    by (auto simp: spiflash_sector_erase_def bind_eq_Some_conv Let_def)
  obtain r u where w: "spiflash_wait_wip pf (event Acquire t) = (r, u)" by fastforce
  show ?thesis
    using neutral_trans [OF neutral_erase_loop [OF t, simplified] neutral_locked [OF neutral_wait_wip [OF w]]]
    by (simp add: s' w)
qed

lemma neutral_chip_loop: "chip_loop pf count status s = (st, s') \<Longrightarrow> neutral s s'"
proof (induction pf count status s arbitrary: st s' rule: chip_loop.induct)
  case (2 pf count status s)
  define t where "t = (if sf_config s then event Acquire (event (Sleep 100) (event Release s))
    else event (Sleep 100) s)"
  obtain b u where r: "read_byte pf SPIFLASH_READ_STATUS_REGISTER t = (b, u)" by fastforce
  have "neutral s t" by (simp add: t_def neutral_def)
  then have u: "neutral s u" using neutral_read_byte [OF r] neutral_trans by blast
  show ?case
  proof (cases "status AND ucast SPIFLASH_STATUS_WIP = 0 \<or> count = 0")
    case True
    with 2(2) show ?thesis by (auto split: if_splits)
  next
    case False
    with 2(2) r have "chip_loop pf count (set_low_byte b status) u = (st, s')"
      by (simp add: t_def [symmetric] Let_def)
    with 2(1) [OF _ _ t_def r [symmetric]] False u show ?thesis by (blast intro: neutral_trans)
  qed
qed simp

lemma set_low_byte_ucast [simp]: "set_low_byte b (ucast (c :: u8)) = ucast b"
  by (rule bit_word_eqI)
     (auto simp: set_low_byte_def bit_or_iff bit_push_bit_iff bit_drop_bit_eq bit_ucast_iff
       dest: bit_imp_le_length)

lemma chip_loop_byte: "chip_loop pf count (ucast (c :: u8)) s = (st, s') \<Longrightarrow> \<exists>b :: u8. st = ucast b"
proof (induction count arbitrary: c s)
  case (Suc count)
  then show ?case by (auto simp: Let_def split: if_splits prod.splits)
qed auto

lemma sint_ucast_byte: "0 \<le> sint (ucast (b :: u8) :: u32)"
  by (auto simp: sint_uint signed_take_bit_nonnegative_iff bit_uint_iff bit_ucast_iff
      dest: bit_imp_le_length)

text \<open>
  Erasing the chip returns through its end, with the status register as its result, or at once with
  the bus still acquired.
\<close>

lemma chip_erase_bus:
  assumes "spiflash_chip_erase pf s = Some (res, s')"
  shows "if res \<in> {EFAIL, E_TIMEOUT} then neutral (event Acquire s) s' else neutral s s' \<and> 0 \<le> res"
proof -
  obtain r1 s1 where w: "spiflash_wait_wip pf (event Acquire s) = (r1, s1)" by fastforce
  obtain r2 s2 where e: "spiflash_write_enable pf s1 = (r2, s2)" by fastforce
  obtain b s3 where r: "read_byte pf SPIFLASH_READ_STATUS_REGISTER (cmd_only pf SPIFLASH_CMD_CHIP_ERASE s2) = (b, s3)"
    by fastforce
  obtain st s4 where l: "chip_loop pf SPIFLASH_WAIT_CHIP_ERASE_RETRY (set_low_byte b 0) s3 = (st, s4)" by fastforce
  have "neutral s2 s4"
    using neutral_trans [OF neutral_trans [OF neutral_cmd_only neutral_read_byte [OF r]]
        neutral_chip_loop [OF l]] .
  moreover have "r1 \<in> {EOK, EFAIL, E_TIMEOUT}" "r2 \<in> {EOK, E_TIMEOUT}"
    using wait_wip_effect [OF w] write_enable_effect [OF e] by (simp_all add: Let_def)
  moreover have "0 \<le> sint st"
    using chip_loop_byte [of pf _ b s3 st s4] l sint_ucast_byte set_low_byte_ucast [of b 0] by force
  moreover have "(res, s') = (if r1 \<noteq> EOK then (r1, s1) else if r2 \<noteq> EOK then (r2, s2)
      else (sint st, event Release s4))"
    using assms by (auto simp: spiflash_chip_erase_def w e r l split: if_splits)
  ultimately show ?thesis
    using neutral_started [OF w e] by (auto intro: neutral_locked neutral_trans split: if_splits)
qed

lemma neutral_write:
  assumes "spiflash_write pf a len ext data s = Some (res, s')"
  shows "neutral s s'"
proof -
  obtain r t where w: "spiflash_wait_wip pf (event Acquire s) = (r, t)" by fastforce
  with assms obtain u where "write_loop pf ext a (unat len) (0x100 - unat (a AND 0xFF)) data r t = Some (res, u)"
    and "s' = event Release u"
    by (auto simp: spiflash_write_def spiflash_aquire_def spiflash_release_def bind_eq_Some_conv Let_def
        split: if_splits)
  then show ?thesis
    using neutral_trans [OF neutral_wait_wip [OF w] neutral_write_loop] by (auto intro: neutral_locked)
qed

lemma neutral_read:
  assumes "spiflash_read pf a len ext s = (res, bs, s')"
  shows "neutral s s'"
  using assms
  by (auto simp: spiflash_read_def intro!: neutral_locked dest!: neutral_cmd_addr split: prod.splits)

lemma neutral_read_sfdp:
  assumes "spiflash_read_sfdp pf a len ext s = (res, bs, s')"
  shows "neutral s s'"
proof -
  obtain r t where w: "spiflash_wait_wip pf (event Acquire s) = (r, t)" by fastforce
  define u where "u = event (Send (take 5 (sf_buffer (buffer_put 0 (SPIFLASH_CMD_READ_SFDP # address_bytes a @ [0]) t))))
    (event Select (buffer_put 0 (SPIFLASH_CMD_READ_SFDP # address_bytes a @ [0]) t))"
  obtain b v where v: "read_result pf ext (unat len) u = (b, v)" by fastforce
  have "neutral t v" using neutral_read_result [OF v] by (simp add: u_def neutral_def)
  moreover have "s' = event Release (if r \<noteq> EOK then t else event Unselect v)"
    using assms v by (auto simp: spiflash_read_sfdp_def spiflash_aquire_def spiflash_release_def w
        u_def Let_def split: if_splits)
  ultimately show ?thesis
    using neutral_wait_wip [OF w] neutral_trans [OF neutral_wait_wip [OF w], of v]
      neutral_locked [of s "event Unselect v"]
    by (auto intro: neutral_locked)
qed

lemma neutral_read_id: "read_id pf s = (ident, s') \<Longrightarrow> neutral s s'"
  by (auto simp: read_id_def split: prod.splits dest!: neutral_cmd)

lemma neutral_init:
  assumes "spiflash_init pf config s = (res, s')"
  shows "neutral (s\<lparr>sf_config := config\<rparr>) s'"
proof -
  define s0 where "s0 = event Acquire (s\<lparr>sf_config := config\<rparr>)"
  define s1 where "s1 = cmd_only pf SPIFLASH_CMD_WRITE_DISABLE (event (Sleep 1)
    (cmd_only pf SPIFLASH_RESET (cmd_only pf SPIFLASH_RESET_ENABLE s0)))"
  obtain i2 s2 where s2: "read_id pf s1 = (i2, s2)" by fastforce
  obtain i3 s3 where s3: "(if i2 \<notin> {0x4226bf, 0x5318b9, 0x16609d, 0x18609d, 0x176001}
      then read_id pf (cmd_only pf SPIFLASH_CMD_WRITE_DISABLE s2) else (i2, s2)) = (i3, s3)" by fastforce
  define s4 where "s4 = (if i3 = 0x4226bf
    then snd (spiflash_wait_wip pf (cmd_only pf 0x98 (snd (spiflash_write_enable pf s3)))) else s3)"
  define s5 where "s5 = (if i3 = 0x176001
    then cmd_only pf SPIFLASH_CMD_WRITE_DISABLE (spiflash_cmd_write SPIFLASH_WRITE_REGISTERS [0, 0, 0]
      (cmd_only pf SPIFLASH_CMD_WRITE_ENABLE_VOLATILE s4)) else s4)"
  obtain b6 s6 where s6: "read_byte pf SPIFLASH_READ_STATUS_REGISTER s5 = (b6, s6)" by fastforce
  obtain b7 s7 where s7: "read_byte pf SPIFLASH_READ_STATUS2_REGISTER
      (if has_error b6 then cmd_only pf SPIFLASH_CMD_CLSR s6 else s6) = (b7, s7)" by fastforce
  note only = neutral_trans [OF _ neutral_cmd_only]
  have "neutral s0 s1"
    unfolding s1_def by (rule only, simp, rule only, rule neutral_cmd_only)
  moreover have "neutral s1 s2" using neutral_read_id [OF s2] .
  moreover have "neutral s2 s3"
    using s3 neutral_read_id neutral_trans [OF neutral_cmd_only neutral_read_id]
    by (auto split: if_splits)
  moreover have "neutral s3 s4"
  proof -
    obtain r t r' u where "spiflash_write_enable pf s3 = (r, t)"
      "spiflash_wait_wip pf (cmd_only pf 0x98 t) = (r', u)" by fastforce
    then show ?thesis
      using neutral_trans [OF only [OF neutral_write_enable] neutral_wait_wip] by (simp add: s4_def)
  qed
  moreover have "neutral s4 s5"
    using only [OF neutral_trans [OF neutral_cmd_only neutral_cmd_write]] by (simp add: s5_def)
  moreover have "neutral s5 s6" using neutral_read_byte [OF s6] .
  moreover have "neutral s6 s7"
    using s7 neutral_read_byte neutral_trans [OF neutral_cmd_only neutral_read_byte]
    by (auto split: if_splits)
  ultimately have "neutral s0 s7" using neutral_trans by meson
  moreover have "s' = event Release s7"
    using assms
    unfolding spiflash_init_def Let_def s0_def [symmetric] s1_def [symmetric] s2 prod.case s3
      s4_def [symmetric] s5_def [symmetric] s6 s7
    by simp
  ultimately show ?thesis by (auto simp: s0_def intro: neutral_locked)
qed

lemma neutral_write_disable: "spiflash_write_disable pf s = (res, s') \<Longrightarrow> neutral s s'"
  by (auto simp: spiflash_write_disable_def neutral_locked)

text \<open>The same, for the three shapes of result.\<close>

lemma kept_pair:
  "(\<And>x s'. r = (x, s') \<Longrightarrow> neutral s s') \<Longrightarrow>
   case r of (_, s') \<Rightarrow> bus_use (sf_log s') = bus_use (sf_log s)"
  by (cases r) (simp add: neutral_def)

lemma kept_triple:
  "(\<And>x y s'. r = (x, y, s') \<Longrightarrow> neutral s s') \<Longrightarrow>
   case r of (_, _, s') \<Rightarrow> bus_use (sf_log s') = bus_use (sf_log s)"
  by (cases r) (simp add: neutral_def)

lemma kept_option:
  "(\<And>x s'. r = Some (x, s') \<Longrightarrow> neutral s s') \<Longrightarrow>
   case r of None \<Rightarrow> True | Some (_, s') \<Rightarrow> bus_use (sf_log s') = bus_use (sf_log s)"
  by (auto simp: neutral_def split: option.split)

end
