(* ===== verification/Spiflash_Props.thy ===== *)
theory Spiflash_Props
  imports Spiflash_Device Spiflash_Bus
begin

unbundle bit_operations_syntax

text \<open>
  The properties of the serial FLASH driver: what it does on a chip that works, for every length and
  address, and what it does on any chip at all.
\<close>

section \<open>On a chip that works\<close>

text \<open>
  C25: \<open>spiflash_write\<close> splits the data at the pages of the chip so that each byte reaches its
  address: the array afterwards has the AND of old content and data in the range written, and is
  unchanged outside; the operation returns EOK with the chip's work finished.
\<close>

theorem spiflash_programs:
  assumes "flash_chip pf mem wel"
    and "unat len \<le> length data" "unat a + unat len \<le> CHIP_SIZE"
  shows "\<exists>s'. spiflash_write pf a len ext data s = Some (EOK, s') \<and> ready pf (sf_log s') \<and>
    mem (sf_log s') = range_program (mem (sf_log s)) (unat a) (take (unat len) data)"
  using chip_write [OF assms, of ext s] by blast

theorem spiflash_programs_witness:
  "\<exists>s'. spiflash_write device_platform 0x1FE 5 False [1, 2, 3, 4, 5] spiflash_statics = Some (EOK, s') \<and>
    ready device_platform (sf_log s') \<and>
    device_mem (sf_log s') =
      range_program (device_mem (sf_log spiflash_statics)) 0x1FE (take 5 [1, 2, 3, 4, 5])"
  using spiflash_programs [OF device_is_chip, of 5 "[1, 2, 3, 4, 5]" "0x1FE" False spiflash_statics]
  by (simp add: CHIP_SIZE_def)

text \<open>
  C26: reading back what was written to an erased range gives the data, from memory the bus can
  reach and from memory it cannot.
\<close>

theorem spiflash_write_read:
  assumes "flash_chip pf mem wel"
    and "unat len \<le> length data" "unat a + unat len \<le> CHIP_SIZE"
    and "\<forall>x. unat a \<le> x \<and> x < unat a + unat len \<longrightarrow> mem (sf_log s) x = 0xFF"
    and "spiflash_write pf a len ext data s = Some (res, s')"
  shows "\<exists>s''. spiflash_read pf a len ext' s' = (EOK, take (unat len) data, s'') \<and>
    mem (sf_log s'') = mem (sf_log s')"
proof -
  have w: "ready pf (sf_log s')"
    "mem (sf_log s') = range_program (mem (sf_log s)) (unat a) (take (unat len) data)"
    using chip_write [OF assms(1-3), of ext s] assms(5) by auto
  have "map (mem (sf_log s')) [unat a..<unat a + unat len] = take (unat len) data"
    using assms(2,4) by (intro nth_equalityI) (simp_all add: w(2) range_program_def FF_AND)
  then show ?thesis using chip_read [OF assms(1) w(1) assms(3), of ext'] by auto
qed

theorem spiflash_write_read_witness:
  "\<exists>res s' s''. spiflash_write device_platform 0x1FE 5 False [1, 2, 3, 4, 5] spiflash_statics = Some (res, s') \<and>
    spiflash_read device_platform 0x1FE 5 True s' = (EOK, [1, 2, 3, 4, 5], s'') \<and>
    device_mem (sf_log s'') = device_mem (sf_log s')"
proof -
  obtain s' where w: "spiflash_write device_platform 0x1FE 5 False [1, 2, 3, 4, 5] spiflash_statics = Some (EOK, s')"
    using chip_write [OF device_is_chip, of 5 "[1, 2, 3, 4, 5]" "0x1FE" False spiflash_statics]
    by (auto simp: CHIP_SIZE_def)
  have "device_mem (sf_log spiflash_statics) x = 0xFF" for x
    by (simp add: spiflash_statics_def device_run_def device_start_def)
  then show ?thesis
    using spiflash_write_read [OF device_is_chip _ _ _ w, of True] w by (simp add: CHIP_SIZE_def)
qed

text \<open>
  C27: \<open>spiflash_sector_erase\<close> on a chip of 16 MB ends, returns EOK, and leaves every byte from the
  start, the first of a sector, to the end of the last sector touched erased, and no other byte
  changed, although it erases only the sectors it finds dirty.
\<close>

theorem spiflash_erases:
  assumes "flash_chip pf mem wel" and "\<not> pf_ext_buf pf"
    and "unat e \<le> CHIP_SIZE" "sf_erasing s = 0" "SECTOR dvd unat a"
  shows "\<exists>s'. spiflash_sector_erase pf a e s = Some (EOK, s') \<and>
    mem (sf_log s') = range_clear (mem (sf_log s)) (unat a) (sector_up (unat e))"
  using chip_sector_erase [OF assms] by blast

theorem spiflash_erases_witness:
  "\<exists>s'. spiflash_sector_erase device_platform 0x1000 0x2800 spiflash_statics = Some (EOK, s') \<and>
    device_mem (sf_log s') =
      range_clear (device_mem (sf_log spiflash_statics)) 0x1000 (sector_up 0x2800)"
  using spiflash_erases [OF device_is_chip, of "0x2800" spiflash_statics "0x1000"]
  by (simp add: CHIP_SIZE_def SECTOR_def device_platform_def spiflash_statics_def)

section \<open>On any chip\<close>

text \<open>
  C28: for every chip the wait for a finished operation ends within 400 reads of the status register,
  after the first read that does not show an operation in progress; an error bit makes it fail and
  is cleared, and a chip busy at each of the 400 reads is a timeout.
\<close>

theorem spiflash_waits:
  "case spiflash_wait_wip pf s of (res, s') \<Rightarrow>
     \<exists>k < SPIFLASH_WAIT_WIP_RETRY.
       (\<forall>j < k. busy (wip_read pf (sf_log s) j)) \<and>
       (k + 1 < SPIFLASH_WAIT_WIP_RETRY \<longrightarrow> \<not> busy (wip_read pf (sf_log s) k)) \<and>
       res = (if has_error (wip_read pf (sf_log s) k) then EFAIL
              else if busy (wip_read pf (sf_log s) k) then E_TIMEOUT else EOK) \<and>
       sf_log s' = polled wip_nap (sf_log s) k @ status_frame @
         (if has_error (wip_read pf (sf_log s) k)
          then cmd_frame SPIFLASH_CMD_WRITE_DISABLE @ cmd_frame SPIFLASH_CMD_CLSR else [])"
proof -
  obtain res s' where w: "spiflash_wait_wip pf s = (res, s')" by fastforce
  let ?fin = "\<lambda>j. \<not> busy (wip_read pf (sf_log s) j)"
  have "wip_end pf (sf_log s) < SPIFLASH_WAIT_WIP_RETRY"
    using last_read_bounds [of 0 ?fin "SPIFLASH_WAIT_WIP_RETRY - 1"]
    by (simp add: wip_end_def SPIFLASH_WAIT_WIP_RETRY_def)
  then show ?thesis
    using wait_wip_effect [OF w] last_read_before [of 0 _ ?fin "SPIFLASH_WAIT_WIP_RETRY - 1"]
      last_read_early [of ?fin 0 "SPIFLASH_WAIT_WIP_RETRY - 1"]
    by (intro case_prodI2 exI [of _ "wip_end pf (sf_log s)"]) (auto simp: w wip_end_def Let_def)
qed

theorem spiflash_waits_witness:
  "\<exists>k < SPIFLASH_WAIT_WIP_RETRY.
     sf_log (snd (spiflash_wait_wip device_platform spiflash_statics)) =
       polled wip_nap [] k @ status_frame"
proof -
  obtain res s' where w: "spiflash_wait_wip device_platform spiflash_statics = (res, s')" by fastforce
  show ?thesis
    using spiflash_waits [of device_platform spiflash_statics]
    by (auto simp: w wip_read_def device_status_at spiflash_statics_def)
qed

text \<open>
  C29: whatever the chip answers, every operation that returns has released the bus as often as it
  acquired it, but one: erasing the chip returns the failure of its wait or of its write enable with
  the bus still acquired.
\<close>

theorem spiflash_bus_released:
  "(case spiflash_init pf config s of (_, s') \<Rightarrow> bus_use (sf_log s') = bus_use (sf_log s)) \<and>
   (case spiflash_write_disable pf s of (_, s') \<Rightarrow> bus_use (sf_log s') = bus_use (sf_log s)) \<and>
   (case spiflash_read pf a len ext s of (_, _, s') \<Rightarrow> bus_use (sf_log s') = bus_use (sf_log s)) \<and>
   (case spiflash_read_sfdp pf a len ext s of (_, _, s') \<Rightarrow> bus_use (sf_log s') = bus_use (sf_log s)) \<and>
   (case spiflash_write pf a len ext data s of None \<Rightarrow> True
    | Some (_, s') \<Rightarrow> bus_use (sf_log s') = bus_use (sf_log s)) \<and>
   (case spiflash_is_dirty pf a e s of None \<Rightarrow> True
    | Some (_, s') \<Rightarrow> bus_use (sf_log s') = bus_use (sf_log s)) \<and>
   (case spiflash_sector_erase pf a e s of None \<Rightarrow> True
    | Some (_, s') \<Rightarrow> bus_use (sf_log s') = bus_use (sf_log s)) \<and>
   (case spiflash_sector_erase_start pf a s of None \<Rightarrow> True
    | Some (_, s') \<Rightarrow> bus_use (sf_log s') = bus_use (sf_log s)) \<and>
   (case spiflash_chip_erase pf s of None \<Rightarrow> True
    | Some (res, s') \<Rightarrow> bus_use (sf_log s') =
        bus_use (sf_log s) + (if res = EFAIL \<or> res = E_TIMEOUT then 1 else 0))"
proof -
  have init: "case spiflash_init pf config s of (_, s') \<Rightarrow> bus_use (sf_log s') = bus_use (sf_log s)"
    using kept_pair [of "spiflash_init pf config s" "s\<lparr>sf_config := config\<rparr>"] neutral_init by fastforce
  have chip: "case spiflash_chip_erase pf s of None \<Rightarrow> True
    | Some (res, s') \<Rightarrow> bus_use (sf_log s') =
        bus_use (sf_log s) + (if res = EFAIL \<or> res = E_TIMEOUT then 1 else 0)"
    by (auto simp: neutral_def split: option.split if_splits dest!: chip_erase_bus)
  show ?thesis
    by (intro conjI;
        (rule init chip | (rule kept_pair kept_triple kept_option;
           erule neutral_write_disable neutral_read neutral_read_sfdp neutral_write neutral_is_dirty
             neutral_sector_erase neutral_sector_erase_start)))
qed

section \<open>What the driver does not report\<close>

text \<open>No event of the list starts a page program.\<close>

definition program_free :: "spi_event list \<Rightarrow> bool" where
  "program_free es \<longleftrightarrow> (\<forall>bs. Send bs \<in> set es \<longrightarrow> hd bs \<noteq> SPIFLASH_CMD_PAGE_PROGRAM)"

lemma program_free_simps [simp]:
  "program_free []" "program_free (es @ fs) \<longleftrightarrow> program_free es \<and> program_free fs"
  "program_free (Acquire # es) = program_free es" "program_free (Release # es) = program_free es"
  "program_free (Sleep n # es) = program_free es" "program_free status_frame"
  "program_free (cmd_frame SPIFLASH_CMD_WRITE_ENABLE)"
  by (auto simp: program_free_def read_frame_def cmd_frame_def opcodes)

lemma polled_append: "\<exists>es. polled nap log k = log @ es \<and> program_free es"
  by (induction k) auto

text \<open>A write enable the chip does not take, and the wait that hides it.\<close>

definition never_enabled :: "platform \<Rightarrow> bool" where
  "never_enabled pf \<longleftrightarrow>
     (\<forall>log. ready pf log \<and> \<not> has_error (status_at pf log) \<and> \<not> enabled (status_at pf log))"

lemma wait_never_enabled:
  assumes "never_enabled pf" "spiflash_wait_wip pf s = (res, s')"
  shows "res = EOK \<and> (\<exists>es. sf_log s' = sf_log s @ es \<and> program_free es)"
proof -
  obtain es where "polled wip_nap (sf_log s) (wip_end pf (sf_log s)) = sf_log s @ es" "program_free es"
    using polled_append by blast
  with assms wait_wip_effect [OF assms(2)] show ?thesis
    by (auto simp: never_enabled_def wip_read_def Let_def)
qed

lemma enable_never_enabled:
  assumes "never_enabled pf" "spiflash_write_enable pf s = (res, s')"
  shows "res = E_TIMEOUT \<and> (\<exists>es. sf_log s' = sf_log s @ es \<and> program_free es)"
proof -
  let ?log = "sf_log s @ cmd_frame SPIFLASH_CMD_WRITE_ENABLE"
  obtain es where "polled wel_nap ?log (wel_end pf ?log) = ?log @ es" "program_free es"
    using polled_append by blast
  with assms write_enable_effect [OF assms(2)] show ?thesis
    by (auto simp: never_enabled_def wel_read_def Let_def)
qed

lemma write_loop_never_enabled:
  assumes "never_enabled pf"
  shows "bytes \<noteq> 0 \<Longrightarrow> \<exists>s' es. write_loop pf ext a len bytes data EOK s = Some (EOK, s') \<and>
    sf_log s' = sf_log s @ es \<and> program_free es"
proof (induction len arbitrary: a bytes data s rule: less_induct)
  case (less len)
  show ?case
  proof (cases "len = 0")
    case True
    then show ?thesis by (simp add: write_loop.simps)
  next
    case False
    define n where "n = (if len < bytes then len else bytes)"
    obtain r1 s1 where e: "spiflash_write_enable pf s = (r1, s1)" by fastforce
    obtain r2 s2 where w: "spiflash_wait_wip pf s1 = (r2, s2)" by fastforce
    note e' = enable_never_enabled [OF assms e] and w' = wait_never_enabled [OF assms w]
    have "write_loop pf ext a len bytes data EOK s =
        write_loop pf ext (a + of_nat n) (len - n) 0x100 (drop n data) EOK s2"
      using False less.prems e w e' w'
      by (subst write_loop.simps) (simp add: n_def [symmetric] Let_def)
    moreover have "len - n < len" using False less.prems by (simp add: n_def)
    ultimately show ?thesis
      using less.IH [of "len - n" "0x100" "a + of_nat n" "drop n data" s2] e' w' by auto
  qed
qed

text \<open>
  C30: on a chip that never takes a write enable and is otherwise idle, a write of any length returns
  EOK although it sent no page program: the timeout of the write enable is overwritten by the wait
  that follows it.
\<close>

theorem spiflash_write_unprogrammed:
  assumes "never_enabled pf"
  shows "\<exists>s' es. spiflash_write pf a len ext data s = Some (EOK, s') \<and>
    sf_log s' = sf_log s @ es \<and> program_free es"
proof -
  obtain r t where w: "spiflash_wait_wip pf (event Acquire s) = (r, t)" by fastforce
  have "0x100 - unat (a AND 0xFF) \<noteq> 0" by (simp add: unat_and_FF PAGE_def not_le)
  from write_loop_never_enabled [OF assms this, of ext a "unat len" data t]
    wait_never_enabled [OF assms w]
  show ?thesis
    by (auto simp: spiflash_write_def spiflash_aquire_def spiflash_release_def w)
qed

theorem spiflash_write_unprogrammed_witness:
  "\<exists>pf s' es. never_enabled pf \<and>
    spiflash_write pf 0x1FE 5 False [1, 2, 3, 4, 5] spiflash_statics = Some (EOK, s') \<and>
    sf_log s' = es \<and> program_free es"
proof -
  let ?pf = "\<lparr>pf_chip = (\<lambda>_ _. 0), pf_ext_vars = False, pf_ext_buf = False\<rparr>"
  have "never_enabled ?pf" by (simp add: never_enabled_def status_at_def has_error_def)
  then show ?thesis
    using spiflash_write_unprogrammed [of ?pf "0x1FE" 5 False "[1, 2, 3, 4, 5]" spiflash_statics]
    by (auto simp: spiflash_statics_def)
qed

lemma chip_start_ok:
  assumes "flash_chip pf mem wel" "spiflash_sector_erase_start pf a s = Some (st, u)"
  shows "st = EOK"
proof -
  obtain r1 s1 where w: "spiflash_wait_wip pf (event Acquire s) = (r1, s1)" by fastforce
  obtain r2 s2 where e: "spiflash_write_enable pf s1 = (r2, s2)" by fastforce
  have "r1 = EOK" "r2 = EOK"
    using chip_wait_wip [OF assms(1) w] chip_write_enable [OF assms(1) _ e] by simp_all
  with assms(2) w e show ?thesis
    by (auto simp: spiflash_sector_erase_start_def Let_def split: if_splits)
qed

lemma next_sector: "SECTOR dvd unat a \<Longrightarrow> SECTOR dvd unat (a + spiflash_sector_size a)"
  by (simp add: spiflash_sector_size_def SPIFLASH_SECTOR_SIZE_4K_def SECTOR_def unat_word_ariths dvd_mod)

lemma last_sector:
  fixes a e :: u32
  assumes "SECTOR dvd unat a" "0xFFFFF000 < e"
  shows "a < e"
proof -
  from assms(1) obtain k where k: "unat a = SECTOR * k" ..
  then have "unat a \<le> 0xFFFFF000"
    using unat_u32_lt [of a] unfolding SECTOR_def by simp
  then have "a \<le> 0xFFFFF000" by (simp add: word_le_nat_alt)
  with assms(2) show ?thesis by simp
qed

text \<open>
  C31: erasing up to an address in the last sector of the 32-bit space never returns: after the last
  sector the address wraps around to 0, which is below the end again.
\<close>

theorem spiflash_erase_endless:
  assumes "flash_chip pf mem wel" "sf_erasing s = 0" "SECTOR dvd unat a" "0xFFFFF000 < e"
  shows "spiflash_sector_erase pf a e s = None"
proof -
  have "sf_erasing s = 0 \<longrightarrow> SECTOR dvd unat a \<longrightarrow> False" if "erase_loop pf a e s = Some r" for r
    using that
  proof (rule erase_loop_induct)
    fix a s t assume "spiflash_is_dirty pf a (a + spiflash_sector_size a) s = Some (False, t)"
      and "sf_erasing t = 0 \<longrightarrow> SECTOR dvd unat (a + spiflash_sector_size a) \<longrightarrow> False"
    then show "sf_erasing s = 0 \<longrightarrow> SECTOR dvd unat a \<longrightarrow> False"
      using neutral_is_dirty next_sector by (fastforce simp: neutral_def same_setup_def)
  next
    fix a s t u assume "spiflash_is_dirty pf a (a + spiflash_sector_size a) s = Some (True, t)"
      and "spiflash_sector_erase_start pf a t = Some (EOK, u)"
      and "sf_erasing u = 0 \<longrightarrow> SECTOR dvd unat (a + spiflash_sector_size a) \<longrightarrow> False"
    then show "sf_erasing s = 0 \<longrightarrow> SECTOR dvd unat a \<longrightarrow> False"
      using neutral_is_dirty neutral_sector_erase_start next_sector
      by (fastforce simp: neutral_def same_setup_def)
  qed (use last_sector [OF _ assms(4)] chip_start_ok [OF assms(1)] in blast)+
  then have "erase_loop pf a e s = None" using assms(2,3) by (cases "erase_loop pf a e s") auto
  then show ?thesis by (simp add: spiflash_sector_erase_def)
qed

theorem spiflash_erase_endless_witness:
  "spiflash_sector_erase device_platform 0xFFFF0000 0xFFFFFFFF spiflash_statics = None"
  by (rule spiflash_erase_endless [OF device_is_chip])
     (simp_all add: spiflash_statics_def SECTOR_def)

text \<open>
  The opcode is sent in the place of the last byte of the data: \<^verbatim>\<open>spiSend\<close> is given the length of
  the data, not of the buffer.
\<close>

lemma spiflash_cmd_write_short:
  "sf_log (spiflash_cmd_write opcode cmd s) =
   sf_log s @ [Select, Send (take (length cmd) (opcode # cmd)), Unselect]"
proof -
  have "take (length cmd) ((opcode # cmd) @ r) = take (length cmd) (opcode # cmd)" for r
    by (simp only: take_append) simp
  then show ?thesis by (simp add: spiflash_cmd_write_def buffer_put_def Let_def)
qed

end
