(* ===== verification/Shell_Split.thy ===== *)
theory Shell_Split
  imports C_Text
begin

text \<open>
  Splitting a command line into words, \<^verbatim>\<open>corshell_cmd_split\<close> of \<^verbatim>\<open>src/shell/corshell.c\<close>.  The function
  works in place: a word is the offset of its first byte in the buffer, and its end is overwritten
  with a terminator.
\<close>

section \<open>The function\<close>

datatype split_state = DULL | IN_WORD | IN_STRING | IN_WORD_STRING

record split =
  sp_buf :: "u8 list"
  sp_state :: split_state
  sp_word :: nat
  sp_quote :: u8
  sp_argv :: "nat list"

definition end_word :: "nat \<Rightarrow> split \<Rightarrow> split" where
  "end_word p st =
     st\<lparr>sp_buf := (sp_buf st)[p := 0], sp_argv := sp_argv st @ [sp_word st], sp_state := DULL\<rparr>"

definition split_char :: "nat \<Rightarrow> split \<Rightarrow> split" where
  "split_char p st =
     (let c = sp_buf st ! p in
      case sp_state st of
        DULL \<Rightarrow>
          if isspace c then st
          else if c = 34 \<or> c = 39 then st\<lparr>sp_state := IN_STRING, sp_quote := c, sp_word := p + 1\<rparr>
          else st\<lparr>sp_state := IN_WORD, sp_word := p\<rparr>
      | IN_STRING \<Rightarrow> if c = sp_quote st then end_word p st else st
      | IN_WORD \<Rightarrow>
          if isspace c then end_word p st
          else if c = 34 then st\<lparr>sp_state := IN_WORD_STRING\<rparr> else st
      | IN_WORD_STRING \<Rightarrow> if c = 34 then st\<lparr>sp_state := IN_WORD\<rparr> else st)"

text \<open>
  The loop; \<open>n\<close> is the number of bytes readable at \<^verbatim>\<open>p\<close>.  The byte is read before \<^verbatim>\<open>p\<close> is
  compared with \<^verbatim>\<open>len\<close>.
\<close>

fun split_loop :: "nat \<Rightarrow> nat \<Rightarrow> nat \<Rightarrow> nat \<Rightarrow> split \<Rightarrow> split option" where
  "split_loop len argv_size p n st =
     (if \<not> length (sp_argv st) < argv_size then Some st
      else case n of
             0 \<Rightarrow> None
           | Suc n \<Rightarrow>
               if sp_buf st ! p \<noteq> 0 \<and> p mod 2 ^ 32 < len
               then split_loop len argv_size (Suc p) n (split_char p st)
               else Some st)"

definition split_finish :: "nat \<Rightarrow> split \<Rightarrow> nat list" where
  "split_finish argv_size st =
     (if sp_state st \<noteq> DULL \<and> length (sp_argv st) < argv_size
      then sp_argv st @ [sp_word st] else sp_argv st)"

text \<open>
  The result is the list of the words; without a word, \<^verbatim>\<open>argv[0]\<close> is an empty string of its own.
\<close>

definition corshell_cmd_split :: "u8 list \<Rightarrow> nat \<Rightarrow> nat \<Rightarrow> (nat list \<times> u8 list) option" where
  "corshell_cmd_split buffer len argv_size =
     (if argv_size = 0 then None
      else do {
        st \<leftarrow> split_loop len argv_size 0 (length buffer)
                \<lparr>sp_buf = buffer, sp_state = DULL, sp_word = 0, sp_quote = 0, sp_argv = []\<rparr>;
        Some (split_finish argv_size st, sp_buf st) })"

section \<open>The words of a text\<close>

text \<open>
  The length of what belongs to a word that has begun: up to a white space that is not between
  double quotes.
\<close>

fun word_rest :: "bool \<Rightarrow> u8 list \<Rightarrow> nat" where
  "word_rest quoted [] = 0"
| "word_rest quoted (c # cs) =
     (if quoted then Suc (word_rest (c \<noteq> 34) cs)
      else if isspace c then 0 else Suc (word_rest (c = 34) cs))"

function tokens :: "u8 list \<Rightarrow> u8 list list" where
  "tokens [] = []"
| "tokens (c # cs) =
     (if isspace c then tokens cs
      else if c = 34 \<or> c = 39
      then takeWhile (\<lambda>b. b \<noteq> c) cs # tokens (drop (Suc (length (takeWhile (\<lambda>b. b \<noteq> c) cs))) cs)
      else (c # take (word_rest False cs) cs) # tokens (drop (Suc (word_rest False cs)) cs))"
  by pat_completeness auto
termination
  by (relation "measure length") auto

text \<open>The words to come in each state of the scan, of which \<open>w\<close> has been read of the current one.\<close>

definition pending :: "split_state \<Rightarrow> u8 \<Rightarrow> u8 list \<Rightarrow> u8 list \<Rightarrow> u8 list list" where
  "pending state quote w t =
     (case state of
        DULL \<Rightarrow> tokens t
      | IN_STRING \<Rightarrow>
          (w @ takeWhile (\<lambda>b. b \<noteq> quote) t) # tokens (drop (Suc (length (takeWhile (\<lambda>b. b \<noteq> quote) t))) t)
      | IN_WORD \<Rightarrow> (w @ take (word_rest False t) t) # tokens (drop (Suc (word_rest False t)) t)
      | IN_WORD_STRING \<Rightarrow> (w @ take (word_rest True t) t) # tokens (drop (Suc (word_rest True t)) t))"

text \<open>A word that ends in a terminator before position \<open>p\<close>, and the current one.\<close>

definition ended :: "nat \<Rightarrow> u8 list \<Rightarrow> nat \<Rightarrow> u8 list \<Rightarrow> bool" where
  "ended p buf off w \<longleftrightarrow>
     off + length w < p \<and> take (Suc (length w)) (drop off buf) = w @ [0] \<and> 0 \<notin> set w"

definition split_inv :: "nat \<Rightarrow> u8 list \<Rightarrow> u8 list list \<Rightarrow> u8 list \<Rightarrow> split \<Rightarrow> bool" where
  "split_inv p t ws w st \<longleftrightarrow>
     p \<le> length (sp_buf st) \<and> drop p (sp_buf st) = t \<and>
     list_all2 (ended p (sp_buf st)) (sp_argv st) ws \<and>
     (sp_state st \<noteq> DULL \<longrightarrow>
        sp_word st \<le> p \<and> w = take (p - sp_word st) (drop (sp_word st) (sp_buf st)) \<and> 0 \<notin> set w)"

lemma ended_mono: "ended p buf off w \<Longrightarrow> p \<le> q \<Longrightarrow> ended q buf off w"
  by (simp add: ended_def)

lemma ended_update:
  assumes "ended p buf off w" "p \<le> q"
  shows "ended p (buf[q := b]) off w"
proof -
  have "drop off (buf[q := b]) = (drop off buf)[q - off := b]"
    using assms by (intro drop_update_swap) (auto simp: ended_def)
  moreover have "Suc (length w) \<le> q - off" using assms by (auto simp: ended_def)
  ultimately show ?thesis using assms(1) by (simp add: ended_def)
qed

lemma ended_cstr: "ended p buf off w \<Longrightarrow> cstr (drop off buf) = Some w"
  using cstr_terminated [of w "drop (Suc (length w)) (drop off buf)"]
    append_take_drop_id [of "Suc (length w)" "drop off buf"]
  by (simp add: ended_def)

section \<open>The scan finds the words\<close>

lemma drop_Cons_iff:
  "drop p xs = c # t \<longleftrightarrow> p < length xs \<and> xs ! p = c \<and> drop (Suc p) xs = t"
  by (cases "p < length xs") (auto simp: Cons_nth_drop_Suc [symmetric])

lemma ended_all_update:
  "list_all2 (ended p buf) argv ws \<Longrightarrow> list_all2 (ended (Suc p) (buf[p := b])) argv ws"
  by (erule list_all2_mono) (meson ended_mono ended_update le_SucI order_refl)

lemma ended_all_Suc: "list_all2 (ended p buf) argv ws \<Longrightarrow> list_all2 (ended (Suc p) buf) argv ws"
  by (erule list_all2_mono) (meson ended_mono le_SucI order_refl)

lemma word_extend:
  "off \<le> p \<Longrightarrow> p < length buf \<Longrightarrow>
   take (Suc p - off) (drop off buf) = take (p - off) (drop off buf) @ [buf ! p]"
  by (simp add: Suc_diff_le take_Suc_conv_app_nth)

lemma split_end:
  assumes inv: "split_inv p (c # t) ws w st" and "sp_state st \<noteq> DULL"
  shows "split_inv (Suc p) t (ws @ [w]) w' (end_word p st)"
proof -
  let ?buf = "sp_buf st" and ?o = "sp_word st"
  have p: "p < length ?buf" "drop (Suc p) ?buf = t"
    using inv by (auto simp: split_inv_def drop_Cons_iff)
  have w: "?o \<le> p" "w = take (p - ?o) (drop ?o ?buf)" "0 \<notin> set w"
    using assms by (auto simp: split_inv_def)
  then have "length w = p - ?o" using p by simp
  moreover have "take (Suc (p - ?o)) (drop ?o (?buf[p := 0])) = w @ [0]"
    using w p word_extend [of ?o p "?buf[p := 0]"] by (simp add: Suc_diff_le drop_update_swap)
  ultimately have "ended (Suc p) (?buf[p := 0]) ?o w"
    using w by (simp add: ended_def)
  then show ?thesis
    using inv p ended_all_update [of p ?buf "sp_argv st" ws 0]
    by (simp add: split_inv_def end_word_def list_all2_appendI)
qed

lemma split_start:
  assumes "split_inv p (c # t) ws w st" "c \<noteq> 0"
  shows "split_inv (Suc p) t ws [] (st\<lparr>sp_state := IN_STRING, sp_quote := q, sp_word := p + 1\<rparr>)"
    and "split_inv (Suc p) t ws [c] (st\<lparr>sp_state := IN_WORD, sp_word := p\<rparr>)"
  using assms
  by (auto simp: split_inv_def drop_Cons_iff ended_all_Suc take_Suc_conv_app_nth)

lemma split_stay:
  assumes "split_inv p (c # t) ws w st" "c \<noteq> 0" "sp_state st \<noteq> DULL" "k \<noteq> DULL"
  shows "split_inv (Suc p) t ws (w @ [c]) (st\<lparr>sp_state := k\<rparr>)"
  using assms word_extend [of "sp_word st" p "sp_buf st"]
  by (auto simp: split_inv_def drop_Cons_iff ended_all_Suc)

lemma split_same:
  assumes "split_inv p (c # t) ws w st" "c \<noteq> 0" "sp_state st \<noteq> DULL"
  shows "split_inv (Suc p) t ws (w @ [c]) st"
  using assms word_extend [of "sp_word st" p "sp_buf st"]
  by (auto simp: split_inv_def drop_Cons_iff ended_all_Suc)

lemma split_dull:
  assumes "split_inv p (c # t) ws w st" "sp_state st = DULL"
  shows "split_inv (Suc p) t ws w' st"
  using assms by (auto simp: split_inv_def drop_Cons_iff ended_all_Suc)

text \<open>One character: either a word has ended, or the words to come are the same.\<close>

lemma split_step:
  assumes inv: "split_inv p (c # t) ws w st" and c: "c \<noteq> 0"
  shows "\<exists>ws' w'. split_inv (Suc p) t ws' w' (split_char p st) \<and>
    length ws' \<le> Suc (length ws) \<and>
    ws @ pending (sp_state st) (sp_quote st) w (c # t') =
      ws' @ pending (sp_state (split_char p st)) (sp_quote (split_char p st)) w' t'"
proof -
  have nth: "sp_buf st ! p = c" using inv by (auto simp: split_inv_def drop_Cons_iff)
  note char = split_char_def nth Let_def
  show ?thesis
  proof (cases "sp_state st")
    case DULL
    consider "isspace c" | "\<not> isspace c" "c = 34 \<or> c = 39" | "\<not> isspace c" "\<not> (c = 34 \<or> c = 39)"
      by blast
    then show ?thesis
    proof cases
      case 1
      then show ?thesis
        using split_dull [OF inv DULL, of w] DULL
        by (intro exI [of _ ws] exI [of _ w]) (simp add: char pending_def)
    next
      case 2
      then show ?thesis
        using split_start(1) [OF inv c, of c] DULL
        by (intro exI [of _ ws] exI [of _ "[]"]) (simp add: char pending_def)
    next
      case 3
      then show ?thesis
        using split_start(2) [OF inv c] DULL
        by (intro exI [of _ ws] exI [of _ "[c]"]) (simp add: char pending_def)
    qed
  next
    case IN_WORD
    consider "isspace c" | "\<not> isspace c" "c = 34" | "\<not> isspace c" "c \<noteq> 34" by blast
    then show ?thesis
    proof cases
      case 1
      then show ?thesis
        using split_end [OF inv, of "[]"] IN_WORD
        by (intro exI [of _ "ws @ [w]"] exI [of _ "[]"]) (simp add: char pending_def end_word_def)
    next
      case 2
      then show ?thesis
        using split_stay [OF inv c, of IN_WORD_STRING] IN_WORD
        by (intro exI [of _ ws] exI [of _ "w @ [c]"]) (simp add: char pending_def)
    next
      case 3
      then show ?thesis
        using split_same [OF inv c] IN_WORD
        by (intro exI [of _ ws] exI [of _ "w @ [c]"]) (simp add: char pending_def)
    qed
  next
    case IN_STRING
    show ?thesis
    proof (cases "c = sp_quote st")
      case True
      then show ?thesis
        using split_end [OF inv, of "[]"] IN_STRING
        by (intro exI [of _ "ws @ [w]"] exI [of _ "[]"]) (simp add: char pending_def end_word_def)
    next
      case False
      then show ?thesis
        using split_same [OF inv c] IN_STRING
        by (intro exI [of _ ws] exI [of _ "w @ [c]"]) (simp add: char pending_def)
    qed
  next
    case IN_WORD_STRING
    show ?thesis
    proof (cases "c = 34")
      case True
      then show ?thesis
        using split_stay [OF inv c, of IN_WORD] IN_WORD_STRING
        by (intro exI [of _ ws] exI [of _ "w @ [c]"]) (simp add: char pending_def)
    next
      case False
      then show ?thesis
        using split_same [OF inv c] IN_WORD_STRING
        by (intro exI [of _ ws] exI [of _ "w @ [c]"]) (simp add: char pending_def)
    qed
  qed
qed

lemma split_loop_words:
  assumes "0 \<notin> set t" "split_inv p (t @ 0 # r) ws w st" "length ws \<le> argv_size"
    and "p + length t \<le> len" "p + length t < 2 ^ 32" "n = Suc (length t + length r)"
  shows "\<exists>st' ws' q. split_loop len argv_size p n st = Some st' \<and>
    length (sp_buf st') = length (sp_buf st) \<and>
    list_all2 (ended q (sp_buf st')) (split_finish argv_size st') ws' \<and>
    ws' = take argv_size (ws @ pending (sp_state st) (sp_quote st) w t)"
  using assms
proof (induction t arbitrary: p ws w st n)
  case Nil
  have argv: "list_all2 (ended p (sp_buf st)) (sp_argv st) ws" using Nil.prems by (simp add: split_inv_def)
  then have len: "length (sp_argv st) = length ws" by (rule list_all2_lengthD)
  have zero: "sp_buf st ! p = 0" using Nil.prems by (simp add: split_inv_def drop_Cons_iff)
  have "split_loop len argv_size p n st = Some st" using Nil.prems(6) zero by simp
  moreover have "list_all2 (ended (Suc p) (sp_buf st)) (split_finish argv_size st)
      (take argv_size (ws @ pending (sp_state st) (sp_quote st) w []))"
  proof (cases "sp_state st \<noteq> DULL \<and> length ws < argv_size")
    case True
    then have "take argv_size (ws @ pending (sp_state st) (sp_quote st) w []) = ws @ [w]"
      by (cases "sp_state st") (auto simp: pending_def)
    moreover have "ended (Suc p) (sp_buf st) (sp_word st) w"
      using Nil.prems(2) True word_extend [of "sp_word st" p "sp_buf st"]
      by (auto simp: split_inv_def ended_def drop_Cons_iff Suc_diff_le)
    ultimately show ?thesis
      using True len ended_all_Suc [OF argv] by (simp add: split_finish_def list_all2_appendI)
  next
    case False
    then have "take argv_size (ws @ pending (sp_state st) (sp_quote st) w []) = ws"
      using Nil.prems(3) by (auto simp: pending_def)
    with False show ?thesis
      using len ended_all_Suc [OF argv] by (auto simp: split_finish_def)
  qed
  ultimately show ?case by blast
next
  case (Cons c t)
  have argv: "list_all2 (ended p (sp_buf st)) (sp_argv st) ws" using Cons.prems by (simp add: split_inv_def)
  then have len: "length (sp_argv st) = length ws" by (rule list_all2_lengthD)
  show ?case
  proof (cases "length ws < argv_size")
    case False
    then have "split_loop len argv_size p n st = Some st" "split_finish argv_size st = sp_argv st"
      using len by (simp_all add: split_finish_def)
    with False argv Cons.prems(3) show ?thesis by auto
  next
    case True
    have c: "c \<noteq> 0" using Cons.prems(1) by auto
    have inv: "split_inv p (c # (t @ 0 # r)) ws w st" using Cons.prems(2) by simp
    obtain ws' w' where step: "split_inv (Suc p) (t @ 0 # r) ws' w' (split_char p st)"
      "length ws' \<le> Suc (length ws)"
      "ws @ pending (sp_state st) (sp_quote st) w (c # t) =
        ws' @ pending (sp_state (split_char p st)) (sp_quote (split_char p st)) w' t"
      using split_step [OF inv c, of t] by blast
    have "split_loop len argv_size p n st = split_loop len argv_size (Suc p) (n - 1) (split_char p st)"
      using True len c inv Cons.prems(4-6) by (simp add: split_inv_def drop_Cons_iff)
    moreover have "length (sp_buf (split_char p st)) = length (sp_buf st)"
      by (simp add: split_char_def end_word_def Let_def split: split_state.split)
    moreover have "\<exists>st' ws'' q. split_loop len argv_size (Suc p) (n - 1) (split_char p st) = Some st' \<and>
      length (sp_buf st') = length (sp_buf (split_char p st)) \<and>
      list_all2 (ended q (sp_buf st')) (split_finish argv_size st') ws'' \<and>
      ws'' = take argv_size (ws' @ pending (sp_state (split_char p st)) (sp_quote (split_char p st)) w' t)"
      using Cons.prems True step(2) by (intro Cons.IH step(1)) auto
    ultimately show ?thesis by (simp only: step(3))
  qed
qed

theorem split_words:
  assumes "0 \<notin> set s" "length s \<le> len" "length s < 2 ^ 32" "0 < argv_size"
  shows "\<exists>argv buf. corshell_cmd_split (s @ 0 # r) len argv_size = Some (argv, buf) \<and>
    length buf = length (s @ 0 # r) \<and>
    map (\<lambda>off. cstr (drop off buf)) argv = map Some (take argv_size (tokens s))"
proof -
  let ?st = "\<lparr>sp_buf = s @ 0 # r, sp_state = DULL, sp_word = 0, sp_quote = 0, sp_argv = []\<rparr>"
  have "split_inv 0 (s @ 0 # r) [] [] ?st" by (simp add: split_inv_def)
  from split_loop_words [OF assms(1) this, of argv_size len "length (s @ 0 # r)"]
  obtain st ws q where st: "split_loop len argv_size 0 (length (s @ 0 # r)) ?st = Some st"
    "length (sp_buf st) = length (s @ 0 # r)"
    "list_all2 (ended q (sp_buf st)) (split_finish argv_size st) ws" "ws = take argv_size (tokens s)"
    using assms by (auto simp: pending_def)
  have "map (\<lambda>off. cstr (drop off (sp_buf st))) (split_finish argv_size st) = map Some ws"
    using st(3) by (induction rule: list_all2_induct) (simp_all add: ended_cstr)
  with st(1,2,4) assms(4) show ?thesis by (simp add: corshell_cmd_split_def)
qed

end
