(* ===== verification/Shell.thy ===== *)
theory Shell
  imports Shell_Split System
begin

text \<open>
  The shell, \<^verbatim>\<open>src/shell/corshell.c\<close>: looking up and running a command, the list of the commands,
  and scripts.  A command works on the state of the program and on the state \<open>'t\<close> of its client,
  which also receives the output through the callback \<open>env_out\<close>; \<open>env_client\<close> are the commands the
  client brings, and \<open>env_stack\<close> is what a local array holds before it is written.  \<^verbatim>\<open>_corshell_buffer\<close> is written before each use and is not part of the state; a
  command does not change the words it is given.
\<close>

unbundle bit_operations_syntax

section \<open>State and output\<close>

definition CORSHELL_OUT_NULL :: u32 where "CORSHELL_OUT_NULL = 0"
definition CORSHELL_OUT_STD :: u32 where "CORSHELL_OUT_STD = 1"
definition CORSHELL_OUT_ERR :: u32 where "CORSHELL_OUT_ERR = 2"

definition CORSHELL_CMD_E_FAIL :: status where [simp]: "CORSHELL_CMD_E_FAIL = - 1"
definition CORSHELL_CMD_E_NOT_FOUND :: status where [simp]: "CORSHELL_CMD_E_NOT_FOUND = - 2"
definition CORSHELL_CMD_E_PARMS :: status where [simp]: "CORSHELL_CMD_E_PARMS = - 3"
definition CORSHELL_CMD_E_MEMORY :: status where [simp]: "CORSHELL_CMD_E_MEMORY = - 8"
definition CORSHELL_CMD_E_EXIST :: status where [simp]: "CORSHELL_CMD_E_EXIST = - 11"

definition CORSHELL_ARGC_MAX :: nat where "CORSHELL_ARGC_MAX = 14"
definition CORSHELL_PRINT_BUFFER_SIZE :: nat where "CORSHELL_PRINT_BUFFER_SIZE = 384"
definition CORSHELL_LINE_SIZE_MAX :: nat where "CORSHELL_LINE_SIZE_MAX = 256"
definition CORSHELL_LINE_STRSUB_SIZE_MAX :: nat where "CORSHELL_LINE_STRSUB_SIZE_MAX = 320"

definition NEWLINE :: "u8 list" where "NEWLINE = [13, 10]"

record 't program =
  pg_client :: 't
  pg_sys :: system
  pg_status :: int
  pg_recurse :: u32

record 't shell_env =
  env_out :: "u32 \<Rightarrow> u8 list option \<Rightarrow> 't \<Rightarrow> int \<times> 't"
  env_client :: "nat \<Rightarrow> u8 list list \<Rightarrow> 't program \<Rightarrow> (int \<times> 't program) option"
  env_stack :: "nat \<Rightarrow> u8"

definition shell_out ::
  "'t shell_env \<Rightarrow> u32 \<Rightarrow> u8 list option \<Rightarrow> 't program \<Rightarrow> int \<times> 't program" where
  "shell_out env out s pg =
     (case env_out env out s (pg_client pg) of (res, t) \<Rightarrow> (res, pg\<lparr>pg_client := t\<rparr>))"

text \<open>The formatted text, cut to the size of the print buffer.\<close>

definition corshell_print :: "'t shell_env \<Rightarrow> u32 \<Rightarrow> u8 list \<Rightarrow> 't program \<Rightarrow> 't program" where
  "corshell_print env out s pg =
     snd (shell_out env out (Some (take (CORSHELL_PRINT_BUFFER_SIZE - 1) s)) pg)"

text \<open>
  Two columns: \<open>left\<close>, at least one blank, and \<open>s\<close>.  The argument \<^verbatim>\<open>out\<close> is not used.  A left column
  longer than the buffer is written past its end; one that just fits is cut by its terminator.
\<close>

definition corshell_print_table ::
  "'t shell_env \<Rightarrow> u32 \<Rightarrow> u8 list \<Rightarrow> int \<Rightarrow> u8 list \<Rightarrow> 't program \<Rightarrow> 't program option" where
  "corshell_print_table env out left tabright s pg =
     (let n = CORSHELL_PRINT_BUFFER_SIZE in
      if length left \<ge> n then None
      else if length left > n - 4 then
        Some (snd (shell_out env CORSHELL_OUT_ERR (Some (take (n - 4) left)) pg))
      else
        (let blanks = max 1 (min (nat tabright) (n - 3) - length left);
             line = left @ replicate blanks 32
         in Some (snd (shell_out env CORSHELL_OUT_ERR
                    (Some (line @ take (n - length line - 1) s)) pg))))"

section \<open>The commands\<close>

record cmd_it =
  it_lst :: nat
  it_idx :: nat

text \<open>A command pointer that is dereferenced.\<close>

definition cmd_at :: "corshell \<Rightarrow> cmd_it \<Rightarrow> corshell_cmd option" where
  "cmd_at sh it =
     (if it_idx it < length (cl_cmds (sh (it_lst it)))
      then Some (cl_cmds (sh (it_lst it)) ! it_idx it) else None)"

definition cmd_get :: "corshell \<Rightarrow> cmd_it \<Rightarrow> corshell_cmd option" where
  "cmd_get sh it = cmd_at sh it"

text \<open>The first command; the static list may have no array, then there is none.\<close>

definition cmd_first :: "corshell \<Rightarrow> cmd_it option" where
  "cmd_first sh =
     (if cl_cmds (sh corshell_static_list) = [] then None
      else Some \<lparr>it_lst = corshell_static_list, it_idx = 0\<rparr>)"

definition cmd_next :: "corshell \<Rightarrow> cmd_it \<Rightarrow> cmd_it option option" where
  "cmd_next sh it =
     (let it = it\<lparr>it_idx := it_idx it + 1\<rparr>; l = sh (it_lst it) in
      do { at_end \<leftarrow> (if cl_cnt l \<noteq> 0 \<and> it_idx it \<ge> unat (cl_cnt l) then Some True
                       else map_option (\<lambda>c. cc_cmd c = None) (cmd_at sh it));
           if at_end
           then (case cl_next l of
                   None \<Rightarrow> Some None
                 | Some n \<Rightarrow> Some (Some \<lparr>it_lst = n, it_idx = 0\<rparr>))
           else Some (Some it) })"

text \<open>The name of the command, which must not be a null pointer.\<close>

definition name_at :: "corshell \<Rightarrow> cmd_it \<Rightarrow> u8 list option" where
  "name_at sh it = do { c \<leftarrow> cmd_at sh it; cc_cmd c }"

text \<open>The first word is an empty string when there is none.\<close>

definition arg0 :: "u8 list list \<Rightarrow> u8 list" where
  "arg0 argv = (case argv of [] \<Rightarrow> [] | w # _ \<Rightarrow> w)"

type_synonym 't run_fp = "shell_fp \<Rightarrow> u8 list list \<Rightarrow> 't program \<Rightarrow> (int \<times> 't program) option"

definition run_command ::
  "'t shell_env \<Rightarrow> 't run_fp \<Rightarrow> corshell_cmd \<Rightarrow> u8 list \<Rightarrow> u8 list list \<Rightarrow> 't program \<Rightarrow>
   (int \<times> 't program) option" where
  "run_command env fp cmd name argv pg =
     do { let usage = \<not> (length argv \<le> 1 \<or> take 1 (argv ! 1) \<noteq> [63]);
          (res, pg) \<leftarrow> (if usage then Some (CORSHELL_CMD_E_OK, pg) else fp (cc_fp cmd) argv pg);
          let pg = (case cc_usage cmd of
                      Some u \<Rightarrow>
                        if usage \<or> res = CORSHELL_CMD_E_PARMS
                        then corshell_print env CORSHELL_OUT_STD
                               (ascii ''usage: '' @ [39] @ name @ [32] @ u @ [39] @ NEWLINE) pg
                        else pg
                    | None \<Rightarrow> pg);
          Some (res, pg) }"

partial_function (option) find_command ::
  "corshell \<Rightarrow> u8 list \<Rightarrow> cmd_it option \<Rightarrow> (corshell_cmd \<times> u8 list) option option" where
  "find_command sh word it =
     (case it of
        None \<Rightarrow> Some None
      | Some it \<Rightarrow>
          do { name \<leftarrow> name_at sh it;
               if name = word then map_option (\<lambda>c. Some (c, name)) (cmd_at sh it)
               else do { it \<leftarrow> cmd_next sh it; find_command sh word it } })"

definition corshell_cmd_run ::
  "'t shell_env \<Rightarrow> 't run_fp \<Rightarrow> u8 list list \<Rightarrow> 't program \<Rightarrow> (int \<times> 't program) option" where
  "corshell_cmd_run env fp argv pg =
     (let sh = sys_shell (pg_sys pg); word = arg0 argv in
      if cmd_first sh \<noteq> None \<and> take 1 word = [35] then Some (CORSHELL_CMD_E_OK, pg)
      else do {
        found \<leftarrow> find_command sh word (cmd_first sh);
        case found of
          Some (cmd, name) \<Rightarrow> run_command env fp cmd name argv pg
        | None \<Rightarrow>
            Some (CORSHELL_CMD_E_NOT_FOUND,
                  corshell_print env CORSHELL_OUT_ERR
                    (ascii ''ERROR: '' @ [39] @ word @ [39] @ ascii '' not found!'' @ NEWLINE) pg) })"

section \<open>Numbers on the command line\<close>

text \<open>
  The class of the characters: 0 for decimal digits only, 1 when there are hexadecimal ones, 2 when
  there are others.
\<close>

fun scan_class :: "nat \<Rightarrow> u8 list \<Rightarrow> nat" where
  "scan_class type [] = type"
| "scan_class type (c # cs) =
     (let type = (if type = 0 \<and> \<not> isdigit c then 1 else type) in
      if type = 1 \<and> \<not> isxdigit c then 2 else scan_class type cs)"

text \<open>The second component is what is stored through \<^verbatim>\<open>val\<close>, if anything.\<close>

definition corshell_scan_int :: "u8 list \<Rightarrow> (status \<times> u32 option) option" where
  "corshell_scan_int s =
     (let signed = (take 1 s = [43] \<or> take 1 s = [45]); hex = (take 2 s = [48, 120]);
          type = scan_class (if hex then 1 else 0) (drop (if hex then 2 else if signed then 1 else 0) s)
      in if type = 0 then map_option (\<lambda>v. (CORSHELL_CMD_E_OK, map_option word_of_int v)) (scan_i s)
         else if type = 1 then map_option (\<lambda>v. (CORSHELL_CMD_E_OK, v)) (scan_x (if hex then drop 2 s else s))
         else Some (CORSHELL_CMD_E_FAIL, None))"

section \<open>The built-in commands\<close>

definition corshell_rem :: "u8 list list \<Rightarrow> 't program \<Rightarrow> (int \<times> 't program) option" where
  "corshell_rem argv pg = Some (CORSHELL_CMD_E_OK, pg)"

definition corshell_nop :: "u8 list list \<Rightarrow> 't program \<Rightarrow> (int \<times> 't program) option" where
  "corshell_nop argv pg =
     (if length argv > 1
      then do { (_, v) \<leftarrow> corshell_scan_int (argv ! 1);
                Some (case v of None \<Rightarrow> CORSHELL_CMD_E_OK | Some w \<Rightarrow> sint w, pg) }
      else Some (CORSHELL_CMD_E_OK, pg))"

text \<open>A loop over the commands is one over the list of their positions.\<close>

partial_function (option) walk_cmds :: "corshell \<Rightarrow> cmd_it option \<Rightarrow> cmd_it list option" where
  "walk_cmds sh it =
     (case it of
        None \<Rightarrow> Some []
      | Some it \<Rightarrow> do { nx \<leftarrow> cmd_next sh it; its \<leftarrow> walk_cmds sh nx; Some (it # its) })"

text \<open>\<^verbatim>\<open>strcmp\<close> on strings without their terminators.\<close>

fun bytes_cmp :: "u8 list \<Rightarrow> u8 list \<Rightarrow> int" where
  "bytes_cmp [] [] = 0"
| "bytes_cmp [] (b # ys) = - 1"
| "bytes_cmp (a # xs) [] = 1"
| "bytes_cmp (a # xs) (b # ys) = (if a < b then - 1 else if b < a then 1 else bytes_cmp xs ys)"

definition cmd_cmp :: "corshell \<Rightarrow> cmd_it \<Rightarrow> cmd_it \<Rightarrow> int option" where
  "cmd_cmp sh it1 it2 =
     do { n1 \<leftarrow> name_at sh it1; n2 \<leftarrow> name_at sh it2; Some (bytes_cmp n1 n2) }"

definition cmd_help ::
  "'t shell_env \<Rightarrow> corshell \<Rightarrow> cmd_it \<Rightarrow> u8 list option \<Rightarrow> 't program \<Rightarrow> 't program option" where
  "cmd_help env sh it pattern pg =
     do { cmd \<leftarrow> cmd_get sh it;
          case cc_usage cmd of
            None \<Rightarrow> Some pg
          | Some usage \<Rightarrow>
              do { name \<leftarrow> cc_cmd cmd;
                   Some (if pattern = None \<or> strstr name (the pattern)
                         then corshell_print env CORSHELL_OUT_STD (name @ [32] @ usage @ NEWLINE) pg
                         else pg) } }"

text \<open>The positions of the least and of the greatest name.\<close>

fun first_last :: "corshell \<Rightarrow> cmd_it list \<Rightarrow> cmd_it \<times> cmd_it \<Rightarrow> (cmd_it \<times> cmd_it) option" where
  "first_last sh [] fl = Some fl"
| "first_last sh (it # its) (fi, la) =
     do { c \<leftarrow> cmd_cmp sh it fi;
          let fi = (if c < 0 then it else fi);
          c \<leftarrow> cmd_cmp sh it la;
          first_last sh its (fi, if c > 0 then it else la) }"

text \<open>The next name after that of \<open>fi\<close>, starting from \<open>nx\<close>; and whether one was found.\<close>

fun next_name :: "corshell \<Rightarrow> cmd_it \<Rightarrow> cmd_it list \<Rightarrow> cmd_it \<times> bool \<Rightarrow> (cmd_it \<times> bool) option" where
  "next_name sh fi [] nf = Some nf"
| "next_name sh fi (it # its) (nx, found) =
     do { c \<leftarrow> cmd_cmp sh it fi;
          if c \<le> 0 then next_name sh fi its (nx, found)
          else do {
            c \<leftarrow> cmd_cmp sh it nx;
            next_name sh fi its (if c < 0 then (it, True) else (nx, found)) } }"

partial_function (option) help_loop ::
  "'t shell_env \<Rightarrow> corshell \<Rightarrow> cmd_it list \<Rightarrow> u8 list option \<Rightarrow> cmd_it \<Rightarrow> cmd_it \<Rightarrow> 't program \<Rightarrow>
   't program option" where
  "help_loop env sh its pattern la nx pg =
     do { pg \<leftarrow> cmd_help env sh nx pattern pg;
          (nx, found) \<leftarrow> next_name sh nx its (la, False);
          if found then help_loop env sh its pattern la nx pg
          else cmd_help env sh nx pattern pg }"

text \<open>
  Without a command array the code dereferences a null pointer.
\<close>

definition corshell_help ::
  "'t shell_env \<Rightarrow> u8 list list \<Rightarrow> 't program \<Rightarrow> (int \<times> 't program) option" where
  "corshell_help env argv pg =
     (let sh = sys_shell (pg_sys pg) in
      do { fi \<leftarrow> cmd_first sh;
           its \<leftarrow> walk_cmds sh (Some fi);
           (fi, la) \<leftarrow> first_last sh its (fi, fi);
           pg \<leftarrow> help_loop env sh its (if length argv > 1 then Some (argv ! 1) else None) la fi pg;
           Some (CORSHELL_CMD_E_OK, pg) })"

definition corshell_help2 ::
  "'t shell_env \<Rightarrow> u8 list list \<Rightarrow> 't program \<Rightarrow> (int \<times> 't program) option" where
  "corshell_help2 env argv pg = corshell_help env argv pg"

text \<open>The usages as one text, as far as they fit into a buffer of \<open>len\<close> bytes.\<close>

partial_function (option) help_text :: "corshell \<Rightarrow> nat \<Rightarrow> cmd_it option \<Rightarrow> u8 list \<Rightarrow> u8 list option" where
  "help_text sh len it out =
     (case it of
        None \<Rightarrow> Some out
      | Some it \<Rightarrow>
          do { cmd \<leftarrow> cmd_at sh it;
               if cc_usage cmd = None \<or> \<not> length out + 3 \<le> len
               then do { nx \<leftarrow> cmd_next sh it; help_text sh len nx out }
               else do {
                 name \<leftarrow> cc_cmd cmd;
                 let usage = the (cc_usage cmd);
                 if length out + (length usage + length name) + 4 < len
                 then do { nx \<leftarrow> cmd_next sh it;
                           help_text sh len nx (out @ name @ [32] @ usage @ NEWLINE) }
                 else Some out } })"

definition corshell_cmd_help :: "corshell \<Rightarrow> nat \<Rightarrow> (nat \<times> u8 list) option" where
  "corshell_cmd_help sh len =
     do { out \<leftarrow> help_text sh len (cmd_first sh) [];
          Some (length out + 1, out) }"

section \<open>Scripts\<close>

datatype error_state = StateNormal | StateInHandler | StateInError

record script =
  sc_status :: int
  sc_lasterror :: int
  sc_error :: error_state
  sc_lineno :: nat

text \<open>
  One line of the text from position \<open>i\<close> on: up to the end of the line, the length of the text, or
  the size of the line buffer.  The byte is read before its position is compared with the length, so
  the byte behind the text must be readable too.
\<close>

definition is_eol :: "u8 \<Rightarrow> bool" where
  "is_eol c \<longleftrightarrow> c = 13 \<or> c = 10 \<or> c = 0"

fun take_line :: "nat \<Rightarrow> u8 list \<Rightarrow> nat \<Rightarrow> u8 list option" where
  "take_line n [] rest = None"
| "take_line n (c # cs) rest =
     (if \<not> is_eol c \<and> 0 < rest \<and> 0 < n
      then map_option ((#) c) (take_line (n - 1) cs (rest - 1)) else Some [])"

text \<open>The ends of lines behind it: how many bytes, and how many line feeds among them.\<close>

fun skip_eol :: "u8 list \<Rightarrow> nat \<Rightarrow> (nat \<times> nat) option" where
  "skip_eol [] rest = None"
| "skip_eol (c # cs) rest =
     (if is_eol c \<and> 0 < rest
      then map_option (\<lambda>(k, m). (Suc k, if c = 10 then Suc m else m)) (skip_eol cs (rest - 1))
      else Some (0, 0))"

definition corshell_script_clear_last_error :: "'t program \<Rightarrow> status \<times> 't program" where
  "corshell_script_clear_last_error pg = (CORSHELL_CMD_E_OK, pg\<lparr>pg_status := 0\<rparr>)"

definition message ::
  "'t shell_env \<Rightarrow> u8 list \<Rightarrow> u8 list \<Rightarrow> int \<Rightarrow> u8 list \<Rightarrow> nat \<Rightarrow> 't program \<Rightarrow> 't program" where
  "message env name verb status tail lineno pg =
     corshell_print env CORSHELL_OUT_STD
       (ascii ''shell '' @ [39] @ name @ [39, 32] @ verb @ show_int status @ tail @
        show_int (int lineno) @ [33] @ NEWLINE) pg"

text \<open>\<^verbatim>\<open>:onerror\<close> after an error: whether its handler is for this error.\<close>

definition handles :: "u8 list list \<Rightarrow> int \<Rightarrow> bool option" where
  "handles argv status =
     (if length argv \<le> 1 then Some True
      else do { n \<leftarrow> scan_d (argv ! 1);
                Some (n = Some status \<or> take 1 (argv ! 1) = [120] \<or> take 1 (argv ! 1) = [35]) })"

definition word_or_empty :: "u8 list list \<Rightarrow> nat \<Rightarrow> u8 list" where
  "word_or_empty argv i = (if i < length argv then argv ! i else [])"

definition name_words :: "u8 list \<Rightarrow> u8 list list \<Rightarrow> u8 list" where
  "name_words name argv = name @ [32] @ word_or_empty argv 1 @ [32] @ word_or_empty argv 2"

text \<open>A command of the script, and the question to the client whether to go on.\<close>

definition script_command ::
  "'t shell_env \<Rightarrow> 't run_fp \<Rightarrow> u8 list \<Rightarrow> u8 list list \<Rightarrow> script \<Rightarrow> 't program \<Rightarrow>
   (script \<times> 't program) option" where
  "script_command env fp name argv sc pg =
     do { (status, pg) \<leftarrow> corshell_cmd_run env fp argv pg;
          let sc = sc\<lparr>sc_status := status\<rparr>;
          let (sc, pg) =
            (if status < CORSHELL_CMD_E_OK
             then (sc\<lparr>sc_error := StateInError\<rparr>,
                   if sc_lineno sc > 1
                   then message env (name_words name argv) (ascii ''error '') status
                          (ascii '' for '' @ [39] @ arg0 argv @ [39] @ ascii '' on line '') (sc_lineno sc) pg
                   else pg)
             else (sc, pg));
          Some (if pg_status pg \<ge> CORSHELL_CMD_E_OK
                then
                  (let sc = (if status < CORSHELL_CMD_E_OK then sc\<lparr>sc_lasterror := status\<rparr> else sc) in
                   case shell_out env CORSHELL_OUT_NULL None pg of (cancel, pg) \<Rightarrow>
                   if cancel < CORSHELL_CMD_E_OK
                   then (sc\<lparr>sc_lasterror := cancel, sc_status := cancel\<rparr>,
                         message env (name_words name argv) (ascii ''cancelled with '') status
                           (ascii '' on line '') (sc_lineno sc) pg)
                   else (sc, pg))
                else (sc, pg)) }"

text \<open>One line with words; the first component says that the script goes on.\<close>

definition script_line ::
  "'t shell_env \<Rightarrow> 't run_fp \<Rightarrow> u8 list \<Rightarrow> u8 list list \<Rightarrow> script \<Rightarrow> 't program \<Rightarrow>
   (bool \<times> script \<times> 't program) option" where
  "script_line env fp name argv sc pg =
     (if argv = [] then Some (True, sc, pg)
      else if arg0 argv = ascii '':exit''
      then Some (False, sc, corshell_print env CORSHELL_OUT_STD
             (ascii ''shell '' @ [39] @ name @ [39] @ ascii '' exit on line '' @
              show_int (int (sc_lineno sc)) @ [33] @ NEWLINE) pg)
      else if arg0 argv = ascii '':onerror''
      then (if sc_status sc \<ge> CORSHELL_CMD_E_OK then Some (True, sc\<lparr>sc_error := StateInError\<rparr>, pg)
            else do {
              h \<leftarrow> handles argv (sc_status sc);
              Some (True, sc\<lparr>sc_error := (if h then StateInHandler else StateInError)\<rparr>,
                if h then message env name (ascii ''onerror '') (sc_status sc)
                            (ascii '' handler on line '') (sc_lineno sc) pg
                else pg) })
      else if arg0 argv = ascii '':clearerror''
      then Some (True,
             if sc_error sc \<noteq> StateNormal
             then (sc\<lparr>sc_lasterror := CORSHELL_CMD_E_OK, sc_status := CORSHELL_CMD_E_OK,
                      sc_error := StateNormal\<rparr>,
                   (message env name (ascii ''clearerror '') (sc_status sc) (ascii '' on line '')
                      (sc_lineno sc) pg)\<lparr>pg_status := CORSHELL_CMD_E_OK\<rparr>)
             else (sc, pg))
      else if sc_error sc = StateInError then Some (True, sc, pg)
      else do { (sc, pg) \<leftarrow> script_command env fp name argv sc pg; Some (True, sc, pg) })"

text \<open>
  The words of a line after substitution, \<open>buf\<close> being the buffer allocated for the result.  A
  result that is negative as a number becomes a length that no buffer has.
\<close>

definition line_words ::
  "u8 list \<Rightarrow> u8 list \<Rightarrow> 't program \<Rightarrow> (u8 list list \<times> u8 list \<times> 't program) option" where
  "line_words line buf pg =
     do { (len, buf, sys) \<leftarrow> strsub_parse_string_to run_lookup (sys_strsub (pg_sys pg))
            (Some (line @ [0])) (of_nat (length line)) (Some buf)
            (of_nat CORSHELL_LINE_STRSUB_SIZE_MAX) (pg_sys pg);
          (argv, buf) \<leftarrow> corshell_cmd_split buf (nat (sint len mod 2 ^ 64)) (CORSHELL_ARGC_MAX - 1);
          words \<leftarrow> those (map (\<lambda>off. cstr (drop off buf)) argv);
          Some (words, buf, pg\<lparr>pg_sys := sys\<rparr>) }"

partial_function (option) script_loop ::
  "'t shell_env \<Rightarrow> 't run_fp \<Rightarrow> u8 list \<Rightarrow> u8 list \<Rightarrow> nat \<Rightarrow> nat \<Rightarrow> u8 list \<Rightarrow> script \<Rightarrow> 't program \<Rightarrow>
   (script \<times> 't program) option" where
  "script_loop env fp name start len i buf sc pg =
     do { line \<leftarrow> take_line (CORSHELL_LINE_SIZE_MAX - 1) (drop i start) (len - i);
          let i = i + length line;
          let sc = (if start ! i = 10 then sc\<lparr>sc_lineno := sc_lineno sc + 1\<rparr> else sc);
          (argv, buf, pg) \<leftarrow> line_words line buf pg;
          (go, sc, pg) \<leftarrow> script_line env fp name argv sc pg;
          if \<not> go then Some (sc, pg)
          else do {
            (k, m) \<leftarrow> skip_eol (drop i start) (len - i);
            let sc = sc\<lparr>sc_lineno := sc_lineno sc + m\<rparr>;
            if i + k < len then script_loop env fp name start len (i + k) buf sc pg
            else Some (sc, pg) } }"

text \<open>
  A script of \<open>len\<close> bytes at \<open>start\<close>.  When the client cancels at once, or a buffer cannot be
  allocated, the nesting counter is left as it was incremented.
\<close>

definition corshell_script_run ::
  "'t shell_env \<Rightarrow> 't run_fp \<Rightarrow> u8 list \<Rightarrow> u8 list \<Rightarrow> int \<Rightarrow> 't program \<Rightarrow> (int \<times> 't program) option" where
  "corshell_script_run env fp name start len pg =
     (let pg = pg\<lparr>pg_recurse := pg_recurse pg + 1\<rparr> in
      case shell_out env CORSHELL_OUT_NULL None pg of (cancel, pg) \<Rightarrow>
      if cancel < CORSHELL_CMD_E_OK then Some (cancel, pg)
      else case heap_malloc (sys_heap (pg_sys pg)) (of_nat CORSHELL_LINE_SIZE_MAX) of
        (None, h) \<Rightarrow> Some (CORSHELL_CMD_E_MEMORY, pg\<lparr>pg_sys := (pg_sys pg)\<lparr>sys_heap := h\<rparr>\<rparr>)
      | (Some line, h) \<Rightarrow>
          (case heap_malloc h (of_nat CORSHELL_LINE_STRSUB_SIZE_MAX) of
             (None, h) \<Rightarrow>
               Some (CORSHELL_CMD_E_MEMORY, pg\<lparr>pg_sys := (pg_sys pg)\<lparr>sys_heap := heap_free h line\<rparr>\<rparr>)
           | (Some b, h) \<Rightarrow>
               do { (sc, pg) \<leftarrow> script_loop env fp name start (nat len) 0
                      (fresh_bytes h b CORSHELL_LINE_STRSUB_SIZE_MAX)
                      \<lparr>sc_status = CORSHELL_CMD_E_OK, sc_lasterror = CORSHELL_CMD_E_OK,
                       sc_error = StateNormal, sc_lineno = 0\<rparr>
                      (pg\<lparr>pg_sys := (pg_sys pg)\<lparr>sys_heap := h\<rparr>\<rparr>);
                    let pg = pg\<lparr>pg_sys := (pg_sys pg)\<lparr>sys_heap :=
                                 heap_free (heap_free (sys_heap (pg_sys pg)) line) b\<rparr>\<rparr>;
                    let pg = (if pg_recurse pg \<noteq> 0 then pg\<lparr>pg_recurse := pg_recurse pg - 1\<rparr> else pg);
                    let pg = (if sc_lasterror sc < 0 then pg\<lparr>pg_status := sc_lasterror sc\<rparr> else pg);
                    Some (pg_status pg, pg) }))"

end
