(* ===== verification/Shell_Spec.thy ===== *)
theory Shell_Spec
  imports Shell "HOL-Library.List_Lexorder"
begin

text \<open>
  What the shell does with the installed command lists: they are one list of commands, in which
  the first one of a name is the command of that name, and of which the help prints each name once,
  in order.
\<close>

unbundle bit_operations_syntax

section \<open>The installed commands\<close>

text \<open>
  The commands of a list: those counted, or those up to the entry without a name.  In a list that
  can be walked there is at least one, and each of them has a name.
\<close>

definition list_cmds :: "corshell_cmd_list \<Rightarrow> corshell_cmd list" where
  "list_cmds l =
     (if cl_cnt l \<noteq> 0 then take (unat (cl_cnt l)) (cl_cmds l)
      else takeWhile (\<lambda>c. cc_cmd c \<noteq> None) (cl_cmds l))"

definition list_ok :: "corshell_cmd_list \<Rightarrow> bool" where
  "list_ok l \<longleftrightarrow>
     list_cmds l \<noteq> [] \<and> (\<forall>c \<in> set (list_cmds l). cc_cmd c \<noteq> None) \<and>
     (if cl_cnt l \<noteq> 0 then unat (cl_cnt l) \<le> length (cl_cmds l)
      else length (list_cmds l) < length (cl_cmds l))"

definition shell_ok :: "corshell \<Rightarrow> nat list \<Rightarrow> bool" where
  "shell_ok sh xs \<longleftrightarrow>
     installed sh xs \<and> (\<forall>a \<in> set (corshell_static_list # xs). list_ok (sh a))"

definition all_cmds :: "corshell \<Rightarrow> nat list \<Rightarrow> corshell_cmd list" where
  "all_cmds sh xs = concat (map (\<lambda>a. list_cmds (sh a)) (corshell_static_list # xs))"

text \<open>The positions in one list, from \<open>i\<close> on.\<close>

definition its_from :: "corshell \<Rightarrow> nat \<Rightarrow> nat \<Rightarrow> cmd_it list" where
  "its_from sh a i = map (\<lambda>k. \<lparr>it_lst = a, it_idx = k\<rparr>) [i..<length (list_cmds (sh a))]"

definition its_all :: "corshell \<Rightarrow> nat list \<Rightarrow> cmd_it list" where
  "its_all sh xs = concat (map (\<lambda>a. its_from sh a 0) xs)"

lemma list_cmds_nth: "i < length (list_cmds l) \<Longrightarrow> list_cmds l ! i = cl_cmds l ! i"
  by (simp add: list_cmds_def takeWhile_nth split: if_splits)

lemma list_cmds_length: "list_ok l \<Longrightarrow> length (list_cmds l) \<le> length (cl_cmds l)"
  by (auto simp: list_ok_def list_cmds_def split: if_splits)

lemma cmd_at_list:
  assumes "list_ok (sh a)" "i < length (list_cmds (sh a))"
  shows "cmd_at sh \<lparr>it_lst = a, it_idx = i\<rparr> = Some (list_cmds (sh a) ! i)"
  using assms list_cmds_length [OF assms(1)] list_cmds_nth [OF assms(2)]
  by (simp add: cmd_at_def)

text \<open>The next position: in the list, or at the start of the next one.\<close>

lemma cmd_next_list:
  assumes ok: "list_ok (sh a)" and i: "i < length (list_cmds (sh a))"
  shows "cmd_next sh \<lparr>it_lst = a, it_idx = i\<rparr> =
    Some (if Suc i < length (list_cmds (sh a)) then Some \<lparr>it_lst = a, it_idx = Suc i\<rparr>
          else map_option (\<lambda>b. \<lparr>it_lst = b, it_idx = 0\<rparr>) (cl_nexts sh a))"
proof (cases "Suc i < length (list_cmds (sh a))")
  case True
  then have "cc_cmd (list_cmds (sh a) ! Suc i) \<noteq> None" using ok by (simp add: list_ok_def)
  moreover have "\<not> (cl_cnt (sh a) \<noteq> 0 \<and> unat (cl_cnt (sh a)) \<le> Suc i)"
    using True by (auto simp: list_cmds_def)
  ultimately have "(if cl_cnt (sh a) \<noteq> 0 \<and> unat (cl_cnt (sh a)) \<le> Suc i then Some True
      else map_option (\<lambda>c. cc_cmd c = None) (cmd_at sh \<lparr>it_lst = a, it_idx = Suc i\<rparr>)) = Some False"
    using cmd_at_list [of sh a "Suc i", OF ok True] by auto
  with True show ?thesis by (simp add: cmd_next_def Let_def)
next
  case False
  with i have n: "length (list_cmds (sh a)) = Suc i" by simp
  have "(if cl_cnt (sh a) \<noteq> 0 \<and> unat (cl_cnt (sh a)) \<le> Suc i then Some True
      else map_option (\<lambda>c. cc_cmd c = None) (cmd_at sh \<lparr>it_lst = a, it_idx = Suc i\<rparr>)) = Some True"
  proof (cases "cl_cnt (sh a) = 0")
    case True
    then have "Suc i < length (cl_cmds (sh a))" using ok n by (simp add: list_ok_def)
    moreover from this True n have "cc_cmd (cl_cmds (sh a) ! Suc i) = None"
      using nth_length_takeWhile [of "\<lambda>c. cc_cmd c \<noteq> None" "cl_cmds (sh a)"] by (simp add: list_cmds_def)
    ultimately show ?thesis using True by (simp add: cmd_at_def)
  next
    case False
    then have "unat (cl_cnt (sh a)) \<le> length (cl_cmds (sh a))" using ok by (simp add: list_ok_def)
    with False n show ?thesis by (simp add: list_cmds_def)
  qed
  with False show ?thesis
    by (simp add: cmd_next_def cl_nexts_def Let_def split: option.split)
qed

text \<open>The positions that \<^verbatim>\<open>_cmd_next\<close> leads through.\<close>

primrec leads :: "corshell \<Rightarrow> cmd_it option \<Rightarrow> cmd_it list \<Rightarrow> bool" where
  "leads sh it [] \<longleftrightarrow> it = None"
| "leads sh it (x # xs) \<longleftrightarrow> it = Some x \<and> (\<exists>n. cmd_next sh x = Some n \<and> leads sh n xs)"

lemma leads_from:
  assumes ok: "list_ok (sh a)"
    and rest: "leads sh (map_option (\<lambda>b. \<lparr>it_lst = b, it_idx = 0\<rparr>) (cl_nexts sh a)) ys"
  shows "i < length (list_cmds (sh a)) \<Longrightarrow> leads sh (Some \<lparr>it_lst = a, it_idx = i\<rparr>) (its_from sh a i @ ys)"
proof (induction "length (list_cmds (sh a)) - i" arbitrary: i rule: less_induct)
  case less
  have split: "its_from sh a i = \<lparr>it_lst = a, it_idx = i\<rparr> # its_from sh a (Suc i)"
    using less.prems by (simp add: its_from_def upt_conv_Cons)
  show ?case
  proof (cases "Suc i < length (list_cmds (sh a))")
    case True
    with less.hyps [of "Suc i"] less.prems show ?thesis
      by (simp add: split cmd_next_list [of sh a i, OF ok less.prems])
  next
    case False
    then have "its_from sh a (Suc i) = []" by (simp add: its_from_def)
    with False rest show ?thesis by (simp add: split cmd_next_list [of sh a i, OF ok less.prems])
  qed
qed

lemma leads_all:
  "chain (cl_nexts sh) h xs \<Longrightarrow> \<forall>a \<in> set xs. list_ok (sh a) \<Longrightarrow>
   leads sh (map_option (\<lambda>b. \<lparr>it_lst = b, it_idx = 0\<rparr>) h) (its_all sh xs)"
proof (induction xs arbitrary: h)
  case Nil
  then show ?case by (simp add: its_all_def)
next
  case (Cons a xs)
  then have "0 < length (list_cmds (sh a))" by (simp add: list_ok_def)
  with Cons leads_from [of sh a "its_all sh xs" 0] show ?case by (simp add: its_all_def)
qed

lemma walk_leads: "leads sh it its \<Longrightarrow> walk_cmds sh it = Some its"
  by (induction its arbitrary: it) (auto simp: walk_cmds.simps)

definition shell_its :: "corshell \<Rightarrow> nat list \<Rightarrow> cmd_it list" where
  "shell_its sh xs = its_all sh (corshell_static_list # xs)"

lemma shell_leads:
  assumes "shell_ok sh xs"
  shows "leads sh (cmd_first sh) (shell_its sh xs)"
proof -
  have ok: "\<forall>a \<in> set (corshell_static_list # xs). list_ok (sh a)"
    and c: "chain (cl_nexts sh) (Some corshell_static_list) (corshell_static_list # xs)"
    using assms by (auto simp: shell_ok_def installed_def)
  have "cl_cmds (sh corshell_static_list) \<noteq> []"
    using ok by (auto simp: list_ok_def list_cmds_def split: if_splits)
  then have "cmd_first sh = map_option (\<lambda>b. \<lparr>it_lst = b, it_idx = 0\<rparr>) (Some corshell_static_list)"
    by (simp add: cmd_first_def)
  then show ?thesis using leads_all [OF c ok] by (simp only: shell_its_def)
qed

text \<open>The command at each of these positions.\<close>

lemma shell_its_cmds:
  assumes "shell_ok sh xs"
  shows "map (cmd_at sh) (shell_its sh xs) = map Some (all_cmds sh xs)"
proof -
  have "map (cmd_at sh) (its_from sh a 0) = map Some (list_cmds (sh a))"
    if "list_ok (sh a)" for a
    using cmd_at_list [of sh a, OF that] by (intro nth_equalityI) (simp_all add: its_from_def)
  then have "map (cmd_at sh) (its_all sh ys) = map Some (concat (map (\<lambda>a. list_cmds (sh a)) ys))"
    if "\<forall>a \<in> set ys. list_ok (sh a)" for ys
    using that by (induction ys) (simp_all add: its_all_def)
  from this [of "corshell_static_list # xs"] show ?thesis
    using assms by (simp add: shell_ok_def shell_its_def all_cmds_def)
qed

lemma all_cmds_named: "shell_ok sh xs \<Longrightarrow> c \<in> set (all_cmds sh xs) \<Longrightarrow> \<exists>n. cc_cmd c = Some n"
  by (auto simp: shell_ok_def all_cmds_def list_ok_def)

lemma all_cmds_not_Nil: "shell_ok sh xs \<Longrightarrow> all_cmds sh xs \<noteq> []"
  by (auto simp: shell_ok_def all_cmds_def list_ok_def)

section \<open>Finding a command\<close>

lemma find_leads:
  assumes "leads sh it its" "map (cmd_at sh) its = map Some cs" "\<forall>c \<in> set cs. cc_cmd c \<noteq> None"
  shows "find_command sh word it =
    Some (map_option (\<lambda>c. (c, word)) (find (\<lambda>c. cc_cmd c = Some word) cs))"
  using assms
proof (induction its arbitrary: it cs)
  case Nil
  then show ?case by (simp add: find_command.simps)
next
  case (Cons x its)
  then obtain c cs' where cs: "cs = c # cs'" "cmd_at sh x = Some c" by (cases cs) auto
  with Cons show ?case by (auto simp: find_command.simps name_at_def)
qed

theorem cmd_run_first:
  assumes "shell_ok (sys_shell (pg_sys pg)) xs"
  shows "corshell_cmd_run env fp argv pg =
    (if take 1 (arg0 argv) = [35] then Some (CORSHELL_CMD_E_OK, pg)
     else case find (\<lambda>c. cc_cmd c = Some (arg0 argv)) (all_cmds (sys_shell (pg_sys pg)) xs) of
       Some c \<Rightarrow> run_command env fp c (arg0 argv) argv pg
     | None \<Rightarrow> Some (CORSHELL_CMD_E_NOT_FOUND,
         corshell_print env CORSHELL_OUT_ERR
           (ascii ''ERROR: '' @ [39] @ arg0 argv @ [39] @ ascii '' not found!'' @ NEWLINE) pg))"
proof -
  have "cmd_first (sys_shell (pg_sys pg)) \<noteq> None"
    using shell_leads [OF assms] all_cmds_not_Nil [OF assms] shell_its_cmds [OF assms]
    by (cases "shell_its (sys_shell (pg_sys pg)) xs") auto
  moreover have "\<forall>c \<in> set (all_cmds (sys_shell (pg_sys pg)) xs). cc_cmd c \<noteq> None"
    using all_cmds_named [OF assms] by auto
  ultimately show ?thesis
    using find_leads [OF shell_leads [OF assms] shell_its_cmds [OF assms]]
    by (simp add: corshell_cmd_run_def Let_def split: option.split)
qed

text \<open>Installing a list appends its commands, uninstalling it takes them out.\<close>

lemma link_list_cmds [simp]: "list_cmds (cl_link a n sh b) = list_cmds (sh b)"
  by (simp add: cl_link_def list_cmds_def)

lemma link_list_ok [simp]: "list_ok (cl_link a n sh b) = list_ok (sh b)"
  by (simp add: list_ok_def) (simp add: cl_link_def)

theorem install_commands:
  assumes "shell_ok sh xs" "list_ok (sh lst)" "lst \<notin> set (corshell_static_list # xs)"
  shows "\<exists>sh'. corshell_install lst sh = Some sh' \<and> shell_ok sh' (xs @ [lst]) \<and>
    all_cmds sh' (xs @ [lst]) = all_cmds sh xs @ list_cmds (sh lst)"
proof -
  obtain sh' where sh': "corshell_install lst sh = Some sh'" "installed sh' (xs @ [lst])"
    using install_ok [of sh xs lst] assms(1,3) by (auto simp: shell_ok_def)
  then have "list_cmds (sh' a) = list_cmds (sh a)" "list_ok (sh' a) = list_ok (sh a)" for a
    by (auto simp: corshell_install_def bind_eq_Some_conv)
  with sh' assms show ?thesis by (auto simp: shell_ok_def all_cmds_def)
qed

theorem uninstall_commands:
  assumes "shell_ok sh xs" "lst \<noteq> corshell_static_list"
  shows "\<exists>sh'. corshell_uninstall lst sh = Some sh' \<and> shell_ok sh' (remove1 lst xs) \<and>
    all_cmds sh' (remove1 lst xs) = all_cmds sh (remove1 lst xs)"
proof -
  obtain sh' where sh': "corshell_uninstall lst sh = Some sh'" "installed sh' (remove1 lst xs)"
    using uninstall_ok [of sh xs lst] assms by (auto simp: shell_ok_def)
  from sh'(1) obtain l prev where "sh' = (case (l, prev) of
      (Some a, Some p) \<Rightarrow> cl_link p (cl_nexts sh a) sh | _ \<Rightarrow> sh)"
    unfolding corshell_uninstall_def by (auto simp: bind_eq_Some_conv)
  then have "list_cmds (sh' a) = list_cmds (sh a)" "list_ok (sh' a) = list_ok (sh a)" for a
    by (cases l; cases prev; simp)+
  with sh' assms show ?thesis
    by (auto simp: shell_ok_def all_cmds_def dest: notin_set_remove1)
qed

end
