(* ===== verification/Shell_Help.thy ===== *)
theory Shell_Help
  imports Shell_Spec Selection
begin

text \<open>
  The help of the shell selects, again and again, the least name above the last one printed; it
  prints every name once, in the order of \<^verbatim>\<open>strcmp\<close>.
\<close>

section \<open>The order of names\<close>

lemma bytes_cmp_less: "bytes_cmp xs ys < 0 \<longleftrightarrow> xs < ys"
  by (induction xs ys rule: bytes_cmp.induct) auto

lemma bytes_cmp_greater: "bytes_cmp xs ys > 0 \<longleftrightarrow> ys < xs"
  by (induction xs ys rule: bytes_cmp.induct) auto

lemma bytes_cmp_le: "bytes_cmp xs ys \<le> 0 \<longleftrightarrow> xs \<le> ys"
  using bytes_cmp_greater [of xs ys] by (auto simp: not_less)

section \<open>The loops of the help\<close>

text \<open>All positions have names, given by \<open>f\<close>.\<close>

definition named :: "corshell \<Rightarrow> (cmd_it \<Rightarrow> u8 list) \<Rightarrow> cmd_it list \<Rightarrow> bool" where
  "named sh f its \<longleftrightarrow> (\<forall>it \<in> set its. name_at sh it = Some (f it))"

lemma first_last_named:
  "named sh f (fi # la # its) \<Longrightarrow> first_last sh its (fi, la) = Some (least f fi its, greatest f la its)"
proof (induction its arbitrary: fi la)
  case (Cons it its)
  then show ?case
    by (simp add: named_def cmd_cmp_def bytes_cmp_less bytes_cmp_greater)
qed simp

lemma next_name_named:
  "named sh f (fi # nx # its) \<Longrightarrow>
   next_name sh fi its (nx, found) =
     Some (least f nx (filter (\<lambda>it. f fi < f it) its),
           found \<or> (\<exists>it \<in> set its. f fi < f it \<and> f it < f nx))"
proof (induction its arbitrary: nx found)
  case (Cons it its)
  then show ?case
    by (auto simp: named_def cmd_cmp_def bytes_cmp_less bytes_cmp_le not_less dest: order.strict_trans)
qed simp

text \<open>One turn of the loop, \<open>rest\<close> being the names above \<open>v\<close> in order.\<close>

lemma next_name_end:
  assumes "named sh f its" "v \<in> f ` set its" "{w \<in> f ` set its. v < w} = {}"
    and la: "la = first_with f its (Max (f ` set its))"
  shows "la = first_with f its v \<and>
    next_name sh (first_with f its v) its (la, False) = Some (la, False)"
proof -
  have "Max (f ` set its) = v" using assms(2,3) by (intro Max_eqI) (auto simp: not_less)
  moreover have "f (first_with f its v) = v" "first_with f its v \<in> set its"
    using first_with_value [OF assms(2)] by auto
  ultimately show ?thesis
    using next_name_named [of sh f "first_with f its v" la its False] assms
    by (auto simp: named_def filter_empty_conv)
qed

lemma next_name_step:
  assumes named: "named sh f its" and v: "v \<in> f ` set its"
    and rest: "{u \<in> f ` set its. v < u} = set (w # r)" "sorted_wrt (<) (w # r)"
    and la: "la = first_with f its (Max (f ` set its))"
  shows "next_name sh (first_with f its v) its (la, False) = Some (first_with f its w, r \<noteq> [])"
proof -
  let ?above = "filter (\<lambda>it. v < f it) its"
  have w: "w \<in> f ` set its" "v < w" using rest(1) by auto
  then have max: "v < Max (f ` set its)" by (meson List.finite_set Max_ge finite_imageI less_le_trans)
  have ne: "f ` set its \<noteq> {}" using v by auto
  then have la': "f la = Max (f ` set its)" "la \<in> set its"
    using first_with_value [of "Max (f ` set its)" f its] Max_in by (auto simp: la)
  have fv: "f (first_with f its v) = v" "first_with f its v \<in> set its"
    using first_with_value [OF v] by auto
  have "f ` set (la # ?above) = insert (f la) {u \<in> f ` set its. v < u}" by auto
  moreover have above: "f la \<in> {u \<in> f ` set its. v < u}"
    using imageI [OF la'(2), of f] max by (simp only: la'(1) mem_Collect_eq)
  ultimately have "f ` set (la # ?above) = set (w # r)" by (simp only: rest(1) insert_absorb)
  moreover have "Min (set (w # r)) = w" using rest(2) by (intro Min_eqI) auto
  ultimately have "least f la ?above = first_with f (la # ?above) w"
    using least_first [of f la ?above] by simp
  also have "\<dots> = first_with f its w"
    using la la' first_with_filter [of "\<lambda>u. v < u", OF w(2), of f its] by (auto simp: first_with_Cons)
  finally have "least f la ?above = first_with f its w" .
  moreover have "(\<exists>it \<in> set its. v < f it \<and> f it < f la) \<longleftrightarrow> r \<noteq> []"
  proof
    assume "\<exists>it \<in> set its. v < f it \<and> f it < f la"
    then obtain it where it: "it \<in> set its" "v < f it" "f it < f la" by auto
    then have "f it \<in> {u \<in> f ` set its. v < u}" by auto
    with above have "f it \<in> set (w # r)" "f la \<in> set (w # r)" unfolding rest(1) by blast+
    with it(3) show "r \<noteq> []" by auto
  next
    assume "r \<noteq> []"
    then obtain u where u: "u \<in> set r" by (cases r) auto
    then have "w < u" "u \<in> {u \<in> f ` set its. v < u}" unfolding rest(1) using rest(2) by auto
    moreover from this have "u \<in> f ` set its" by simp
    moreover have "u \<le> f la" unfolding la'(1) using \<open>u \<in> f ` set its\<close> by (intro Max_ge) auto
    ultimately have "w < f la" by (auto intro: less_le_trans)
    with w show "\<exists>it \<in> set its. v < f it \<and> f it < f la" by auto
  qed
  ultimately show ?thesis
    using next_name_named [of sh f "first_with f its v" la its False] named fv la'
    by (simp add: named_def)
qed

text \<open>The loop prints the names in order; a name without one above it twice.\<close>

lemma help_loop_names:
  assumes named: "named sh f its"
    and la: "la = first_with f its (Max (f ` set its))"
    and lines: "\<And>u pg. u \<in> f ` set its \<Longrightarrow> cmd_help env sh (first_with f its u) pattern pg = Some (h u pg)"
  shows "v \<in> f ` set its \<Longrightarrow> {u \<in> f ` set its. v < u} = set rest \<Longrightarrow> sorted_wrt (<) rest \<Longrightarrow>
    help_loop env sh its pattern la (first_with f its v) pg =
      Some (fold h (if rest = [] then [v, v] else v # rest) pg)"
proof (induction rest arbitrary: v pg)
  case Nil
  then have nx: "first_with f its v = la" "next_name sh la its (la, False) = Some (la, False)"
    using next_name_end [OF named _ _ la, of v] by auto
  have "cmd_help env sh la pattern pg = Some (h v pg)" for pg
    using lines [OF Nil(1)] by (simp add: nx(1))
  then show ?case by (subst help_loop.simps) (simp add: nx)
next
  case (Cons w r)
  have w: "w \<in> f ` set its" using Cons.prems(2) by auto
  have nx: "next_name sh (first_with f its v) its (la, False) = Some (first_with f its w, r \<noteq> [])"
    by (rule next_name_step [OF named Cons.prems la])
  have "{u \<in> f ` set its. w < u} = {u \<in> {u \<in> f ` set its. v < u}. w < u}"
    using Cons.prems(2) by (auto intro: less_trans)
  then have "{u \<in> f ` set its. w < u} = set r" "sorted_wrt (<) r"
    unfolding Cons.prems(2) using Cons.prems(3) by auto
  then have "help_loop env sh its pattern la (first_with f its w) pg =
      Some (fold h (if r = [] then [w, w] else w # r) pg)" for pg
    by (rule Cons.IH [OF w])
  with Cons.prems(1) w nx show ?case
    by (subst help_loop.simps) (simp add: lines)
qed

section \<open>What the help prints\<close>

text \<open>The line of the command of a name.\<close>

definition help_line ::
  "'t shell_env \<Rightarrow> corshell_cmd list \<Rightarrow> u8 list option \<Rightarrow> u8 list \<Rightarrow> 't program \<Rightarrow> 't program" where
  "help_line env cs pattern name pg =
     (case find (\<lambda>c. cc_cmd c = Some name) cs of
        None \<Rightarrow> pg
      | Some c \<Rightarrow>
          (case cc_usage c of
             None \<Rightarrow> pg
           | Some usage \<Rightarrow>
               if pattern = None \<or> strstr name (the pattern)
               then corshell_print env CORSHELL_OUT_STD (name @ [32] @ usage @ NEWLINE) pg
               else pg))"

definition cmd_names :: "corshell_cmd list \<Rightarrow> u8 list list" where
  "cmd_names cs = map (\<lambda>c. the (cc_cmd c)) cs"

lemma find_map_pair:
  "length xs = length ys \<Longrightarrow> \<forall>(x, y) \<in> set (zip xs ys). P x = Q y \<Longrightarrow> find P xs = Some x \<Longrightarrow>
   \<exists>y. find Q ys = Some y \<and> (x, y) \<in> set (zip xs ys)"
proof (induction xs ys rule: list_induct2)
  case (Cons a as b bs)
  then show ?case by (cases "P a") auto
qed simp

lemma cmd_help_line:
  assumes its: "map (cmd_at sh) its = map Some cs" and cs: "\<forall>c \<in> set cs. cc_cmd c \<noteq> None"
    and f: "f = (\<lambda>it. the (name_at sh it))" and v: "v \<in> f ` set its"
  shows "cmd_help env sh (first_with f its v) pattern pg = Some (help_line env cs pattern v pg)"
proof -
  have len: "length its = length cs" using its by (metis length_map)
  have at: "cmd_at sh (its ! i) = Some (cs ! i)" if "i < length cs" for i
    using its that len by (metis nth_map)
  have pair: "cmd_at sh x = Some c \<and> c \<in> set cs" if "(x, c) \<in> set (zip its cs)" for x c
    using that at len by (auto simp: set_zip)
  have "\<forall>(x, c) \<in> set (zip its cs). (f x = v) = (cc_cmd c = Some v)"
    using pair cs by (fastforce simp: f name_at_def)
  from find_map_pair [OF len this find_first_with [OF v]] obtain c
    where c: "find (\<lambda>c. cc_cmd c = Some v) cs = Some c" "(first_with f its v, c) \<in> set (zip its cs)"
    by auto
  then have "cc_cmd c = Some v" by (auto simp: find_Some_iff)
  with c pair [OF c(2)] show ?thesis
    by (auto simp: cmd_help_def cmd_get_def help_line_def split: option.split)
qed

lemma its_names:
  assumes "map (cmd_at sh) its = map Some cs"
  shows "map (\<lambda>it. the (name_at sh it)) its = cmd_names cs"
proof (rule nth_equalityI)
  have len: "length its = length cs" using assms by (metis length_map)
  then show "length (map (\<lambda>it. the (name_at sh it)) its) = length (cmd_names cs)"
    by (simp add: cmd_names_def)
  fix i assume "i < length (map (\<lambda>it. the (name_at sh it)) its)"
  moreover from this have "cmd_at sh (its ! i) = Some (cs ! i)"
    using assms len by (metis length_map nth_map)
  ultimately show "map (\<lambda>it. the (name_at sh it)) its ! i = cmd_names cs ! i"
    using len by (simp add: cmd_names_def name_at_def)
qed

lemma its_named:
  assumes "map (cmd_at sh) its = map Some cs" "\<forall>c \<in> set cs. cc_cmd c \<noteq> None"
  shows "named sh (\<lambda>it. the (name_at sh it)) its"
proof -
  have "\<exists>c \<in> set cs. cmd_at sh it = Some c" if "it \<in> set its" for it
    using that assms(1) by (metis (no_types, lifting) image_eqI image_iff list.set_map)
  with assms(2) show ?thesis by (fastforce simp: named_def name_at_def)
qed

section \<open>The whole help\<close>

lemma help_sorted:
  assumes "shell_ok (sys_shell (pg_sys pg)) xs"
    and "ns = sorted_list_of_set (set (cmd_names (all_cmds (sys_shell (pg_sys pg)) xs)))"
  shows "corshell_help env argv pg = Some (CORSHELL_CMD_E_OK,
    fold (help_line env (all_cmds (sys_shell (pg_sys pg)) xs)
            (if length argv > 1 then Some (argv ! 1) else None))
      (if tl ns = [] then ns @ ns else ns) pg)"
proof -
  let ?sh = "sys_shell (pg_sys pg)"
  let ?pattern = "if length argv > 1 then Some (argv ! 1) else None"
  define f where "f = (\<lambda>it. the (name_at ?sh it))"
  define its where "its = shell_its ?sh xs"
  define cs where "cs = all_cmds ?sh xs"
  have at: "map (cmd_at ?sh) its = map Some cs"
    unfolding its_def cs_def by (rule shell_its_cmds [OF assms(1)])
  have cmds: "\<forall>c \<in> set cs. cc_cmd c \<noteq> None" "cs \<noteq> []"
    using all_cmds_named [OF assms(1)] all_cmds_not_Nil [OF assms(1)] by (auto simp: cs_def)
  have names: "f ` set its = set (cmd_names cs)"
    using arg_cong [OF its_names [OF at], of set] by (simp add: f_def)
  have named: "named ?sh f its" unfolding f_def by (rule its_named [OF at cmds(1)])
  obtain fi its' where its: "its = fi # its'" using at cmds(2) by (cases its) auto
  have first: "cmd_first ?sh = Some fi" "walk_cmds ?sh (Some fi) = Some its"
    using shell_leads [OF assms(1)] walk_leads [of ?sh "cmd_first ?sh" its] its by (auto simp: its_def)
  have "set ns = set (cmd_names cs)" by (simp add: assms(2) cs_def)
  with cmds(2) obtain m rest where ns: "ns = m # rest"
    by (cases ns) (auto simp: cmd_names_def)
  have sorted: "sorted_wrt (<) (m # rest)" and set: "set (m # rest) = f ` set its"
    using assms(2) by (simp_all only: ns [symmetric] names cs_def strict_sorted_list_of_set
        set_sorted_list_of_set List.finite_set)
  have m: "Min (f ` set its) = m" "m \<in> f ` set its" "{u \<in> f ` set its. m < u} = set rest"
    unfolding set [symmetric] using sorted by (auto intro!: Min_eqI)
  have "first_last ?sh its (fi, fi) =
      Some (first_with f its (Min (f ` set its)), first_with f its (Max (f ` set its)))"
    using first_last_named [of ?sh f fi fi its] named least_first [of f fi its] greatest_first [of f fi its]
    by (simp add: named_def its first_with_Cons insert_absorb)
  then have fl: "first_last ?sh its (fi, fi) = Some (first_with f its m, first_with f its (Max (f ` set its)))"
    by (simp only: m(1))
  have "help_loop env ?sh its ?pattern (first_with f its (Max (f ` set its))) (first_with f its m) pg =
      Some (fold (help_line env cs ?pattern) (if rest = [] then [m, m] else m # rest) pg)"
    using sorted by (intro help_loop_names [OF named refl cmd_help_line [OF at cmds(1) f_def] m(2,3)]) auto
  then show ?thesis
    using first fl by (simp add: corshell_help_def Let_def cs_def [symmetric] ns)
qed

end
