(* ===== verification/Shell_Cmds.thy ===== *)
theory Shell_Cmds
  imports Shell
begin

text \<open>
  The commands of the registry and of the string table, \<^verbatim>\<open>src/registry/registrycmd.c\<close> and
  \<^verbatim>\<open>src/registry/strtabcmd.c\<close>, and the functions behind the entries of the command lists.  The
  words of the command line are given without their terminators.
\<close>

unbundle bit_operations_syntax

definition local_array :: "'t shell_env \<Rightarrow> nat \<Rightarrow> u8 list" where
  "local_array env n = map (env_stack env) [0..<n]"

definition string_arg :: "u8 list \<Rightarrow> u8 list option" where
  "string_arg w = Some (w @ [0])"

definition printf_std :: "'t shell_env \<Rightarrow> u8 list \<Rightarrow> 't program \<Rightarrow> 't program" where
  "printf_std env s pg = corshell_print env CORSHELL_OUT_STD s pg"

definition ok_or_err :: "int \<Rightarrow> u8 list" where
  "ok_or_err res = (if res = EOK then ascii ''OK'' else ascii ''ERR'')"

definition entries_found :: "u32 \<Rightarrow> u8 list" where
  "entries_found cnt = NEWLINE @ ascii ''    '' @ show_int (sint cnt) @ ascii '' entries found.'' @ NEWLINE"

section \<open>The registry\<close>

text \<open>The value is printed up to its terminator, which the buffer must contain.\<close>

definition reg_print ::
  "'t shell_env \<Rightarrow> u8 list \<Rightarrow> u8 list \<Rightarrow> 't program \<Rightarrow> 't program option" where
  "reg_print env key val pg =
     do { v \<leftarrow> cstr val;
          corshell_print_table env CORSHELL_OUT_STD (take 39 (key @ ascii '':'')) 24 (v @ NEWLINE) pg }"

text \<open>
  The loop over the entries; \<open>res\<close>, \<open>key\<close> and \<open>val\<close> are what the iterator yielded.
\<close>

partial_function (option) reg_loop ::
  "'t shell_env \<Rightarrow> u8 list option \<Rightarrow> u32 \<Rightarrow> int \<Rightarrow> u8 list option \<Rightarrow> u8 list option \<Rightarrow> u32 \<Rightarrow> 't program \<Rightarrow>
   (u32 \<times> u8 list option \<times> 't program) option" where
  "reg_loop env search len res key val cnt pg =
     (if res < 0 then Some (cnt, val, pg)
      else do {
        name \<leftarrow> key;
        k \<leftarrow> cstr name;
        (cnt, pg) \<leftarrow>
          (if search = None \<or> strstr k (the search)
           then do { v \<leftarrow> val; pg \<leftarrow> reg_print env k v pg; Some (cnt + 1, pg) }
           else Some (cnt, pg));
        (res, key, val, sys) \<leftarrow> registry_next True val (sint len) (pg_sys pg);
        reg_loop env search len res key val cnt (pg\<lparr>pg_sys := sys\<rparr>) })"

definition reg_show ::
  "'t shell_env \<Rightarrow> u8 list option \<Rightarrow> u8 list option \<Rightarrow> u32 \<Rightarrow> 't program \<Rightarrow>
   (u32 \<times> u8 list option \<times> 't program) option" where
  "reg_show env search val len pg =
     do { (res, key, val, sys) \<leftarrow> registry_first True val (sint len) (pg_sys pg);
          reg_loop env search len res key val 0 (pg\<lparr>pg_sys := sys\<rparr>) }"

definition corshell_reg ::
  "'t shell_env \<Rightarrow> u8 list list \<Rightarrow> 't program \<Rightarrow> (int \<times> 't program) option" where
  "corshell_reg env argv pg =
     (let val = Some (local_array env REGISTRY_VALUE_LENGT_MAX); len = of_nat REGISTRY_VALUE_LENGT_MAX in
      if length argv = 1
      then do { (cnt, _, pg) \<leftarrow> reg_show env None val len pg;
                Some (CORSHELL_CMD_E_OK, printf_std env (entries_found cnt) pg) }
      else if length argv = 2
      then do {
        (res, val, sys) \<leftarrow> registry_value_get (string_arg (argv ! 1)) val len (pg_sys pg);
        let pg = pg\<lparr>pg_sys := sys\<rparr>;
        if res > 0
        then do { v \<leftarrow> val; pg \<leftarrow> reg_print env (argv ! 1) v pg; Some (CORSHELL_CMD_E_OK, pg) }
        else do { (cnt, _, pg) \<leftarrow> reg_show env (Some (argv ! 1)) val len pg;
                  Some (CORSHELL_CMD_E_OK, printf_std env (entries_found cnt) pg) } }
      else if length argv = 3
      then do {
        (res, sys) \<leftarrow> registry_value_set (string_arg (argv ! 1)) (string_arg (argv ! 2))
                        (of_nat (length (argv ! 2) + 1)) (pg_sys pg);
        Some (CORSHELL_CMD_E_OK, printf_std env (ok_or_err res @ NEWLINE) (pg\<lparr>pg_sys := sys\<rparr>)) }
      else Some (CORSHELL_CMD_E_OK, pg))"

definition corshell_regadd ::
  "'t shell_env \<Rightarrow> u8 list list \<Rightarrow> 't program \<Rightarrow> (int \<times> 't program) option" where
  "corshell_regadd env argv pg =
     (if length argv < 3 then Some (CORSHELL_CMD_E_PARMS, pg)
      else do {
        (res, _, sys) \<leftarrow> registry_value_get (string_arg (argv ! 1))
           (Some (local_array env REGISTRY_VALUE_LENGT_MAX)) (of_nat REGISTRY_VALUE_LENGT_MAX) (pg_sys pg);
        let pg = pg\<lparr>pg_sys := sys\<rparr>;
        if res \<ge> 0
        then Some (CORSHELL_CMD_E_EXIST,
                   printf_std env (ascii ''registry setting '' @ argv ! 1 @ ascii '' exists'' @ NEWLINE) pg)
        else do {
          (res, sys) \<leftarrow> registry_value_set (string_arg (argv ! 1)) (string_arg (argv ! 2))
                          (of_nat (length (argv ! 2) + 1)) (pg_sys pg);
          Some (res, printf_std env (ok_or_err res @ NEWLINE) (pg\<lparr>pg_sys := sys\<rparr>)) } })"

definition corshell_regdel ::
  "'t shell_env \<Rightarrow> u8 list list \<Rightarrow> 't program \<Rightarrow> (int \<times> 't program) option" where
  "corshell_regdel env argv pg =
     (if length argv \<noteq> 2 then Some (CORSHELL_CMD_E_PARMS, pg)
      else do {
        (res, sys) \<leftarrow> registry_value_delete (string_arg (argv ! 1)) (pg_sys pg);
        Some (CORSHELL_CMD_E_OK, printf_std env (ok_or_err res @ NEWLINE) (pg\<lparr>pg_sys := sys\<rparr>)) })"

text \<open>The statistics go to the log.\<close>

definition corshell_regstats :: "u8 list list \<Rightarrow> 't program \<Rightarrow> (int \<times> 't program) option" where
  "corshell_regstats argv pg =
     do { _ \<leftarrow> registry_log_status (pg_sys pg); Some (CORSHELL_CMD_E_OK, pg) }"

definition corshell_regerase :: "u8 list list \<Rightarrow> 't program \<Rightarrow> (int \<times> 't program) option" where
  "corshell_regerase argv pg =
     do { (_, sys) \<leftarrow> registry_erase (pg_sys pg);
          Some (CORSHELL_CMD_E_OK, pg\<lparr>pg_sys := sys\<rparr>) }"

definition test_key :: "u8 list" where "test_key = ascii ''___test___''"

definition test_value :: "u32 \<Rightarrow> u8 list" where
  "test_value n = take 15 (show_padded 12 (unat n))"

text \<open>The loop of the test: set a value, get it, compare; any failure ends it.\<close>

function regtest_loop :: "'t shell_env \<Rightarrow> u32 \<Rightarrow> u32 \<Rightarrow> u8 list option \<Rightarrow> 't program \<Rightarrow> 't program option" where
  "regtest_loop env repeat intval readval pg =
     (if repeat = 0 then Some pg
      else do {
        let writeval = test_value intval;
        (res, sys) \<leftarrow> registry_value_set (string_arg test_key) (string_arg writeval)
                        (of_nat (length writeval + 1)) (pg_sys pg);
        let pg = pg\<lparr>pg_sys := sys\<rparr>;
        if res < 0
        then Some (printf_std env (ascii ''set return '' @ show_int res @ NEWLINE) pg)
        else do {
          (res, readval, sys) \<leftarrow> registry_value_get (string_arg test_key) readval 16 (pg_sys pg);
          let pg = pg\<lparr>pg_sys := sys\<rparr>;
          if res < 0
          then Some (printf_std env (ascii ''get return '' @ show_int res @ NEWLINE) pg)
          else do {
            r \<leftarrow> readval;
            c \<leftarrow> strcmp (writeval @ [0]) r;
            if c \<noteq> 0
            then do { v \<leftarrow> cstr r;
                      Some (printf_std env (ascii ''get '' @ writeval @ ascii '' expected '' @ v @ NEWLINE) pg) }
            else regtest_loop env (repeat - 1) (intval + 1) readval pg } } })"
  by pat_completeness auto
termination
  by (relation "measure (\<lambda>(env, repeat, intval, readval, pg). unat repeat)")
     (auto intro: measure_unat)

declare regtest_loop.simps [simp del]

text \<open>The word is read with \<^verbatim>\<open>%u\<close>; one that is no number leaves 100 repetitions.\<close>

definition corshell_regtest ::
  "'t shell_env \<Rightarrow> u8 list list \<Rightarrow> 't program \<Rightarrow> (int \<times> 't program) option" where
  "corshell_regtest env argv pg =
     do { repeat \<leftarrow> (if length argv > 1
                     then map_option (\<lambda>(_, n). case n of None \<Rightarrow> 100 | Some n \<Rightarrow> n) (scan_uint (argv ! 1 @ [0]))
                     else Some 100);
          let pg = printf_std env (ascii ''registry testing '' @ show_int (sint repeat) @
                     ascii '' times...'' @ NEWLINE) pg;
          (res, sys) \<leftarrow> registry_value_set (string_arg test_key) (string_arg (test_value 0))
                          (of_nat (length (test_value 0) + 1)) (pg_sys pg);
          let pg = pg\<lparr>pg_sys := sys\<rparr>;
          if res < 0
          then Some (CORSHELL_CMD_E_FAIL,
                     printf_std env (ascii ''create return '' @ show_int res @ NEWLINE) pg)
          else do {
            pg \<leftarrow> regtest_loop env repeat 1 (Some (replicate 16 0)) pg;
            (res, sys) \<leftarrow> registry_value_delete (string_arg test_key) (pg_sys pg);
            let pg = pg\<lparr>pg_sys := sys\<rparr>;
            if res < 0
            then Some (CORSHELL_CMD_E_FAIL,
                       printf_std env (ascii ''delete return '' @ show_int res @ NEWLINE) pg)
            else Some (CORSHELL_CMD_E_OK, printf_std env (ascii ''done'' @ NEWLINE) pg) } }"

section \<open>The string table\<close>

text \<open>
  The local array has \<^verbatim>\<open>STRTAB_LENGT_MAX\<close> pointers, of 8 bytes each.  A word that is no number gives
  the index 0.
\<close>

definition strtab_array :: "'t shell_env \<Rightarrow> u8 list option" where
  "strtab_array env = Some (local_array env (STRTAB_LENGT_MAX * 8))"

definition key_arg :: "u8 list \<Rightarrow> u16 option" where
  "key_arg w = map_option (\<lambda>n. case n of None \<Rightarrow> 0 | Some n \<Rightarrow> word_of_int n) (scan_d w)"

definition error_line :: "int \<Rightarrow> u8 list" where
  "error_line res = ascii ''Error '' @ show_int res @ NEWLINE"

partial_function (option) strtab_loop ::
  "'t shell_env \<Rightarrow> int \<Rightarrow> u16 option \<Rightarrow> u8 list option \<Rightarrow> u32 \<Rightarrow> 't program \<Rightarrow> (u32 \<times> 't program) option" where
  "strtab_loop env res key val cnt pg =
     (if res \<le> 0 then Some (cnt, pg)
      else do {
        k \<leftarrow> key;
        v \<leftarrow> val;
        v \<leftarrow> cstr v;
        let pg = printf_std env (show_padded 4 (unat k) @ ascii ''   '' @ v @ NEWLINE) pg;
        (res, key', val, sys) \<leftarrow> strtab_next val (int STRTAB_LENGT_MAX) (pg_sys pg);
        strtab_loop env res (if key' = None then key else key') val (cnt + 1) (pg\<lparr>pg_sys := sys\<rparr>) })"

definition corshell_strtab ::
  "'t shell_env \<Rightarrow> u8 list list \<Rightarrow> 't program \<Rightarrow> (int \<times> 't program) option" where
  "corshell_strtab env argv pg =
     (if length argv = 2
      then do {
        key \<leftarrow> key_arg (argv ! 1);
        (status, val, sys) \<leftarrow> strtab_get key (strtab_array env) (int STRTAB_LENGT_MAX) (pg_sys pg);
        let pg = pg\<lparr>pg_sys := sys\<rparr>;
        if status > 0
        then do { v \<leftarrow> val; v \<leftarrow> cstr v; Some (CORSHELL_CMD_E_OK, printf_std env (v @ NEWLINE) pg) }
        else Some (CORSHELL_CMD_E_OK, printf_std env (error_line status) pg) }
      else if length argv > 2
      then do {
        key \<leftarrow> key_arg (argv ! 1);
        (status, sys) \<leftarrow> strtab_set key (string_arg (argv ! 2)) (int (length (argv ! 2) + 1)) (pg_sys pg);
        let pg = pg\<lparr>pg_sys := sys\<rparr>;
        Some (CORSHELL_CMD_E_OK,
              printf_std env (if status = EOK then ascii ''OK'' @ NEWLINE else error_line status) pg) }
      else do {
        (res, key, val, sys) \<leftarrow> strtab_first (strtab_array env) (int STRTAB_LENGT_MAX) (pg_sys pg);
        (cnt, pg) \<leftarrow> strtab_loop env res key val 0 (pg\<lparr>pg_sys := sys\<rparr>);
        Some (CORSHELL_CMD_E_OK, printf_std env (entries_found cnt) pg) })"

definition corshell_strtabchk ::
  "'t shell_env \<Rightarrow> u8 list list \<Rightarrow> 't program \<Rightarrow> (int \<times> 't program) option" where
  "corshell_strtabchk env argv pg =
     (if length argv > 2
      then do {
        key \<leftarrow> key_arg (argv ! 1);
        valid \<leftarrow> strtab_valid key (pg_sys pg);
        if valid = EOK
        then Some (CORSHELL_CMD_E_OK,
                   snd (shell_out env CORSHELL_OUT_STD (Some (ascii ''Already set'' @ NEWLINE)) pg))
        else do {
          (status, sys) \<leftarrow> strtab_set key (string_arg (argv ! 2)) (int (length (argv ! 2) + 1)) (pg_sys pg);
          let pg = pg\<lparr>pg_sys := sys\<rparr>;
          Some (CORSHELL_CMD_E_OK,
                if status = EOK
                then snd (shell_out env CORSHELL_OUT_STD (Some (ascii ''    OK'' @ NEWLINE)) pg)
                else printf_std env (error_line status) pg) } }
      else corshell_strtab env argv pg)"

definition corshell_strtaberase ::
  "'t shell_env \<Rightarrow> u8 list list \<Rightarrow> 't program \<Rightarrow> (int \<times> 't program) option" where
  "corshell_strtaberase env argv pg =
     do { (status, sys) \<leftarrow> strtab_erase (pg_sys pg);
          let pg = pg\<lparr>pg_sys := sys\<rparr>;
          Some (CORSHELL_CMD_E_OK,
                if status \<noteq> EOK then printf_std env (error_line status) pg
                else snd (shell_out env CORSHELL_OUT_STD (Some (ascii ''    OK'' @ NEWLINE)) pg)) }"

text \<open>The statistics are those of the registry.\<close>

definition corshell_strtabstats :: "u8 list list \<Rightarrow> 't program \<Rightarrow> (int \<times> 't program) option" where
  "corshell_strtabstats argv pg =
     do { _ \<leftarrow> registry_log_status (pg_sys pg); Some (CORSHELL_CMD_E_OK, pg) }"

section \<open>The functions of the commands\<close>

fun shell_fp_run :: "'t shell_env \<Rightarrow> 't run_fp" where
  "shell_fp_run env Corshell_help argv pg = corshell_help env argv pg"
| "shell_fp_run env Corshell_help2 argv pg = corshell_help2 env argv pg"
| "shell_fp_run env Corshell_rem argv pg = corshell_rem argv pg"
| "shell_fp_run env Corshell_nop argv pg = corshell_nop argv pg"
| "shell_fp_run env Corshell_reg argv pg = corshell_reg env argv pg"
| "shell_fp_run env Corshell_regadd argv pg = corshell_regadd env argv pg"
| "shell_fp_run env Corshell_regdel argv pg = corshell_regdel env argv pg"
| "shell_fp_run env Corshell_regstats argv pg = corshell_regstats argv pg"
| "shell_fp_run env Corshell_regerase argv pg = corshell_regerase argv pg"
| "shell_fp_run env Corshell_regtest argv pg = corshell_regtest env argv pg"
| "shell_fp_run env Corshell_strtab argv pg = corshell_strtab env argv pg"
| "shell_fp_run env Corshell_strtabchk argv pg = corshell_strtabchk env argv pg"
| "shell_fp_run env Corshell_strtaberase argv pg = corshell_strtaberase env argv pg"
| "shell_fp_run env Corshell_strtabstats argv pg = corshell_strtabstats argv pg"
| "shell_fp_run env No_fp argv pg = None"
| "shell_fp_run env (Client_cmd i) argv pg = env_client env i argv pg"

end
