(* ===== verification/Shell_Cmds_Spec.thy ===== *)
theory Shell_Cmds_Spec
  imports Shell_Cmds System_Refine
begin

text \<open>
  What the commands of the registry and of the string table do to the two maps of the program.
\<close>

unbundle bit_operations_syntax

section \<open>Commands on the maps\<close>

text \<open>
  For a command with its words: the status, the line it prints and the maps it leaves.  Only the
  four forms that change a single entry are here.  The others print one or all entries, check
  entries, or erase a whole map.
\<close>

definition store_put :: "sys_op \<Rightarrow> (int \<Rightarrow> u8 list) \<Rightarrow> store \<Rightarrow> int \<times> u8 list \<times> store" where
  "store_put op show st =
     (case store_step op st of ((res, _), st) \<Rightarrow> (CORSHELL_CMD_E_OK, show res @ NEWLINE, st))"

definition strtab_reply :: "int \<Rightarrow> u8 list" where
  "strtab_reply res = (if res = EOK then ascii ''OK'' else ascii ''Error '' @ show_int res)"

fun store_cmd :: "shell_fp \<Rightarrow> u8 list list \<Rightarrow> store \<Rightarrow> (int \<times> u8 list \<times> store) option" where
  "store_cmd Corshell_reg [c, k, v] st = Some (store_put (RegSet k (v @ [0])) ok_or_err st)"
| "store_cmd Corshell_regadd [c, k, v] st =
     (if nonempty (fst st (key24 k)) \<noteq> None
      then Some (CORSHELL_CMD_E_EXIST, ascii ''registry setting '' @ k @ ascii '' exists'' @ NEWLINE, st)
      else (case store_step (RegSet k (v @ [0])) st of
              ((res, _), st) \<Rightarrow> Some (res, ok_or_err res @ NEWLINE, st)))"
| "store_cmd Corshell_regdel [c, k] st = Some (store_put (RegDelete k) ok_or_err st)"
| "store_cmd Corshell_strtab [c, n, v] st =
     map_option (\<lambda>k. store_put (StrSet k (v @ [0])) strtab_reply st) (key_arg n)"
| "store_cmd f argv st = None"

section \<open>They are what the commands do\<close>

text \<open>A lookup clears its buffer first.\<close>

lemma value_get_buffer:
  "length b = unat n \<Longrightarrow>
   registry_value_get i (Some b) n sys =
   (case i of None \<Rightarrow> Some (E_PARM, Some b, sys)
    | Some k \<Rightarrow> registry_value_get i (Some (replicate (unat n) 0)) n sys)"
  by (simp add: registry_value_get_def buf_write_def cong: option.case_cong)

lemma length_local [simp]: "length (local_array env n) = n"
  by (simp add: local_array_def)

text \<open>The calls of the commands, by the refinement of the program.\<close>

lemma step_Some: "do { (res, sys) \<leftarrow> m; Some ((res, []), sys) } = Some (r, sys') \<Longrightarrow> m = Some (fst r, sys')"
  by (auto simp: bind_eq_Some_conv)

lemma get_Some:
  "do { (res, b, sys) \<leftarrow> m; b \<leftarrow> b; Some ((res, b), sys) } = Some (r, sys') \<Longrightarrow>
   m = Some (fst r, Some (snd r), sys')"
  by (auto simp: bind_eq_Some_conv)

lemma set_ready:
  assumes "system_ready sys" "0 \<notin> set k" "length v < 2 ^ 31"
  shows "\<exists>sys'. registry_value_set (string_arg k) (string_arg v) (of_nat (length v + 1)) sys =
      Some (fst (fst (store_step (RegSet k (v @ [0])) (store_of sys))), sys') \<and>
    system_ready sys' \<and> store_of sys' = snd (store_step (RegSet k (v @ [0])) (store_of sys)) \<and>
    sys_shell sys' = sys_shell sys"
proof -
  have "sop_ok (RegSet k (v @ [0]))" using assms by simp
  then obtain sys' where s: "sys_step (RegSet k (v @ [0])) sys = Some (fst (store_step (RegSet k (v @ [0])) (store_of sys)), sys')"
    "system_ready sys'" "store_of sys' = snd (store_step (RegSet k (v @ [0])) (store_of sys))"
    by (rule step_result [OF assms(1)])
  note eq = step_Some [OF s(1) [unfolded sys_step.simps]]
  from eq registry_set_others [OF eq] s(2,3) show ?thesis
    by (auto simp: string_arg_def others_kept_def simp del: store_step.simps)
qed

lemma delete_ready:
  assumes "system_ready sys" "0 \<notin> set k"
  shows "\<exists>sys'. registry_value_delete (string_arg k) sys =
      Some (fst (fst (store_step (RegDelete k) (store_of sys))), sys') \<and>
    system_ready sys' \<and> store_of sys' = snd (store_step (RegDelete k) (store_of sys)) \<and>
    sys_shell sys' = sys_shell sys"
proof -
  have "sop_ok (RegDelete k)" using assms by simp
  then obtain sys' where s: "sys_step (RegDelete k) sys = Some (fst (store_step (RegDelete k) (store_of sys)), sys')"
    "system_ready sys'" "store_of sys' = snd (store_step (RegDelete k) (store_of sys))"
    by (rule step_result [OF assms(1)])
  note eq = step_Some [OF s(1) [unfolded sys_step.simps]]
  from eq registry_delete_others [OF eq] s(2,3) show ?thesis
    by (auto simp: string_arg_def others_kept_def simp del: store_step.simps)
qed

lemma strtab_set_ready:
  assumes "system_ready sys"
  shows "\<exists>sys'. strtab_set k (string_arg v) (int (length v + 1)) sys =
      Some (fst (fst (store_step (StrSet k (v @ [0])) (store_of sys))), sys') \<and>
    system_ready sys' \<and> store_of sys' = snd (store_step (StrSet k (v @ [0])) (store_of sys)) \<and>
    sys_shell sys' = sys_shell sys"
proof -
  have "sop_ok (StrSet k (v @ [0]))" by simp
  then obtain sys' where s: "sys_step (StrSet k (v @ [0])) sys = Some (fst (store_step (StrSet k (v @ [0])) (store_of sys)), sys')"
    "system_ready sys'" "store_of sys' = snd (store_step (StrSet k (v @ [0])) (store_of sys))"
    by (rule step_result [OF assms(1)])
  note eq = step_Some [OF s(1) [unfolded sys_step.simps]]
  from eq strtab_set_others [OF eq] s(2,3) show ?thesis
    by (auto simp: string_arg_def others_kept_def simp del: store_step.simps)
qed

text \<open>A lookup succeeds for a value that is not empty.\<close>

lemma get_ready:
  assumes "system_ready sys" "0 \<notin> set k" "length b = REGISTRY_VALUE_LENGT_MAX"
  shows "\<exists>res b' sys'. registry_value_get (string_arg k) (Some b) (of_nat REGISTRY_VALUE_LENGT_MAX) sys =
      Some (res, b', sys') \<and> (0 \<le> res \<longleftrightarrow> nonempty (fst (store_of sys) (key24 k)) \<noteq> None) \<and>
    system_ready sys' \<and> store_of sys' = store_of sys \<and> sys_shell sys' = sys_shell sys"
proof -
  obtain r t where st: "store_of sys = (r, t)" by fastforce
  have n: "unat (of_nat REGISTRY_VALUE_LENGT_MAX :: u32) = 224" by (simp add: REGISTRY_VALUE_LENGT_MAX_def)
  have "sop_ok (RegGet k 224)" using assms by simp
  then obtain sys' where s: "sys_step (RegGet k 224) sys = Some (fst (store_step (RegGet k 224) (store_of sys)), sys')"
    "system_ready sys'" "store_of sys' = snd (store_step (RegGet k 224) (store_of sys))"
    by (rule step_result [OF assms(1)])
  obtain res y where y: "fst (store_step (RegGet k 224) (store_of sys)) = (res, y)" by fastforce
  let ?b' = "Some y"
  have g: "registry_value_get (Some (k @ [0])) (Some (replicate 224 0)) 224 sys = Some (res, ?b', sys')"
    "res = fst (fst (store_step (RegGet k 224) (store_of sys)))"
    using get_Some [OF s(1) [unfolded sys_step.simps]] y by simp_all
  have "registry_value_get (string_arg k) (Some b) (of_nat REGISTRY_VALUE_LENGT_MAX) sys = Some (res, ?b', sys')"
    using g(1) value_get_buffer [of b "of_nat REGISTRY_VALUE_LENGT_MAX" "string_arg k" sys] assms(3)
    by (simp add: string_arg_def REGISTRY_VALUE_LENGT_MAX_def)
  moreover have "0 \<le> res \<longleftrightarrow> nonempty (r (key24 k)) \<noteq> None"
    by (cases "r (key24 k)") (auto simp: g(2) st nonempty_def)
  moreover have "store_of sys' = store_of sys"
    using s(3) by (cases "r (key24 k)") (simp_all add: st)
  moreover have "sys_shell sys' = sys_shell sys" 
    using registry_get_ok [OF ready_D(1) [OF assms(1)] assms(2), of 224 "replicate 224 0" "[]"] g(1)
    by (auto split: option.splits)
  ultimately show ?thesis using s(2) st by auto
qed

lemma commands_store:
  assumes rdy: "system_ready (pg_sys pg)" and argv: "\<forall>w \<in> set argv. 0 \<notin> set w \<and> length w < 2 ^ 31"
    and cmd: "store_cmd f argv (store_of (pg_sys pg)) = Some (res, line, st)"
  shows "\<exists>sys. shell_fp_run env f argv pg = Some (res, printf_std env line (pg\<lparr>pg_sys := sys\<rparr>)) \<and>
    system_ready sys \<and> store_of sys = st \<and> sys_shell sys = sys_shell (pg_sys pg)"
  using cmd
proof (cases rule: store_cmd.cases [of "(f, argv, store_of (pg_sys pg))"])
  case (1 c k v st0)
  with argv set_ready [OF rdy, of k v] cmd show ?thesis
    by (auto simp: corshell_reg_def store_put_def split: prod.splits simp del: store_step.simps)
next
  case (2 c k v st0)
  let ?b = "local_array env REGISTRY_VALUE_LENGT_MAX"
  from 2 argv have k: "0 \<notin> set k" "length v < 2 ^ 31" "argv = [c, k, v]" "f = Corshell_regadd" by auto
  obtain r b' sys1 where g: "registry_value_get (string_arg k) (Some ?b) (of_nat REGISTRY_VALUE_LENGT_MAX) (pg_sys pg) =
      Some (r, b', sys1)" "0 \<le> r \<longleftrightarrow> nonempty (fst (store_of (pg_sys pg)) (key24 k)) \<noteq> None"
    "system_ready sys1" "store_of sys1 = store_of (pg_sys pg)" "sys_shell sys1 = sys_shell (pg_sys pg)"
    using get_ready [OF rdy k(1) length_local] by blast
  show ?thesis
  proof (cases "0 \<le> r")
    case True
    with cmd k g show ?thesis by (auto simp: corshell_regadd_def)
  next
    case False
    with cmd k g set_ready [OF g(3) k(1,2)] show ?thesis
      by (auto simp: corshell_regadd_def split: prod.splits simp del: store_step.simps)
  qed
next
  case (3 c k st0)
  with argv delete_ready [OF rdy, of k] cmd show ?thesis
    by (auto simp: corshell_regdel_def store_put_def split: prod.splits simp del: store_step.simps)
next
  case (4 c n v st0)
  then obtain k where k: "key_arg n = Some k" "argv = [c, n, v]" "f = Corshell_strtab" using cmd by auto
  with cmd strtab_set_ready [OF rdy, of k v] show ?thesis
    by (auto simp: corshell_strtab_def store_put_def strtab_reply_def error_line_def split: prod.splits
        simp del: store_step.simps)
qed (use cmd in auto)

end
