(* ===== verification/Shell_Script.thy ===== *)
theory Shell_Script
  imports Shell_Cmds_Spec Shell_Spec
begin

text \<open>
  A script is run line by line: \<open>script_lines\<close> cuts its text, \<open>line_tokens\<close> are the words of a line
  over the two maps of the program, and the loop of \<^verbatim>\<open>corshell_script_run\<close> is a fold over the lines.
\<close>

unbundle bit_operations_syntax

section \<open>The lines of a text\<close>

text \<open>
  A line, whether a line feed follows it at once, and how many line feeds there are before the next
  one.  A line longer than the line buffer is cut into several.
\<close>

definition first_line :: "u8 list \<Rightarrow> u8 list" where
  "first_line t = take (CORSHELL_LINE_SIZE_MAX - 1) (takeWhile (\<lambda>c. \<not> is_eol c) t)"

definition eols :: "u8 list \<Rightarrow> u8 list" where
  "eols t = takeWhile is_eol t"

lemma line_consumes:
  assumes "t \<noteq> []"
  shows "0 < length (first_line t) + length (eols (drop (length (first_line t)) t))"
  using assms by (cases t) (auto simp: first_line_def eols_def CORSHELL_LINE_SIZE_MAX_def)

function script_lines :: "u8 list \<Rightarrow> (u8 list \<times> bool \<times> nat) list" where
  "script_lines t =
     (let rest = drop (length (first_line t)) t; e = eols rest; more = drop (length e) rest
      in (first_line t, take 1 rest = [10], length (filter (\<lambda>c. c = 10) e)) #
         (if more = [] then [] else script_lines more))"
  by pat_completeness auto

termination
proof (relation "measure length")
  fix t rest e more :: "u8 list"
  assume a: "rest = drop (length (first_line t)) t" "e = eols rest" "more = drop (length e) rest" "more \<noteq> []"
  then have t: "t \<noteq> []" by auto
  then have "0 < length t" by simp
  with line_consumes [OF t] show "(more, t) \<in> measure length"
    unfolding a in_measure length_drop by linarith
qed simp

declare script_lines.simps [simp del]

lemma first_line_split: "first_line t @ drop (length (first_line t)) t = t"
proof -
  have "first_line t = take (min (CORSHELL_LINE_SIZE_MAX - 1) (length (takeWhile (\<lambda>c. \<not> is_eol c) t))) t"
    by (metis first_line_def take_take takeWhile_eq_take)
  then obtain k where k: "first_line t = take k t" by blast
  show ?thesis unfolding k by (cases "k \<le> length t") simp_all
qed

lemma eols_split: "eols t @ drop (length (eols t)) t = t"
  unfolding eols_def by (metis takeWhile_dropWhile_id dropWhile_eq_drop)

lemma take_line_first:
  "take_line n (t @ z # r) (length t) = Some (take n (takeWhile (\<lambda>c. \<not> is_eol c) t))"
  by (induction t arbitrary: n) (auto simp: is_eol_def take_Cons' split: nat.splits)

lemma skip_eol_eols:
  "skip_eol (t @ z # r) (length t) = Some (length (eols t), length (filter (\<lambda>c. c = 10) (eols t)))"
  by (induction t) (auto simp: eols_def is_eol_def)

section \<open>The words of a line\<close>

definition line_tokens :: "store \<Rightarrow> u8 list \<Rightarrow> u8 list list" where
  "line_tokens st line =
     take (CORSHELL_ARGC_MAX - 1)
       (tokens (takeWhile (\<lambda>c. c \<noteq> 0) (expand running_inst (store_value st) line)))"

text \<open>Lines whose translation fits into its buffer.\<close>

definition line_ok :: "store \<Rightarrow> u8 list \<Rightarrow> bool" where
  "line_ok st line \<longleftrightarrow>
     text_ok line \<and> length (expand running_inst (store_value st) line) < CORSHELL_LINE_STRSUB_SIZE_MAX - 1"

lemma tokens_no_NUL: "0 \<notin> set s \<Longrightarrow> w \<in> set (tokens s) \<Longrightarrow> 0 \<notin> set w"
proof (induction s rule: tokens.induct)
  case (2 c cs)
  have sub: "0 \<notin> set (drop n cs)" "0 \<notin> set (take n cs)" "0 \<notin> set (takeWhile P cs)" for n P
    using 2(4) by (auto dest: in_set_dropD in_set_takeD set_takeWhileD)
  with 2 show ?case by (auto split: if_splits)
qed simp

lemma length_tokens: "w \<in> set (tokens s) \<Longrightarrow> length w \<le> length s"
proof (induction s rule: tokens.induct)
  case (2 c cs)
  have t: "length (takeWhile P cs) \<le> length cs" for P by (rule length_takeWhile_le)
  show ?case
    using 2 t [of "\<lambda>b. b \<noteq> c"] by (fastforce split: if_splits simp: min_def)
qed simp

lemma those_map_Some: "those (map Some xs) = Some xs"
  by (induction xs) simp_all

lemma line_words_ok:
  assumes rdy: "system_ready (pg_sys pg)" and ok: "line_ok (store_of (pg_sys pg)) line"
    and buf: "length buf = CORSHELL_LINE_STRSUB_SIZE_MAX"
  shows "\<exists>buf' sys. line_words line buf pg =
      Some (line_tokens (store_of (pg_sys pg)) line, buf', pg\<lparr>pg_sys := sys\<rparr>) \<and>
    length buf' = CORSHELL_LINE_STRSUB_SIZE_MAX \<and> system_ready sys \<and>
    store_of sys = store_of (pg_sys pg) \<and> sys_shell sys = sys_shell (pg_sys pg)"
proof -
  define x where "x = expand running_inst (store_value (store_of (pg_sys pg))) line"
  have x: "length x < 319" using ok by (simp add: line_ok_def x_def CORSHELL_LINE_STRSUB_SIZE_MAX_def)
  have n: "0 < (320 :: nat)" "(320 :: nat) \<le> 2 ^ 31" "320 \<le> length buf"
    using buf by (simp_all add: CORSHELL_LINE_STRSUB_SIZE_MAX_def)
  obtain sys where sys: "strsub_parse_string_to run_lookup (sys_strsub (pg_sys pg)) (Some (line @ [0]))
      (of_nat (length line)) (Some buf) (of_nat 320) (pg_sys pg) =
      Some (of_nat (length x), emitted (0 # tl buf) 319 (x @ [0]), sys)"
    "system_ready sys" "store_of sys = store_of (pg_sys pg)" "sys_shell sys = sys_shell (pg_sys pg)"
    using substitute_len [OF rdy _ disjI2 [OF refl] n, of line] ok x
    by (auto simp: line_ok_def x_def [symmetric])
  define s where "s = takeWhile (\<lambda>c. c \<noteq> 0) x"
  define b where "b = emitted (0 # tl buf) 319 (x @ [0])"
  have "\<exists>y. x @ [0] = s @ 0 # y" unfolding s_def by (induction x) auto
  then obtain y where xs: "x @ [0] = s @ 0 # y" by blast
  have "b = (x @ [0]) @ drop (length x) (tl buf)"
    using x by (simp add: b_def emitted_def)
  then obtain r where r: "b = s @ 0 # r" by (simp only: xs append_assoc append_Cons)
  have s: "0 \<notin> set s" "length s \<le> length x" "length s < 2 ^ 32"
    using x length_takeWhile_le [of "\<lambda>c. c \<noteq> 0" x] by (auto simp: s_def dest: set_takeWhileD)
  have len: "nat (sint (of_nat (length x) :: u32) mod 2 ^ 64) = length x"
    using x by (simp add: sint_of_nat_u32)
  obtain argv buf' where split: "corshell_cmd_split b (length x) 13 = Some (argv, buf')"
    "length buf' = length b" "map (\<lambda>off. cstr (drop off buf')) argv = map Some (take 13 (tokens s))"
    using split_words [OF s(1,2,3), of 13 r] by (auto simp: r)
  have "those (map (\<lambda>off. cstr (drop off buf')) argv) = Some (take 13 (tokens s))"
    unfolding split(3) by (simp add: those_map_Some)
  moreover have "length b = 320" using buf x by (simp add: b_def emitted_def CORSHELL_LINE_STRSUB_SIZE_MAX_def)
  ultimately show ?thesis
    using sys split len
    by (intro exI [of _ buf'] exI [of _ sys]) (simp add: line_words_def line_tokens_def CORSHELL_LINE_STRSUB_SIZE_MAX_def CORSHELL_ARGC_MAX_def
        b_def [symmetric] s_def [symmetric] x_def [symmetric])
qed

section \<open>Scripts on the maps\<close>

text \<open>
  What the shell works on, seen from the two maps: the maps, the status of the shell, and what is to
  be known of the client.
\<close>

record 'c shell_view =
  sw_store :: store
  sw_status :: int
  sw_client :: 'c

text \<open>
  A view of the commands says for a function and its words what the status is and what it does; it
  is \<open>None\<close> for a command that it does not describe.
\<close>

type_synonym 'c view_fp = "shell_fp \<Rightarrow> u8 list list \<Rightarrow> 'c shell_view \<Rightarrow> (int \<times> 'c shell_view) option"

definition store_view :: "'c view_fp" where
  "store_view f argv w =
     (if f = Corshell_rem then Some (CORSHELL_CMD_E_OK, w)
      else map_option (\<lambda>(res, _, st). (res, w\<lparr>sw_store := st\<rparr>)) (store_cmd f argv (sw_store w)))"

text \<open>A command line; \<open>cs\<close> are the installed commands.\<close>

definition view_command ::
  "'c view_fp \<Rightarrow> corshell_cmd list \<Rightarrow> u8 list list \<Rightarrow> 'c shell_view \<Rightarrow> (int \<times> 'c shell_view) option" where
  "view_command q cs argv w =
     (if take 1 (arg0 argv) = [35] then Some (CORSHELL_CMD_E_OK, w)
      else case find (\<lambda>c. cc_cmd c = Some (arg0 argv)) cs of
             None \<Rightarrow> Some (CORSHELL_CMD_E_NOT_FOUND, w)
           | Some c \<Rightarrow>
               if length argv > 1 \<and> take 1 (argv ! 1) = [63] then Some (CORSHELL_CMD_E_OK, w)
               else q (cc_fp c) argv w)"

text \<open>
  A script has, besides, the status of its last command, its last error, and where it is in the
  handling of errors.  After an error the lines are skipped up to one that handles or clears it;
  the first component says whether the script goes on.
\<close>

record 'c script_view =
  sv_status :: int
  sv_last :: int
  sv_error :: error_state
  sv_shell :: "'c shell_view"

definition view_line ::
  "'c view_fp \<Rightarrow> corshell_cmd list \<Rightarrow> u8 list list \<Rightarrow> 'c script_view \<Rightarrow> (bool \<times> 'c script_view) option" where
  "view_line q cs argv a =
     (if argv = [] then Some (True, a)
      else if arg0 argv = ascii '':exit'' then Some (False, a)
      else if arg0 argv = ascii '':onerror''
      then (if sv_status a \<ge> 0 then Some (True, a\<lparr>sv_error := StateInError\<rparr>)
            else map_option (\<lambda>h. (True, a\<lparr>sv_error := (if h then StateInHandler else StateInError)\<rparr>))
                   (handles argv (sv_status a)))
      else if arg0 argv = ascii '':clearerror''
      then Some (True, if sv_error a = StateNormal then a
                       else a\<lparr>sv_last := 0, sv_status := 0, sv_error := StateNormal,
                              sv_shell := (sv_shell a)\<lparr>sw_status := 0\<rparr>\<rparr>)
      else if sv_error a = StateInError then Some (True, a)
      else map_option (\<lambda>(res, w). (True,
             a\<lparr>sv_status := res,
               sv_error := (if res < 0 then StateInError else sv_error a),
               sv_last := (if res < 0 \<and> 0 \<le> sw_status w then res else sv_last a),
               sv_shell := w\<rparr>))
             (view_command q cs argv (sv_shell a)))"

fun view_lines ::
  "'c view_fp \<Rightarrow> corshell_cmd list \<Rightarrow> (u8 list \<times> bool \<times> nat) list \<Rightarrow> 'c script_view \<Rightarrow> 'c script_view option" where
  "view_lines q cs [] a = Some a"
| "view_lines q cs ((line, _) # lines) a =
     (if \<not> line_ok (sw_store (sv_shell a)) line then None
      else case view_line q cs (line_tokens (sw_store (sv_shell a)) line) a of
             None \<Rightarrow> None
           | Some (go, a) \<Rightarrow> if go then view_lines q cs lines a else Some a)"

definition view_start :: "'c shell_view \<Rightarrow> 'c script_view" where
  "view_start w = \<lparr>sv_status = 0, sv_last = 0, sv_error = StateNormal, sv_shell = w\<rparr>"

text \<open>A whole script: its last error, if there is one, becomes the status of the shell.\<close>

definition view_script ::
  "'c view_fp \<Rightarrow> corshell_cmd list \<Rightarrow> u8 list \<Rightarrow> 'c shell_view \<Rightarrow> (int \<times> 'c shell_view) option" where
  "view_script q cs t w =
     map_option (\<lambda>a. let w = (if sv_last a < 0 then (sv_shell a)\<lparr>sw_status := sv_last a\<rparr> else sv_shell a)
                     in (sw_status w, w))
       (view_lines q cs (script_lines t) (view_start w))"

section \<open>The script of the program is that one\<close>

definition shell_ready :: "system \<Rightarrow> bool" where
  "shell_ready sys \<longleftrightarrow> system_ready sys \<and> shell_ok (sys_shell sys) [registry_cmds, strtab_cmds]"

definition shell_cmds :: "system \<Rightarrow> corshell_cmd list" where
  "shell_cmds sys = all_cmds (sys_shell sys) [registry_cmds, strtab_cmds]"

text \<open>
  A client that never asks a script to end, and of which \<open>cv\<close> sees nothing of the output.
\<close>

definition patient :: "'t shell_env \<Rightarrow> ('t \<Rightarrow> 'c) \<Rightarrow> bool" where
  "patient env cv \<longleftrightarrow>
     (\<forall>t. 0 \<le> fst (env_out env CORSHELL_OUT_NULL None t)) \<and>
     (\<forall>out s t. cv (snd (env_out env out s t)) = cv t)"

definition shell_viewed :: "corshell_cmd list \<Rightarrow> ('t \<Rightarrow> 'c) \<Rightarrow> 'c shell_view \<Rightarrow> 't program \<Rightarrow> bool" where
  "shell_viewed cs cv w pg \<longleftrightarrow>
     shell_ready (pg_sys pg) \<and> shell_cmds (pg_sys pg) = cs \<and>
     sw_store w = store_of (pg_sys pg) \<and> sw_status w = pg_status pg \<and> sw_client w = cv (pg_client pg)"

definition viewed :: "corshell_cmd list \<Rightarrow> ('t \<Rightarrow> 'c) \<Rightarrow> 'c script_view \<Rightarrow> script \<Rightarrow> 't program \<Rightarrow> bool" where
  "viewed cs cv a sc pg \<longleftrightarrow>
     shell_viewed cs cv (sv_shell a) pg \<and>
     sv_status a = sc_status sc \<and> sv_last a = sc_lasterror sc \<and> sv_error a = sc_error sc"

text \<open>
  The commands do what the view \<open>q\<close> says; \<open>d\<close> bounds how deep they nest scripts.
\<close>

definition plain_words :: "u8 list list \<Rightarrow> bool" where
  "plain_words argv \<longleftrightarrow> (\<forall>w \<in> set argv. 0 \<notin> set w \<and> length w < 2 ^ 31)"

definition described ::
  "nat \<Rightarrow> 't shell_env \<Rightarrow> corshell_cmd list \<Rightarrow> ('t \<Rightarrow> 'c) \<Rightarrow> 'c view_fp \<Rightarrow> bool" where
  "described d env cs cv q \<longleftrightarrow>
     (\<forall>f argv w res w' pg.
        shell_viewed cs cv w pg \<and> plain_words argv \<and> unat (pg_recurse pg) + d < 2 ^ 32 \<and>
        q f argv w = Some (res, w') \<longrightarrow>
        (\<exists>pg'. shell_fp_run env f argv pg = Some (res, pg') \<and> shell_viewed cs cv w' pg' \<and>
               pg_recurse pg' = pg_recurse pg))"

text \<open>Printing only changes the client.\<close>

lemma print_simps [simp]:
  "pg_sys (corshell_print env out s pg) = pg_sys pg"
  "pg_status (corshell_print env out s pg) = pg_status pg"
  "pg_recurse (corshell_print env out s pg) = pg_recurse pg"
  "pg_sys (message env name verb status tail n pg) = pg_sys pg"
  "pg_status (message env name verb status tail n pg) = pg_status pg"
  "pg_recurse (message env name verb status tail n pg) = pg_recurse pg"
  "pg_sys (printf_std env s pg) = pg_sys pg"
  "pg_status (printf_std env s pg) = pg_status pg"
  "pg_recurse (printf_std env s pg) = pg_recurse pg"
  by (simp_all add: corshell_print_def shell_out_def message_def printf_std_def split: prod.split)

lemma patient_simps:
  assumes "patient env cv"
  shows "cv (pg_client (corshell_print env out s pg)) = cv (pg_client pg)"
    "cv (pg_client (message env name verb status tail n pg)) = cv (pg_client pg)"
    "cv (pg_client (printf_std env s pg)) = cv (pg_client pg)"
  using assms
  by (simp_all add: corshell_print_def shell_out_def message_def printf_std_def patient_def case_prod_beta)

lemma print_viewed:
  assumes "patient env cv"
  shows "shell_viewed cs cv w (corshell_print env out s pg) = shell_viewed cs cv w pg"
    "shell_viewed cs cv w (message env name verb status tail n pg) = shell_viewed cs cv w pg"
    "shell_viewed cs cv w (printf_std env s pg) = shell_viewed cs cv w pg"
  by (simp_all add: shell_viewed_def patient_simps [OF assms])

text \<open>The commands that name an entry are described by the two maps.\<close>

lemma store_described:
  assumes "patient env cv"
  shows "described d env cs cv store_view"
  unfolding described_def
proof (intro allI impI, elim conjE)
  fix f argv w res w' and pg :: "'a program"
  assume a: "shell_viewed cs cv w pg" "plain_words argv" "store_view f argv w = Some (res, w')"
  show "\<exists>pg'. shell_fp_run env f argv pg = Some (res, pg') \<and> shell_viewed cs cv w' pg' \<and>
    pg_recurse pg' = pg_recurse pg"
  proof (cases "f = Corshell_rem")
    case True
    then show ?thesis using a by (simp add: store_view_def corshell_rem_def)
  next
    case False
    then obtain line st where cmd: "store_cmd f argv (store_of (pg_sys pg)) = Some (res, line, st)"
      "w' = w\<lparr>sw_store := st\<rparr>"
      using a(1,3) by (auto simp: store_view_def shell_viewed_def)
    obtain sys where "shell_fp_run env f argv pg = Some (res, printf_std env line (pg\<lparr>pg_sys := sys\<rparr>))"
      "system_ready sys" "store_of sys = st" "sys_shell sys = sys_shell (pg_sys pg)"
      using commands_store [OF _ _ cmd(1), of env] a(1,2)
      by (auto simp: shell_viewed_def shell_ready_def plain_words_def)
    then show ?thesis
      using a(1) cmd(2)
      by (auto simp: print_viewed [OF assms]) (simp add: shell_viewed_def shell_ready_def shell_cmds_def)
  qed
qed

lemma command_view:
  assumes p: "patient env cv" and q: "described d env cs cv q" and v: "shell_viewed cs cv w pg"
    and argv: "plain_words argv" and depth: "unat (pg_recurse pg) + d < 2 ^ 32"
    and cmd: "view_command q cs argv w = Some (res, w')"
  shows "\<exists>pg'. corshell_cmd_run env (shell_fp_run env) argv pg = Some (res, pg') \<and>
    shell_viewed cs cv w' pg' \<and> pg_recurse pg' = pg_recurse pg"
proof -
  have ok: "shell_ok (sys_shell (pg_sys pg)) [registry_cmds, strtab_cmds]" "shell_cmds (pg_sys pg) = cs"
    using v by (simp_all add: shell_viewed_def shell_ready_def)
  note run = cmd_run_first [OF ok(1), of env "shell_fp_run env" argv, folded shell_cmds_def, unfolded ok(2)]
  show ?thesis
  proof (cases "find (\<lambda>c. cc_cmd c = Some (arg0 argv)) cs")
    case None
    with cmd v show ?thesis
      by (auto simp: view_command_def run print_viewed [OF p] split: if_splits)
  next
    case (Some c)
    show ?thesis
    proof (cases "take 1 (arg0 argv) = [35] \<or> (length argv > 1 \<and> take 1 (argv ! 1) = [63])")
      case True
      then have "res = 0" "w' = w"
        using cmd Some by (auto simp: view_command_def split: if_splits)
      with True v show ?thesis
        by (auto simp: run Some run_command_def Let_def print_viewed [OF p] split: option.split)
    next
      case False
      then have "q (cc_fp c) argv w = Some (res, w')" using cmd Some by (auto simp: view_command_def)
      then obtain pg' where "shell_fp_run env (cc_fp c) argv pg = Some (res, pg')" "shell_viewed cs cv w' pg'"
        "pg_recurse pg' = pg_recurse pg"
        using q v argv depth unfolding described_def by blast
      moreover have "\<not> (length argv > 1 \<and> take 1 (argv ! 1) = [63])" "take 1 (arg0 argv) \<noteq> [35]" using False by auto
      ultimately show ?thesis
        by (auto simp: run Some run_command_def not_less Let_def print_viewed [OF p] split: option.split)
    qed
  qed
qed

lemma script_command_view:
  assumes p: "patient env cv" and q: "described d env cs cv q" and v: "viewed cs cv a sc pg"
    and argv: "plain_words argv" and depth: "unat (pg_recurse pg) + d < 2 ^ 32"
    and cmd: "view_command q cs argv (sv_shell a) = Some (res, w)" and err: "sv_error a \<noteq> StateInError"
  shows "\<exists>sc' pg'. script_command env (shell_fp_run env) name argv sc pg = Some (sc', pg') \<and>
    viewed cs cv (a\<lparr>sv_status := res,
               sv_error := (if res < 0 then StateInError else sv_error a),
               sv_last := (if res < 0 \<and> 0 \<le> sw_status w then res else sv_last a),
               sv_shell := w\<rparr>) sc' pg' \<and>
    pg_recurse pg' = pg_recurse pg"
proof -
  obtain pg' where run: "corshell_cmd_run env (shell_fp_run env) argv pg = Some (res, pg')"
    "shell_viewed cs cv w pg'" "pg_recurse pg' = pg_recurse pg"
    using command_view [OF p q _ argv depth cmd] v by (auto simp: viewed_def)
  have out: "shell_out env CORSHELL_OUT_NULL None p =
      (fst (env_out env CORSHELL_OUT_NULL None (pg_client p)),
       p\<lparr>pg_client := snd (env_out env CORSHELL_OUT_NULL None (pg_client p))\<rparr>)" for p :: "'a program"
    by (simp add: shell_out_def split: prod.split)
  have go: "\<not> fst (env_out env CORSHELL_OUT_NULL None t) < 0"
    "cv (snd (env_out env out s t)) = cv t" for out s t
    using p by (simp_all add: patient_def not_less)
  have status: "sw_status w = pg_status pg'" using run(2) by (simp add: shell_viewed_def)
  show ?thesis
    using run v status
    by (simp add: script_command_def viewed_def out go Let_def)
       (simp add: shell_viewed_def go patient_simps [OF p])
qed

lemma script_line_view:
  assumes p: "patient env cv" and q: "described d env cs cv q" and v: "viewed cs cv a sc pg"
    and argv: "plain_words argv" and depth: "unat (pg_recurse pg) + d < 2 ^ 32"
    and line: "view_line q cs argv a = Some (go, a')"
  shows "\<exists>sc' pg'. script_line env (shell_fp_run env) name argv sc pg = Some (go, sc', pg') \<and>
    viewed cs cv a' sc' pg' \<and> pg_recurse pg' = pg_recurse pg"
proof -
  have s: "sv_status a = sc_status sc" "sv_error a = sc_error sc" using v by (simp_all add: viewed_def)
  consider (Nil) "argv = []" | (Exit) "argv \<noteq> []" "arg0 argv = ascii '':exit''"
    | (Onerror) "argv \<noteq> []" "arg0 argv = ascii '':onerror''"
    | (Clear) "argv \<noteq> []" "arg0 argv = ascii '':clearerror''"
    | (Skip) "argv \<noteq> []" "arg0 argv \<notin> {ascii '':exit'', ascii '':onerror'', ascii '':clearerror''}"
        "sv_error a = StateInError"
    | (Run) "argv \<noteq> []" "arg0 argv \<notin> {ascii '':exit'', ascii '':onerror'', ascii '':clearerror''}"
        "sv_error a \<noteq> StateInError"
    by blast
  then show ?thesis
  proof cases
    case Run
    then obtain res w where c: "view_command q cs argv (sv_shell a) = Some (res, w)"
      "go = True" "a' = a\<lparr>sv_status := res,
               sv_error := (if res < 0 then StateInError else sv_error a),
               sv_last := (if res < 0 \<and> 0 \<le> sw_status w then res else sv_last a),
               sv_shell := w\<rparr>"
      using line by (auto simp: view_line_def split: if_splits)
    from script_command_view [OF p q v argv depth c(1) Run(3), of name] obtain sc' pg' where
      "script_command env (shell_fp_run env) name argv sc pg = Some (sc', pg')"
      "viewed cs cv a' sc' pg'" "pg_recurse pg' = pg_recurse pg" unfolding c(3) by blast
    then show ?thesis using Run c(2) s by (simp add: script_line_def)
  next
    case Onerror
    with v line s show ?thesis
      by (cases "handles argv (sc_status sc)")
         (auto simp: view_line_def script_line_def viewed_def ascii_def print_viewed [OF p] split: if_splits)
  next
    case Clear
    have "shell_viewed cs cv (w\<lparr>sw_status := 0\<rparr>) (x\<lparr>pg_status := 0\<rparr>)" if "shell_viewed cs cv w x" for w and x :: "'a program"
      using that by (simp add: shell_viewed_def)
    with Clear v line s show ?thesis
      by (auto simp: view_line_def script_line_def viewed_def ascii_def print_viewed [OF p] split: if_splits)
  qed (use v line s in \<open>auto simp: view_line_def script_line_def viewed_def ascii_def print_viewed [OF p]
         split: if_splits\<close>)
qed

text \<open>The loop, from position \<open>i\<close> on, where the text that is left is \<open>t\<close>.\<close>

lemma line_tokens_plain:
  assumes "line_ok st line"
  shows "plain_words (line_tokens st line)"
  unfolding plain_words_def
proof
  fix w assume w: "w \<in> set (line_tokens st line)"
  let ?s = "takeWhile (\<lambda>c. c \<noteq> 0) (expand running_inst (store_value st) line)"
  from w have w: "w \<in> set (tokens ?s)" by (auto simp: line_tokens_def dest: in_set_takeD)
  have "0 \<notin> set ?s" by (auto dest: set_takeWhileD)
  moreover have "length ?s < 319"
    using assms(1) length_takeWhile_le [of "\<lambda>c. c \<noteq> 0" "expand running_inst (store_value st) line"]
    by (simp add: line_ok_def CORSHELL_LINE_STRSUB_SIZE_MAX_def)
  ultimately show "0 \<notin> set w \<and> length w < 2 ^ 31" using tokens_no_NUL [OF _ w] length_tokens [OF w] by auto
qed

lemma script_loop_view:
  assumes p: "patient env cv" and q: "described d env cs cv q"
  shows "viewed cs cv a sc pg \<Longrightarrow> view_lines q cs (script_lines t) a = Some a' \<Longrightarrow>
    length buf = CORSHELL_LINE_STRSUB_SIZE_MAX \<Longrightarrow> unat (pg_recurse pg) + d < 2 ^ 32 \<Longrightarrow>
    \<exists>sc' pg'. script_loop env (shell_fp_run env) name (p @ t @ z # r) (length p + length t) (length p) buf sc pg =
        Some (sc', pg') \<and> viewed cs cv a' sc' pg' \<and> pg_recurse pg' = pg_recurse pg"
proof (induction t arbitrary: p a sc pg buf rule: script_lines.induct)
  case (1 t)
  define line where "line = first_line t"
  define rest where "rest = drop (length line) t"
  define e where "e = eols rest"
  define more where "more = drop (length e) rest"
  have lines: "script_lines t = (line, take 1 rest = [10], length (filter (\<lambda>c. c = 10) e)) #
      (if more = [] then [] else script_lines more)"
    by (subst script_lines.simps) (simp only: line_def rest_def e_def more_def Let_def)
  have pre: "line @ rest = t" "e @ more = rest"
    unfolding line_def rest_def e_def more_def by (rule first_line_split, rule eols_split)
  let ?start = "p @ t @ z # r" and ?len = "length p + length t" and ?i = "length p + length line"
  have at: "drop ?i ?start = rest @ z # r" "?len - ?i = length rest"
    by (simp_all add: pre(1) [symmetric])
  have take: "take_line (CORSHELL_LINE_SIZE_MAX - 1) (drop (length p) ?start) (?len - length p) = Some line"
    by (simp add: take_line_first line_def first_line_def)
  have skip: "skip_eol (drop ?i ?start) (?len - ?i) = Some (length e, length (filter (\<lambda>c. c = 10) e))"
    unfolding at e_def by (rule skip_eol_eols)
  have more: "?i + length e < ?len \<longleftrightarrow> more \<noteq> []" "?i + length e = length (p @ line @ e)"
    "?start = (p @ line @ e) @ more @ z # r" "?len = length (p @ line @ e) + length more"
    by (simp_all add: pre [symmetric])
  define sc1 where "sc1 = (if ?start ! ?i = 10 then sc\<lparr>sc_lineno := sc_lineno sc + 1\<rparr> else sc)"
  have ok: "line_ok (store_of (pg_sys pg)) line" and st: "sw_store (sv_shell a) = store_of (pg_sys pg)"
    using "1.prems" by (auto simp: lines viewed_def shell_viewed_def split: if_splits)
  have rdy: "system_ready (pg_sys pg)" using "1.prems"(1) by (simp add: viewed_def shell_viewed_def shell_ready_def)
  obtain buf1 sys where words: "line_words line buf pg =
      Some (line_tokens (sw_store (sv_shell a)) line, buf1, pg\<lparr>pg_sys := sys\<rparr>)"
    "length buf1 = CORSHELL_LINE_STRSUB_SIZE_MAX" "system_ready sys"
    "store_of sys = store_of (pg_sys pg)" "sys_shell sys = sys_shell (pg_sys pg)"
    using line_words_ok [OF rdy ok "1.prems"(3)] unfolding st by blast
  have v1: "viewed cs cv a sc1 (pg\<lparr>pg_sys := sys\<rparr>)"
    using "1.prems"(1) words by (simp add: viewed_def shell_viewed_def shell_ready_def shell_cmds_def sc1_def)
  obtain go a1 where vl: "view_line q cs (line_tokens (sw_store (sv_shell a)) line) a = Some (go, a1)"
    "(if go then view_lines q cs (if more = [] then [] else script_lines more) a1 else Some a1) = Some a'"
    using "1.prems"(2) by (auto simp: lines split: if_splits option.splits)
  have plain: "plain_words (line_tokens (sw_store (sv_shell a)) line)"
    using line_tokens_plain ok unfolding st by blast
  obtain sc2 pg2 where run: "script_line env (shell_fp_run env) name (line_tokens (sw_store (sv_shell a)) line) sc1
      (pg\<lparr>pg_sys := sys\<rparr>) = Some (go, sc2, pg2)" "viewed cs cv a1 sc2 pg2" "pg_recurse pg2 = pg_recurse pg"
    using script_line_view [OF p q v1 plain _ vl(1), of name] "1.prems"(4) by auto
  let ?sc2 = "sc2\<lparr>sc_lineno := sc_lineno sc2 + length (filter (\<lambda>c. c = 10) e)\<rparr>"
  have v2: "viewed cs cv a1 ?sc2 pg2" using run(2) by (simp add: viewed_def)
  have step: "script_loop env (shell_fp_run env) name ?start ?len (length p) buf sc pg =
      (if \<not> go then Some (sc2, pg2)
       else if more \<noteq> [] then script_loop env (shell_fp_run env) name ?start ?len (?i + length e) buf1 ?sc2 pg2
       else Some (?sc2, pg2))"
    by (subst script_loop.simps) (simp only: take Let_def Option.bind.bind_lunit sc1_def [symmetric]
      words(1) run(1) skip more(1) prod.case refl if_True split: if_split)
  show ?case
  proof (cases "go \<and> more \<noteq> []")
    case True
    then have "view_lines q cs (script_lines more) a1 = Some a'" using vl(2) by simp
    moreover have "more \<noteq> []" using True by blast
    ultimately obtain sc' pg' where
      "script_loop env (shell_fp_run env) name ((p @ line @ e) @ more @ z # r)
         (length (p @ line @ e) + length more) (length (p @ line @ e)) buf1 ?sc2 pg2 = Some (sc', pg')"
      "viewed cs cv a' sc' pg'" "pg_recurse pg' = pg_recurse pg2"
      using "1.IH" [OF rest_def [unfolded line_def] e_def more_def _ v2 _ words(2), of "p @ line @ e"] "1.prems"(4) run(3) by auto
    with True run(3) step show ?thesis unfolding more(2-4) by auto
  next
    case False
    with vl(2) v2 run step show ?thesis by (auto split: if_splits)
  qed
qed

text \<open>The two buffers of a script come from the heap and go back to it.\<close>

lemma heap_ready:
  assumes "system_ready sys" "heap_le (sys_heap sys) h" "plenty h"
  shows "system_ready (sys\<lparr>sys_heap := h\<rparr>)" "store_of (sys\<lparr>sys_heap := h\<rparr>) = store_of sys"
proof -
  note D = ready_D [OF assms(1)]
  let ?sys = "sys\<lparr>sys_heap := h\<rparr>"
  have r: "inst (reg_vol ?sys) = inst (reg_vol sys)" "dev (reg_vol ?sys) = dev (reg_vol sys)"
    "heap_le (hp (reg_vol sys)) (hp (reg_vol ?sys))"
    using assms(2) by (simp_all add: reg_vol_def)
  have t: "inst (str_vol ?sys) = inst (str_vol sys)" "dev (str_vol ?sys) = dev (str_vol sys)"
    "heap_le (hp (str_vol sys)) (hp (str_vol ?sys))"
    using assms(2) by (simp_all add: str_vol_def)
  note R = nvol_inv_frame [OF D(3) [unfolded registry_vol_inv_def] r(1,3), unfolded r(2), OF refl]
    and T = nvol_inv_frame [OF D(4) [unfolded strtab_vol_inv_def] t(1,3), unfolded t(2), OF refl]
  show "system_ready ?sys"
    using R(1) T(1) assms(3) D(6,7)
    by (intro ready_kept [OF assms(1)])
       (simp_all add: others_kept_def registry_vol_inv_def strtab_vol_inv_def)
  show "store_of ?sys = store_of sys"
    using R(2) T(2) by (simp add: store_of_def strtab_vol_map_def)
qed

lemma heap_viewed:
  assumes "shell_viewed cs cv w pg" "heap_le (sys_heap (pg_sys pg)) h" "plenty h"
  shows "shell_viewed cs cv w (pg\<lparr>pg_sys := (pg_sys pg)\<lparr>sys_heap := h\<rparr>\<rparr>)"
proof -
  have "system_ready (pg_sys pg)" using assms(1) by (simp add: shell_viewed_def shell_ready_def)
  from heap_ready [OF this assms(2,3)] show ?thesis
    using assms(1) by (simp add: shell_viewed_def shell_ready_def shell_cmds_def)
qed

theorem script_run_view:
  assumes p: "patient env cv" and q: "described d env cs cv q" and v: "shell_viewed cs cv w pg"
    and depth: "unat (pg_recurse pg) + Suc d < 2 ^ 32" and script: "view_script q cs t w = Some (res, w')"
  shows "\<exists>pg'. corshell_script_run env (shell_fp_run env) name (t @ z # r) (int (length t)) pg = Some (res, pg') \<and>
    shell_viewed cs cv w' pg' \<and> pg_recurse pg' = pg_recurse pg"
proof -
  have rdy: "system_ready (pg_sys pg)" using v by (simp add: shell_viewed_def shell_ready_def)
  let ?h = "sys_heap (pg_sys pg)"
  define h1 where "h1 = ?h\<lparr>next_addr := Suc (next_addr ?h)\<rparr>"
  define h2 where "h2 = h1\<lparr>next_addr := Suc (next_addr h1)\<rparr>"
  have h: "plenty ?h" "plenty h1" "plenty h2" "heap_le ?h h2"
    using ready_D(5) [OF rdy] by (simp_all add: h1_def h2_def heap_le_def)
  have m: "heap_malloc ?h n = (Some (next_addr ?h), h1)" "heap_malloc h1 n = (Some (next_addr h1), h2)" for n
    using heap_malloc_plenty [OF h(1)] heap_malloc_plenty [OF h(2)] by (simp_all add: h1_def h2_def)
  define t0 where "t0 = snd (env_out env CORSHELL_OUT_NULL None (pg_client pg))"
  have out: "shell_out env CORSHELL_OUT_NULL None (pg\<lparr>pg_recurse := n\<rparr>) =
      (fst (env_out env CORSHELL_OUT_NULL None (pg_client pg)), pg\<lparr>pg_recurse := n, pg_client := t0\<rparr>)" for n
    by (simp add: shell_out_def t0_def split: prod.split)
  have go: "\<not> fst (env_out env CORSHELL_OUT_NULL None (pg_client pg)) < 0" "cv t0 = cv (pg_client pg)"
    using p by (simp_all add: patient_def not_less t0_def)
  define pg1 where "pg1 = pg\<lparr>pg_recurse := pg_recurse pg + 1, pg_client := t0,
    pg_sys := (pg_sys pg)\<lparr>sys_heap := h2\<rparr>\<rparr>"
  let ?sc = "\<lparr>sc_status = 0, sc_lasterror = 0, sc_error = StateNormal, sc_lineno = 0\<rparr>"
  let ?buf = "fresh_bytes h2 (next_addr h1) CORSHELL_LINE_STRSUB_SIZE_MAX"
  have v1: "viewed cs cv (view_start w) ?sc pg1"
    using heap_viewed [OF v h(4,3)] go(2) by (simp add: viewed_def view_start_def shell_viewed_def pg1_def)
  have n: "unat (pg_recurse pg + 1) = Suc (unat (pg_recurse pg))"
    using depth by (simp add: unat_word_ariths)
  then have r1: "unat (pg_recurse pg1) + d < 2 ^ 32" "pg_recurse pg + 1 \<noteq> 0"
    using depth by (auto simp: pg1_def)
  obtain a where a: "view_lines q cs (script_lines t) (view_start w) = Some a"
    "w' = (if sv_last a < 0 then (sv_shell a)\<lparr>sw_status := sv_last a\<rparr> else sv_shell a)" "res = sw_status w'"
    using script by (auto simp: view_script_def Let_def)
  from script_loop_view [OF p q v1 a(1) _ r1(1), of ?buf name "[]" z r] obtain sc' pg' where loop:
    "script_loop env (shell_fp_run env) name (t @ z # r) (length t) 0 ?buf ?sc pg1 = Some (sc', pg')"
    "viewed cs cv a sc' pg'" "pg_recurse pg' = pg_recurse pg + 1"
    by (auto simp: pg1_def)
  have "pg1 = pg\<lparr>pg_recurse := pg_recurse pg + 1, pg_client := t0, pg_sys := (pg_sys pg)\<lparr>sys_heap := h2\<rparr>\<rparr>"
    by (rule pg1_def)
  with loop r1(2) show ?thesis
    by (auto simp: corshell_script_run_def Let_def out go m viewed_def shell_viewed_def a)
qed

section \<open>The contract of a client\<close>

text \<open>
  What the shell asks of a client: it lets scripts go on, and its commands do what a view of them
  says.  A script then does what the view of it says.
\<close>

locale shell_client =
  fixes env :: "'t shell_env" and cv :: "'t \<Rightarrow> 'c" and d :: nat and cs :: "corshell_cmd list"
    and q :: "'c view_fp"
  assumes lets_go_on: "patient env cv"
    and does_commands: "described d env cs cv q"
begin

lemmas command_ok = command_view [OF lets_go_on does_commands]

lemmas script_ok = script_run_view [OF lets_go_on does_commands]

end

section \<open>The shell of a started program\<close>

lemma section_shell:
  assumes "system_ready sys" "same_cmds (snd (corshell_init cmds shell_lists)) (sys_shell sys)"
    and "cmds \<noteq> []" "\<forall>c \<in> set cmds. cc_cmd c \<noteq> None" "length cmds < 2 ^ 32"
  shows "shell_ready sys" "shell_cmds sys = cmds @ butlast registry_cmd_list @ butlast strtab_cmd_list"
proof -
  let ?sh = "sys_shell sys"
  have n: "unat (of_nat (length cmds) :: u32) = length cmds" "(of_nat (length cmds) :: u32) \<noteq> 0"
    using assms(3,5) by (auto simp: unsigned_of_nat take_bit_nat_eq_self word_of_nat_eq_0_iff dest: nat_dvd_not_less)
  have static: "cl_cmds (?sh corshell_static_list) = cmds" "cl_cnt (?sh corshell_static_list) = of_nat (length cmds)"
    using assms(2,3) by (simp_all add: same_cmds_def corshell_init_def)
  have others: "cl_cmds (?sh registry_cmds) = registry_cmd_list" "cl_cnt (?sh registry_cmds) = 0"
    "cl_cmds (?sh strtab_cmds) = strtab_cmd_list" "cl_cnt (?sh strtab_cmds) = 0"
    using assms(2,3)
    by (simp_all add: same_cmds_def corshell_init_def shell_lists_def corshell_static_list_def
        registry_cmds_def strtab_cmds_def)
  have c: "list_cmds (?sh corshell_static_list) = cmds"
    "list_cmds (?sh registry_cmds) = butlast registry_cmd_list"
    "list_cmds (?sh strtab_cmds) = butlast strtab_cmd_list"
    using n by (simp_all add: list_cmds_def static others registry_cmd_list_def strtab_cmd_list_def last_cmd_def)
  have "list_ok (?sh corshell_static_list)" "list_ok (?sh registry_cmds)" "list_ok (?sh strtab_cmds)"
    using n assms(3,4) unfolding list_ok_def c
    by (simp_all add: static others registry_cmd_list_def strtab_cmd_list_def last_cmd_def)
  then show "shell_ready sys"
    using assms(1) by (simp add: shell_ready_def shell_ok_def system_ready_def)
  show "shell_cmds sys = cmds @ butlast registry_cmd_list @ butlast strtab_cmd_list"
    by (simp add: shell_cmds_def all_cmds_def c)
qed

end
