(* ===== verification/Shell_Props.thy ===== *)
theory Shell_Props
  imports Shell_Help Shell_Script System_Props
begin

text \<open>
  The properties of the shell: which command runs, what the help prints, the words of a line.
\<close>

section \<open>A shell to try them on\<close>

text \<open>The client keeps what it is given to print.\<close>

definition echo_env :: "u8 list list shell_env" where
  "echo_env = \<lparr>env_out = (\<lambda>out s t. (0, case s of Some s \<Rightarrow> t @ [s] | None \<Rightarrow> t)),
               env_client = (\<lambda>i argv pg. Some (int i, pg)), env_stack = (\<lambda>i. of_nat i)\<rparr>"

definition demo_cmds :: "corshell_cmd list" where
  "demo_cmds = [\<lparr>cc_cmd = Some (ascii ''rem''), cc_fp = Corshell_rem, cc_usage = None\<rparr>,
                \<lparr>cc_cmd = Some (ascii ''nop''), cc_fp = Corshell_nop, cc_usage = Some (ascii ''[res]'')\<rparr>,
                \<lparr>cc_cmd = Some (ascii ''help''), cc_fp = Corshell_help, cc_usage = Some (ascii ''[filter]'')\<rparr>]"

definition demo_shell :: corshell where
  "demo_shell = (\<lambda>a. \<lparr>cl_next = None, cl_cmds = demo_cmds, cl_cnt = 3\<rparr>)"

definition demo_program :: "u8 list list program" where
  "demo_program = \<lparr>pg_client = [],
     pg_sys = (power_on (\<lambda>_. - 1) \<lparr>allocs = [], junk = (\<lambda>a i. of_nat (a + i)), next_addr = 0\<rparr>)
       \<lparr>sys_shell := demo_shell\<rparr>,
     pg_status = 0, pg_recurse = 0\<rparr>"

lemma demo_ok: "shell_ok (sys_shell (pg_sys demo_program)) []"
  by (auto simp: shell_ok_def installed_def demo_program_def demo_shell_def demo_cmds_def cl_nexts_def
      list_ok_def list_cmds_def)

lemma demo_all: "all_cmds (sys_shell (pg_sys demo_program)) [] = demo_cmds"
  by (simp add: all_cmds_def demo_program_def demo_shell_def demo_cmds_def list_cmds_def)

section \<open>Running a command\<close>

text \<open>
  C32: with any lists of commands installed, the command that runs is the first one, in the order of
  the installation, whose name is the first word; a word that names none gives the error message
  and \<^verbatim>\<open>CORSHELL_CMD_E_NOT_FOUND\<close>, and a word that begins with a number sign is a comment.
\<close>

theorem shell_runs_first:
  assumes "shell_ok (sys_shell (pg_sys pg)) xs"
  shows "corshell_cmd_run env fp argv pg =
    (if take 1 (arg0 argv) = [35] then Some (CORSHELL_CMD_E_OK, pg)
     else case find (\<lambda>c. cc_cmd c = Some (arg0 argv)) (all_cmds (sys_shell (pg_sys pg)) xs) of
       Some c \<Rightarrow> run_command env fp c (arg0 argv) argv pg
     | None \<Rightarrow> Some (CORSHELL_CMD_E_NOT_FOUND,
         corshell_print env CORSHELL_OUT_ERR
           (ascii ''ERROR: '' @ [39] @ arg0 argv @ [39] @ ascii '' not found!'' @ NEWLINE) pg))"
  by (rule cmd_run_first [OF assms])

theorem shell_runs_first_witness:
  "corshell_cmd_run echo_env (\<lambda>f argv pg. Some (if f = Corshell_rem then 0 else 7, pg))
     [ascii ''nop'', ascii ''1''] demo_program = Some (7, demo_program)"
  using shell_runs_first [OF demo_ok, of echo_env "\<lambda>f argv pg. Some (if f = Corshell_rem then 0 else 7, pg)"
      "[ascii ''nop'', ascii ''1'']"]
  by (simp add: demo_all demo_cmds_def arg0_def run_command_def ascii_def)

section \<open>The help\<close>

text \<open>
  C33: the help prints the usage of each name once, in the order of \<^verbatim>\<open>strcmp\<close>, whatever the order of
  the installation and however often a name is installed; of the commands of one name it shows the
  one that would run.  When there is only one name, its usage is printed twice.
\<close>

theorem help_prints_sorted:
  assumes "shell_ok (sys_shell (pg_sys pg)) xs"
    and "ns = sorted_list_of_set (set (cmd_names (all_cmds (sys_shell (pg_sys pg)) xs)))"
  shows "corshell_help env argv pg = Some (CORSHELL_CMD_E_OK,
    fold (help_line env (all_cmds (sys_shell (pg_sys pg)) xs)
            (if length argv > 1 then Some (argv ! 1) else None))
      (if tl ns = [] then ns @ ns else ns) pg)"
  by (rule help_sorted [OF assms])

theorem help_prints_sorted_witness:
  "corshell_help echo_env [ascii ''help''] demo_program =
    Some (0, demo_program\<lparr>pg_client :=
      [ascii ''help [filter]'' @ NEWLINE, ascii ''nop [res]'' @ NEWLINE]\<rparr>)"
proof -
  have "[ascii ''help'', ascii ''nop'', ascii ''rem''] =
      sorted_list_of_set (set (cmd_names (all_cmds (sys_shell (pg_sys demo_program)) [])))"
    by (simp add: demo_all cmd_names_def demo_cmds_def ascii_def)
  from help_prints_sorted [OF demo_ok this, of echo_env "[ascii ''help'']"] show ?thesis
    unfolding demo_all
    by (simp add: demo_cmds_def help_line_def corshell_print_def shell_out_def echo_env_def
        ascii_def NEWLINE_def CORSHELL_PRINT_BUFFER_SIZE_def CORSHELL_OUT_STD_def demo_program_def)
qed

section \<open>The words of a line\<close>

text \<open>Words between double quotes, a blank between them.\<close>

definition quoted :: "u8 list list \<Rightarrow> u8 list" where
  "quoted ws = concat (map (\<lambda>w. 34 # w @ [34, 32]) ws)"

lemma tokens_quoted: "\<forall>w \<in> set ws. 34 \<notin> set w \<Longrightarrow> tokens (quoted ws) = ws"
proof (induction ws)
  case (Cons w ws)
  then have w: "takeWhile (\<lambda>b. b \<noteq> 34) (w @ 34 # 32 # quoted ws) = w"
    by (subst takeWhile_append2) auto
  have "tokens (32 # quoted ws) = tokens (quoted ws)" by (simp add: isspace_def)
  with Cons w show ?case by (simp add: quoted_def isspace_def)
qed (simp add: quoted_def)

text \<open>
  C34: splitting a line of words between double quotes gives back the words, the empty ones too, as
  far as there is room for them in \<^verbatim>\<open>argv\<close>.
\<close>

theorem split_quoted:
  assumes "\<forall>w \<in> set ws. 34 \<notin> set w \<and> 0 \<notin> set w" "length (quoted ws) < 2 ^ 32" "0 < argv_size"
  shows "\<exists>argv buf. corshell_cmd_split (quoted ws @ 0 # r) (length (quoted ws)) argv_size = Some (argv, buf) \<and>
    map (\<lambda>off. cstr (drop off buf)) argv = map Some (take argv_size ws)"
proof -
  have "0 \<notin> set (quoted ws)" using assms(1) by (auto simp: quoted_def)
  from split_words [OF this order_refl assms(2,3), of r] show ?thesis
    using tokens_quoted [of ws] assms(1) by auto
qed

theorem split_quoted_witness:
  "\<exists>argv buf. corshell_cmd_split [34, 97, 32, 98, 34, 32, 34, 34, 32, 0, 9] 9 13 = Some (argv, buf) \<and>
    map (\<lambda>off. cstr (drop off buf)) argv = [Some [97, 32, 98], Some []]"
proof -
  have q: "quoted [[97, 32, 98], []] = [34, 97, 32, 98, 34, 32, 34, 34, 32]"
    and len: "length [34 :: u8, 97, 32, 98, 34, 32, 34, 34, 32] = 9"
    by (simp_all add: quoted_def)
  have "\<forall>w \<in> set [[97, 32, 98], [] :: u8 list]. 34 \<notin> set w \<and> 0 \<notin> set w" by simp
  from split_quoted [OF this, of 13 "[9]", unfolded q len] show ?thesis
    by simp
qed

section \<open>The commands of the modules\<close>

text \<open>
  C35: The four commands that change a single entry act on the two maps of the program.  \<^verbatim>\<open>reg\<close> and
  \<^verbatim>\<open>strtab\<close> with a key and a value store the value with its terminator, and \<^verbatim>\<open>regdel\<close> removes a key.
  \<^verbatim>\<open>regadd\<close> stores the value when the key has none, or an empty one; when it has a value that is not
  empty it answers \<^verbatim>\<open>CORSHELL_CMD_E_EXIST\<close> and leaves the maps alone.  They print what they answer, and
  leave the shell as it is.
\<close>

theorem commands_update:
  assumes "system_ready (pg_sys pg)" "\<forall>w \<in> set argv. 0 \<notin> set w \<and> length w < 2 ^ 31"
    and "store_cmd f argv (store_of (pg_sys pg)) = Some (res, line, st)"
  shows "\<exists>sys. shell_fp_run env f argv pg = Some (res, printf_std env line (pg\<lparr>pg_sys := sys\<rparr>)) \<and>
    system_ready sys \<and> store_of sys = st \<and> sys_shell sys = sys_shell (pg_sys pg)"
  by (rule commands_store [OF assms])

text \<open>The program after its start, with the commands of the shell.\<close>

definition started_program :: "system \<Rightarrow> u8 list list program" where
  "started_program sys = \<lparr>pg_client = [], pg_sys = sys, pg_status = 0, pg_recurse = 0\<rparr>"

theorem commands_update_witness:
  "\<exists>sys sys'. main_start demo_cmds (power_on erased_dev good_heap) = Some sys \<and>
    shell_fp_run echo_env Corshell_regadd [ascii ''regadd'', ascii ''test'', ascii ''x''] (started_program sys) =
      Some (CORSHELL_CMD_E_EXIST, printf_std echo_env (ascii ''registry setting test exists'' @ NEWLINE)
        (started_program sys')) \<and>
    store_of sys' = store_of sys"
proof -
  obtain sys where s: "main_start demo_cmds (power_on erased_dev good_heap) = Some sys" "system_ready sys"
    "store_of sys = ([key24 [116, 101, 115, 116] \<mapsto> [49, 50, 51, 0]],
                    [le32 999 \<mapsto> [116, 101, 115, 116, 0]])"
    using main_start_ok [OF good_heap_plenty erased_unformatted] by blast
  have "store_cmd Corshell_regadd [ascii ''regadd'', ascii ''test'', ascii ''x''] (store_of sys) =
      Some (CORSHELL_CMD_E_EXIST, ascii ''registry setting test exists'' @ NEWLINE, store_of sys)"
    by (simp add: s(3) ascii_def nonempty_def)
  with commands_update [of "started_program sys" "[ascii ''regadd'', ascii ''test'', ascii ''x'']"
      Corshell_regadd _ _ _ echo_env] s show ?thesis
    by (auto simp: started_program_def ascii_def)
qed

section \<open>Scripts\<close>

text \<open>
  C36: a script is the fold of its lines over the maps: each line is translated by the handlers of
  the program, split into words, and run as a command; after a command that fails, the lines up to
  one that handles or clears the error are skipped; the result is the last error, or else the status
  of the shell.  The commands are those that a view \<open>q\<close> describes, at least the ones that name an
  entry.  The program is ready for the next script, and its nesting counter is as it was.
\<close>

theorem script_refines:
  assumes "patient env cv" and "described d env cs cv q" and "shell_viewed cs cv w pg"
    and "unat (pg_recurse pg) + Suc d < 2 ^ 32" and "view_script q cs t w = Some (res, w')"
  shows "\<exists>pg'. corshell_script_run env (shell_fp_run env) name (t @ z # r) (int (length t)) pg = Some (res, pg') \<and>
    shell_viewed cs cv w' pg' \<and> pg_recurse pg' = pg_recurse pg"
  by (rule script_run_view [OF assms])

lemma pieces_plain: "\<forall>c \<in> set s. c \<noteq> 91 \<and> c \<noteq> 60 \<and> c \<noteq> 92 \<Longrightarrow> pieces running_inst s = map Lit s"
  by (induction s) (simp_all add: running_pieces)

lemma expand_plain: "\<forall>c \<in> set s. c \<noteq> 91 \<and> c \<noteq> 60 \<and> c \<noteq> 92 \<Longrightarrow> expand running_inst L s = s"
  by (simp add: expand_def pieces_plain comp_def render_def)

text \<open>Lines without tokens and escapes.\<close>

lemma plain_line:
  assumes "\<forall>c \<in> set s. c \<noteq> 91 \<and> c \<noteq> 60 \<and> c \<noteq> 92 \<and> c \<noteq> 0" "length s < CORSHELL_LINE_SIZE_MAX"
  shows "line_ok st s" "line_tokens st s = take 13 (tokens s)"
proof -
  have p: "pieces running_inst s = map Lit s" "expand running_inst (store_value st) s = s"
    using assms(1) by (auto intro: pieces_plain expand_plain)
  show "line_ok st s"
    using assms by (auto simp: line_ok_def text_ok_def p CORSHELL_LINE_SIZE_MAX_def CORSHELL_LINE_STRSUB_SIZE_MAX_def)
  have s: "takeWhile (\<lambda>c. c \<noteq> 0) s = s" using assms(1) by (intro takeWhile_no_NUL) auto
  show "line_tokens st s = take 13 (tokens s)"
    unfolding line_tokens_def p(2) s by (simp add: CORSHELL_ARGC_MAX_def)
qed

text \<open>The shell of the started program.\<close>

lemma started_shell:
  assumes "system_ready sys" "same_cmds (snd (corshell_init demo_cmds shell_lists)) (sys_shell sys)"
  shows "shell_ready sys" "shell_cmds sys = demo_cmds @ butlast registry_cmd_list @ butlast strtab_cmd_list"
proof -
  have d: "demo_cmds \<noteq> []" "\<forall>c \<in> set demo_cmds. cc_cmd c \<noteq> None" "length demo_cmds < 2 ^ 32"
    by (simp_all add: demo_cmds_def)
  show "shell_ready sys" "shell_cmds sys = demo_cmds @ butlast registry_cmd_list @ butlast strtab_cmd_list"
    by (rule section_shell [OF assms d])+
qed

text \<open>
  A script of three lines: \<^verbatim>\<open>regadd a b\<close>, then \<^verbatim>\<open>regadd a c\<close>, which fails, and \<^verbatim>\<open>regdel a\<close>, which is
  skipped.
\<close>

definition demo_text :: "u8 list" where
  "demo_text = ascii ''regadd a b'' @ [10] @ ascii ''regadd a c'' @ [10] @ ascii ''regdel a''"

lemma demo_lines: "script_lines demo_text =
    [(ascii ''regadd a b'', True, 1), (ascii ''regadd a c'', True, 1), (ascii ''regdel a'', False, 0)]"
  unfolding demo_text_def ascii_def
  by (subst script_lines.simps, simp add: first_line_def eols_def is_eol_def CORSHELL_LINE_SIZE_MAX_def)+

lemma demo_tokens:
  "tokens (ascii ''regadd a b'') = [ascii ''regadd'', ascii ''a'', ascii ''b'']"
  "tokens (ascii ''regadd a c'') = [ascii ''regadd'', ascii ''a'', ascii ''c'']"
  "tokens (ascii ''regdel a'') = [ascii ''regdel'', ascii ''a'']"
  by (simp_all add: ascii_def isspace_def)

definition demo_view :: "store \<Rightarrow> unit shell_view" where
  "demo_view st = \<lparr>sw_store = st, sw_status = 0, sw_client = ()\<rparr>"

definition demo_store :: store where
  "demo_store = ([key24 (ascii ''test'') \<mapsto> ascii ''123'' @ [0]], [le32 999 \<mapsto> ascii ''test'' @ [0]])"

definition demo_store' :: store where
  "demo_store' = ([key24 (ascii ''test'') \<mapsto> ascii ''123'' @ [0], key24 (ascii ''a'') \<mapsto> ascii ''b'' @ [0]],
                  [le32 999 \<mapsto> ascii ''test'' @ [0]])"

lemma demo_keys: "key24 (ascii ''a'') \<noteq> key24 (ascii ''test'')"
  by (simp add: key24_def ascii_def)

definition demo_error :: "store \<Rightarrow> unit script_view" where
  "demo_error st = \<lparr>sv_status = CORSHELL_CMD_E_EXIST, sv_last = CORSHELL_CMD_E_EXIST,
     sv_error = StateInError, sv_shell = demo_view st\<rparr>"

lemma demo_script:
  assumes "cs = demo_cmds @ butlast registry_cmd_list @ butlast strtab_cmd_list"
  shows "view_script store_view cs demo_text (demo_view demo_store) =
    Some (CORSHELL_CMD_E_EXIST, (demo_view demo_store')\<lparr>sw_status := CORSHELL_CMD_E_EXIST\<rparr>)"
proof -
  have f: "find (\<lambda>c. cc_cmd c = Some (ascii ''regadd'')) cs =
      Some \<lparr>cc_cmd = Some (ascii ''regadd''), cc_fp = Corshell_regadd, cc_usage = Some (ascii ''<key> <value>'')\<rparr>"
    by (simp add: assms demo_cmds_def registry_cmd_list_def last_cmd_def ascii_def)
  have w: "arg0 [ascii ''regadd'', x, y] = ascii ''regadd''" "take (Suc 0) (ascii ''regadd'') \<noteq> [35]"
    "ascii ''regadd'' \<noteq> ascii '':exit''" "ascii ''regadd'' \<noteq> ascii '':onerror''"
    "ascii ''regadd'' \<noteq> ascii '':clearerror''" "take (Suc 0) (ascii ''a'') \<noteq> [63]" for x y
    by (simp_all add: arg0_def ascii_def)
  have c1: "store_cmd Corshell_regadd [ascii ''regadd'', ascii ''a'', ascii ''b''] demo_store =
      Some (0, ok_or_err 0 @ NEWLINE, demo_store')"
    using demo_keys by (simp add: demo_store_def demo_store'_def nonempty_def ascii_def)
  have c2: "store_cmd Corshell_regadd [ascii ''regadd'', ascii ''a'', ascii ''c''] demo_store' =
      Some (CORSHELL_CMD_E_EXIST, ascii ''registry setting a exists'' @ NEWLINE, demo_store')"
    by (simp add: demo_store'_def nonempty_def ascii_def)
  have l1: "view_line store_view cs [ascii ''regadd'', ascii ''a'', ascii ''b''] (view_start (demo_view demo_store)) =
      Some (True, view_start (demo_view demo_store'))"
    by (simp add: view_line_def view_command_def view_start_def demo_view_def store_view_def w f c1 del: store_cmd.simps)
  have l2: "view_line store_view cs [ascii ''regadd'', ascii ''a'', ascii ''c''] (view_start (demo_view demo_store')) =
      Some (True, demo_error demo_store')"
    by (simp add: view_line_def view_command_def view_start_def demo_view_def demo_error_def store_view_def w f c2
        del: store_cmd.simps)
  have l3: "view_line store_view cs [ascii ''regdel'', ascii ''a''] (demo_error demo_store') =
      Some (True, demo_error demo_store')"
    by (simp add: view_line_def demo_error_def arg0_def ascii_def)
  have p: "line_ok st (ascii ''regadd a b'')" "line_ok st (ascii ''regadd a c'')" "line_ok st (ascii ''regdel a'')"
    "line_tokens st (ascii ''regadd a b'') = [ascii ''regadd'', ascii ''a'', ascii ''b'']"
    "line_tokens st (ascii ''regadd a c'') = [ascii ''regadd'', ascii ''a'', ascii ''c'']"
    "line_tokens st (ascii ''regdel a'') = [ascii ''regdel'', ascii ''a'']" for st
    using plain_line [of "ascii ''regadd a b''" st] plain_line [of "ascii ''regadd a c''" st]
      plain_line [of "ascii ''regdel a''" st]
    unfolding demo_tokens by (simp_all add: ascii_def CORSHELL_LINE_SIZE_MAX_def)
  have "view_lines store_view cs (script_lines demo_text) (view_start (demo_view demo_store)) = Some (demo_error demo_store')"
    unfolding demo_lines
    by (simp only: view_lines.simps p l1 l2 l3 option.case prod.case if_True not_True_eq_False if_False)
  then show ?thesis by (simp add: view_script_def demo_error_def Let_def demo_view_def)
qed

theorem script_refines_witness:
  "\<exists>sys pg'. main_start demo_cmds (power_on erased_dev good_heap) = Some sys \<and>
    corshell_script_run echo_env (shell_fp_run echo_env) [] (demo_text @ [0]) (int (length demo_text))
      (started_program sys) = Some (CORSHELL_CMD_E_EXIST, pg') \<and>
    fst (store_of (pg_sys pg')) (key24 (ascii ''a'')) = Some (ascii ''b'' @ [0])"
proof -
  obtain sys where s: "main_start demo_cmds (power_on erased_dev good_heap) = Some sys" "system_ready sys"
    "store_of sys = demo_store" "same_cmds (snd (corshell_init demo_cmds shell_lists)) (sys_shell sys)"
    using main_start_ok [OF good_heap_plenty erased_unformatted, of demo_cmds]
    by (auto simp: demo_store_def ascii_def)
  note sh = started_shell [OF s(2,4)]
  let ?cs = "demo_cmds @ butlast registry_cmd_list @ butlast strtab_cmd_list" and ?cv = "\<lambda>t :: u8 list list. ()"
  have p: "patient echo_env ?cv" by (simp add: patient_def echo_env_def)
  have v: "shell_viewed ?cs ?cv (demo_view demo_store) (started_program sys)"
    using sh s(3) by (simp add: shell_viewed_def started_program_def demo_view_def)
  have "unat (pg_recurse (started_program sys)) + Suc 0 < 2 ^ 32" by (simp add: started_program_def)
  from script_refines [OF p store_described [OF p, of 0] v this demo_script [OF refl], of "[]" 0 "[]"]
  obtain pg' where run: "corshell_script_run echo_env (shell_fp_run echo_env) [] (demo_text @ [0])
      (int (length demo_text)) (started_program sys) = Some (CORSHELL_CMD_E_EXIST, pg')"
    "store_of (pg_sys pg') = demo_store'"
    by (auto simp: shell_viewed_def demo_view_def)
  from run(2) have "fst (store_of (pg_sys pg')) (key24 (ascii ''a'')) = Some (ascii ''b'' @ [0])"
    by (simp add: demo_store'_def)
  with s(1) run(1) show ?thesis by blast
qed

end
