(* ===== verification/Registry_List.thy ===== *)
theory Registry_List
  imports Nvol_Sorted Shell_Props "HOL-Library.List_Lexorder"
begin

text \<open>
  Listing the registry: the command \<^verbatim>\<open>reg\<close> prints each entry once, in the order of the keys.
\<close>

unbundle bit_operations_syntax

section \<open>The order of the keys\<close>

text \<open>A key as \<^verbatim>\<open>strncpy\<close> stores it: behind a terminator there are only terminators.\<close>

fun padded :: "u8 list \<Rightarrow> bool" where
  "padded [] = True"
| "padded (c # cs) = (if c = 0 then set cs \<subseteq> {0} else padded cs)"

lemma zeros_eq: "set xs \<subseteq> {0} \<Longrightarrow> set ys \<subseteq> {0} \<Longrightarrow> length xs = length ys \<Longrightarrow> xs = (ys :: u8 list)"
  by (induction xs ys rule: list_induct2') auto

lemma strcmp_padded:
  "length a = length b \<Longrightarrow> padded a \<Longrightarrow> padded b \<Longrightarrow> a \<noteq> b \<Longrightarrow>
   \<exists>c. strcmp (a @ r) (b @ r') = Some c \<and> (c < 0 \<longleftrightarrow> a < b) \<and> (c > 0 \<longleftrightarrow> b < a)"
proof (induction a b rule: list_induct2)
  case (Cons x xs y ys)
  show ?case
  proof (cases "x = y")
    case True
    with Cons zeros_eq [of xs ys] show ?thesis by (auto split: if_splits)
  next
    case False
    then show ?thesis by (cases "x < y") (auto simp: not_less)
  qed
qed simp

lemma reg_key_order: "\<forall>k \<in> K. length k = 24 \<and> padded k \<Longrightarrow> key_order reg_cmp id K"
  using strcmp_padded unfolding key_order_def reg_cmp_def by fastforce

lemma padded_zeros: "padded (replicate n 0)"
  by (cases n) auto

lemma padded_append: "0 \<notin> set a \<Longrightarrow> padded (a @ replicate n 0)"
  by (induction a) (auto simp: padded_zeros)

lemma padded_key24: "0 \<notin> set s \<Longrightarrow> padded (key24 s)"
  unfolding key24_def by (rule padded_append) (auto dest: in_set_takeD)

lemma strncpy_padded: "padded k \<Longrightarrow> strncpy k (length k) = Some k"
proof -
  assume "padded k"
  then have "takeWhile (\<lambda>c. c \<noteq> 0) k @ replicate (length k - length (takeWhile (\<lambda>c. c \<noteq> 0) k)) 0 = k"
    by (induction k) (auto intro!: replicate_eqI [symmetric])
  then show ?thesis by (simp add: strncpy_def Let_def)
qed

text \<open>The text of a buffer, up to a terminator or the end.\<close>

abbreviation text_of :: "u8 list \<Rightarrow> u8 list" where
  "text_of bs \<equiv> takeWhile (\<lambda>c. c \<noteq> 0) bs"

lemma text_of_append: "0 \<in> set a \<Longrightarrow> text_of (a @ b) = text_of a"
  by (induction a) auto

lemma cstr_key: "cstr (k @ [0]) = Some (text_of k)"
  by (auto simp: cstr_def) (induction k, auto)

section \<open>The iteration\<close>

lemma yield_ok:
  assumes "take (24 + length v) (key_and_data (registry_value sys)) = k @ v"
    and "rec_buf registry_config (registry_value sys)" "length k = 24" "padded k" "v \<noteq> []" "length b = 224"
  shows "registry_yield (int (24 + length v)) b 224 sys =
    Some (int (length v), Some (k @ [0]), v @ drop (length v) b, sys\<lparr>registry_key := k @ [0]\<rparr>) \<and> length v \<le> 224"
proof -
  let ?kd = "key_and_data (registry_value sys)"
  have l: "length ?kd = 248" using assms(2) by (simp add: rec_buf_def)
  have "length (take (24 + length v) ?kd) = 24 + length v" using assms(1,3) by simp
  then have lv: "length v \<le> 224" using l by simp
  have "take 24 (take (24 + length v) ?kd) = k" "drop 24 (take (24 + length v) ?kd) = v"
    using assms(1,3) by simp_all
  then have "take 24 ?kd = k" "take (length v) (drop 24 ?kd) = v" by (simp_all add: drop_take)
  moreover from this strncpy_padded [OF assms(4)] have "strncpy (take 24 ?kd) 24 = Some k"
    using assms(3) by simp
  moreover have "(if int (length v) < 224 then int (length v) else 224) = int (length v)" using lv by simp
  ultimately show ?thesis
    using assms(5,6) l lv
    by (simp add: registry_yield_def Let_def REGISTRY_KEY_TYPE_LEN_def REGISTRY_KEY_LENGTH_def
        value_field_def buf_read_def buf_write_def)
qed

text \<open>Between two steps: the maps are as before, and \<open>ks\<close> are the keys still to come.\<close>

definition listing :: "system \<Rightarrow> u8 list list \<Rightarrow> system \<Rightarrow> bool" where
  "listing sys0 ks sys \<longleftrightarrow>
     system_ready sys \<and> store_of sys = store_of sys0 \<and> key_visits (reg_vol sys) (registry_it sys) ks"

text \<open>Keys as the registry stores them; values that are empty or hold a terminated text.\<close>

definition listable :: "(u8 list \<Rightarrow> u8 list option) \<Rightarrow> bool" where
  "listable r \<longleftrightarrow> (\<forall>k v. r k = Some v \<longrightarrow> length k = 24 \<and> padded k \<and> (v = [] \<or> 0 \<in> set v))"

text \<open>The entries before the first one with an empty value.\<close>

definition shown :: "(u8 list \<Rightarrow> u8 list option) \<Rightarrow> u8 list list \<Rightarrow> u8 list list" where
  "shown r ks = takeWhile (\<lambda>k. r k \<noteq> Some []) ks"

lemma others_ready:
  assumes "system_ready sys" "rec_buf registry_config rec"
  shows "system_ready (sys\<lparr>registry_value := rec, registry_it := it, registry_key := key\<rparr>) \<and>
    store_of (sys\<lparr>registry_value := rec, registry_it := it, registry_key := key\<rparr>) = store_of sys"
  using assms
  by (simp add: system_ready_def registry_inv_def strtab_inv_def store_of_def strtab_vol_map_def
      registry_vol_inv_def strtab_vol_inv_def reg_vol_def str_vol_def)

text \<open>What an iteration step hands to the loop.\<close>

definition turn ::
  "system \<Rightarrow> u8 list \<Rightarrow> u8 list list \<Rightarrow> (status \<times> u8 list option \<times> u8 list option \<times> system) option \<Rightarrow> bool" where
  "turn sys0 k ks step \<longleftrightarrow>
     (\<exists>v b sys. step = Some (int (length v), Some (k @ [0]), Some (v @ b), sys) \<and>
        fst (store_of sys0) k = Some v \<and> v \<noteq> [] \<and> length (v @ b) = 224 \<and> listing sys0 ks sys)"

lemma turn_yield:
  assumes start: "system_ready sys" "store_of sys = store_of sys0" and ok: "listable (fst (store_of sys0))"
    and v: "fst (store_of sys0) k = Some v" "v \<noteq> []" and rb: "rec_buf registry_config rec"
    and kv: "take (24 + length v) (key_and_data rec) = k @ v" and vis: "key_visits (reg_vol sys) it ks"
    and b: "length b = 224"
  shows "turn sys0 k ks (do { (res, key, val, sys) \<leftarrow>
      registry_yield (int (24 + length v)) b 224 (sys\<lparr>registry_value := rec, registry_it := it\<rparr>);
    Some (res, key, Some val, sys) })"
proof -
  let ?sys = "sys\<lparr>registry_value := rec, registry_it := it\<rparr>"
  have k: "length k = 24" "padded k" "v \<noteq> []" using ok v by (auto simp: listable_def)
  have y: "registry_yield (int (24 + length v)) b 224 ?sys =
      Some (int (length v), Some (k @ [0]), v @ drop (length v) b, ?sys\<lparr>registry_key := k @ [0]\<rparr>)"
    "length v \<le> 224"
    using yield_ok [of v ?sys k b] kv rb k b by simp_all
  have "reg_vol (?sys\<lparr>registry_key := k @ [0]\<rparr>) = reg_vol sys" by (simp add: reg_vol_def)
  then have "key_visits (reg_vol (?sys\<lparr>registry_key := k @ [0]\<rparr>)) it ks" using vis by (simp only:)
  moreover note others_ready [OF start(1) rb, of "k @ [0]" it] start(2)
  ultimately have "listing sys0 ks (?sys\<lparr>registry_key := k @ [0]\<rparr>)" by (simp add: listing_def)
  with y v b show ?thesis
    unfolding turn_def
    by (intro exI [of _ v] exI [of _ "drop (length v) b"] exI [of _ "?sys\<lparr>registry_key := k @ [0]\<rparr>"]) simp
qed

lemma next_turn:
  assumes "listing sys0 (k # ks) sys" "listable (fst (store_of sys0))" "length b = 224"
    "fst (store_of sys0) k \<noteq> Some []"
  shows "turn sys0 k ks (registry_next True (Some b) 224 sys)"
proof -
  have rdy: "system_ready sys" "store_of sys = store_of sys0"
    and vis: "key_visits (reg_vol sys) (registry_it sys) (k # ks)" using assms(1) by (simp_all add: listing_def)
  obtain v rec it where n: "nvol3_record_next registry_config (registry_value sys) (registry_it sys) (reg_vol sys) =
      Some (int (24 + length v), rec, it)" "vol_map ram_mem registry_config (reg_vol sys) k = Some v"
    "rec_buf registry_config rec" "take (24 + length v) (key_and_data rec) = k @ v"
    "key_visits (reg_vol sys) it ks"
    using reg.record_next_visit [OF _ ready_D(6) [OF rdy(1)] vis] ready_D(1) [OF rdy(1)]
    by (auto simp: registry_inv_def)
  have "fst (store_of sys0) k = Some v" using n(2) rdy(2) [symmetric] by (simp add: store_of_def)
  moreover from this assms(4) have "v \<noteq> []" by auto
  ultimately show ?thesis
    using turn_yield [OF rdy assms(2) _ _ n(3,4,5) assms(3)] n(1) by (simp add: registry_next_def)
qed

text \<open>An entry with an empty value is answered with an error.\<close>

lemma yield_empty:
  "registry_yield (int (24 + length [])) b 224 sys = Some (E_INVAL, None, b, sys)"
  by (simp add: registry_yield_def REGISTRY_KEY_TYPE_LEN_def REGISTRY_KEY_LENGTH_def)

lemma next_empty:
  assumes "listing sys0 (k # ks) sys" "fst (store_of sys0) k = Some []"
  shows "\<exists>sys'. registry_next True (Some b) 224 sys = Some (E_INVAL, None, Some b, sys') \<and>
    system_ready sys' \<and> store_of sys' = store_of sys0"
proof -
  have rdy: "system_ready sys" "store_of sys = store_of sys0"
    and vis: "key_visits (reg_vol sys) (registry_it sys) (k # ks)" using assms(1) by (simp_all add: listing_def)
  have "vol_map ram_mem registry_config (reg_vol sys) k = Some []"
    using assms(2) rdy(2) [symmetric] by (simp add: store_of_def)
  then obtain rec it where n: "nvol3_record_next registry_config (registry_value sys) (registry_it sys) (reg_vol sys) =
      Some (int (24 + length ([] :: u8 list)), rec, it)" "rec_buf registry_config rec"
    using reg.record_next_visit [OF _ ready_D(6) [OF rdy(1)] vis] ready_D(1) [OF rdy(1)]
    by (auto simp: registry_inv_def)
  have "registry_next True (Some b) 224 sys =
      Some (E_INVAL, None, Some b, sys\<lparr>registry_value := rec, registry_it := it\<rparr>)"
    unfolding registry_next_def n(1) by (simp add: yield_empty [simplified])
  moreover have "system_ready (sys\<lparr>registry_value := rec, registry_it := it\<rparr>) \<and>
      store_of (sys\<lparr>registry_value := rec, registry_it := it\<rparr>) = store_of sys"
    using others_ready [OF rdy(1) n(2), of "registry_key sys" it] by simp
  ultimately show ?thesis using rdy(2) by auto
qed

lemma next_end:
  assumes "listing sys0 [] sys"
  shows "\<exists>sys'. registry_next True (Some b) 224 sys = Some (E_EOF, None, Some b, sys') \<and>
    system_ready sys' \<and> store_of sys' = store_of sys0"
proof -
  have rdy: "system_ready sys" "store_of sys = store_of sys0"
    and vis: "key_visits (reg_vol sys) (registry_it sys) []" using assms by (simp_all add: listing_def)
  obtain it where n: "nvol3_record_next registry_config (registry_value sys) (registry_it sys) (reg_vol sys) =
      Some (E_EOF, registry_value sys, it)"
    using reg.record_next_end [OF vis] by blast
  have "system_ready (sys\<lparr>registry_it := it\<rparr>) \<and> store_of (sys\<lparr>registry_it := it\<rparr>) = store_of sys"
    using others_ready [OF rdy(1) ready_D(6) [OF rdy(1)], of "registry_key sys" it] by simp
  with n rdy(2) show ?thesis by (simp add: registry_next_def registry_yield_def REGISTRY_KEY_TYPE_LEN_def)
qed

lemma next_stop:
  assumes "listing sys0 ks sys" "shown (fst (store_of sys0)) ks = []"
  obtains res sys' where "registry_next True (Some b) 224 sys = Some (res, None, Some b, sys')" "res < 0"
    "system_ready sys'" "store_of sys' = store_of sys0"
proof (cases ks)
  case Nil
  then show ?thesis using next_end [of sys0 sys b] assms(1) that [of E_EOF] by auto
next
  case (Cons k ks')
  then have "fst (store_of sys0) k = Some []" using assms(2) by (simp add: shown_def split: if_splits)
  then show ?thesis using next_empty [of sys0 k ks' sys b] assms(1) Cons that [of E_INVAL] by auto
qed

section \<open>The listing\<close>

text \<open>The line of an entry: the key and a colon, filled to 24 columns, and the text of the value.\<close>

definition entry_text :: "u8 list \<Rightarrow> u8 list \<Rightarrow> u8 list" where
  "entry_text k v = text_of k @ [58] @ replicate (max 1 (23 - length (text_of k))) 32 @ text_of v @ NEWLINE"

definition print_entry :: "'t shell_env \<Rightarrow> (u8 list \<Rightarrow> u8 list option) \<Rightarrow> u8 list \<Rightarrow> 't \<Rightarrow> 't" where
  "print_entry env r k t = snd (env_out env CORSHELL_OUT_ERR (Some (entry_text k (the (r k)))) t)"

lemma reg_print_entry:
  assumes "length k = 24" "0 \<in> set v" "length (v @ b) = 224"
  shows "reg_print env (text_of k) (v @ b) pg =
    Some (pg\<lparr>pg_client := snd (env_out env CORSHELL_OUT_ERR (Some (entry_text k v)) (pg_client pg))\<rparr>)"
proof -
  have l: "length (text_of k) \<le> 24" "length (text_of v) \<le> 224"
    using assms length_takeWhile_le [of "\<lambda>c. c \<noteq> 0" k] length_takeWhile_le [of "\<lambda>c. c \<noteq> 0" v] by simp_all
  have "cstr (v @ b) = Some (text_of v)" using assms(2) by (simp add: cstr_def text_of_append)
  with l show ?thesis
    by (simp add: reg_print_def corshell_print_table_def Let_def CORSHELL_PRINT_BUFFER_SIZE_def ascii_def
        entry_text_def shell_out_def NEWLINE_def split: prod.split)
qed

definition chosen :: "u8 list option \<Rightarrow> u8 list \<Rightarrow> bool" where
  "chosen search k \<longleftrightarrow> search = None \<or> strstr (text_of k) (the search)"

abbreviation after ::
  "'t shell_env \<Rightarrow> (u8 list \<Rightarrow> u8 list option) \<Rightarrow> u8 list list \<Rightarrow> system \<Rightarrow> 't program \<Rightarrow> 't program" where
  "after env r ks sys pg \<equiv> pg\<lparr>pg_client := fold (print_entry env r) ks (pg_client pg), pg_sys := sys\<rparr>"

lemma reg_loop_step:
  assumes ok: "listable (fst (store_of sys0))" and t: "turn sys0 k ks (Some (res, key, val, sys))"
  obtains b where "length b = 224" "listing sys0 ks sys"
    "reg_loop env search 224 res key val cnt (pg\<lparr>pg_sys := sys\<rparr>) =
     do { (res, key, val, sys') \<leftarrow> registry_next True (Some b) 224 sys;
          reg_loop env search 224 res key val (cnt + of_nat (length (filter (chosen search) [k])))
            (after env (fst (store_of sys0)) (filter (chosen search) [k]) sys' pg) }"
proof -
  obtain v b where t: "res = int (length v)" "key = Some (k @ [0])" "val = Some (v @ b)"
    "fst (store_of sys0) k = Some v" "length (v @ b) = 224" "listing sys0 ks sys" "v \<noteq> []"
    using t by (auto simp: turn_def)
  have kv: "length k = 24" "0 \<in> set v" using ok t(4,7) by (auto simp: listable_def)
  have "reg_loop env search 224 res key val cnt (pg\<lparr>pg_sys := sys\<rparr>) =
     do { (res, key, val, sys') \<leftarrow> registry_next True (Some (v @ b)) 224 sys;
          reg_loop env search 224 res key val (cnt + of_nat (length (filter (chosen search) [k])))
            (after env (fst (store_of sys0)) (filter (chosen search) [k]) sys' pg) }"
    using reg_print_entry [OF kv t(5), of env "pg\<lparr>pg_sys := sys\<rparr>"] t(1-4)
    by (subst reg_loop.simps) (simp add: cstr_key chosen_def print_entry_def)
  with t(5,6) that show ?thesis by blast
qed

lemma reg_loop_stop:
  assumes ok: "listable (fst (store_of sys0))" and t: "turn sys0 k ks (Some (res, key, val, sys))"
    and e: "shown (fst (store_of sys0)) ks = []"
  shows "\<exists>val' sys'. reg_loop env search 224 res key val cnt (pg\<lparr>pg_sys := sys\<rparr>) =
      Some (cnt + of_nat (length (filter (chosen search) [k])), val',
            after env (fst (store_of sys0)) (filter (chosen search) [k]) sys' pg) \<and>
      system_ready sys' \<and> store_of sys' = store_of sys0"
proof -
  obtain b where b: "listing sys0 ks sys"
    "reg_loop env search 224 res key val cnt (pg\<lparr>pg_sys := sys\<rparr>) =
     do { (res, key, val, sys') \<leftarrow> registry_next True (Some b) 224 sys;
          reg_loop env search 224 res key val (cnt + of_nat (length (filter (chosen search) [k])))
            (after env (fst (store_of sys0)) (filter (chosen search) [k]) sys' pg) }"
    by (rule reg_loop_step [OF ok t])
  obtain res' sys' where n: "registry_next True (Some b) 224 sys = Some (res', None, Some b, sys')" "res' < 0"
    "system_ready sys'" "store_of sys' = store_of sys0"
    by (rule next_stop [OF b(1) e])
  have "reg_loop env search 224 res' None (Some b) cnt' pg' = Some (cnt', Some b, pg')" for cnt' pg'
    using n(2) by (subst reg_loop.simps) simp
  with b(2) n show ?thesis by (intro exI [of _ "Some b"] exI [of _ sys']) simp
qed

lemma reg_loop_ok:
  assumes ok: "listable (fst (store_of sys0))"
  shows "turn sys0 k ks (Some (res, key, val, sys)) \<Longrightarrow>
    \<exists>val' sys'. reg_loop env search 224 res key val cnt (pg\<lparr>pg_sys := sys\<rparr>) =
      Some (cnt + of_nat (length (filter (chosen search) (k # shown (fst (store_of sys0)) ks))), val',
            after env (fst (store_of sys0)) (filter (chosen search) (k # shown (fst (store_of sys0)) ks)) sys' pg) \<and>
      system_ready sys' \<and> store_of sys' = store_of sys0"
proof (induction ks arbitrary: k res key val sys cnt pg)
  case Nil
  have e: "shown (fst (store_of sys0)) [] = []" by (simp add: shown_def)
  show ?case unfolding e by (rule reg_loop_stop [OF ok Nil e])
next
  case (Cons a ks)
  let ?r = "fst (store_of sys0)"
  show ?case
  proof (cases "?r a = Some []")
    case True
    then have e: "shown ?r (a # ks) = []" by (simp add: shown_def)
    show ?thesis unfolding e by (rule reg_loop_stop [OF ok Cons.prems e])
  next
    case False
    then have e: "shown ?r (a # ks) = a # shown ?r ks" by (simp add: shown_def)
    obtain b where b: "length b = 224" "listing sys0 (a # ks) sys"
      "reg_loop env search 224 res key val cnt (pg\<lparr>pg_sys := sys\<rparr>) =
       do { (res, key, val, sys') \<leftarrow> registry_next True (Some b) 224 sys;
            reg_loop env search 224 res key val (cnt + of_nat (length (filter (chosen search) [k])))
              (after env ?r (filter (chosen search) [k]) sys' pg) }"
      by (rule reg_loop_step [OF ok Cons.prems])
    have t: "turn sys0 a ks (registry_next True (Some b) 224 sys)" by (rule next_turn [OF b(2) ok b(1) False])
    then obtain res' key' val' sys1 where n: "registry_next True (Some b) 224 sys = Some (res', key', val', sys1)"
      by (auto simp: turn_def)
    let ?pg = "pg\<lparr>pg_client := fold (print_entry env ?r) (filter (chosen search) [k]) (pg_client pg)\<rparr>"
    have "after env ?r (filter (chosen search) [k]) sys1 pg = ?pg\<lparr>pg_sys := sys1\<rparr>" by simp
    with b(3) n have "reg_loop env search 224 res key val cnt (pg\<lparr>pg_sys := sys\<rparr>) =
        reg_loop env search 224 res' key' val' (cnt + of_nat (length (filter (chosen search) [k]))) (?pg\<lparr>pg_sys := sys1\<rparr>)"
      by simp
    with Cons.IH [OF t [unfolded n], of "cnt + of_nat (length (filter (chosen search) [k]))" ?pg]
    show ?thesis unfolding e by (auto simp: ac_simps)
  qed
qed

text \<open>From the first entry on.\<close>

lemma reg_show_ok:
  assumes rdy: "system_ready (pg_sys pg)" and r: "r = fst (store_of (pg_sys pg))" and ok: "listable r"
    and b: "length b = 224"
  shows "\<exists>val' sys'. reg_show env search (Some b) 224 pg =
      Some (of_nat (length (filter (chosen search) (shown r (sorted_list_of_set (dom r))))), val',
            after env r (filter (chosen search) (shown r (sorted_list_of_set (dom r)))) sys' pg) \<and>
      system_ready sys' \<and> store_of sys' = store_of (pg_sys pg)"
proof -
  let ?sys = "pg_sys pg"
  have inv: "nvol_inv ram_mem registry_config (reg_vol ?sys)"
    and r': "vol_map ram_mem registry_config (reg_vol ?sys) = r"
    using ready_D(1) [OF rdy] r by (simp_all add: registry_inv_def store_of_def)
  have "key_order reg_cmp id (dom r)"
    by (rule reg_key_order) (use ok in \<open>auto simp: listable_def\<close>)
  then obtain ks where ks: "set ks = dom r" "sorted_wrt (\<lambda>a b. id a < id b) ks" and
    first: "case ks of
       [] \<Rightarrow> \<exists>it. nvol3_record_first registry_config (registry_value ?sys) (Some reg_cmp) (reg_vol ?sys) =
         Some (E_EOF, registry_value ?sys, it)
     | k # ks' \<Rightarrow> \<exists>v rec' it. nvol3_record_first registry_config (registry_value ?sys) (Some reg_cmp) (reg_vol ?sys) =
           Some (int (24 + length v), rec', it) \<and>
         r k = Some v \<and> rec_buf registry_config rec' \<and>
         take (24 + length v) (key_and_data rec') = k @ v \<and> key_at (reg_vol ?sys) it k \<and>
         key_visits (reg_vol ?sys) it ks'"
    using reg.record_first_sorted [OF inv ready_D(6) [OF rdy], of reg_cmp id] unfolding r' reg_sizes by blast
  have "sorted_list_of_set (set ks) = ks"
    using ks(2) by (intro sorted_list_of_set.idem_if_sorted_distinct) (simp_all add: strict_sorted_iff)
  then have L: "sorted_list_of_set (dom r) = ks" by (simp add: ks(1))
  show ?thesis
  proof (cases ks)
    case Nil
    then obtain it where n: "nvol3_record_first registry_config (registry_value ?sys) (Some reg_cmp) (reg_vol ?sys) =
        Some (E_EOF, registry_value ?sys, it)" using first by auto
    have "reg_loop env search 224 E_EOF None (Some b) 0 pg' = Some (0, Some b, pg')" for pg'
      by (subst reg_loop.simps) simp
    with n others_ready [OF rdy ready_D(6) [OF rdy], of "registry_key ?sys" it] show ?thesis
      by (intro exI [of _ "Some b"] exI [of _ "?sys\<lparr>registry_it := it\<rparr>"])
         (simp add: L Nil shown_def reg_show_def registry_first_def registry_yield_def REGISTRY_KEY_TYPE_LEN_def)
  next
    case (Cons k ks')
    then obtain v rec it where n: "nvol3_record_first registry_config (registry_value ?sys) (Some reg_cmp) (reg_vol ?sys) =
        Some (int (24 + length v), rec, it)" "r k = Some v" "rec_buf registry_config rec"
      "take (24 + length v) (key_and_data rec) = k @ v" "key_visits (reg_vol ?sys) it ks'"
      using first by auto
    show ?thesis
    proof (cases "v = []")
      case True
      let ?s = "?sys\<lparr>registry_value := rec, registry_it := it\<rparr>"
      have e: "shown r (k # ks') = []" using n(2) True by (simp add: shown_def)
      have "reg_loop env search 224 E_INVAL None (Some b) 0 pg' = Some (0, Some b, pg')" for pg'
        by (subst reg_loop.simps) simp
      then have "reg_show env search (Some b) 224 pg = Some (0, Some b, pg\<lparr>pg_sys := ?s\<rparr>)"
        using n(1) True
        by (simp add: reg_show_def registry_first_def registry_yield_def REGISTRY_KEY_TYPE_LEN_def REGISTRY_KEY_LENGTH_def)
      moreover have "system_ready ?s \<and> store_of ?s = store_of ?sys"
        using others_ready [OF rdy n(3), of "registry_key ?sys" it] by simp
      ultimately show ?thesis
        unfolding L Cons e by (intro exI [of _ "Some b"] exI [of _ ?s]) simp
    next
      case False
      have e: "shown r (k # ks') = k # shown r ks'" using n(2) False by (simp add: shown_def)
      have t: "turn ?sys k ks' (registry_first True (Some b) 224 ?sys)"
        using turn_yield [OF rdy refl _ _ False n(3,4,5) b] n(1,2) ok r by (simp add: registry_first_def)
      then obtain res key val sys1 where f: "registry_first True (Some b) 224 ?sys = Some (res, key, val, sys1)"
        by (auto simp: turn_def)
      from reg_loop_ok [OF ok [unfolded r] t [unfolded f], of env search 0 pg] f show ?thesis
        unfolding L Cons e by (simp add: reg_show_def r)
    qed
  qed
qed

text \<open>
  C37: The listing of the registry.  The command \<^verbatim>\<open>reg\<close> goes through the entries in the order of their
  keys and prints one line for each whose key contains the search word, or for each when there is
  none, and at last the number of lines.  It stops early at the first entry whose value is empty:
  \<^verbatim>\<open>registry_next\<close> answers E_INVAL there, and neither this entry nor any behind it is printed.  It lists
  when it is given no word, or a word that is no key or the key of an empty value.  The entries are
  left as they are.  The values that are not empty are required to hold a terminated text: the
  command prints them as strings.
\<close>

theorem registry_lists:
  assumes "system_ready (pg_sys pg)" and "r = fst (store_of (pg_sys pg))" and "listable r"
    and "argv = [w] \<and> search = None \<or>
         argv = [w, s] \<and> search = Some s \<and> 0 \<notin> set s \<and> nonempty (r (key24 s)) = None"
    and "ks = filter (chosen search) (shown r (sorted_list_of_set (dom r)))"
  shows "\<exists>sys. corshell_reg env argv pg = Some (CORSHELL_CMD_E_OK,
      printf_std env (entries_found (of_nat (length ks)))
        (pg\<lparr>pg_client := fold (print_entry env r) ks (pg_client pg), pg_sys := sys\<rparr>)) \<and>
    system_ready sys \<and> store_of sys = store_of (pg_sys pg)"
  using assms(4)
proof (elim disjE conjE)
  assume "argv = [w]" "search = None"
  with reg_show_ok [OF assms(1-3), of "local_array env 224" env search] assms(5) show ?thesis
    by (auto simp: corshell_reg_def REGISTRY_VALUE_LENGT_MAX_def)
next
  assume a: "argv = [w, s]" "search = Some s" "0 \<notin> set s" "nonempty (r (key24 s)) = None"
  let ?b = "local_array env 224"
  have n: "unat (224 :: u32) = 224" "(224 :: u32) = 0 \<longleftrightarrow> False" by simp_all
  note inv = ready_D(1) [OF assms(1)]
  obtain rec where rec: "rec_buf registry_config rec"
    "registry_value_get (string_arg s) (Some ?b) 224 (pg_sys pg) =
     Some (case registry_map (pg_sys pg) s of
             None \<Rightarrow> (E_NOTFOUND, Some (got ?b 224 []), (pg_sys pg)\<lparr>registry_value := rec\<rparr>)
           | Some v \<Rightarrow> (if v = [] then E_INVAL else int (min 224 (length v)), Some (got ?b 224 v),
               (pg_sys pg)\<lparr>registry_value := rec\<rparr>))"
    using registry_get_ok [OF inv a(3), of 224 ?b "[]", unfolded n if_False] by (auto simp: string_arg_def)
  have m: "registry_map (pg_sys pg) s = r (key24 s)"
    using assms(2) by (simp add: registry_map_def store_of_def)
  obtain res v where g: "registry_value_get (string_arg s) (Some ?b) 224 (pg_sys pg) =
      Some (res, Some (got ?b 224 v), (pg_sys pg)\<lparr>registry_value := rec\<rparr>)" "res < 0"
  proof (cases "r (key24 s)")
    case None
    with rec(2) m that show ?thesis by simp
  next
    case (Some v)
    then have "v = []" using a(4) by (simp add: nonempty_def split: if_splits)
    with Some rec(2) m that show ?thesis by simp
  qed
  have "system_ready ((pg_sys pg)\<lparr>registry_value := rec\<rparr>) \<and>
      store_of ((pg_sys pg)\<lparr>registry_value := rec\<rparr>) = store_of (pg_sys pg)"
    using others_ready [OF assms(1) rec(1), of "registry_key (pg_sys pg)" "registry_it (pg_sys pg)"] by simp
  moreover have "length (got ?b 224 v) = 224" by (auto simp: got_def min_def)
  ultimately show ?thesis
    using reg_show_ok [of "pg\<lparr>pg_sys := (pg_sys pg)\<lparr>registry_value := rec\<rparr>\<rparr>" r "got ?b 224 v" env search]
      g assms(2,3,5) a(1,2)
    by (auto simp: corshell_reg_def REGISTRY_VALUE_LENGT_MAX_def)
qed

theorem registry_lists_witness:
  "\<exists>sys sys'. main_start demo_cmds (power_on erased_dev good_heap) = Some sys \<and>
    corshell_reg echo_env [ascii ''reg''] (started_program sys) = Some (CORSHELL_CMD_E_OK,
      (started_program sys')\<lparr>pg_client := [ascii ''test:                   123'' @ NEWLINE,
        NEWLINE @ ascii ''    1 entries found.'' @ NEWLINE]\<rparr>)"
proof -
  obtain sys where s: "main_start demo_cmds (power_on erased_dev good_heap) = Some sys" "system_ready sys"
    "store_of sys = ([key24 [116, 101, 115, 116] \<mapsto> [49, 50, 51, 0]],
                    [le32 999 \<mapsto> [116, 101, 115, 116, 0]])"
    using main_start_ok [OF good_heap_plenty erased_unformatted] by blast
  let ?k = "key24 [116, 101, 115, 116]"
  let ?r = "[?k \<mapsto> [49, 50, 51, 0 :: u8]]"
  have p: "pg_sys (started_program sys) = sys" "pg_client (started_program sys) = []"
    by (simp_all add: started_program_def)
  have r: "?r = fst (store_of sys)" by (simp only: s(3) fst_conv)
  have l: "listable ?r" using padded_key24 [of "[116, 101, 115, 116]"] by (simp add: listable_def)
  have ks: "[?k] = filter (chosen None) (shown ?r (sorted_list_of_set (dom ?r)))"
    by (simp add: chosen_def shown_def)
  have a: "[ascii ''reg''] = [ascii ''reg''] \<and> None = None \<or>
      [ascii ''reg''] = [ascii ''reg'', []] \<and> None = Some [] \<and> (0 :: u8) \<notin> set [] \<and> nonempty (?r (key24 [])) = None"
    by simp
  obtain sys' where "corshell_reg echo_env [ascii ''reg''] (started_program sys) = Some (CORSHELL_CMD_E_OK,
      printf_std echo_env (entries_found (of_nat (length [?k])))
        ((started_program sys)\<lparr>pg_client := fold (print_entry echo_env ?r) [?k] [], pg_sys := sys'\<rparr>))"
    using registry_lists [of "started_program sys", unfolded p, OF s(2) r l a ks, of echo_env] by blast
  moreover have "entry_text ?k [49, 50, 51, 0] = ascii ''test:                   123'' @ NEWLINE"
    by (simp add: entry_text_def key24_def ascii_def) (simp add: numeral_eq_Suc)
  moreover have "entries_found (of_nat (length [?k])) = NEWLINE @ ascii ''    1 entries found.'' @ NEWLINE"
    by (simp add: entries_found_def ascii_def show_int_def digits.simps [of "Suc 0"])
  ultimately have "corshell_reg echo_env [ascii ''reg''] (started_program sys) = Some (CORSHELL_CMD_E_OK,
      (started_program sys')\<lparr>pg_client := [ascii ''test:                   123'' @ NEWLINE,
        NEWLINE @ ascii ''    1 entries found.'' @ NEWLINE]\<rparr>)"
    by (simp add: printf_std_def corshell_print_def shell_out_def echo_env_def print_entry_def
        started_program_def CORSHELL_PRINT_BUFFER_SIZE_def ascii_def NEWLINE_def)
  with s(1) show ?thesis by blast
qed

end
