(* ===== verification/Ram_Props.thy ===== *)
theory Ram_Props
  imports Ram_Drv
begin

text \<open>
  The limits of the emulated device: what \<^verbatim>\<open>ramdrv.c\<close> does for every address and every length.
\<close>

unbundle bit_operations_syntax

lemma sum_cases:
  fixes a n :: u32
  assumes "unat a < 131072"
  shows "unat a + unat n < 131072 \<Longrightarrow> unat (a + n) = unat a + unat n"
    "131072 \<le> unat a + unat n \<Longrightarrow> unat a + unat n < 2 ^ 32 \<Longrightarrow> 131072 \<le> unat (a + n)"
    "2 ^ 32 \<le> unat a + unat n \<Longrightarrow> unat (a + n) < 131072"
proof -
  have s: "unat (a + n) = (unat a + unat n) mod 2 ^ 32" by (simp add: unat_word_ariths)
  show "unat (a + n) = unat a + unat n" if "unat a + unat n < 131072" using that by (rule ram_sum_lt)
  show "131072 \<le> unat (a + n)" if "131072 \<le> unat a + unat n" "unat a + unat n < 2 ^ 32"
    using that s by simp
  show "unat (a + n) < 131072" if "2 ^ 32 \<le> unat a + unat n"
  proof -
    have "unat n < 2 ^ LENGTH(32)" by (rule unsigned_less)
    then have "unat n < 2 ^ 32" by simp
    then have "unat a + unat n - 2 ^ 32 < 131072" using assms that by linarith
    then have "unat a + unat n - 2 ^ 32 < 131072" "unat a + unat n - 2 ^ 32 < 2 ^ 32" by simp_all
    moreover have "(unat a + unat n) mod 2 ^ 32 = (unat a + unat n - 2 ^ 32) mod 2 ^ 32"
      using that by (rule le_mod_geq)
    ultimately show ?thesis using s by simp
  qed
qed

text \<open>What the checks of an access let through.\<close>

lemma access_cases:
  fixes a n :: u32
  shows "\<not> NVRAM_SIZE \<le> a \<and> \<not> NVRAM_SIZE \<le> a + n \<longleftrightarrow>
    unat a < 131072 \<and> (unat a + unat n < 131072 \<or> 2 ^ 32 \<le> unat a + unat n)"
proof (cases "unat a < 131072")
  case True
  consider "unat a + unat n < 131072" | "131072 \<le> unat a + unat n" "unat a + unat n < 2 ^ 32"
    | "2 ^ 32 \<le> unat a + unat n" by linarith
  then show ?thesis
    using sum_cases [OF True, of n] True by cases (simp_all add: word_le_nat_alt)
qed (simp add: word_le_nat_alt)

lemma access_rule:
  fixes a n :: u32
  obtains (inside) "unat a + unat n < 131072" "\<not> NVRAM_SIZE \<le> a" "\<not> NVRAM_SIZE \<le> a + n"
    | (wrap) "\<not> unat a + unat n < 131072" "unat a < 131072 \<and> 2 ^ 32 \<le> unat a + unat n"
      "\<not> NVRAM_SIZE \<le> a" "\<not> NVRAM_SIZE \<le> a + n"
    | (refused) "\<not> unat a + unat n < 131072" "\<not> (unat a < 131072 \<and> 2 ^ 32 \<le> unat a + unat n)"
      "NVRAM_SIZE \<le> a \<or> NVRAM_SIZE \<le> a + n"
proof -
  have "unat a + unat n < 131072 \<Longrightarrow> unat a < 131072 \<and> \<not> 2 ^ 32 \<le> unat a + unat n" by simp
  with that access_cases [of a n] show thesis by blast
qed

lemma ramdrv_read_cases:
  "ramdrv_read m a n =
     (if unat a + unat n < 131072 then Some (EOK, map m [unat a..<unat a + unat n])
      else if unat a < 131072 \<and> 2 ^ 32 \<le> unat a + unat n then None
      else Some (E_PARM, []))"
  by (rule access_rule [of a n]) (auto simp: ramdrv_read_def)

lemma ramdrv_write_cases:
  "ramdrv_write m a n d =
     (if unat a + unat n < 131072
      then (if unat n \<le> length d
            then Some (EOK, \<lambda>x. if unat a \<le> x \<and> x < unat a + unat n then m x AND d ! (x - unat a) else m x)
            else None)
      else if unat a < 131072 \<and> 2 ^ 32 \<le> unat a + unat n then None
      else Some (E_PARM, m))"
proof (rule access_rule [of a n])
  assume a: "unat a + unat n < 131072" "\<not> NVRAM_SIZE \<le> a" "\<not> NVRAM_SIZE \<le> a + n"
  have "ram_and m (unat a) (take (unat n) d) =
      (\<lambda>x. if unat a \<le> x \<and> x < unat a + unat n then m x AND d ! (x - unat a) else m x)" if "unat n \<le> length d"
    using that by (auto simp: ram_and_apply fun_eq_iff)
  with a show ?thesis by (simp add: ramdrv_write_def)
qed (auto simp: ramdrv_write_def)

lemma ramdrv_erase_cases:
  "ramdrv_erase m a b =
     (if a \<le> b \<and> unat a < 131072
      then Some (EOK, \<lambda>x. if unat a \<le> x \<and> x < unat b \<and> x < 131071 then 0xFF else m x)
      else Some (E_PARM, m))"
proof (cases "a \<le> b \<and> unat a < 131072")
  case True
  then have "unat a \<le> unat b" "unat a < 131072" by (simp_all add: word_le_nat_alt)
  from ramdrv_erase_ok [OF this] True show ?thesis
    by (auto simp: ram_blank_def ram_set_def fun_eq_iff)
next
  case False
  then show ?thesis by (auto simp: ramdrv_erase_def word_le_nat_alt not_le word_less_nat_alt)
qed

text \<open>
  C40: The limits of the emulated device, for every address and length.  A read and a write reach
  exactly the accesses that end before the last byte: these return the bytes, or store the AND of old
  and new bytes there and nowhere else.  An access that ends at the last byte or behind it is
  refused with E_PARM, unless the sum of address and length wraps around 32 bits: then it passes the
  check and runs past the array.  An erase is refused when its range is reversed or starts behind
  the device; otherwise it sets the bytes of its range, cut at the device's end, but never the last
  byte, which no erase clears.
\<close>

theorem ramdrv_limits:
  "ramdrv_read m a n =
     (if unat a + unat n < 131072 then Some (EOK, map m [unat a..<unat a + unat n])
      else if unat a < 131072 \<and> 2 ^ 32 \<le> unat a + unat n then None
      else Some (E_PARM, [])) \<and>
   ramdrv_write m a n d =
     (if unat a + unat n < 131072
      then (if unat n \<le> length d
            then Some (EOK, \<lambda>x. if unat a \<le> x \<and> x < unat a + unat n then m x AND d ! (x - unat a) else m x)
            else None)
      else if unat a < 131072 \<and> 2 ^ 32 \<le> unat a + unat n then None
      else Some (E_PARM, m)) \<and>
   ramdrv_erase m a b =
     (if a \<le> b \<and> unat a < 131072
      then Some (EOK, \<lambda>x. if unat a \<le> x \<and> x < unat b \<and> x < 131071 then 0xFF else m x)
      else Some (E_PARM, m))"
  using ramdrv_read_cases ramdrv_write_cases ramdrv_erase_cases by blast

end
