(* ===== verification/Test_Program.thy ===== *)
theory Test_Program
  imports Shell_Cmds System_Spec
begin

text \<open>
  The program around the library, \<^verbatim>\<open>test/main.c\<close>: a terminal that runs the lines it reads as scripts,
  and its own commands.  The terminal is the client of the shell.  What the program asks of the
  operating system, its files and directories, is \<open>posix\<close>, a parameter; the files do not change
  while the program runs.  The messages of the debug log, which go to the same terminal, are left out.
\<close>

section \<open>The terminal\<close>

record 'd terminal =
  t_in :: "u8 list"
  t_out :: "u8 list"
  t_exit :: bool
  t_level :: u32
  t_dir :: 'd

text \<open>
  \<open>px_list\<close> is what \<^verbatim>\<open>opendir\<close> and \<^verbatim>\<open>readdir\<close> deliver, \<open>Inl\<close> when they fail, with whether the directory
  does not exist; \<open>px_file\<close> the size of a file and the bytes that \<^verbatim>\<open>fread\<close> delivers when it is asked for
  all of them; \<open>px_date\<close> and \<open>px_time\<close> are the macros of the compiler, and \<open>px_stack\<close> is what a
  local array holds before it is written.
\<close>

record 'd posix =
  px_list :: "'d \<Rightarrow> bool + u8 list list"
  px_chdir :: "'d \<Rightarrow> u8 list \<Rightarrow> 'd option"
  px_getcwd :: "'d \<Rightarrow> nat \<Rightarrow> u8 list option"
  px_file :: "'d \<Rightarrow> u8 list \<Rightarrow> (nat \<times> u8 list) option"
  px_date :: "u8 list"
  px_time :: "u8 list"
  px_stack :: "nat \<Rightarrow> u8"

type_synonym 'd tprog = "'d terminal program"

definition printf_out :: "u8 list \<Rightarrow> 'd terminal \<Rightarrow> 'd terminal" where
  "printf_out s t = t\<lparr>t_out := t_out t @ s\<rparr>"

definition on_terminal :: "('d terminal \<Rightarrow> 'd terminal) \<Rightarrow> 'd tprog \<Rightarrow> 'd tprog" where
  "on_terminal f pg = pg\<lparr>pg_client := f (pg_client pg)\<rparr>"

definition corshell_out :: "u32 \<Rightarrow> u8 list option \<Rightarrow> 'd terminal \<Rightarrow> int \<times> 'd terminal" where
  "corshell_out out str t =
     (CORSHELL_CMD_E_OK,
      case str of
        Some s \<Rightarrow> if out \<ge> t_level t then printf_out s t else t
      | None \<Rightarrow> t)"

definition test_env ::
  "'d posix \<Rightarrow> (nat \<Rightarrow> u8 list list \<Rightarrow> 'd tprog \<Rightarrow> (int \<times> 'd tprog) option) \<Rightarrow> 'd terminal shell_env" where
  "test_env px client = \<lparr>env_out = corshell_out, env_client = client, env_stack = px_stack px\<rparr>"

definition print_to :: "'d posix \<Rightarrow> u32 \<Rightarrow> u8 list \<Rightarrow> 'd tprog \<Rightarrow> 'd tprog" where
  "print_to px out s pg = corshell_print (test_env px (\<lambda>i argv pg. None)) out s pg"

text \<open>
  A line of the input: the bytes stored, how many there are before the end of the line, and the
  input that is left.  The buffer has signed characters, so that the end of the input, which is
  \<^verbatim>\<open>-1\<close>, and every byte from 128 on end the line like a line feed.
\<close>

fun get_line :: "nat \<Rightarrow> u8 list \<Rightarrow> u8 list \<times> nat \<times> u8 list" where
  "get_line 0 input = ([], 0, input)"
| "get_line (Suc len) [] = ([0xFF], 0, [])"
| "get_line (Suc len) (c # input) =
     (if c = 10 \<or> c \<ge> 128 then ([c], 0, input)
      else case get_line len input of (bs, i, rest) \<Rightarrow> (c # bs, Suc i, rest))"

section \<open>Its commands\<close>

definition CORSHELL_CMD_E_EOF :: status where [simp]: "CORSHELL_CMD_E_EOF = - 12"

definition corshell_ls :: "'d posix \<Rightarrow> u8 list list \<Rightarrow> 'd tprog \<Rightarrow> (int \<times> 'd tprog) option" where
  "corshell_ls px argv pg =
     (case px_list px (t_dir (pg_client pg)) of
        Inl noent \<Rightarrow>
          Some (CORSHELL_CMD_E_FAIL,
                print_to px CORSHELL_OUT_ERR
                  (if noent then ascii ''Directory doesn'' @ [39] @ ascii ''t exist''
                   else ascii ''Unable to read directory'') pg)
      | Inr names \<Rightarrow>
          Some (CORSHELL_CMD_E_OK, fold (\<lambda>name. print_to px CORSHELL_OUT_STD (name @ NEWLINE)) names pg))"

definition corshell_cd :: "'d posix \<Rightarrow> u8 list list \<Rightarrow> 'd tprog \<Rightarrow> (int \<times> 'd tprog) option" where
  "corshell_cd px argv pg =
     (if length argv < 2 then Some (CORSHELL_CMD_E_PARMS, pg)
      else case px_chdir px (t_dir (pg_client pg)) (argv ! 1) of
             None \<Rightarrow> Some (CORSHELL_CMD_E_FAIL, print_to px CORSHELL_OUT_ERR (ascii ''failed'') pg)
           | Some d \<Rightarrow> Some (CORSHELL_CMD_E_OK, on_terminal (\<lambda>t. t\<lparr>t_dir := d\<rparr>) pg))"

definition corshell_pwd :: "'d posix \<Rightarrow> u8 list list \<Rightarrow> 'd tprog \<Rightarrow> (int \<times> 'd tprog) option" where
  "corshell_pwd px argv pg =
     (case px_getcwd px (t_dir (pg_client pg)) 256 of
        None \<Rightarrow> Some (CORSHELL_CMD_E_FAIL,
                      print_to px CORSHELL_OUT_ERR (ascii ''unable to get current directory.'' @ NEWLINE) pg)
      | Some s \<Rightarrow> Some (CORSHELL_CMD_E_OK, print_to px CORSHELL_OUT_ERR (s @ NEWLINE) pg))"

text \<open>
  The buffer of a file, with its address: the bytes read, a terminator, and what the memory held
  behind it.
\<close>

definition read_file ::
  "'d posix \<Rightarrow> u8 list \<Rightarrow> 'd tprog \<Rightarrow> int \<times> (nat \<times> u8 list) option \<times> 'd tprog" where
  "read_file px filename pg =
     (case px_file px (t_dir (pg_client pg)) filename of
        None \<Rightarrow>
          (CORSHELL_CMD_E_NOT_FOUND, None,
           print_to px CORSHELL_OUT_ERR
             (ascii ''unable to open file '' @ [34] @ filename @ [34] @ ascii '' for read.'' @ NEWLINE) pg)
      | Some (sz, contents) \<Rightarrow>
          if sz = 0 then (CORSHELL_CMD_E_EOF, None, pg)
          else
            (case heap_malloc (sys_heap (pg_sys pg)) (of_nat (sz + 1)) of
               (None, h) \<Rightarrow>
                 (CORSHELL_CMD_E_MEMORY, None,
                  print_to px CORSHELL_OUT_ERR (ascii ''out of memory.'' @ NEWLINE)
                    (pg\<lparr>pg_sys := (pg_sys pg)\<lparr>sys_heap := h\<rparr>\<rparr>))
             | (Some buffer, h) \<Rightarrow>
                 (let bs = take sz contents in
                  if bs = []
                  then (CORSHELL_CMD_E_FAIL, None,
                        print_to px CORSHELL_OUT_ERR
                          (ascii ''unable to read file '' @ [34] @ filename @ [34, 46] @ NEWLINE)
                          (pg\<lparr>pg_sys := (pg_sys pg)\<lparr>sys_heap := heap_free h buffer\<rparr>\<rparr>))
                  else (sint (of_nat sz :: u32),
                        Some (buffer, bs @ 0 # drop (length bs + 1) (fresh_bytes h buffer (sz + 1))),
                        pg\<lparr>pg_sys := (pg_sys pg)\<lparr>sys_heap := h\<rparr>\<rparr>))))"

definition free_buffer :: "nat \<Rightarrow> 'd tprog \<Rightarrow> 'd tprog" where
  "free_buffer buffer pg = pg\<lparr>pg_sys := (pg_sys pg)\<lparr>sys_heap := heap_free (sys_heap (pg_sys pg)) buffer\<rparr>\<rparr>"

type_synonym 'd run_text = "u8 list \<Rightarrow> int \<Rightarrow> 'd tprog \<Rightarrow> (int \<times> 'd tprog) option"

text \<open>\<open>run\<close> runs the text of a file as a script.\<close>

definition corshell_source ::
  "'d posix \<Rightarrow> 'd run_text \<Rightarrow> u8 list list \<Rightarrow> 'd tprog \<Rightarrow> (int \<times> 'd tprog) option" where
  "corshell_source px run argv pg =
     (if length argv < 2 then Some (CORSHELL_CMD_E_PARMS, pg)
      else case read_file px (argv ! 1) pg of (res, buffer, pg) \<Rightarrow>
        if res > 0
        then do { (b, text) \<leftarrow> buffer; (res, pg) \<leftarrow> run text res pg; Some (res, free_buffer b pg) }
        else Some (res, pg))"

definition corshell_source2 ::
  "'d posix \<Rightarrow> 'd run_text \<Rightarrow> u8 list list \<Rightarrow> 'd tprog \<Rightarrow> (int \<times> 'd tprog) option" where
  "corshell_source2 px run argv pg = corshell_source px run argv pg"

definition corshell_cat :: "'d posix \<Rightarrow> u8 list list \<Rightarrow> 'd tprog \<Rightarrow> (int \<times> 'd tprog) option" where
  "corshell_cat px argv pg =
     (if length argv < 2 then Some (CORSHELL_CMD_E_PARMS, pg)
      else case read_file px (argv ! 1) pg of (res, buffer, pg) \<Rightarrow>
        if res > 0
        then do {
          (b, text) \<leftarrow> buffer;
          s \<leftarrow> cstr text;
          let pg = on_terminal (\<lambda>t. snd (corshell_out CORSHELL_OUT_STD (Some s) t)) pg;
          let pg = on_terminal (\<lambda>t. snd (corshell_out CORSHELL_OUT_STD (Some NEWLINE) t)) pg;
          Some (CORSHELL_CMD_E_OK, free_buffer b pg) }
        else Some (res, pg))"

definition corshell_echo :: "u8 list list \<Rightarrow> 'd tprog \<Rightarrow> (int \<times> 'd tprog) option" where
  "corshell_echo argv pg =
     Some (CORSHELL_CMD_E_OK,
           on_terminal (printf_out ((if length argv < 2 then [] else argv ! 1) @ NEWLINE)) pg)"

definition corshell_exit :: "u8 list list \<Rightarrow> 'd tprog \<Rightarrow> (int \<times> 'd tprog) option" where
  "corshell_exit argv pg = Some (CORSHELL_CMD_E_OK, on_terminal (\<lambda>t. t\<lparr>t_exit := True\<rparr>) pg)"

definition corshell_version :: "'d posix \<Rightarrow> u8 list list \<Rightarrow> 'd tprog \<Rightarrow> (int \<times> 'd tprog) option" where
  "corshell_version px argv pg =
     Some (CORSHELL_CMD_E_OK,
           on_terminal (printf_out (ascii ''corshell version '' @ px_date px @ ascii '' - '' @ px_time px @ NEWLINE)) pg)"

text \<open>The commands of the program by number, and the section in which the linker sorts them all.\<close>

definition test_commands ::
  "'d posix \<Rightarrow> 'd run_text \<Rightarrow> (u8 list list \<Rightarrow> 'd tprog \<Rightarrow> (int \<times> 'd tprog) option) list" where
  "test_commands px run =
     [corshell_cat px, corshell_cd px, corshell_echo, corshell_exit, corshell_ls px, corshell_pwd px,
      corshell_source px run, corshell_source2 px run, corshell_version px]"

definition test_client ::
  "'d posix \<Rightarrow> 'd run_text \<Rightarrow> nat \<Rightarrow> u8 list list \<Rightarrow> 'd tprog \<Rightarrow> (int \<times> 'd tprog) option" where
  "test_client px run i argv pg =
     (if i < length (test_commands px run) then (test_commands px run ! i) argv pg else None)"

definition test_section :: "corshell_cmd list" where
  "test_section =
     [\<lparr>cc_cmd = Some (ascii ''cat''), cc_fp = Client_cmd 0, cc_usage = Some (ascii ''<file>'')\<rparr>,
      \<lparr>cc_cmd = Some (ascii ''cd''), cc_fp = Client_cmd 1, cc_usage = Some (ascii ''<path>'')\<rparr>,
      \<lparr>cc_cmd = Some (ascii ''echo''), cc_fp = Client_cmd 2, cc_usage = Some (ascii ''[string]'')\<rparr>,
      \<lparr>cc_cmd = Some (ascii ''exit''), cc_fp = Client_cmd 3, cc_usage = Some (ascii ''[string]'')\<rparr>,
      \<lparr>cc_cmd = Some (ascii ''help''), cc_fp = Corshell_help, cc_usage = Some (ascii ''[filter]'')\<rparr>,
      \<lparr>cc_cmd = Some (ascii ''?''), cc_fp = Corshell_help2, cc_usage = None\<rparr>,
      \<lparr>cc_cmd = Some (ascii ''ls''), cc_fp = Client_cmd 4, cc_usage = Some []\<rparr>,
      \<lparr>cc_cmd = Some (ascii ''nop''), cc_fp = Corshell_nop, cc_usage = Some (ascii ''[res]'')\<rparr>,
      \<lparr>cc_cmd = Some (ascii ''pwd''), cc_fp = Client_cmd 5, cc_usage = Some []\<rparr>,
      \<lparr>cc_cmd = Some (ascii ''rem''), cc_fp = Corshell_rem, cc_usage = None\<rparr>,
      \<lparr>cc_cmd = Some (ascii ''source''), cc_fp = Client_cmd 6, cc_usage = Some (ascii ''<file>'')\<rparr>,
      \<lparr>cc_cmd = Some (ascii ''.''), cc_fp = Client_cmd 7, cc_usage = Some (ascii ''<file>'')\<rparr>,
      \<lparr>cc_cmd = Some (ascii ''version''), cc_fp = Client_cmd 8, cc_usage = Some []\<rparr>]"

section \<open>The program\<close>

text \<open>
  A command may run a file, whose commands may run files.  \<open>n\<close> is how deep the stack of the program
  lets them nest; deeper there is no result.
\<close>

definition run_script ::
  "'d posix \<Rightarrow> (nat \<Rightarrow> u8 list list \<Rightarrow> 'd tprog \<Rightarrow> (int \<times> 'd tprog) option) \<Rightarrow> 'd run_text" where
  "run_script px client text len pg =
     corshell_script_run (test_env px client) (shell_fp_run (test_env px client)) [] text len pg"

primrec nested_client ::
  "'d posix \<Rightarrow> nat \<Rightarrow> nat \<Rightarrow> u8 list list \<Rightarrow> 'd tprog \<Rightarrow> (int \<times> 'd tprog) option" where
  "nested_client px 0 = test_client px (\<lambda>text len pg. None)"
| "nested_client px (Suc n) = test_client px (run_script px (nested_client px n))"

text \<open>
  The loop of \<^verbatim>\<open>main\<close>.  The array is new in each round; the script reads the byte behind the line,
  which the array must have.
\<close>

definition SHELL_PROMPT :: "u8 list" where "SHELL_PROMPT = ascii ''# >''"

partial_function (option) main_loop :: "'d posix \<Rightarrow> nat \<Rightarrow> 'd tprog \<Rightarrow> 'd tprog option" where
  "main_loop px n pg =
     (case get_line 512 (t_in (pg_client pg)) of (bs, len, input) \<Rightarrow>
      do { let pg = on_terminal (\<lambda>t. t\<lparr>t_in := input\<rparr>) pg;
           pg \<leftarrow> (if len > 0
                  then do { (_, pg) \<leftarrow> run_script px (nested_client px n)
                              (bs @ drop (length bs) (map (px_stack px) [0..<512])) (int len) pg;
                            Some (on_terminal (printf_out SHELL_PROMPT) pg) }
                  else Some pg);
           if t_exit (pg_client pg) then Some pg else main_loop px n pg })"

definition SHELL_VERSION_STR :: "'d posix \<Rightarrow> u8 list" where
  "SHELL_VERSION_STR px = ascii ''Navaro corshell Demo v '' @ [39] @ px_date px @ [39]"

definition main_banner :: "'d posix \<Rightarrow> u8 list" where
  "main_banner px =
     NEWLINE @ NEWLINE @ SHELL_VERSION_STR px @ NEWLINE @ NEWLINE @
     ascii ''use '' @ [39] @ ascii ''help'' @ [39] @ ascii '' or '' @ [39] @ ascii ''?'' @ [39] @
     ascii '' for help.'' @ NEWLINE @ SHELL_PROMPT"

definition terminal_on :: "'d \<Rightarrow> u8 list \<Rightarrow> 'd terminal" where
  "terminal_on dir input =
     \<lparr>t_in = input, t_out = [], t_exit = False, t_level = CORSHELL_OUT_ERR, t_dir = dir\<rparr>"

definition run_literal :: "'d posix \<Rightarrow> nat \<Rightarrow> u8 list \<Rightarrow> 'd tprog \<Rightarrow> (int \<times> 'd tprog) option" where
  "run_literal px n s pg = run_script px (nested_client px n) (s @ [0]) (int (length s)) pg"

definition test_main :: "'d posix \<Rightarrow> nat \<Rightarrow> bool \<Rightarrow> 'd \<Rightarrow> u8 list \<Rightarrow> system \<Rightarrow> (int \<times> 'd tprog) option" where
  "test_main px n ndebug dir input sys =
     do { sys \<leftarrow> main_start test_section sys;
          let pg = \<lparr>pg_client = terminal_on dir input, pg_sys = sys, pg_status = 0, pg_recurse = 0\<rparr>;
          let pg = on_terminal (printf_out (main_banner px)) pg;
          (_, pg) \<leftarrow> run_literal px n (ascii ''. test/strtab.sh'') pg;
          (_, pg) \<leftarrow> run_literal px n (ascii ''. test/reg.sh'') pg;
          let pg = on_terminal (\<lambda>t. t\<lparr>t_level := CORSHELL_OUT_STD\<rparr>) pg;
          pg \<leftarrow> main_loop px n pg;
          sys \<leftarrow> strtab_stop ndebug (pg_sys pg);
          (_, sys) \<leftarrow> registry_stop sys;
          Some (0, pg\<lparr>pg_sys := sys\<rparr>) }"

end
