(* ===== verification/Test_Program_Spec.thy ===== *)
theory Test_Program_Spec
  imports Test_Program Shell_Script Shell_Help
begin

text \<open>
  The terminal program on the maps: what each of its commands does, scripts that run files, and the
  lines that the terminal reads up to the one that ends it.
\<close>

section \<open>The commands\<close>

text \<open>All of the terminal but its output.\<close>

definition seen :: "'d terminal \<Rightarrow> 'd terminal" where
  "seen t = t\<lparr>t_out := []\<rparr>"

type_synonym 'd tview = "'d terminal shell_view"

type_synonym 'd text_view = "u8 list \<Rightarrow> 'd tview \<Rightarrow> (int \<times> 'd tview) option"

text \<open>A file that is read in full, or not found, or empty.\<close>

definition file_view ::
  "'d posix \<Rightarrow> (u8 list \<Rightarrow> (int \<times> 'd tview) option) \<Rightarrow> u8 list list \<Rightarrow> 'd tview \<Rightarrow> (int \<times> 'd tview) option" where
  "file_view px k argv w =
     (if length argv < 2 then Some (CORSHELL_CMD_E_PARMS, w)
      else case px_file px (t_dir (sw_client w)) (argv ! 1) of
             None \<Rightarrow> Some (CORSHELL_CMD_E_NOT_FOUND, w)
           | Some (sz, contents) \<Rightarrow>
               if sz = 0 then Some (CORSHELL_CMD_E_EOF, w)
               else if length contents = sz \<and> sz < 2 ^ 31 then k contents else None)"

definition cd_view :: "'d posix \<Rightarrow> u8 list list \<Rightarrow> 'd tview \<Rightarrow> (int \<times> 'd tview) option" where
  "cd_view px argv w =
     (if length argv < 2 then Some (CORSHELL_CMD_E_PARMS, w)
      else case px_chdir px (t_dir (sw_client w)) (argv ! 1) of
             None \<Rightarrow> Some (CORSHELL_CMD_E_FAIL, w)
           | Some d \<Rightarrow> Some (CORSHELL_CMD_E_OK, w\<lparr>sw_client := (sw_client w)\<lparr>t_dir := d\<rparr>\<rparr>))"

definition client_views ::
  "'d posix \<Rightarrow> 'd text_view \<Rightarrow> (u8 list list \<Rightarrow> 'd tview \<Rightarrow> (int \<times> 'd tview) option) list" where
  "client_views px run =
     [\<lambda>argv w. file_view px (\<lambda>text. Some (CORSHELL_CMD_E_OK, w)) argv w,
      cd_view px,
      \<lambda>argv w. Some (CORSHELL_CMD_E_OK, w),
      \<lambda>argv w. Some (CORSHELL_CMD_E_OK, w\<lparr>sw_client := (sw_client w)\<lparr>t_exit := True\<rparr>\<rparr>),
      \<lambda>argv w. Some (case px_list px (t_dir (sw_client w)) of
                       Inl _ \<Rightarrow> CORSHELL_CMD_E_FAIL | Inr _ \<Rightarrow> CORSHELL_CMD_E_OK, w),
      \<lambda>argv w. Some (case px_getcwd px (t_dir (sw_client w)) 256 of
                       None \<Rightarrow> CORSHELL_CMD_E_FAIL | Some _ \<Rightarrow> CORSHELL_CMD_E_OK, w),
      \<lambda>argv w. file_view px (\<lambda>text. run text w) argv w,
      \<lambda>argv w. file_view px (\<lambda>text. run text w) argv w,
      \<lambda>argv w. Some (CORSHELL_CMD_E_OK, w)]"

definition view_with :: "'d posix \<Rightarrow> 'd text_view \<Rightarrow> 'd terminal view_fp" where
  "view_with px run f argv w =
     (case f of
        Client_cmd i \<Rightarrow> if i < length (client_views px run) then (client_views px run ! i) argv w else None
      | Corshell_help \<Rightarrow> Some (CORSHELL_CMD_E_OK, w)
      | Corshell_help2 \<Rightarrow> Some (CORSHELL_CMD_E_OK, w)
      | Corshell_nop \<Rightarrow>
          if length argv > 1
          then map_option (\<lambda>(_, v). (case v of None \<Rightarrow> CORSHELL_CMD_E_OK | Some x \<Rightarrow> sint x, w))
                 (corshell_scan_int (argv ! 1))
          else Some (CORSHELL_CMD_E_OK, w)
      | _ \<Rightarrow> store_view f argv w)"

text \<open>Scripts nest.\<close>

primrec test_view :: "'d posix \<Rightarrow> corshell_cmd list \<Rightarrow> nat \<Rightarrow> 'd terminal view_fp" where
  "test_view px cs 0 = view_with px (\<lambda>text w. None)"
| "test_view px cs (Suc n) = view_with px (view_script (test_view px cs n) cs)"

section \<open>They are what the commands do\<close>

lemma test_patient: "patient (test_env px client) seen"
  by (simp add: patient_def test_env_def corshell_out_def seen_def printf_out_def split: option.split)

definition performs ::
  "nat \<Rightarrow> corshell_cmd list \<Rightarrow> (u8 list list \<Rightarrow> 'd tprog \<Rightarrow> (int \<times> 'd tprog) option) \<Rightarrow>
   (u8 list list \<Rightarrow> 'd tview \<Rightarrow> (int \<times> 'd tview) option) \<Rightarrow> bool" where
  "performs d cs cmd view \<longleftrightarrow>
     (\<forall>argv w res w' pg.
        shell_viewed cs seen w pg \<and> plain_words argv \<and> unat (pg_recurse pg) + d < 2 ^ 32 \<and>
        view argv w = Some (res, w') \<longrightarrow>
        (\<exists>pg'. cmd argv pg = Some (res, pg') \<and> shell_viewed cs seen w' pg' \<and> pg_recurse pg' = pg_recurse pg))"

lemma described_performs:
  "described d env cs seen q \<longleftrightarrow> (\<forall>f. performs d cs (shell_fp_run env f) (q f))"
  unfolding described_def performs_def by blast

definition runs :: "nat \<Rightarrow> corshell_cmd list \<Rightarrow> 'd run_text \<Rightarrow> 'd text_view \<Rightarrow> bool" where
  "runs d cs run view \<longleftrightarrow>
     (\<forall>text z r w res w' pg.
        shell_viewed cs seen w pg \<and> unat (pg_recurse pg) + d < 2 ^ 32 \<and> view text w = Some (res, w') \<longrightarrow>
        (\<exists>pg'. run (text @ z # r) (int (length text)) pg = Some (res, pg') \<and> shell_viewed cs seen w' pg' \<and>
               pg_recurse pg' = pg_recurse pg))"

text \<open>What changes only the terminal.\<close>

lemma terminal_viewed:
  "shell_viewed cs seen w pg \<Longrightarrow>
   shell_viewed cs seen (w\<lparr>sw_client := seen (f (pg_client pg))\<rparr>) (on_terminal f pg)"
  by (simp add: shell_viewed_def on_terminal_def)

lemma terminal_same:
  assumes "shell_viewed cs seen w pg" "\<And>t. seen (f t) = seen t"
  shows "shell_viewed cs seen w (on_terminal f pg)"
  using assms by (simp add: shell_viewed_def on_terminal_def)

lemma seen_simps [simp]:
  "seen (printf_out s t) = seen t" "seen (snd (corshell_out out m t)) = seen t"
  "t_dir (seen t) = t_dir t" "t_in (seen t) = t_in t" "t_exit (seen t) = t_exit t"
  by (simp_all add: seen_def printf_out_def corshell_out_def split: option.split)

lemma on_terminal_recurse [simp]: "pg_recurse (on_terminal f pg) = pg_recurse pg"
  by (simp add: on_terminal_def)

lemma print_to_viewed [simp]:
  "shell_viewed cs seen w (print_to px out s pg) = shell_viewed cs seen w pg"
  "pg_recurse (print_to px out s pg) = pg_recurse pg"
  "pg_sys (print_to px out s pg) = pg_sys pg"
  "seen (pg_client (print_to px out s pg)) = seen (pg_client pg)"
  by (simp_all add: print_to_def print_viewed [OF test_patient] patient_simps [OF test_patient])

lemma viewed_dir: "shell_viewed cs seen w pg \<Longrightarrow> t_dir (pg_client pg) = t_dir (sw_client w)"
  by (auto simp: shell_viewed_def)

lemma free_buffer_id [simp]: "free_buffer b pg = pg"
  by (simp add: free_buffer_def)

lemma fold_print_viewed:
  "shell_viewed cs seen w (fold (\<lambda>name. print_to px out (g name)) names pg) = shell_viewed cs seen w pg \<and>
   pg_recurse (fold (\<lambda>name. print_to px out (g name)) names pg) = pg_recurse pg"
  by (induction names arbitrary: pg) simp_all

lemma fold_help_viewed:
  assumes "patient env cv"
  shows "shell_viewed cs cv w (fold (help_line env cmds pat) names pg) = shell_viewed cs cv w pg \<and>
   pg_recurse (fold (help_line env cmds pat) names pg) = pg_recurse pg"
proof (induction names arbitrary: pg)
  case (Cons a names)
  have "shell_viewed cs cv w (help_line env cmds pat a pg) = shell_viewed cs cv w pg \<and>
      pg_recurse (help_line env cmds pat a pg) = pg_recurse pg"
    by (simp add: help_line_def print_viewed [OF assms] split: option.split)
  with Cons show ?case by simp
qed simp

text \<open>Reading a file.\<close>

lemma read_file_ok:
  assumes v: "shell_viewed cs seen w pg" and f: "px_file px (t_dir (sw_client w)) name = Some (sz, contents)"
    and sz: "sz \<noteq> 0" "length contents = sz" "sz < 2 ^ 31"
  shows "\<exists>b r pg'. read_file px name pg = (int sz, Some (b, contents @ 0 # r), pg') \<and>
    shell_viewed cs seen w pg' \<and> pg_recurse pg' = pg_recurse pg"
proof -
  let ?h = "sys_heap (pg_sys pg)"
  have "system_ready (pg_sys pg)" using v by (simp add: shell_viewed_def shell_ready_def)
  then have p: "plenty ?h" by (rule ready_D)
  have s: "sint (of_nat sz :: u32) = int sz" using sz(3) by (simp add: signed_of_nat signed_take_bit_int_eq_self)
  have "shell_viewed cs seen w (pg\<lparr>pg_sys := (pg_sys pg)\<lparr>sys_heap := ?h\<lparr>next_addr := Suc (next_addr ?h)\<rparr>\<rparr>\<rparr>)"
    using p by (intro heap_viewed [OF v]) (simp_all add: heap_le_def)
  moreover have "contents \<noteq> []" using sz by auto
  ultimately show ?thesis
    using f sz s viewed_dir [OF v] by (simp add: read_file_def heap_malloc_plenty [OF p])
qed

text \<open>Each command.\<close>

lemma cat_performs:
  "performs d cs (corshell_cat px) (\<lambda>argv w. file_view px (\<lambda>text. Some (CORSHELL_CMD_E_OK, w)) argv w)"
  unfolding performs_def
proof (intro allI impI, elim conjE)
  fix argv w res w' and pg :: "'a tprog"
  assume v: "shell_viewed cs seen w pg"
    and c: "file_view px (\<lambda>text. Some (CORSHELL_CMD_E_OK, w)) argv w = Some (res, w')"
  show "\<exists>pg'. corshell_cat px argv pg = Some (res, pg') \<and> shell_viewed cs seen w' pg' \<and> pg_recurse pg' = pg_recurse pg"
  proof (cases "length argv < 2 \<or> (case px_file px (t_dir (sw_client w)) (argv ! 1) of
      None \<Rightarrow> True | Some (sz, _) \<Rightarrow> sz = 0)")
    case True
    with v c viewed_dir [OF v] show ?thesis
      by (auto simp: file_view_def corshell_cat_def read_file_def split: option.splits if_splits)
  next
    case False
    then obtain sz contents where f: "px_file px (t_dir (sw_client w)) (argv ! 1) = Some (sz, contents)" "sz \<noteq> 0"
      "\<not> length argv < 2" by (auto split: option.splits)
    then have r: "length contents = sz" "sz < 2 ^ 31" "res = 0" "w' = w"
      using c by (auto simp: file_view_def split: if_splits)
    obtain b rest pg' where g: "read_file px (argv ! 1) pg = (int sz, Some (b, contents @ 0 # rest), pg')"
      "shell_viewed cs seen w pg'" "pg_recurse pg' = pg_recurse pg"
      using read_file_ok [OF v f(1,2) r(1,2)] by blast
    have "cstr (contents @ 0 # rest) \<noteq> None" by (simp add: cstr_def)
    with f g r show ?thesis
      by (auto simp: corshell_cat_def terminal_same)
  qed
qed

lemma source_performs:
  assumes "runs d cs run view"
  shows "performs d cs (corshell_source px run) (\<lambda>argv w. file_view px (\<lambda>text. view text w) argv w)"
  unfolding performs_def
proof (intro allI impI, elim conjE)
  fix argv w res w' and pg :: "'a tprog"
  assume v: "shell_viewed cs seen w pg" and depth: "unat (pg_recurse pg) + d < 2 ^ 32"
    and c: "file_view px (\<lambda>text. view text w) argv w = Some (res, w')"
  show "\<exists>pg'. corshell_source px run argv pg = Some (res, pg') \<and> shell_viewed cs seen w' pg' \<and> pg_recurse pg' = pg_recurse pg"
  proof (cases "length argv < 2 \<or> (case px_file px (t_dir (sw_client w)) (argv ! 1) of
      None \<Rightarrow> True | Some (sz, _) \<Rightarrow> sz = 0)")
    case True
    with v c viewed_dir [OF v] show ?thesis
      by (auto simp: file_view_def corshell_source_def read_file_def split: option.splits if_splits)
  next
    case False
    then obtain sz contents where f: "px_file px (t_dir (sw_client w)) (argv ! 1) = Some (sz, contents)" "sz \<noteq> 0"
      "\<not> length argv < 2" by (auto split: option.splits)
    then have r: "length contents = sz" "sz < 2 ^ 31" "view contents w = Some (res, w')"
      using c by (auto simp: file_view_def split: if_splits)
    obtain b rest pg' where g: "read_file px (argv ! 1) pg = (int sz, Some (b, contents @ 0 # rest), pg')"
      "shell_viewed cs seen w pg'" "pg_recurse pg' = pg_recurse pg"
      using read_file_ok [OF v f(1,2) r(1,2)] by blast
    then have "\<exists>pg''. run (contents @ 0 # rest) (int (length contents)) pg' = Some (res, pg'') \<and>
        shell_viewed cs seen w' pg'' \<and> pg_recurse pg'' = pg_recurse pg'"
      using assms depth r(3) unfolding runs_def by metis
    with f g r(1) show ?thesis by (auto simp: corshell_source_def)
  qed
qed

lemma cd_performs: "performs d cs (corshell_cd px) (cd_view px)"
proof -
  have "shell_viewed cs seen (w\<lparr>sw_client := (sw_client w)\<lparr>t_dir := x\<rparr>\<rparr>) (on_terminal (\<lambda>t. t\<lparr>t_dir := x\<rparr>) pg)"
    if "shell_viewed cs seen w pg" for w x and pg :: "'a tprog"
    using that by (simp add: shell_viewed_def on_terminal_def seen_def)
  then show ?thesis
    by (auto simp: performs_def cd_view_def corshell_cd_def viewed_dir split: option.splits if_splits)
qed

lemma exit_performs:
  "performs d cs corshell_exit (\<lambda>argv w. Some (CORSHELL_CMD_E_OK, w\<lparr>sw_client := (sw_client w)\<lparr>t_exit := True\<rparr>\<rparr>))"
  by (auto simp: performs_def corshell_exit_def shell_viewed_def on_terminal_def seen_def)

lemma ls_performs:
  "performs d cs (corshell_ls px)
     (\<lambda>argv w. Some (case px_list px (t_dir (sw_client w)) of
                       Inl _ \<Rightarrow> CORSHELL_CMD_E_FAIL | Inr _ \<Rightarrow> CORSHELL_CMD_E_OK, w))"
  by (auto simp: performs_def corshell_ls_def viewed_dir fold_print_viewed split: sum.split)

lemma pwd_performs:
  "performs d cs (corshell_pwd px)
     (\<lambda>argv w. Some (case px_getcwd px (t_dir (sw_client w)) 256 of
                       None \<Rightarrow> CORSHELL_CMD_E_FAIL | Some _ \<Rightarrow> CORSHELL_CMD_E_OK, w))"
  by (auto simp: performs_def corshell_pwd_def viewed_dir split: option.split)

lemma printing_performs:
  "performs d cs corshell_echo (\<lambda>argv w. Some (CORSHELL_CMD_E_OK, w))"
  "performs d cs (corshell_version px) (\<lambda>argv w. Some (CORSHELL_CMD_E_OK, w))"
  by (auto simp: performs_def corshell_echo_def corshell_version_def terminal_same)

lemma clients_perform:
  assumes "runs d cs run view"
  shows "list_all2 (performs d cs) (test_commands px run) (client_views px view)"
proof -
  have "corshell_source2 px run = corshell_source px run" by (simp add: fun_eq_iff corshell_source2_def)
  then show ?thesis
    using source_performs [OF assms]
    by (simp add: test_commands_def client_views_def cat_performs cd_performs exit_performs [simplified]
        ls_performs [simplified] pwd_performs [simplified] printing_performs [simplified] cat_performs [simplified])
qed

lemma view_with_described:
  assumes "runs d cs run view"
  shows "described d (test_env px (test_client px run)) cs seen (view_with px view)"
  unfolding described_performs
proof
  fix f
  let ?env = "test_env px (test_client px run)"
  have store: "performs d cs (shell_fp_run ?env f) (store_view f)"
    using store_described [OF test_patient, of d px "test_client px run" cs] by (simp add: described_performs)
  have helps: "performs d cs (corshell_help ?env) (\<lambda>argv w. Some (CORSHELL_CMD_E_OK, w))"
    unfolding performs_def
  proof (intro allI impI, elim conjE)
    fix argv w res w' and pg :: "'a tprog"
    assume v: "shell_viewed cs seen w pg" and c: "Some (CORSHELL_CMD_E_OK, w) = Some (res, w')"
    have "shell_ok (sys_shell (pg_sys pg)) [registry_cmds, strtab_cmds]"
      using v by (simp add: shell_viewed_def shell_ready_def)
    from help_sorted [OF this refl, of ?env argv] v c show
      "\<exists>pg'. corshell_help ?env argv pg = Some (res, pg') \<and> shell_viewed cs seen w' pg' \<and> pg_recurse pg' = pg_recurse pg"
      by (auto simp: fold_help_viewed [OF test_patient])
  qed
  show "performs d cs (shell_fp_run ?env f) (view_with px view f)"
  proof (cases f)
    case (Client_cmd i)
    show ?thesis
    proof (cases "i < length (client_views px view)")
      case True
      note all = clients_perform [OF assms, of px]
      have "shell_fp_run ?env f = test_commands px run ! i" "view_with px view f = client_views px view ! i"
        using True list_all2_lengthD [OF all]
        by (simp_all add: Client_cmd fun_eq_iff view_with_def test_env_def test_client_def)
      with list_all2_nthD2 [OF all True] show ?thesis by simp
    qed (simp add: Client_cmd view_with_def performs_def)
  next
    case Corshell_help
    with helps show ?thesis by (simp add: view_with_def performs_def)
  next
    case Corshell_help2
    with helps show ?thesis by (simp add: view_with_def performs_def corshell_help2_def)
  next
    case Corshell_nop
    then show ?thesis by (auto simp: view_with_def performs_def corshell_nop_def split: if_splits)
  qed (use store in \<open>simp_all add: view_with_def performs_def\<close>)
qed

text \<open>The nesting of scripts.\<close>

lemma test_described:
  "described n (test_env px (nested_client px n)) cs seen (test_view px cs n)"
proof (induction n)
  case 0
  show ?case
    unfolding nested_client.simps test_view.simps by (rule view_with_described) (simp add: runs_def)
next
  case (Suc n)
  have "runs (Suc n) cs (run_script px (nested_client px n)) (view_script (test_view px cs n) cs)"
    unfolding runs_def run_script_def using script_run_view [OF test_patient Suc] by blast
  then show ?case by (simp add: view_with_described)
qed

interpretation tty: shell_client "test_env px (nested_client px n)" seen n cs "test_view px cs n" for px cs n
  by (intro shell_client.intro test_patient test_described)

lemma run_text_ok:
  assumes "shell_viewed cs seen w pg" "unat (pg_recurse pg) + Suc n < 2 ^ 32"
    and "view_script (test_view px cs n) cs text w = Some (res, w')"
  shows "\<exists>pg'. run_script px (nested_client px n) (text @ z # r) (int (length text)) pg = Some (res, pg') \<and>
    shell_viewed cs seen w' pg' \<and> pg_recurse pg' = pg_recurse pg"
  unfolding run_script_def by (rule tty.script_ok [OF assms])

end
