(* ===== verification/Session_Props.thy ===== *)
theory Session_Props
  imports Test_Program_Spec Shell_Props
begin

text \<open>
  The session at the terminal: the lines that are read, one after the other, are scripts on the maps,
  up to the one that ends the program; and the program as a whole, from an erased device on.
\<close>

unbundle bit_operations_syntax

section \<open>The lines of the input\<close>

lemma get_line_rest: "get_line k input = (bs, len, rest) \<Longrightarrow> length rest \<le> length input"
  by (induction k input arbitrary: bs len rest rule: get_line.induct)
     (fastforce split: if_splits prod.splits)+

lemma get_line_shorter:
  assumes "get_line 512 input = (bs, len, rest)" "input \<noteq> []"
  shows "length rest < length input"
proof -
  obtain c cs where i: "input = c # cs" using assms(2) by (cases input) auto
  obtain n where n: "(512 :: nat) = Suc n" by (metis numeral_eq_Suc)
  show ?thesis
    using assms(1) get_line_rest [of n cs] unfolding i n
    by (auto simp: less_Suc_eq_le split: if_splits prod.splits)
qed

lemma get_line_shape:
  "get_line k input = (bs, len, rest) \<Longrightarrow> len < k \<Longrightarrow> \<exists>z. bs = take len bs @ [z] \<and> len < length bs"
proof (induction k input arbitrary: bs len rest rule: get_line.induct)
  case (3 k c input)
  show ?case
  proof (cases "c = 10 \<or> c \<ge> 128")
    case False
    then obtain bs' len' rest' where g: "get_line k input = (bs', len', rest')" "bs = c # bs'" "len = Suc len'"
      using "3.prems"(1) by (auto split: prod.splits)
    from "3.IH" [OF False g(1)] "3.prems"(2) g(3) obtain z where "bs' = take len' bs' @ [z]" "len' < length bs'"
      by auto
    then show ?thesis by (intro exI [of _ z]) (simp add: g)
  qed (use "3.prems" in auto)
qed auto

text \<open>
  The session: whether it was ended by a command, or the input ran out first, and where it is then.
  A line that fills the whole buffer is not described.
\<close>

function view_session ::
  "'d posix \<Rightarrow> corshell_cmd list \<Rightarrow> nat \<Rightarrow> u8 list \<Rightarrow> 'd tview \<Rightarrow> (bool \<times> 'd tview) option" where
  "view_session px cs n input w =
     (if input = [] then Some (False, w)
      else case get_line 512 input of (bs, len, rest) \<Rightarrow>
        (let w = w\<lparr>sw_client := (sw_client w)\<lparr>t_in := rest\<rparr>\<rparr> in
         if len = 0 then view_session px cs n rest w
         else if len \<ge> 512 then None
         else case view_script (test_view px cs n) cs (take len bs) w of
                None \<Rightarrow> None
              | Some (_, w) \<Rightarrow> if t_exit (sw_client w) then Some (True, w) else view_session px cs n rest w))"
  by pat_completeness auto
termination
  by (relation "measure (\<lambda>(px, cs, n, input, w). length input)")
     (auto dest: get_line_shorter [OF sym])

declare view_session.simps [simp del]

text \<open>No command reads from the terminal.\<close>

definition keeps_input :: "'d terminal view_fp \<Rightarrow> bool" where
  "keeps_input q \<longleftrightarrow>
     (\<forall>f argv w res w'. q f argv w = Some (res, w') \<longrightarrow> t_in (sw_client w') = t_in (sw_client w))"

lemma view_line_input:
  assumes "keeps_input q" "view_line q cs argv a = Some (go, a')"
  shows "t_in (sw_client (sv_shell a')) = t_in (sw_client (sv_shell a))"
proof -
  have "t_in (sw_client w') = t_in (sw_client w)"
    if "view_command q cs argv w = Some (res, w')" for w w' res
    using that assms(1) by (auto simp: view_command_def keeps_input_def split: if_splits option.splits)
  then show ?thesis
    using assms(2) by (auto simp: view_line_def split: if_splits)
qed

lemma view_lines_input:
  "keeps_input q \<Longrightarrow> view_lines q cs ls a = Some a' \<Longrightarrow>
   t_in (sw_client (sv_shell a')) = t_in (sw_client (sv_shell a))"
proof (induction q cs ls a rule: view_lines.induct)
  case (2 q cs line x lines a)
  then show ?case by (auto split: if_splits option.splits dest: view_line_input [OF "2.prems"(1)])
qed simp

lemma view_script_input:
  "keeps_input q \<Longrightarrow> view_script q cs t w = Some (res, w') \<Longrightarrow> t_in (sw_client w') = t_in (sw_client w)"
  by (auto simp: view_script_def view_start_def Let_def split: if_splits dest!: view_lines_input)

lemma view_with_input:
  assumes "\<And>text w res w'. run text w = Some (res, w') \<Longrightarrow> t_in (sw_client w') = t_in (sw_client w)"
  shows "keeps_input (view_with px run)"
proof -
  have files: "t_in (sw_client w') = t_in (sw_client w)"
    if "file_view px k argv w = Some (res, w')"
      "\<And>text res w'. k text = Some (res, w') \<Longrightarrow> t_in (sw_client w') = t_in (sw_client w)" for k argv w res w'
    using that by (auto simp: file_view_def split: if_splits option.splits)
  have clients: "list_all (\<lambda>view. \<forall>argv w res w'. view argv w = Some (res, w') \<longrightarrow> t_in (sw_client w') = t_in (sw_client w))
      (client_views px run)"
    unfolding client_views_def list.pred_inject
    by (auto simp: cd_view_def dest: files dest!: assms split: if_splits option.splits)
  show ?thesis
    unfolding keeps_input_def view_with_def store_view_def
    using clients by (auto simp: list_all_length split: shell_fp.splits if_splits)
qed

lemma test_view_input: "keeps_input (test_view px cs n)"
proof (induction n)
  case 0
  show ?case unfolding test_view.simps by (rule view_with_input) simp
next
  case (Suc n)
  show ?case unfolding test_view.simps by (rule view_with_input) (rule view_script_input [OF Suc])
qed

section \<open>The loop\<close>

text \<open>One round, and the input at its end.\<close>

lemma round_ok:
  assumes v: "shell_viewed cs seen w pg" and depth: "unat (pg_recurse pg) + Suc n < 2 ^ 32"
    and line: "get_line 512 (t_in (pg_client pg)) = (bs, len, rest)" and len: "0 < len" "len < 512"
    and script: "view_script (test_view px cs n) cs (take len bs) (w\<lparr>sw_client := (sw_client w)\<lparr>t_in := rest\<rparr>\<rparr>) =
      Some (res, w')"
  shows "\<exists>pg'. main_loop px n pg = (if t_exit (sw_client w') then Some pg' else main_loop px n pg') \<and>
    shell_viewed cs seen w' pg' \<and> pg_recurse pg' = pg_recurse pg \<and> t_in (sw_client w') = rest"
proof -
  let ?w = "w\<lparr>sw_client := (sw_client w)\<lparr>t_in := rest\<rparr>\<rparr>"
  let ?pg = "on_terminal (\<lambda>t. t\<lparr>t_in := rest\<rparr>) pg"
  let ?r = "drop (length bs) (map (px_stack px) [0..<512])"
  have v1: "shell_viewed cs seen ?w ?pg"
    using v by (simp add: shell_viewed_def on_terminal_def seen_def)
  obtain z where z: "bs = take len bs @ [z]" "len < length bs" using get_line_shape [OF line len(2)] by blast
  then have arr: "bs @ ?r = take len bs @ z # ?r" "length (take len bs) = len" by (metis append_Cons append_Nil append_assoc, simp)
  obtain pg1 where run: "run_script px (nested_client px n) (bs @ ?r) (int len) ?pg = Some (res, pg1)"
    "shell_viewed cs seen w' pg1" "pg_recurse pg1 = pg_recurse pg"
    using run_text_ok [OF v1 _ script, of z ?r] depth unfolding arr(1) [symmetric] arr(2) by auto
  let ?pg' = "on_terminal (printf_out SHELL_PROMPT) pg1"
  have v2: "shell_viewed cs seen w' ?pg'" by (rule terminal_same [OF run(2)]) simp
  then have "t_exit (pg_client ?pg') = t_exit (sw_client w')" by (simp add: shell_viewed_def)
  then have "main_loop px n pg = (if t_exit (sw_client w') then Some ?pg' else main_loop px n ?pg')"
    using run(1) len(1) by (subst main_loop.simps) (simp add: line)
  moreover have "t_in (sw_client w') = rest" using view_script_input [OF test_view_input script] by simp
  ultimately show ?thesis using v2 run(3) by (intro exI [of _ ?pg']) simp
qed

lemma empty_round:
  assumes "get_line 512 (t_in (pg_client pg)) = (bs, 0, rest)" "\<not> t_exit (pg_client pg)"
  shows "main_loop px n pg = main_loop px n (on_terminal (\<lambda>t. t\<lparr>t_in := rest\<rparr>) pg)"
  using assms by (subst main_loop.simps) (simp add: on_terminal_def)

text \<open>At the end of the input, the loop reads it again and again.\<close>

lemma loop_spins:
  assumes "main_loop px n pg = Some pg'" "t_in (pg_client pg) = []"
  shows "t_exit (pg_client pg)"
proof -
  have eof: "get_line 512 [] = ([0xFF], 0, [])" by (simp add: numeral_eq_Suc)
  have "t_in (pg_client pg) = [] \<longrightarrow> t_exit (pg_client pg)"
    by (rule main_loop.raw_induct
          [where P = "\<lambda>px n pg pg'. t_in (pg_client pg) = [] \<longrightarrow> t_exit (pg_client pg)", OF _ assms(1)])
       (fastforce simp: eof on_terminal_def split: if_splits)
  with assms(2) show ?thesis by simp
qed

lemma session_ok:
  assumes "shell_viewed cs seen w pg" "unat (pg_recurse pg) + Suc n < 2 ^ 32" "t_in (sw_client w) = input"
    and "\<not> t_exit (sw_client w)" "view_session px cs n input w = Some (fin, w')"
  shows "if fin then \<exists>pg'. main_loop px n pg = Some pg' \<and> shell_viewed cs seen w' pg' \<and> pg_recurse pg' = pg_recurse pg
         else main_loop px n pg = None"
  using assms
proof (induction px cs n input w arbitrary: pg rule: view_session.induct)
  case (1 px cs n input w)
  have t: "t_in (pg_client pg) = input" "\<not> t_exit (pg_client pg)"
    using "1.prems"(1,3,4) by (auto simp: shell_viewed_def)
  show ?case
  proof (cases "input = []")
    case True
    then have "\<not> fin" using "1.prems"(5) by (auto simp: view_session.simps)
    moreover have "main_loop px n pg = None" using loop_spins t True by (cases "main_loop px n pg") auto
    ultimately show ?thesis by simp
  next
    case False
    obtain bs len rest where line: "get_line 512 input = (bs, len, rest)" by (metis prod.exhaust)
    let ?w = "w\<lparr>sw_client := (sw_client w)\<lparr>t_in := rest\<rparr>\<rparr>"
    have step: "view_session px cs n input w =
        (if len = 0 then view_session px cs n rest ?w
         else if len \<ge> 512 then None
         else case view_script (test_view px cs n) cs (take len bs) ?w of
                None \<Rightarrow> None
              | Some (_, w) \<Rightarrow> if t_exit (sw_client w) then Some (True, w) else view_session px cs n rest w)"
      using False line by (subst view_session.simps) (simp add: Let_def)
    show ?thesis
    proof (cases "len = 0")
      case True
      let ?pg = "on_terminal (\<lambda>t. t\<lparr>t_in := rest\<rparr>) pg"
      have "shell_viewed cs seen ?w ?pg"
        using "1.prems"(1) by (simp add: shell_viewed_def on_terminal_def seen_def)
      from "1.IH"(1) [OF False line [symmetric] refl refl True this] "1.prems" True step
        empty_round [of pg bs rest px n] t line
      show ?thesis by (auto split: if_splits)
    next
      case nonempty: False
      then obtain res w1 where script: "len < 512"
        "view_script (test_view px cs n) cs (take len bs) ?w = Some (res, w1)"
        "(if t_exit (sw_client w1) then Some (True, w1) else view_session px cs n rest w1) = Some (fin, w')"
        using "1.prems"(5) step by (auto split: if_splits option.splits)
      obtain pg1 where r: "main_loop px n pg = (if t_exit (sw_client w1) then Some pg1 else main_loop px n pg1)"
        "shell_viewed cs seen w1 pg1" "pg_recurse pg1 = pg_recurse pg" "t_in (sw_client w1) = rest"
        using round_ok [OF "1.prems"(1,2) _ _ script(1,2)] line t(1) nonempty by auto
      show ?thesis
      proof (cases "t_exit (sw_client w1)")
        case True
        with r script(3) show ?thesis by auto
      next
        case False
        from "1.IH"(2) [OF \<open>input \<noteq> []\<close> line [symmetric] refl refl nonempty _ script(2) refl False r(2)]
          r script "1.prems"(2) False
        show ?thesis by auto
      qed
    qed
  qed
qed

section \<open>The whole program\<close>

lemma stop_ok:
  assumes "system_ready sys"
  shows "\<exists>sys1 sys2 res. strtab_stop ndebug sys = Some sys1 \<and> registry_stop sys1 = Some (res, sys2) \<and>
    sys_dev sys2 = sys_dev sys"
proof -
  have i: "installed (sys_shell sys) [registry_cmds, strtab_cmds]" "strsub_lists (sys_strsub sys) running_lists"
    using assms ready_lists [OF assms] by (simp_all add: system_ready_def)
  obtain sh where sh: "corshell_uninstall strtab_cmds (sys_shell sys) = Some sh" "installed sh [registry_cmds]"
    using uninstall_ok [OF i(1), of strtab_cmds]
    by (auto simp: strtab_cmds_def registry_cmds_def corshell_static_list_def)
  have loaded: "STRTAB_IS_LOADED sys" by (rule strtab_loaded [OF ready_D(4) [OF assms]])
  let ?sys1 = "set_str_vol (nvol3_unload (str_vol sys)) (sys\<lparr>sys_shell := sh\<rparr>)"
  have "strtab_stop ndebug sys = Some ?sys1" using sh loaded by (simp add: strtab_stop_def)
  moreover have "linked ?sys1 running_lists [registry_cmds]" using i(2) sh(2) by (simp add: linked_def)
  then obtain sys2 where "registry_stop ?sys1 = Some (EOK, sys2)" "sys_dev sys2 = sys_dev ?sys1"
    using registry_stop_ok by blast
  moreover have "sys_dev ?sys1 = sys_dev sys" by (simp add: nvol3_unload_def drop_dict_def)
  ultimately show ?thesis by auto
qed

text \<open>The view of the terminal after the start, with its two entries in the maps.\<close>

definition start_view :: "'d \<Rightarrow> u8 list \<Rightarrow> 'd tview" where
  "start_view dir input =
     \<lparr>sw_store = ([key24 [116, 101, 115, 116] \<mapsto> [49, 50, 51, 0]], [le32 999 \<mapsto> [116, 101, 115, 116, 0]]),
      sw_status = 0, sw_client = terminal_on dir input\<rparr>"

definition test_cmds :: "corshell_cmd list" where
  "test_cmds = test_section @ butlast registry_cmd_list @ butlast strtab_cmd_list"

text \<open>The two scripts of the start, and what is read from the terminal behind them.\<close>

definition view_main ::
  "'d posix \<Rightarrow> nat \<Rightarrow> 'd \<Rightarrow> u8 list \<Rightarrow> (bool \<times> 'd tview) option" where
  "view_main px n dir input =
     do { (_, w) \<leftarrow> view_script (test_view px test_cmds n) test_cmds (ascii ''. test/strtab.sh'') (start_view dir input);
          (_, w) \<leftarrow> view_script (test_view px test_cmds n) test_cmds (ascii ''. test/reg.sh'') w;
          if t_exit (sw_client w) then None
          else view_session px test_cmds n input (w\<lparr>sw_client := (sw_client w)\<lparr>t_level := CORSHELL_OUT_STD\<rparr>\<rparr>) }"

lemma main_viewed:
  assumes "plenty h" "unformatted m"
  obtains sys where "main_start test_section (power_on m h) = Some sys"
    "shell_viewed test_cmds seen (start_view dir input)
       \<lparr>pg_client = terminal_on dir input, pg_sys = sys, pg_status = 0, pg_recurse = 0\<rparr>"
proof -
  obtain sys where s: "main_start test_section (power_on m h) = Some sys" "system_ready sys"
    "store_of sys = ([key24 [116, 101, 115, 116] \<mapsto> [49, 50, 51, 0]], [le32 999 \<mapsto> [116, 101, 115, 116, 0]])"
    "same_cmds (snd (corshell_init test_section shell_lists)) (sys_shell sys)"
    using main_start_ok [OF assms, of test_section] by blast
  have t: "test_section \<noteq> []" "\<forall>c \<in> set test_section. cc_cmd c \<noteq> None" "length test_section < 2 ^ 32"
    by (simp_all add: test_section_def)
  note sh = section_shell [OF s(2,4) t]
  have "shell_viewed test_cmds seen (start_view dir input)
      \<lparr>pg_client = terminal_on dir input, pg_sys = sys, pg_status = 0, pg_recurse = 0\<rparr>"
    using sh s(3) by (simp add: shell_viewed_def start_view_def test_cmds_def seen_def terminal_on_def)
  with s(1) that show ?thesis by blast
qed

lemma literal_ok:
  assumes "shell_viewed cs seen w pg" "pg_recurse pg = 0" "Suc n < 2 ^ 32"
    and "view_script (test_view px cs n) cs s w = Some (res, w')"
  shows "\<exists>pg'. run_literal px n s pg = Some (res, pg') \<and> shell_viewed cs seen w' pg' \<and> pg_recurse pg' = 0"
  using run_text_ok [OF assms(1) _ assms(4), of 0 "[]"] assms(2,3) by (simp add: run_literal_def)

lemma main_ok:
  assumes h: "plenty h" "unformatted m" and n: "Suc n < 2 ^ 32"
    and main: "view_main px n dir input = Some (fin, w')"
  shows "if fin
    then \<exists>pg' old. test_main px n ndebug dir input (power_on m h) = Some (0, pg') \<and>
           sys_dev (pg_sys pg') = sys_dev old \<and> system_ready old \<and> store_of old = sw_store w' \<and>
           seen (pg_client pg') = sw_client w'
    else test_main px n ndebug dir input (power_on m h) = None"
proof -
  obtain sys where s: "main_start test_section (power_on m h) = Some sys"
    "shell_viewed test_cmds seen (start_view dir input)
       \<lparr>pg_client = terminal_on dir input, pg_sys = sys, pg_status = 0, pg_recurse = 0\<rparr>"
    by (rule main_viewed [OF h])
  let ?pg = "\<lparr>pg_client = terminal_on dir input, pg_sys = sys, pg_status = 0, pg_recurse = 0\<rparr>"
  let ?pg0 = "on_terminal (printf_out (main_banner px)) ?pg"
  let ?q = "test_view px test_cmds n"
  obtain r1 w1 r2 w2 where v: "view_script ?q test_cmds (ascii ''. test/strtab.sh'') (start_view dir input) = Some (r1, w1)"
    "view_script ?q test_cmds (ascii ''. test/reg.sh'') w1 = Some (r2, w2)" "\<not> t_exit (sw_client w2)"
    "view_session px test_cmds n input (w2\<lparr>sw_client := (sw_client w2)\<lparr>t_level := CORSHELL_OUT_STD\<rparr>\<rparr>) = Some (fin, w')"
    using main by (auto simp: view_main_def bind_eq_Some_conv split: if_splits)
  have v0: "shell_viewed test_cmds seen (start_view dir input) ?pg0" by (rule terminal_same [OF s(2)]) simp
  obtain pg1 where p1: "run_literal px n (ascii ''. test/strtab.sh'') ?pg0 = Some (r1, pg1)"
    "shell_viewed test_cmds seen w1 pg1" "pg_recurse pg1 = 0"
    using literal_ok [OF v0 _ n v(1)] by auto
  obtain pg2 where p2: "run_literal px n (ascii ''. test/reg.sh'') pg1 = Some (r2, pg2)"
    "shell_viewed test_cmds seen w2 pg2" "pg_recurse pg2 = 0"
    using literal_ok [OF p1(2,3) n v(2)] by auto
  let ?pg3 = "on_terminal (\<lambda>t. t\<lparr>t_level := CORSHELL_OUT_STD\<rparr>) pg2"
  let ?w3 = "w2\<lparr>sw_client := (sw_client w2)\<lparr>t_level := CORSHELL_OUT_STD\<rparr>\<rparr>"
  have v3: "shell_viewed test_cmds seen ?w3 ?pg3"
    using p2(2) by (simp add: shell_viewed_def on_terminal_def seen_def)
  have "t_in (sw_client w2) = input"
    using view_script_input [OF test_view_input v(1)] view_script_input [OF test_view_input v(2)]
    by (simp add: start_view_def terminal_on_def)
  then have loop: "if fin then \<exists>pg'. main_loop px n ?pg3 = Some pg' \<and> shell_viewed test_cmds seen w' pg' \<and>
        pg_recurse pg' = pg_recurse ?pg3 else main_loop px n ?pg3 = None"
    using session_ok [OF v3 _ _ _ v(4)] p2(3) n v(3) by simp
  have main_eq: "test_main px n ndebug dir input (power_on m h) =
      do { pg \<leftarrow> main_loop px n ?pg3;
           sys \<leftarrow> strtab_stop ndebug (pg_sys pg);
           (_, sys) \<leftarrow> registry_stop sys;
           Some (0, pg\<lparr>pg_sys := sys\<rparr>) }"
    by (simp add: test_main_def s(1) p1(1) p2(1))
  show ?thesis
  proof (cases fin)
    case True
    then obtain pg' where pg': "main_loop px n ?pg3 = Some pg'" "shell_viewed test_cmds seen w' pg'" using loop by auto
    then have old: "system_ready (pg_sys pg')" "store_of (pg_sys pg') = sw_store w'" "seen (pg_client pg') = sw_client w'"
      by (simp_all add: shell_viewed_def shell_ready_def)
    obtain sys1 sys2 res where st: "strtab_stop ndebug (pg_sys pg') = Some sys1" "registry_stop sys1 = Some (res, sys2)"
      "sys_dev sys2 = sys_dev (pg_sys pg')"
      using stop_ok [OF old(1)] by blast
    with True old pg'(1) show ?thesis
      by (auto simp: main_eq intro!: exI [of _ "pg_sys pg'"])
  qed (use loop main_eq in simp)
qed

section \<open>Properties\<close>

text \<open>
  C3: A session at the terminal is the sequence of its lines, each run as a script on the maps: the
  loop of the program returns when a command of a line sets the exit flag, with the maps that the
  lines have built; when the input ends first, it never returns.
\<close>

theorem session_refines:
  assumes "shell_viewed cs seen w pg" and "unat (pg_recurse pg) + Suc n < 2 ^ 32"
    and "t_in (sw_client w) = input" and "\<not> t_exit (sw_client w)"
    and "view_session px cs n input w = Some (fin, w')"
  shows "if fin then \<exists>pg'. main_loop px n pg = Some pg' \<and> shell_viewed cs seen w' pg' \<and> pg_recurse pg' = pg_recurse pg
         else main_loop px n pg = None"
  by (rule session_ok [OF assms])

text \<open>
  C2: The whole program, from a device without volumes on: it starts, runs its two scripts and the
  session, stops its modules and returns 0; and after the next start, with whatever heap, the maps
  are those that the lines have built.
\<close>

theorem program_durable:
  assumes "plenty h" and "unformatted m" and "plenty h'" and "Suc n < 2 ^ 32"
    and "view_main px n dir input = Some (True, w)"
  shows "\<exists>pg sys. test_main px n ndebug dir input (power_on m h) = Some (0, pg) \<and>
    seen (pg_client pg) = sw_client w \<and>
    system_boot (power_on (sys_dev (pg_sys pg)) h') = Some sys \<and> system_ready sys \<and> store_of sys = sw_store w"
proof -
  obtain pg old where "test_main px n ndebug dir input (power_on m h) = Some (0, pg)"
    "sys_dev (pg_sys pg) = sys_dev old" "system_ready old" "store_of old = sw_store w"
    "seen (pg_client pg) = sw_client w"
    using main_ok [OF assms(1,2,4,5), of ndebug] unfolding if_True by blast
  with restart_ready [of old h'] assms(3) show ?thesis by auto
qed

section \<open>A session to try them on\<close>

text \<open>A text that is one line, of one plain command.\<close>

lemma script_lines_one:
  assumes "\<forall>c \<in> set t. \<not> is_eol c" "length t < CORSHELL_LINE_SIZE_MAX"
  shows "script_lines t = [(t, False, 0)]"
proof -
  have "takeWhile (\<lambda>c. \<not> is_eol c) t = t" using assms(1) by (simp add: takeWhile_eq_all_conv)
  then have "first_line t = t" using assms(2) unfolding first_line_def by (simp only:) simp
  then show ?thesis by (subst script_lines.simps) (simp add: eols_def)
qed

definition plain_text :: "u8 list \<Rightarrow> bool" where
  "plain_text t \<longleftrightarrow> (\<forall>c \<in> set t. c \<noteq> 91 \<and> c \<noteq> 60 \<and> c \<noteq> 92 \<and> \<not> is_eol c \<and> c < 128) \<and> length t < CORSHELL_LINE_SIZE_MAX"

lemma view_one_command:
  assumes "plain_text t" "tokens t = w1 # ws" "length ws < 13"
    and "take 1 w1 \<noteq> [35]" "take 1 w1 \<noteq> [58]" "\<not> (ws \<noteq> [] \<and> take 1 (hd ws) = [63])"
    and "find (\<lambda>c. cc_cmd c = Some w1) cs = Some c" "q (cc_fp c) (w1 # ws) w = Some (res, w')" "0 \<le> res"
  shows "view_script q cs t w = Some (sw_status w', w')"
proof -
  have t: "\<forall>c \<in> set t. \<not> is_eol c" "length t < CORSHELL_LINE_SIZE_MAX"
    "\<forall>c \<in> set t. c \<noteq> 91 \<and> c \<noteq> 60 \<and> c \<noteq> 92 \<and> c \<noteq> 0"
    using assms(1) by (auto simp: plain_text_def is_eol_def)
  have l: "line_tokens st t = w1 # ws" "line_ok st t" for st
    using plain_line [OF t(3,2)] assms(2,3) by simp_all
  have k: "w1 \<noteq> ascii '':exit''" "w1 \<noteq> ascii '':onerror''" "w1 \<noteq> ascii '':clearerror''"
    using assms(5) by (auto simp: ascii_def)
  have "view_command q cs (w1 # ws) w = Some (res, w')"
    using assms(4,6-8) by (cases ws) (auto simp: view_command_def arg0_def)
  then show ?thesis
    using k assms(9)
    by (simp add: view_script_def script_lines_one [OF t(1,2)] l view_line_def view_start_def arg0_def Let_def)
qed

lemma get_line_line:
  "\<forall>c \<in> set l. c \<noteq> 10 \<and> c < 128 \<Longrightarrow> length l < k \<Longrightarrow> get_line k (l @ 10 # r) = (l @ [10], length l, r)"
proof (induction l arbitrary: k)
  case Nil
  then show ?case by (cases k) auto
next
  case (Cons c l)
  then obtain k' where "k = Suc k'" by (cases k) auto
  with Cons show ?case by (auto simp: not_le)
qed

lemma view_session_line:
  assumes "plain_text l" "l \<noteq> []"
    and "view_script (test_view px cs n) cs l (w\<lparr>sw_client := (sw_client w)\<lparr>t_in := r\<rparr>\<rparr>) = Some (res, w')"
  shows "view_session px cs n (l @ 10 # r) w =
    (if t_exit (sw_client w') then Some (True, w') else view_session px cs n r w')"
proof -
  have len: "length l < 512" using assms(1) by (simp add: plain_text_def CORSHELL_LINE_SIZE_MAX_def)
  have "get_line 512 (l @ 10 # r) = (l @ [10], length l, r)"
    using assms(1) by (intro get_line_line len) (auto simp: plain_text_def is_eol_def)
  with assms(2,3) len show ?thesis by (subst view_session.simps) (simp add: Let_def)
qed

text \<open>The two scripts of the start set an entry each; the session replaces one of them and ends.\<close>

definition demo_posix :: "unit posix" where
  "demo_posix =
     \<lparr>px_list = (\<lambda>d. Inr []), px_chdir = (\<lambda>d path. None), px_getcwd = (\<lambda>d size. Some [47]),
      px_file = (\<lambda>d name.
        if name = ascii ''test/strtab.sh'' then Some (11, ascii ''strtab 1 hi'')
        else if name = ascii ''test/reg.sh'' then Some (10, ascii ''regadd a b'') else None),
      px_date = [], px_time = [], px_stack = (\<lambda>i. 0)\<rparr>"

definition demo_input :: "u8 list" where
  "demo_input = ascii ''reg a c'' @ 10 # ascii ''exit'' @ 10 # []"

lemma demo_plain:
  "plain_text (ascii ''. test/strtab.sh'')" "plain_text (ascii ''. test/reg.sh'')"
  "plain_text (ascii ''strtab 1 hi'')" "plain_text (ascii ''regadd a b'')"
  "plain_text (ascii ''reg a c'')" "plain_text (ascii ''exit'')"
  by (simp_all add: plain_text_def ascii_def is_eol_def CORSHELL_LINE_SIZE_MAX_def)

lemma demo_words:
  "tokens (ascii ''. test/strtab.sh'') = [ascii ''.'', ascii ''test/strtab.sh'']"
  "tokens (ascii ''. test/reg.sh'') = [ascii ''.'', ascii ''test/reg.sh'']"
  "tokens (ascii ''strtab 1 hi'') = [ascii ''strtab'', ascii ''1'', ascii ''hi'']"
  "tokens (ascii ''regadd a b'') = [ascii ''regadd'', ascii ''a'', ascii ''b'']"
  "tokens (ascii ''reg a c'') = [ascii ''reg'', ascii ''a'', ascii ''c'']"
  "tokens (ascii ''exit'') = [ascii ''exit'']"
  by (simp_all add: ascii_def isspace_def)

lemma demo_find:
  "find (\<lambda>c. cc_cmd c = Some (ascii ''.'')) test_cmds =
     Some \<lparr>cc_cmd = Some (ascii ''.''), cc_fp = Client_cmd 7, cc_usage = Some (ascii ''<file>'')\<rparr>"
  "find (\<lambda>c. cc_cmd c = Some (ascii ''strtab'')) test_cmds =
     Some \<lparr>cc_cmd = Some (ascii ''strtab''), cc_fp = Corshell_strtab, cc_usage = Some (ascii ''[idx] [value]'')\<rparr>"
  "find (\<lambda>c. cc_cmd c = Some (ascii ''regadd'')) test_cmds =
     Some \<lparr>cc_cmd = Some (ascii ''regadd''), cc_fp = Corshell_regadd, cc_usage = Some (ascii ''<key> <value>'')\<rparr>"
  "find (\<lambda>c. cc_cmd c = Some (ascii ''reg'')) test_cmds =
     Some \<lparr>cc_cmd = Some (ascii ''reg''), cc_fp = Corshell_reg, cc_usage = Some (ascii ''[key] [value]'')\<rparr>"
  "find (\<lambda>c. cc_cmd c = Some (ascii ''exit'')) test_cmds =
     Some \<lparr>cc_cmd = Some (ascii ''exit''), cc_fp = Client_cmd 3, cc_usage = Some (ascii ''[string]'')\<rparr>"
  by (simp_all add: test_cmds_def test_section_def registry_cmd_list_def strtab_cmd_list_def last_cmd_def ascii_def)

definition demo_table :: "u8 list \<rightharpoonup> u8 list" where
  "demo_table = [le32 999 \<mapsto> [116, 101, 115, 116, 0], le32 1 \<mapsto> ascii ''hi'' @ [0]]"

definition demo_registry :: "u8 list \<Rightarrow> (u8 list \<rightharpoonup> u8 list)" where
  "demo_registry v = [key24 [116, 101, 115, 116] \<mapsto> [49, 50, 51, 0], key24 (ascii ''a'') \<mapsto> v @ [0]]"

abbreviation demo_test :: "u8 list \<rightharpoonup> u8 list" where
  "demo_test \<equiv> [key24 [116, 101, 115, 116] \<mapsto> [49, 50, 51, 0]]"

lemma demo_store_cmds:
  "store_cmd Corshell_strtab [ascii ''strtab'', ascii ''1'', ascii ''hi''] (r, [le32 999 \<mapsto> [116, 101, 115, 116, 0]]) =
     Some (0, ascii ''OK'' @ NEWLINE, (r, demo_table))"
  "store_cmd Corshell_regadd [ascii ''regadd'', ascii ''a'', ascii ''b''] (demo_test, t) =
     Some (0, ascii ''OK'' @ NEWLINE, (demo_registry (ascii ''b''), t))"
  "store_cmd Corshell_reg [ascii ''reg'', ascii ''a'', ascii ''c''] (demo_registry (ascii ''b''), t) =
     Some (0, ascii ''OK'' @ NEWLINE, (demo_registry (ascii ''c''), t))"
proof -
  have "key_arg (ascii ''1'') = Some 1"
    by (simp add: key_arg_def scan_d_def signed_part_def ascii_def isdigit_def isspace_def radix_def digit_value_def
        scan_signed_def)
  moreover have "upto_nul (length (ascii ''hi'' @ [0])) (ascii ''hi'' @ [0]) = ascii ''hi'' @ [0]"
    by (simp add: upto_nul_def ascii_def)
  ultimately show "store_cmd Corshell_strtab [ascii ''strtab'', ascii ''1'', ascii ''hi''] (r, [le32 999 \<mapsto> [116, 101, 115, 116, 0]]) =
     Some (0, ascii ''OK'' @ NEWLINE, (r, demo_table))"
    by (simp add: store_put_def strtab_reply_def demo_table_def ascii_def)
  have k: "key24 (ascii ''a'') \<noteq> key24 [116, 101, 115, 116]" by (simp add: key24_def ascii_def)
  then show "store_cmd Corshell_regadd [ascii ''regadd'', ascii ''a'', ascii ''b''] (demo_test, t) =
     Some (0, ascii ''OK'' @ NEWLINE, (demo_registry (ascii ''b''), t))"
    by (simp add: nonempty_def ok_or_err_def demo_registry_def ascii_def)
  from k show "store_cmd Corshell_reg [ascii ''reg'', ascii ''a'', ascii ''c''] (demo_registry (ascii ''b''), t) =
     Some (0, ascii ''OK'' @ NEWLINE, (demo_registry (ascii ''c''), t))"
    by (simp add: store_put_def ok_or_err_def demo_registry_def ascii_def)
qed

lemma store_view_eq:
  "store_cmd f argv (sw_store w) = Some (res, line, st) \<Longrightarrow> f \<noteq> Corshell_rem \<Longrightarrow>
   store_view f argv w = Some (res, w\<lparr>sw_store := st\<rparr>)"
  by (simp add: store_view_def)

lemma view_with_store:
  "f = Corshell_reg \<or> f = Corshell_regadd \<or> f = Corshell_strtab \<Longrightarrow> view_with px run f argv w = store_view f argv w"
  by (auto simp: view_with_def)

lemma demo_entry:
  assumes "plain_text t" "tokens t = [w1, w2, w3]" "take 1 w1 \<noteq> [35]" "take 1 w1 \<noteq> [58]" "take 1 w2 \<noteq> [63]"
    and "find (\<lambda>c. cc_cmd c = Some w1) test_cmds = Some c"
    and "cc_fp c = Corshell_reg \<or> cc_fp c = Corshell_regadd \<or> cc_fp c = Corshell_strtab"
    and "store_cmd (cc_fp c) [w1, w2, w3] (sw_store w) = Some (0, line, st)"
  shows "view_script (test_view demo_posix test_cmds n) test_cmds t w = Some (sw_status w, w\<lparr>sw_store := st\<rparr>)"
proof -
  have "test_view demo_posix test_cmds n (cc_fp c) [w1, w2, w3] w = Some (0, w\<lparr>sw_store := st\<rparr>)"
    using assms(7,8) by (cases n) (auto simp: view_with_store intro!: store_view_eq)
  from view_one_command [where q = "test_view demo_posix test_cmds n" and w = w, OF assms(1,2) _ assms(3,4) _ assms(6) this]
    assms(5) show ?thesis by simp
qed

lemma demo_source:
  assumes "plain_text t" "tokens t = [ascii ''.'', name]" "take 1 name \<noteq> [63]"
    and "px_file demo_posix () name = Some (length text, text)" "text \<noteq> []" "length text < 2 ^ 31"
    and "view_script (test_view demo_posix test_cmds n) test_cmds text w = Some (res, w')" "0 \<le> res"
  shows "view_script (test_view demo_posix test_cmds (Suc n)) test_cmds t w = Some (sw_status w', w')"
proof -
  have "test_view demo_posix test_cmds (Suc n) (Client_cmd 7) [ascii ''.'', name] w = Some (res, w')"
    using assms(4-7) by (simp add: view_with_def client_views_def file_view_def)
  from view_one_command [OF assms(1,2) _ _ _ _ demo_find(1), of "test_view demo_posix test_cmds (Suc n)" w res w']
    this assms(3,8) show ?thesis by (simp add: ascii_def)
qed

lemma demo_files:
  "px_file demo_posix () (ascii ''test/strtab.sh'') = Some (length (ascii ''strtab 1 hi''), ascii ''strtab 1 hi'')"
  "px_file demo_posix () (ascii ''test/reg.sh'') = Some (length (ascii ''regadd a b''), ascii ''regadd a b'')"
  "ascii ''strtab 1 hi'' \<noteq> []" "ascii ''regadd a b'' \<noteq> []"
  "length (ascii ''strtab 1 hi'') < 2 ^ 31" "length (ascii ''regadd a b'') < 2 ^ 31"
  by (simp_all add: demo_posix_def ascii_def)

lemma demo_first:
  "take 1 (ascii ''strtab'') \<noteq> [35]" "take 1 (ascii ''strtab'') \<noteq> [58]" "take 1 (ascii ''1'') \<noteq> [63]"
  "take 1 (ascii ''regadd'') \<noteq> [35]" "take 1 (ascii ''regadd'') \<noteq> [58]" "take 1 (ascii ''a'') \<noteq> [63]"
  "take 1 (ascii ''reg'') \<noteq> [35]" "take 1 (ascii ''reg'') \<noteq> [58]" "take 1 (ascii ''test/strtab.sh'') \<noteq> [63]"
  "take 1 (ascii ''test/reg.sh'') \<noteq> [63]"
  by (simp_all add: ascii_def)

lemma demo_exit:
  "view_script (test_view demo_posix test_cmds n) test_cmds (ascii ''exit'') w =
   Some (sw_status w, w\<lparr>sw_client := (sw_client w)\<lparr>t_exit := True\<rparr>\<rparr>)"
proof -
  let ?w = "w\<lparr>sw_client := (sw_client w)\<lparr>t_exit := True\<rparr>\<rparr>"
  have "test_view demo_posix test_cmds n (Client_cmd 3) [ascii ''exit''] w = Some (0, ?w)"
    by (cases n) (simp_all add: view_with_def client_views_def)
  from view_one_command [OF demo_plain(6) demo_words(6) _ _ _ _ demo_find(5), of "test_view demo_posix test_cmds n" w 0 ?w]
    this show ?thesis by (simp add: ascii_def)
qed

definition demo_end :: "unit tview" where
  "demo_end =
     \<lparr>sw_store = (demo_registry (ascii ''c''), demo_table), sw_status = 0,
      sw_client = \<lparr>t_in = [], t_out = [], t_exit = True, t_level = CORSHELL_OUT_STD, t_dir = ()\<rparr>\<rparr>"

definition demo_ready :: "unit tview" where
  "demo_ready =
     \<lparr>sw_store = (demo_registry (ascii ''b''), demo_table), sw_status = 0,
      sw_client = (terminal_on () demo_input)\<lparr>t_level := CORSHELL_OUT_STD\<rparr>\<rparr>"

lemma demo_session: "view_session demo_posix test_cmds n demo_input demo_ready = Some (True, demo_end)"
proof -
  let ?rest = "ascii ''exit'' @ 10 # []"
  define w where "w = demo_ready\<lparr>sw_client := (sw_client demo_ready)\<lparr>t_in := ?rest\<rparr>\<rparr>"
  define w1 where "w1 = w\<lparr>sw_store := (demo_registry (ascii ''c''), demo_table)\<rparr>"
  have st: "sw_store w = (demo_registry (ascii ''b''), demo_table)" by (simp add: w_def demo_ready_def)
  have "view_script (test_view demo_posix test_cmds n) test_cmds (ascii ''reg a c'') w = Some (sw_status w, w1)"
    unfolding w1_def
    by (rule demo_entry [OF demo_plain(5) demo_words(5) demo_first(7,8,6) demo_find(4)])
       (simp_all add: st demo_store_cmds(3) del: store_cmd.simps)
  from view_session_line [OF demo_plain(5) _ this [unfolded w_def]]
  have "view_session demo_posix test_cmds n demo_input demo_ready = view_session demo_posix test_cmds n ?rest w1"
    by (simp add: demo_input_def w1_def w_def demo_ready_def terminal_on_def ascii_def)
  also have "\<dots> = Some (True, demo_end)"
    using view_session_line [OF demo_plain(6) _ demo_exit [of n "w1\<lparr>sw_client := (sw_client w1)\<lparr>t_in := []\<rparr>\<rparr>"]]
    by (simp add: w1_def w_def demo_ready_def terminal_on_def demo_end_def ascii_def)
  finally show ?thesis .
qed

lemma demo_main: "view_main demo_posix 1 () demo_input = Some (True, demo_end)"
proof -
  define w0 where "w0 = start_view () demo_input"
  define w1 where "w1 = w0\<lparr>sw_store := (demo_test, demo_table)\<rparr>"
  define w2 where "w2 = w1\<lparr>sw_store := (demo_registry (ascii ''b''), demo_table)\<rparr>"
  have st: "sw_store w0 = (demo_test, [le32 999 \<mapsto> [116, 101, 115, 116, 0]])" "sw_store w1 = (demo_test, demo_table)"
    by (simp_all add: w0_def w1_def start_view_def)
  have "view_script (test_view demo_posix test_cmds 0) test_cmds (ascii ''strtab 1 hi'') w0 = Some (sw_status w0, w1)"
    unfolding w1_def
    by (rule demo_entry [OF demo_plain(3) demo_words(3) demo_first(1-3) demo_find(2)])
       (simp_all add: st demo_store_cmds(1) del: store_cmd.simps)
  from demo_source [OF demo_plain(1) demo_words(1) demo_first(9) demo_files(1,3,5) this]
  have s1: "view_script (test_view demo_posix test_cmds 1) test_cmds (ascii ''. test/strtab.sh'') w0 = Some (sw_status w1, w1)"
    by (simp add: w0_def start_view_def)
  have "view_script (test_view demo_posix test_cmds 0) test_cmds (ascii ''regadd a b'') w1 = Some (sw_status w1, w2)"
    unfolding w2_def
    by (rule demo_entry [OF demo_plain(4) demo_words(4) demo_first(4-6) demo_find(3)])
       (simp_all add: st demo_store_cmds(2) del: store_cmd.simps)
  from demo_source [OF demo_plain(2) demo_words(2) demo_first(10) demo_files(2,4,6) this]
  have s2: "view_script (test_view demo_posix test_cmds 1) test_cmds (ascii ''. test/reg.sh'') w1 = Some (sw_status w2, w2)"
    by (simp add: w1_def w0_def start_view_def)
  have w2: "w2\<lparr>sw_client := (sw_client w2)\<lparr>t_level := CORSHELL_OUT_STD\<rparr>\<rparr> = demo_ready" "\<not> t_exit (sw_client w2)"
    by (simp_all add: w2_def w1_def w0_def start_view_def demo_ready_def terminal_on_def)
  show ?thesis
    unfolding view_main_def w0_def [symmetric]
    by (simp only: s1 s2 Option.bind.bind_lunit prod.case w2 demo_session if_False)
qed

theorem session_refines_witness:
  "\<exists>sys pg. main_start test_section (power_on erased_dev good_heap) = Some sys \<and>
    main_loop demo_posix 1 \<lparr>pg_client = terminal_on () [], pg_sys = sys, pg_status = 0, pg_recurse = 0\<rparr> = None"
proof -
  obtain sys where s: "main_start test_section (power_on erased_dev good_heap) = Some sys"
    "shell_viewed test_cmds seen (start_view () [])
       \<lparr>pg_client = terminal_on () [], pg_sys = sys, pg_status = 0, pg_recurse = 0\<rparr>"
    by (rule main_viewed [OF good_heap_plenty erased_unformatted])
  have "view_session demo_posix test_cmds 1 [] (start_view () []) = Some (False, start_view () [])"
    by (subst view_session.simps) simp
  from session_refines [OF s(2) _ _ _ this] s(1) show ?thesis
    by (simp add: start_view_def terminal_on_def)
qed

theorem program_durable_witness:
  "\<exists>pg sys. test_main demo_posix 1 False () demo_input (power_on erased_dev good_heap) = Some (0, pg) \<and>
    system_boot (power_on (sys_dev (pg_sys pg)) good_heap) = Some sys \<and>
    fst (store_of sys) (key24 (ascii ''a'')) = Some (ascii ''c'' @ [0])"
proof -
  obtain pg sys where r: "test_main demo_posix 1 False () demo_input (power_on erased_dev good_heap) = Some (0, pg)"
    "system_boot (power_on (sys_dev (pg_sys pg)) good_heap) = Some sys" "store_of sys = sw_store demo_end"
    using program_durable [OF good_heap_plenty erased_unformatted good_heap_plenty _ demo_main, of False] by auto
  then have "fst (store_of sys) (key24 (ascii ''a'')) = Some (ascii ''c'' @ [0])"
    by (simp add: demo_end_def demo_registry_def)
  with r show ?thesis by blast
qed

end
