(* ===== verification/Spec2Isabelle.thy ===== *)
theory Spec2Isabelle
  imports Dict_Spec Nvol_Props Module_Props Spiflash_Props Shell_Props Registry_List
    Ram_Props Session_Props
begin

text \<open>
  A model of \<^verbatim>\<open>nvol\<close>, a key/value store in FLASH memory with the modules around it, and its
  correctness.  All paths are below \<^verbatim>\<open>src/\<close> of the repository.

  \<^bold>\<open>The program.\<close>  A volume (\<^verbatim>\<open>src/nvram/nvol3.c\<close>) keeps records, a key and its data, in two sectors of a
  FLASH device; a lookup table in RAM, a hash table (\<^verbatim>\<open>src/common/dictionary.c\<close>), maps each key to the
  slot of its valid record.  A full sector is compacted into the other one.  The registry
  (\<^verbatim>\<open>src/registry/registry.c\<close>) and the string table (\<^verbatim>\<open>src/registry/strtab.c\<close>) each own a volume on one
  device.  They install handlers in string substitution (\<^verbatim>\<open>src/common/strsub.c\<close>), which replaces
  delimited words of a text by their values, and commands in the shell (\<^verbatim>\<open>src/shell/corshell.c\<close>), which
  translates the lines of a script by substitution, splits them and runs them.  The test program
  (\<^verbatim>\<open>test/main.c\<close>) starts everything on the device in RAM (\<^verbatim>\<open>src/drivers/ramdrv.c\<close>), runs two script files
  and then the lines of the terminal.  \<^verbatim>\<open>src/drivers/spiflash.c\<close> drives a real chip.

  \<^bold>\<open>Conventions.\<close>  A C function is a function of the same name.  Its state goes in and comes out: the
  record \<open>'f nvol\<close> for a volume (device, heap, instance), \<open>system\<close> for the modules together, \<open>'t program\<close>
  for the shell with its client.  Integers have their width (\<open>u8\<close>, \<open>u16\<close>, \<open>u32\<close>), a status is an \<open>int\<close>.
  A buffer is the list of the bytes readable through the pointer; a null pointer is \<open>None\<close>.  The
  result \<open>None\<close> of a whole operation means that the C code has none: an access out of bounds, a null or
  dangling pointer, an assertion that fails, or a loop that does not end (\<^theory_text>\<open>partial_function\<close>).  A
  theorem whose conclusion is \<open>Some\<close> therefore says that the code returns, and without undefined
  behaviour.  Allocation may fail as a list in the state of the heap says; \<open>plenty\<close> means that it does
  not.

  \<^bold>\<open>The theories, by component.\<close>
  \<^item> Shared: \<open>Nvol_Prelude\<close> (widths, status codes of \<^verbatim>\<open>errordef.h\<close>, bytes and words), \<open>Heap_Alloc\<close>
    (\<^verbatim>\<open>common/heap.c\<close>), \<open>Linked_List\<close> (lists of nodes owned by clients), \<open>Selection\<close> (least elements),
    \<open>C_Text\<close> (the functions of the C library on characters and numbers).
  \<^item> Hash table: \<open>Dictionary\<close> (operations), \<open>Dict_Iter\<close> (iterators), \<open>Dict_Map\<close> (the invariant
    \<open>dict_inv\<close>, the map \<open>dict_map\<close>, the contract \<open>key_map\<close>), \<open>Dict_Sorted\<close> (sorted iteration),
    \<open>Dict_Spec\<close> (properties).
  \<^item> Device: \<open>Flash_Interface\<close> (the access functions of \<^verbatim>\<open>nvol3.h\<close> and their contract \<open>flash_driver\<close>),
    \<open>Ram_Drv\<close> (\<^verbatim>\<open>ramdrv.c\<close>, an interpretation of it), \<open>Ram_Props\<close> (its limits).
  \<^item> Volume, the code: \<open>Nvol_Flash\<close> (headers, records, sectors on FLASH), \<open>Nvol_Volume\<close> (lookup table,
    swap, load, reset), \<open>Nvol_Records\<close> (set, get, delete, iterators).
  \<^item> Volume, the proofs, in the locale \<open>volume\<close> over any driver that keeps its contract and any
    configuration that fits: \<open>Nvol_Layout\<close> (slots of a sector), \<open>Nvol_Effects\<close> and \<open>Nvol_Writes\<close> (what the
    low-level functions read and write), \<open>Nvol_Lookup\<close> (the scan of a sector), \<open>Nvol_Store\<close> (the invariant
    \<open>nvol_inv\<close>, the map \<open>vol_map\<close>), \<open>Nvol_Set\<close>, \<open>Nvol_Swap\<close>, \<open>Nvol_Load\<close>, \<open>Nvol_Walk\<close> and \<open>Nvol_Sorted\<close>
    (enumeration), \<open>Nvol_Frame\<close> (what an operation leaves alone), \<open>Nvol_Power\<close> (a device that records
    its states, and what a load makes of each state a swap passes through).  \<open>Nvol_Spec\<close> and
    \<open>Nvol_Props\<close> state the properties over \<^verbatim>\<open>ramdrv.c\<close>.
  \<^item> Substitution: \<open>Strsub\<close> (the code), \<open>Strsub_Spec\<close> (the reference translation \<open>expand\<close>, the contract
    \<open>substitution\<close>), \<open>Strsub_Parse\<close> (the parser computes it), \<open>Strsub_Lists\<close> (the lists of handlers).
  \<^item> Modules: \<open>System_State\<close> (their common state, their configurations), \<open>Registry\<close>, \<open>Strtab\<close>, \<open>System\<close> (the
    handlers); \<open>Registry_Spec\<close>, \<open>Strtab_Spec\<close>, \<open>System_Spec\<close> (two finite maps with capacities),
    \<open>System_Refine\<close> (every call acts as on the maps), \<open>System_Props\<close>, \<open>Module_Props\<close>.
  \<^item> Shell: \<open>Corshell\<close> (the lists of commands), \<open>Shell_Table\<close> (the commands of the modules), \<open>Shell_Split\<close>
    (words), \<open>Shell\<close> (running commands, help, scripts), \<open>Shell_Cmds\<close> (\<^verbatim>\<open>registrycmd.c\<close>, \<^verbatim>\<open>strtabcmd.c\<close>);
    \<open>Shell_Spec\<close>, \<open>Shell_Help\<close>, \<open>Shell_Cmds_Spec\<close>, \<open>Shell_Script\<close> (scripts on the maps, the contract
    \<open>shell_client\<close>), \<open>Shell_Props\<close>, \<open>Registry_List\<close> (the listing of the registry).
  \<^item> Test program: \<open>Test_Program\<close> (\<^verbatim>\<open>test/main.c\<close>, \<^verbatim>\<open>corshellcmd.c\<close>), \<open>Test_Program_Spec\<close> (its commands on the
    maps), \<open>Session_Props\<close> (the session and the whole program).
  \<^item> Serial FLASH: \<open>Spiflash\<close> (the code over an arbitrary chip), \<open>Spiflash_Spec\<close> (what it puts on the
    bus), \<open>Spiflash_Bus\<close> (what it keeps), \<open>Spiflash_Chip\<close> (on a chip as its data sheet says),
    \<open>Spiflash_Device\<close> (such a chip), \<open>Spiflash_Props\<close>.

  \<^bold>\<open>What is shown.\<close>  From the top down:
  \<^item> \<open>program_durable\<close>: from a device without volumes the program starts, runs its scripts and the
    session, stops, and after the next start the two maps are those that its lines have built.
    \<open>session_refines\<close>, \<open>script_refines\<close> and \<open>commands_update\<close> are the steps to it.
  \<^item> \<open>system_refines_store\<close>: every sequence of calls of the registry, the string table and substitution,
    with restarts between them, answers and acts as two finite maps; \<open>reachable_invariant\<close> says that
    the state stays well formed and within the capacities, and \<open>modules_apart\<close> that no module changes
    a byte of the other.
  \<^item> \<open>volume_refines_map\<close>: a volume is a finite map with a capacity; \<open>swap_keeps_map\<close> and
    \<open>construct_builds_index\<close> cover the compaction and the scan, \<open>swap_survives_power_failure\<close> the
    compaction that is interrupted at any byte it writes or erases, and \<open>unfinished_erase_kept\<close> what
    is wrong after one of these interruptions.
  \<^item> \<open>dictionary_refines_map\<close> and \<open>dictionary_sorted_iteration\<close>: the hash table is a finite map, and its
    sorted iteration is a sort; \<open>registry_lists\<close> carries this up to the listing on the terminal.
  \<^item> \<open>substitution_expands\<close>: the parser computes the reference translation.
  \<^item> \<open>spiflash_programs\<close>, \<open>spiflash_erases\<close>, \<open>spiflash_write_read\<close>, \<open>spiflash_waits\<close>: the driver on a chip.
  \<^item> The theorems on errors and bounds state what the code does at its limits, among them the cases
    in which it does not do what it means to.

  \<^bold>\<open>Bounds and fuel.\<close>  No loop has fuel: a loop is structural, has a measure, or is a
  \<^theory_text>\<open>partial_function\<close> that is shown to return.  The one bound is the depth \<open>n\<close> to which scripts run files
  (\<open>nested_client\<close>): it stands for the stack of the program, and every \<open>n\<close> below \<open>2 ^ 32 - 1\<close> is allowed,
  the width of the nesting counter.  A file that sources itself exceeds every depth and has no result.  A map of the registry holds at most 123
  entries and one of the string table at most 59, which is what their sectors leave after the headroom
  that \<^verbatim>\<open>nvol3.c\<close> reserves; the device in RAM has 131072 bytes.

  \<^bold>\<open>Not modelled.\<close>  The text of the debug log (\<^verbatim>\<open>common/debug.c\<close>) and what the macros of the log print: no code
  reads it.  The lock macros, which are empty in this configuration.  \<^verbatim>\<open>heap_calloc\<close> and
  \<^verbatim>\<open>heap_realloc\<close>, which no code calls.  \<^verbatim>\<open>spiflash_test\<close>, an endless test of the hardware, and the code
  between \<^verbatim>\<open>#if 0\<close> and in comments.  The transactions of \<^verbatim>\<open>nvol3.h\<close>, which are declared and defined nowhere.
  The linker section of the commands is the list that its script makes of it; the files, the
  directories and the clock of the operating system are parameters.  A power failure is one between
  operations, or one during a swap.  In a swap it may cut any write or erase after any number of its
  bytes; that it leaves bits half programmed is not modelled, nor is a failure inside \<^verbatim>\<open>nvol3_record_set\<close>
  or \<^verbatim>\<open>nvol3_record_delete\<close> outside their swap.
\<close>

end
